(* ===== verification/Prelude.thy ===== *)
theory Prelude
  imports Main "HOL-Library.Word"
begin

text \<open>
  Shared vocabulary of the development.

  \<^item> JavaScript strings: a \<open>jstring\<close> is the list of UTF-16 code units of the string, each a
    16-bit word, so \<open>length\<close> is the source's \<open>.length\<close> and list positions are the source's
    indices. \<open>js ''abc''\<close> is the literal \<open>"abc"\<close>. The functions of the standard library that the
    code calls (\<open>slice\<close>, \<open>trim\<close>, \<open>split\<close>, \<open>startsWith\<close>, \<open>replaceAll\<close>) are defined here.
  \<^item> Optional fields of JSON objects: \<open>'a field\<close> tells an absent key from an explicit null.
  \<^item> JSON values and the accessors the providers use on untrusted JSON.
  \<^item> Results: a thrown error is \<open>Inl\<close>, a returned value is \<open>Inr\<close>.
\<close>

named_theorems defs \<open>unfoldings of the small operations of a component\<close>
named_theorems inv_simps \<open>unfoldings of the invariants\<close>

section \<open>Strings\<close>

type_synonym cunit = "16 word"
type_synonym jstring = "cunit list"

abbreviation ch :: "char \<Rightarrow> cunit" where
  "ch c \<equiv> of_char c"

definition js :: "string \<Rightarrow> jstring" where
  "js s = map (\<lambda>c. of_char c) s"

lemma js_Nil [simp]: "js [] = []"
  by (simp add: js_def)

lemma js_Cons [simp]: "js (c # cs) = ch c # js cs"
  by (simp add: js_def)

lemma js_append: "js (xs @ ys) = js xs @ js ys"
  by (simp add: js_def)

lemma length_js [simp]: "length (js s) = length s"
  by (simp add: js_def)

definition is_digit :: "cunit \<Rightarrow> bool" where
  "is_digit c \<longleftrightarrow> 48 \<le> c \<and> c \<le> 57"

definition is_upper :: "cunit \<Rightarrow> bool" where
  "is_upper c \<longleftrightarrow> 65 \<le> c \<and> c \<le> 90"

definition is_lower :: "cunit \<Rightarrow> bool" where
  "is_lower c \<longleftrightarrow> 97 \<le> c \<and> c \<le> 122"

definition is_alnum :: "cunit \<Rightarrow> bool" where
  "is_alnum c \<longleftrightarrow> is_digit c \<or> is_upper c \<or> is_lower c"

text \<open>\<open>[0-9a-f]\<close> under the \<open>i\<close> flag.\<close>

definition is_hex :: "cunit \<Rightarrow> bool" where
  "is_hex c \<longleftrightarrow> is_digit c \<or> (97 \<le> c \<and> c \<le> 102) \<or> (65 \<le> c \<and> c \<le> 70)"

text \<open>\<open>\s\<close>: the WhiteSpace and LineTerminator code units of ECMAScript.\<close>

definition is_space :: "cunit \<Rightarrow> bool" where
  "is_space c \<longleftrightarrow> (9 \<le> c \<and> c \<le> 13) \<or> c = 32 \<or> c = 0xA0 \<or> c = 0x1680 \<or>
     (0x2000 \<le> c \<and> c \<le> 0x200A) \<or> c = 0x2028 \<or> c = 0x2029 \<or> c = 0x202F \<or> c = 0x205F \<or>
     c = 0x3000 \<or> c = 0xFEFF"

text \<open>
  \<open>toLowerCase\<close> on the ASCII letters; the other code units are left alone. The code only tests
  the result against ASCII patterns and ASCII literals that no other letter lower-cases into.
\<close>

definition lower_unit :: "cunit \<Rightarrow> cunit" where
  "lower_unit c = (if is_upper c then c + 32 else c)"

definition to_lower :: "jstring \<Rightarrow> jstring" where
  "to_lower s = map lower_unit s"

definition js_trim_start :: "jstring \<Rightarrow> jstring" where
  "js_trim_start s = dropWhile is_space s"

definition js_trim :: "jstring \<Rightarrow> jstring" where
  "js_trim s = rev (dropWhile is_space (rev (dropWhile is_space s)))"

text \<open>\<open>String.prototype.slice\<close>: negative indices count from the end, all are clamped.\<close>

definition js_clamp :: "nat \<Rightarrow> int \<Rightarrow> int" where
  "js_clamp n i = (if i < 0 then max (int n + i) 0 else min i (int n))"

definition js_slice :: "'c list \<Rightarrow> int \<Rightarrow> int \<Rightarrow> 'c list" where
  "js_slice s a b = take (nat (js_clamp (length s) b - js_clamp (length s) a))
                      (drop (nat (js_clamp (length s) a)) s)"

definition js_slice_from :: "'c list \<Rightarrow> int \<Rightarrow> 'c list" where
  "js_slice_from s a = js_slice s a (int (length s))"

definition starts_with :: "'c list \<Rightarrow> 'c list \<Rightarrow> bool" where
  "starts_with p s \<longleftrightarrow> take (length p) s = p"

definition ends_with :: "'c list \<Rightarrow> 'c list \<Rightarrow> bool" where
  "ends_with p s \<longleftrightarrow> length p \<le> length s \<and> drop (length s - length p) s = p"

text \<open>\<open>split\<close> on a one-unit separator: always at least one part.\<close>

fun split_on :: "'c \<Rightarrow> 'c list \<Rightarrow> 'c list list" where
  "split_on d [] = [[]]"
| "split_on d (c # cs) =
     (if c = d then [] # split_on d cs
      else (case split_on d cs of [] \<Rightarrow> [[c]] | p # ps \<Rightarrow> (c # p) # ps))"

text \<open>\<open>join\<close>.\<close>

fun join_with :: "'c list \<Rightarrow> 'c list list \<Rightarrow> 'c list" where
  "join_with d [] = []"
| "join_with d [p] = p"
| "join_with d (p # q # ps) = p @ d @ join_with d (q # ps)"

lemma split_on_nonempty [simp]: "split_on d s \<noteq> []"
  by (induction s) (auto split: list.splits)

lemma join_split_on: "join_with [d] (split_on d s) = s"
proof (induction s)
  case Nil
  show ?case by simp
next
  case (Cons c cs)
  obtain p ps where ps: "split_on d cs = p # ps"
    by (cases "split_on d cs") auto
  then show ?case
    using Cons.IH by (cases ps) auto
qed

lemma js_slice_nat:
  assumes "a \<le> b" and "b \<le> length s"
  shows "js_slice s (int a) (int b) = take (b - a) (drop a s)"
  using assms by (simp add: js_slice_def js_clamp_def min_def nat_diff_distrib')

lemma js_slice_from_nat: "a \<le> length s \<Longrightarrow> js_slice_from s (int a) = drop a s"
  by (simp add: js_slice_from_def js_slice_nat)

lemma length_js_slice_le: "length (js_slice s a b) \<le> length s"
  by (simp add: js_slice_def)

lemma starts_with_append [simp]: "starts_with p (p @ s)"
  by (simp add: starts_with_def)

lemma starts_withE: "starts_with p s \<Longrightarrow> \<exists>t. s = p @ t"
  by (metis append_take_drop_id starts_with_def)

section \<open>Optional fields\<close>

text \<open>A key of a JSON object: absent, present with null, or present with a value.\<close>

datatype 'a field = Undefined | Null | Val 'a

text \<open>Object spread \<open>{...old, ...new}\<close> on one key: an absent key of \<open>new\<close> keeps the old value.\<close>

fun spread :: "'a field \<Rightarrow> 'a field \<Rightarrow> 'a field" where
  "spread old Undefined = old"
| "spread old new = new"

text \<open>\<open>x ?? d\<close>.\<close>

fun nullish :: "'a field \<Rightarrow> 'a \<Rightarrow> 'a" where
  "nullish (Val x) d = x"
| "nullish f d = d"

text \<open>A possibly absent string as a property key.\<close>

fun property_key :: "jstring field \<Rightarrow> jstring" where
  "property_key (Val s) = s"
| "property_key Null = js ''null''"
| "property_key Undefined = js ''undefined''"

fun field_opt :: "'a field \<Rightarrow> 'a option" where
  "field_opt (Val x) = Some x"
| "field_opt f = None"

text \<open>Truthiness of an optional string: absent, null and the empty string are false.\<close>

fun truthy :: "jstring field \<Rightarrow> bool" where
  "truthy (Val s) = (s \<noteq> [])"
| "truthy f = False"

lemma spread_assoc: "spread (spread a b) c = spread a (spread b c)"
  by (cases c) auto

lemma spread_idem [simp]: "spread a a = a"
  by (cases a) auto

lemma spread_Undefined_left [simp]: "spread Undefined a = a"
  by (cases a) auto

lemma truthy_iff: "truthy f \<longleftrightarrow> (\<exists>s. f = Val s \<and> s \<noteq> [])"
  by (cases f) auto

section \<open>JavaScript numbers that may be NaN\<close>

text \<open>Integral numbers below \<open>2 ^ 53\<close>, with NaN for arithmetic on an absent value.\<close>

datatype jsnum = NaN | Num int

fun num_add :: "jsnum \<Rightarrow> int \<Rightarrow> jsnum" where
  "num_add NaN d = NaN"
| "num_add (Num n) d = Num (n + d)"

text \<open>\<open>Math.max(0, x)\<close>: NaN if \<open>x\<close> is.\<close>

fun max_zero :: "jsnum \<Rightarrow> jsnum" where
  "max_zero NaN = NaN"
| "max_zero (Num n) = Num (max 0 n)"

text \<open>The number conversion of a key's value: undefined gives NaN, null gives 0.\<close>

fun to_number :: "jsnum field \<Rightarrow> jsnum" where
  "to_number Undefined = NaN"
| "to_number Null = Num 0"
| "to_number (Val n) = n"

definition max_safe_integer :: int where
  "max_safe_integer = 9007199254740991"

section \<open>JSON\<close>

text \<open>JSON values; the numbers of the protocols modelled here are integers.\<close>

datatype json =
    JNull
  | JBool bool
  | JNum int
  | JStr jstring
  | JArr "json list"
  | JObj "(jstring \<times> json) list"

text \<open>\<open>objectValue\<close>, \<open>objectArray\<close>, \<open>stringValue\<close> and \<open>numberValue\<close> read untrusted JSON: a value
  of another shape reads as the empty object, array or string, or 0. \<open>get k v\<close> is the property
  access \<open>v.k\<close>, \<open>None\<close> for undefined; where a key occurs twice the last one counts.\<close>

fun get :: "jstring \<Rightarrow> json \<Rightarrow> json option" where
  "get k (JObj kvs) = map_of (rev kvs) k"
| "get k _ = None"

lemma get_last: "get k (JObj (kvs @ [(k, v)])) = Some v"
  by simp

section \<open>Results\<close>

type_synonym ('e, 'a) result = "'e + 'a"

fun bind_result :: "('e, 'a) result \<Rightarrow> ('a \<Rightarrow> ('e, 'b) result) \<Rightarrow> ('e, 'b) result" where
  "bind_result (Inl e) f = Inl e"
| "bind_result (Inr x) f = f x"

lemma bind_result_eq_Inr:
  "bind_result r f = Inr y \<longleftrightarrow> (\<exists>x. r = Inr x \<and> f x = Inr y)"
  by (cases r) auto

section \<open>Lists\<close>

text \<open>\<open>findIndex\<close>, and the update of the element at that index.\<close>

fun find_index :: "('a \<Rightarrow> bool) \<Rightarrow> 'a list \<Rightarrow> nat option" where
  "find_index p [] = None"
| "find_index p (x # xs) = (if p x then Some 0 else map_option Suc (find_index p xs))"

fun map_at :: "nat \<Rightarrow> ('a \<Rightarrow> 'a) \<Rightarrow> 'a list \<Rightarrow> 'a list" where
  "map_at n f [] = []"
| "map_at 0 f (x # xs) = f x # xs"
| "map_at (Suc n) f (x # xs) = x # map_at n f xs"

lemma find_index_None: "find_index p xs = None \<longleftrightarrow> (\<forall>x \<in> set xs. \<not> p x)"
  by (induction xs) auto

lemma find_index_Some:
  "find_index p xs = Some i \<Longrightarrow>
     i < length xs \<and> p (xs ! i) \<and> (\<forall>j < i. \<not> p (xs ! j))"
proof (induction xs arbitrary: i)
  case Nil
  then show ?case by simp
next
  case (Cons x xs)
  show ?case
  proof (cases "p x")
    case True
    with Cons.prems show ?thesis by simp
  next
    case False
    with Cons.prems obtain k where k: "find_index p xs = Some k" "i = Suc k" by auto
    with Cons.IH [OF k(1)] False show ?thesis by (auto simp: less_Suc_eq_0_disj)
  qed
qed

lemma length_map_at [simp]: "length (map_at n f xs) = length xs"
  by (induction n f xs rule: map_at.induct) auto

lemma nth_map_at:
  "i < length xs \<Longrightarrow> map_at n f xs ! i = (if i = n then f (xs ! i) else xs ! i)"
proof (induction n f xs arbitrary: i rule: map_at.induct)
  case (3 n f x xs)
  then show ?case by (cases i) auto
qed (auto simp: nth_Cons split: nat.splits)

lemma map_at_split:
  "n < length xs \<Longrightarrow> map_at n f xs = take n xs @ f (xs ! n) # drop (Suc n) xs"
  by (induction n f xs rule: map_at.induct) auto

text \<open>\<open>Map.prototype.set\<close> on an insertion-ordered map, as an association list: an existing key
  keeps its place.\<close>

fun upsert :: "'k \<Rightarrow> ('v option \<Rightarrow> 'v) \<Rightarrow> ('k \<times> 'v) list \<Rightarrow> ('k \<times> 'v) list" where
  "upsert k f [] = [(k, f None)]"
| "upsert k f ((k', v) # kvs) =
     (if k' = k then (k, f (Some v)) # kvs else (k', v) # upsert k f kvs)"

lemma map_of_upsert:
  "map_of (upsert k f kvs) = (map_of kvs)(k \<mapsto> f (map_of kvs k))"
  by (induction kvs) (auto simp: fun_eq_iff)

lemma upsert_keys:
  "map fst (upsert k f kvs) =
     (if k \<in> fst ` set kvs then map fst kvs else map fst kvs @ [k])"
  by (induction k f kvs rule: upsert.induct) auto

lemma keys_upsert [simp]: "fst ` set (upsert k f kvs) = insert k (fst ` set kvs)"
proof -
  have "fst ` set (upsert k f kvs) = set (map fst (upsert k f kvs))" by simp
  also have "\<dots> = insert k (fst ` set kvs)" unfolding upsert_keys by auto
  finally show ?thesis .
qed

lemma distinct_upsert:
  "distinct (map fst kvs) \<Longrightarrow> distinct (map fst (upsert k f kvs))"
  by (simp only: upsert_keys) auto

text \<open>First occurrences, the order a JavaScript \<open>Set\<close> iterates in.\<close>

fun js_set :: "'a list \<Rightarrow> 'a list \<Rightarrow> 'a list" where
  "js_set acc [] = acc"
| "js_set acc (x # xs) = js_set (if x \<in> set acc then acc else acc @ [x]) xs"

lemma set_js_set [simp]: "set (js_set acc xs) = set acc \<union> set xs"
  by (induction xs arbitrary: acc) auto

lemma distinct_js_set: "distinct acc \<Longrightarrow> distinct (js_set acc xs)"
  by (induction xs arbitrary: acc) auto

end
