(* ===== verification/Clock.thy ===== *)
theory Clock
  imports Prelude
begin

text \<open>
  Instants are milliseconds since the epoch, as JavaScript's \<open>Date\<close> counts them.
  \<open>date_utc\<close> is \<open>Date.UTC\<close>, \<open>date_parse\<close> is \<open>Date.parse\<close> on the RFC 3339 timestamps the server
  sends (\<open>None\<close> is NaN, which no comparison holds of), and \<open>same_day\<close> compares
  \<open>toDateString\<close> in the zone of the client, given as its offset at each instant.
\<close>

definition day_ms :: int where "day_ms = 86400000"

text \<open>Days from 1970-01-01 to a proleptic Gregorian date.\<close>

definition days_from_civil :: "int \<Rightarrow> int \<Rightarrow> int \<Rightarrow> int" where
  "days_from_civil year month day =
     (let y = (if month \<le> 2 then year - 1 else year);
          era = y div 400; yoe = y mod 400;
          doy = (153 * ((month + 9) mod 12) + 2) div 5 + day - 1
      in era * 146097 + (yoe * 365 + yoe div 4 - yoe div 100 + doy) - 719468)"

text \<open>\<open>Date.UTC(y, m, d, h, mi, s)\<close>: the month counts from 0 and carries into the year.\<close>

definition date_utc :: "int \<Rightarrow> int \<Rightarrow> int \<Rightarrow> int \<Rightarrow> int \<Rightarrow> int \<Rightarrow> int" where
  "date_utc year month day hour minute second =
     days_from_civil (year + month div 12) (month mod 12 + 1) day * day_ms
       + hour * 3600000 + minute * 60000 + second * 1000"

definition digit_value :: "cunit \<Rightarrow> int" where
  "digit_value c = uint c - 48"

definition digits_value :: "jstring \<Rightarrow> int" where
  "digits_value s = foldl (\<lambda>n c. 10 * n + digit_value c) 0 s"

text \<open>Exactly \<open>n\<close> digits, then a rest.\<close>

definition take_digits :: "nat \<Rightarrow> jstring \<Rightarrow> (int \<times> jstring) option" where
  "take_digits n s =
     (if n \<le> length s \<and> list_all is_digit (take n s)
      then Some (digits_value (take n s), drop n s) else None)"

fun expect :: "cunit \<Rightarrow> jstring \<Rightarrow> jstring option" where
  "expect c [] = None"
| "expect c (d # ds) = (if c = d then Some ds else None)"

definition parse_pair :: "cunit \<Rightarrow> jstring \<Rightarrow> (int \<times> jstring) option" where
  "parse_pair c s = Option.bind (expect c s) (take_digits 2)"

text \<open>An optional fraction, of which the first three digits count as milliseconds.\<close>

definition parse_fraction :: "jstring \<Rightarrow> (int \<times> jstring) option" where
  "parse_fraction s =
     (case expect (ch CHR ''.'') s of
        None \<Rightarrow> Some (0, s)
      | Some t \<Rightarrow>
          (let ds = takeWhile is_digit t in
           if ds = [] then None
           else Some (digits_value (take 3 (ds @ js ''00'')), dropWhile is_digit t)))"

definition parse_zone :: "jstring \<Rightarrow> int option" where
  "parse_zone s =
     (if s = js ''Z'' then Some 0
      else case s of
          [] \<Rightarrow> None
        | c # t \<Rightarrow>
            (if c = ch CHR ''+'' \<or> c = ch CHR ''-'' then
               (case take_digits 2 t of
                  None \<Rightarrow> None
                | Some (h, t1) \<Rightarrow>
                    (case parse_pair (ch CHR '':'') t1 of
                       Some (m, []) \<Rightarrow>
                         Some ((if c = ch CHR ''-'' then - 1 else 1) * (h * 3600000 + m * 60000))
                     | _ \<Rightarrow> None))
             else None))"

definition date_parse :: "jstring \<Rightarrow> int option" where
  "date_parse s =
     (case take_digits 4 s of None \<Rightarrow> None | Some (y, s1) \<Rightarrow>
     (case parse_pair (ch CHR ''-'') s1 of None \<Rightarrow> None | Some (mo, s2) \<Rightarrow>
     (case parse_pair (ch CHR ''-'') s2 of None \<Rightarrow> None | Some (d, s3) \<Rightarrow>
     (case Option.bind (expect (ch CHR ''T'') s3) (take_digits 2) of None \<Rightarrow> None | Some (h, s4) \<Rightarrow>
     (case parse_pair (ch CHR '':'') s4 of None \<Rightarrow> None | Some (mi, s5) \<Rightarrow>
     (case parse_pair (ch CHR '':'') s5 of None \<Rightarrow> None | Some (sec, s6) \<Rightarrow>
     (case parse_fraction s6 of None \<Rightarrow> None | Some (ms, s7) \<Rightarrow>
     (case parse_zone s7 of None \<Rightarrow> None | Some off \<Rightarrow>
        if 1 \<le> mo \<and> mo \<le> 12 \<and> 1 \<le> d \<and> d \<le> 31 \<and> h \<le> 23 \<and> mi \<le> 59 \<and> sec \<le> 59
        then Some (date_utc y (mo - 1) d h mi sec + ms - off) else None))))))))"

text \<open>Comparisons with a possibly invalid date: NaN makes them false.\<close>

fun date_before :: "int option \<Rightarrow> int option \<Rightarrow> bool" where
  "date_before (Some a) (Some b) = (a < b)"
| "date_before _ _ = False"

text \<open>\<open>a.toDateString() === b.toDateString()\<close>; two invalid dates both read \<open>"Invalid Date"\<close>.\<close>

definition local_day :: "(int \<Rightarrow> int) \<Rightarrow> int \<Rightarrow> int" where
  "local_day zone t = (t + zone t) div day_ms"

definition same_day :: "(int \<Rightarrow> int) \<Rightarrow> int option \<Rightarrow> int option \<Rightarrow> bool" where
  "same_day zone a b = (map_option (local_day zone) a = map_option (local_day zone) b)"

lemma same_day_refl [simp]: "same_day zone a a"
  by (simp add: same_day_def)

lemma date_parse_epoch: "date_parse (js ''1970-01-01T00:00:00Z'') = Some 0"
  by code_simp

lemma date_parse_zone:
  "date_parse (js ''2026-01-01T02:00:00.250+02:00'') = Some 1767225600250"
  by code_simp

lemma date_parse_invalid: "date_parse (js ''tomorrow'') = None"
  by code_simp

text \<open>Later days are larger: the day enters the civil count linearly, also past the month's end.\<close>

lemma date_utc_day_shift:
  "date_utc y m (d + k) h mi s = date_utc y m d h mi s + k * day_ms"
  by (simp add: date_utc_def days_from_civil_def Let_def algebra_simps)

end
