(* ===== verification/Types.thy ===== *)
theory Types
  imports Clock
begin

text \<open>
  The data the client engine exchanges: the record types of \<open>packages/core/src/types.ts\<close> over the
  schemas of \<open>packages/protocol\<close>. A key that the schema marks optional, or that a payload the code
  casts to the type can lack, is a \<open>field\<close>: the event log hydrates a message event without
  \<open>thread_reply_count\<close> and \<open>files\<close>, and \<open>chat_id\<close> is read with a fallback.
\<close>

datatype delivery_state = Sending | Sent | Failed | Retrying

datatype body_format = Plain | Markdown

record client_message =
  m_id :: jstring
  m_chat_id :: "jstring field"
  m_actor_id :: jstring
  m_client_msg_id :: jstring
  m_body :: jstring
  m_body_format :: body_format
  m_reply_to_id :: "jstring field"
  m_thread_root_id :: "jstring field"
  m_version :: int
  m_created_seq :: int
  m_created_at :: jstring
  m_edited_at :: "jstring field"
  m_deleted_at :: "jstring field"
  m_forwarded_from :: "json field"
  m_mentioned_actor_ids :: "jstring list"
  m_thread_reply_count :: "jsnum field"
  m_files :: "jstring list field"
  m_delivery :: "delivery_state field"
  m_error_code :: "jstring field"

text \<open>\<open>{...old, ...new}\<close> on messages: the keys \<open>new\<close> always has win, its optional keys win when
  present.\<close>

definition spread_message :: "client_message \<Rightarrow> client_message \<Rightarrow> client_message" where
  "spread_message old new = new\<lparr>
     m_chat_id := spread (m_chat_id old) (m_chat_id new),
     m_reply_to_id := spread (m_reply_to_id old) (m_reply_to_id new),
     m_thread_root_id := spread (m_thread_root_id old) (m_thread_root_id new),
     m_edited_at := spread (m_edited_at old) (m_edited_at new),
     m_deleted_at := spread (m_deleted_at old) (m_deleted_at new),
     m_forwarded_from := spread (m_forwarded_from old) (m_forwarded_from new),
     m_thread_reply_count := spread (m_thread_reply_count old) (m_thread_reply_count new),
     m_files := spread (m_files old) (m_files new),
     m_delivery := spread (m_delivery old) (m_delivery new),
     m_error_code := spread (m_error_code old) (m_error_code new)\<rparr>"

datatype chat_kind = Direct | Group | Channel
datatype chat_role = Owner | Admin | Member
datatype notify_level = NotifyDefault | NotifyAll | NotifyMentions | NotifyNone

record chat =
  c_id :: jstring
  c_kind :: chat_kind
  c_public :: bool
  c_name :: "jstring field"
  c_topic :: jstring
  c_role :: chat_role
  c_display_name :: jstring
  c_avatar_seed :: jstring
  c_notify_level :: notify_level
  c_muted_until :: "jstring option"
  c_last_activity_seq :: int

record chat_unread =
  u_chat_id :: jstring
  u_last_read_seq :: int
  u_unread_count :: int
  u_mention_count :: int

record thread_unread =
  tu_thread_root_id :: jstring
  tu_chat_id :: jstring
  tu_last_read_seq :: int
  tu_unread_count :: int
  tu_mention_count :: int

record unread_snapshot =
  un_chats :: "chat_unread list"
  un_threads :: "thread_unread list"

record durable_event =
  e_seq :: int
  e_type :: jstring
  e_occurred_at :: jstring
  e_actor_id :: jstring
  e_chat_id :: "jstring field"
  e_subject_id :: jstring
  e_data :: client_message

datatype realtime_state =
    Idle | Connecting | Authenticating | Backlog | Live | Reconnecting
  | ResyncRequired | PasswordChangeRequired | SessionExpired

lemma spread_message_simps [simp]:
  "m_id (spread_message a b) = m_id b"
  "m_client_msg_id (spread_message a b) = m_client_msg_id b"
  "m_created_seq (spread_message a b) = m_created_seq b"
  "m_actor_id (spread_message a b) = m_actor_id b"
  "m_body (spread_message a b) = m_body b"
  "m_version (spread_message a b) = m_version b"
  "m_delivery (spread_message a b) = spread (m_delivery a) (m_delivery b)"
  "m_error_code (spread_message a b) = spread (m_error_code a) (m_error_code b)"
  "m_chat_id (spread_message a b) = spread (m_chat_id a) (m_chat_id b)"
  "m_thread_root_id (spread_message a b) = spread (m_thread_root_id a) (m_thread_root_id b)"
  "m_thread_reply_count (spread_message a b) =
     spread (m_thread_reply_count a) (m_thread_reply_count b)"
  by (simp_all add: spread_message_def)

lemma spread_message_idem [simp]: "spread_message a a = a"
  by (simp add: spread_message_def)

lemma spread_message_assoc:
  "spread_message (spread_message a b) c = spread_message a (spread_message b c)"
  by (simp add: spread_message_def spread_assoc)

end
