(* ===== verification/Store.thy ===== *)
theory Store
  imports Types "HOL-Library.Multiset"
begin

text \<open>
  The domain store of \<open>packages/core/src/store.ts\<close>. A zustand \<open>set\<close> is a function from the old
  state to the new one; a \<open>setTimeout\<close> is a delay returned beside the state and an \<open>expire\<close>
  operation that its callback runs. \<open>now\<close> is \<open>Date.now()\<close>.

  The lemmas show: \<open>uniqueSorted\<close> orders a chat by sequence number with one entry per key, every
  operation keeps that, \<open>apply\<close> is idempotent per checkpoint, and what the thread reply counter and
  the agent streams hold.
\<close>

section \<open>State\<close>

datatype agent_state = Thinking | Tool | Streaming | Completed | RunFailed | Canceled

record agent_status =
  as_runID :: jstring
  as_actorID :: jstring
  as_chatID :: jstring
  as_threadRootID :: "jstring option"
  as_state :: agent_state
  as_expiresAt :: jstring

record message_stream =
  ms_streamID :: jstring
  ms_runID :: jstring
  ms_actorID :: jstring
  ms_chatID :: jstring
  ms_threadRootID :: "jstring option"
  ms_body :: jstring
  ms_index :: int
  ms_expiresAt :: jstring

record stream_frame =
  sf_streamID :: jstring
  sf_runID :: jstring
  sf_actorID :: jstring
  sf_chatID :: jstring
  sf_threadRootID :: "jstring option"
  sf_index :: int
  sf_expiresAt :: jstring
  sf_delta :: jstring
  sf_reset :: bool
  sf_done :: bool

datatype presence = Online | Away | Offline

record messenger =
  chats :: "jstring \<rightharpoonup> chat"
  messages :: "jstring \<rightharpoonup> client_message list"
  unread :: unread_snapshot
  typing :: "jstring \<rightharpoonup> jstring list"
  presence :: "jstring \<rightharpoonup> presence"
  agentStatuses :: "jstring \<rightharpoonup> agent_status"
  messageStreams :: "jstring \<rightharpoonup> message_stream"
  checkpoint :: int
  realtime :: realtime_state
  activeChatID :: "jstring option"

definition emptyUnread :: unread_snapshot where
  "emptyUnread = \<lparr>un_chats = [], un_threads = []\<rparr>"

definition createMessengerStore :: "int \<Rightarrow> messenger" where
  "createMessengerStore cp =
     \<lparr>chats = Map.empty, messages = Map.empty, unread = emptyUnread, typing = Map.empty,
      presence = Map.empty, agentStatuses = Map.empty, messageStreams = Map.empty,
      checkpoint = cp, realtime = Idle, activeChatID = None\<rparr>"

section \<open>Message lists\<close>

text \<open>The key of the map in \<open>uniqueSorted\<close>: \<open>item.id || item.client_msg_id\<close>.\<close>

definition message_key :: "client_message \<Rightarrow> jstring" where
  "message_key m = (if m_id m \<noteq> [] then m_id m else m_client_msg_id m)"

definition merge_item :: "client_message \<Rightarrow> client_message option \<Rightarrow> client_message" where
  "merge_item item old = (case old of None \<Rightarrow> item | Some o' \<Rightarrow> spread_message o' item)"

fun unique_map ::
  "(jstring \<times> client_message) list \<Rightarrow> client_message list \<Rightarrow> (jstring \<times> client_message) list" where
  "unique_map acc [] = acc"
| "unique_map acc (item # items) =
     unique_map (upsert (message_key item) (merge_item item) acc) items"

definition uniqueSorted :: "client_message list \<Rightarrow> client_message list" where
  "uniqueSorted items = sort_key m_created_seq (map snd (unique_map [] items))"

definition mapMessages ::
  "(jstring \<rightharpoonup> client_message list) \<Rightarrow> (client_message \<Rightarrow> client_message) \<Rightarrow>
   (jstring \<rightharpoonup> client_message list)" where
  "mapMessages input f = (\<lambda>k. map_option (map f) (input k))"

definition items_of :: "(jstring \<rightharpoonup> 'a list) \<Rightarrow> jstring \<Rightarrow> 'a list" where
  "items_of m k = (case m k of None \<Rightarrow> [] | Some xs \<Rightarrow> xs)"

definition same_message :: "client_message \<Rightarrow> client_message \<Rightarrow> bool" where
  "same_message incoming item \<longleftrightarrow>
     m_id item = m_id incoming \<or> m_client_msg_id item = m_client_msg_id incoming"

text \<open>The common body of \<open>apply\<close> and \<open>reconcileMessage\<close>: the incoming message as delivered replaces
  the first item it matches, or goes to the end.\<close>

definition deliver :: "client_message \<Rightarrow> client_message list \<Rightarrow> client_message list" where
  "deliver incoming current =
     (let delivered = incoming\<lparr>m_delivery := Val Sent\<rparr> in
      case find_index (same_message incoming) current of
        Some i \<Rightarrow> map_at i (\<lambda>item. spread_message item delivered) current
      | None \<Rightarrow> current @ [delivered])"

definition reconcileMessage ::
  "(jstring \<rightharpoonup> client_message list) \<Rightarrow> client_message \<Rightarrow> (jstring \<rightharpoonup> client_message list)" where
  "reconcileMessage input incoming =
     (let key = property_key (m_chat_id incoming) in
      input(key \<mapsto> uniqueSorted (deliver incoming (items_of input key))))"

text \<open>The reply counter of the thread root, on every item with that id.\<close>

definition bump_replies :: "jstring \<Rightarrow> int \<Rightarrow> client_message \<Rightarrow> client_message" where
  "bump_replies root delta item =
     (if m_id item = root
      then item\<lparr>m_thread_reply_count :=
        Val (max_zero (num_add (to_number (m_thread_reply_count item)) delta))\<rparr>
      else item)"

definition is_message_event :: "jstring \<Rightarrow> bool" where
  "is_message_event t \<longleftrightarrow>
     t = js ''message.created'' \<or> t = js ''message.updated'' \<or> t = js ''message.deleted''"

definition thread_delta :: "jstring \<Rightarrow> int" where
  "thread_delta t = (if t = js ''message.created'' then 1 else - 1)"

definition count_thread ::
  "jstring \<Rightarrow> client_message \<Rightarrow> client_message list \<Rightarrow> client_message list" where
  "count_thread t incoming next =
     (case m_thread_root_id incoming of
        Val root \<Rightarrow>
          (if root \<noteq> [] \<and> t \<noteq> js ''message.updated''
           then map (bump_replies root (thread_delta t)) next else next)
      | _ \<Rightarrow> next)"

text \<open>\<open>incoming.chat_id ?? event.chat_id\<close>; a missing or empty id changes no list.\<close>

definition event_chat :: "durable_event \<Rightarrow> jstring option" where
  "event_chat e =
     (let f = (case m_chat_id (e_data e) of Val c \<Rightarrow> Val c | _ \<Rightarrow> e_chat_id e)
      in if truthy f then field_opt f else None)"

definition event_messages ::
  "durable_event \<Rightarrow> (jstring \<rightharpoonup> client_message list) \<Rightarrow> (jstring \<rightharpoonup> client_message list)" where
  "event_messages e ms =
     (if is_message_event (e_type e) then
        case event_chat e of
          None \<Rightarrow> ms
        | Some c \<Rightarrow>
            ms(c \<mapsto> uniqueSorted
                 (count_thread (e_type e) (e_data e) (deliver (e_data e) (items_of ms c))))
      else ms)"

section \<open>Operations\<close>

definition replaceChats :: "chat list \<Rightarrow> messenger \<Rightarrow> messenger" where
  "replaceChats items s = s\<lparr>chats := map_of (rev (map (\<lambda>c. (c_id c, c)) items))\<rparr>"

definition replaceMessages :: "jstring \<Rightarrow> client_message list \<Rightarrow> messenger \<Rightarrow> messenger" where
  "replaceMessages c items s = s\<lparr>messages := (messages s)(c \<mapsto> uniqueSorted items)\<rparr>"

definition prependMessages :: "jstring \<Rightarrow> client_message list \<Rightarrow> messenger \<Rightarrow> messenger" where
  "prependMessages c items s =
     s\<lparr>messages := (messages s)(c \<mapsto> uniqueSorted (items @ items_of (messages s) c))\<rparr>"

definition optimistic :: "client_message \<Rightarrow> messenger \<Rightarrow> messenger" where
  "optimistic m s =
     (let c = property_key (m_chat_id m) in
      s\<lparr>messages := (messages s)(c \<mapsto> uniqueSorted (items_of (messages s) c @ [m]))\<rparr>)"

definition reconcile :: "client_message \<Rightarrow> messenger \<Rightarrow> messenger" where
  "reconcile m s = s\<lparr>messages := reconcileMessage (messages s) m\<rparr>"

definition retrying :: "jstring \<Rightarrow> messenger \<Rightarrow> messenger" where
  "retrying cid s = s\<lparr>messages := mapMessages (messages s)
     (\<lambda>m. if m_client_msg_id m = cid then m\<lparr>m_delivery := Val Retrying\<rparr> else m)\<rparr>"

definition failed :: "jstring \<Rightarrow> jstring \<Rightarrow> messenger \<Rightarrow> messenger" where
  "failed cid code s = s\<lparr>messages := mapMessages (messages s)
     (\<lambda>m. if m_client_msg_id m = cid
          then m\<lparr>m_delivery := Val Failed, m_error_code := Val code\<rparr> else m)\<rparr>"

definition apply_event :: "durable_event \<Rightarrow> messenger \<Rightarrow> bool \<times> messenger" where
  "apply_event e s =
     (if e_seq e \<le> checkpoint s then (False, s)
      else (True, s\<lparr>messages := event_messages e (messages s), checkpoint := e_seq e\<rparr>))"

definition setUnread :: "unread_snapshot \<Rightarrow> messenger \<Rightarrow> messenger" where
  "setUnread v s = s\<lparr>unread := v\<rparr>"

definition setRealtime :: "realtime_state \<Rightarrow> messenger \<Rightarrow> messenger" where
  "setRealtime v s = s\<lparr>realtime := v\<rparr>"

definition setActive :: "jstring option \<Rightarrow> messenger \<Rightarrow> messenger" where
  "setActive v s = s\<lparr>activeChatID := v\<rparr>"

definition setTyping :: "jstring \<Rightarrow> jstring \<Rightarrow> bool \<Rightarrow> messenger \<Rightarrow> messenger" where
  "setTyping c a active s =
     (let values = js_set [] (items_of (typing s) c);
          next = (if active then js_set values [a] else filter (\<lambda>x. x \<noteq> a) values)
      in s\<lparr>typing := (typing s)(c \<mapsto> next)\<rparr>)"

definition setPresence :: "jstring \<Rightarrow> presence \<Rightarrow> messenger \<Rightarrow> messenger" where
  "setPresence a v s = s\<lparr>presence := (presence s)(a \<mapsto> v)\<rparr>"

text \<open>\<open>Date.parse(t) <= Date.now()\<close>, false for an invalid date.\<close>

definition expired :: "int \<Rightarrow> jstring \<Rightarrow> bool" where
  "expired now t = (case date_parse t of None \<Rightarrow> False | Some d \<Rightarrow> d \<le> now)"

text \<open>The delay of the expiry timer; \<open>None\<close> is NaN, which starts no timer.\<close>

definition expiryDelay :: "int \<Rightarrow> jstring \<Rightarrow> int option" where
  "expiryDelay now t = map_option (\<lambda>d. max 0 (min 60000 (d - now + 25))) (date_parse t)"

definition timer_delay :: "int \<Rightarrow> jstring \<Rightarrow> int option" where
  "timer_delay now t =
     (case expiryDelay now t of Some d \<Rightarrow> if 0 < d then Some d else None | None \<Rightarrow> None)"

definition setAgentStatus :: "int \<Rightarrow> agent_status \<Rightarrow> messenger \<Rightarrow> messenger \<times> int option" where
  "setAgentStatus now v s =
     (s\<lparr>agentStatuses :=
          (if as_state v = Completed \<or> expired now (as_expiresAt v)
           then (agentStatuses s)(as_runID v := None)
           else (agentStatuses s)(as_runID v \<mapsto> v))\<rparr>,
      timer_delay now (as_expiresAt v))"

definition expireAgentStatus :: "agent_status \<Rightarrow> messenger \<Rightarrow> messenger" where
  "expireAgentStatus v s =
     (case agentStatuses s (as_runID v) of
        None \<Rightarrow> s
      | Some cur \<Rightarrow>
          if as_expiresAt cur \<noteq> as_expiresAt v then s
          else s\<lparr>agentStatuses := (agentStatuses s)(as_runID v := None)\<rparr>)"

definition stream_of_frame :: "stream_frame \<Rightarrow> jstring \<Rightarrow> message_stream" where
  "stream_of_frame v body =
     \<lparr>ms_streamID = sf_streamID v, ms_runID = sf_runID v, ms_actorID = sf_actorID v,
      ms_chatID = sf_chatID v, ms_threadRootID = sf_threadRootID v, ms_body = body,
      ms_index = sf_index v, ms_expiresAt = sf_expiresAt v\<rparr>"

definition stream_update ::
  "int \<Rightarrow> stream_frame \<Rightarrow> (jstring \<rightharpoonup> message_stream) \<Rightarrow> (jstring \<rightharpoonup> message_stream)" where
  "stream_update now v streams =
     (let current = streams (sf_streamID v) in
      if sf_done v \<or> expired now (sf_expiresAt v) then streams(sf_streamID v := None)
      else case current of
          None \<Rightarrow> streams(sf_streamID v \<mapsto> stream_of_frame v (sf_delta v))
        | Some cur \<Rightarrow>
            if ms_index cur < sf_index v
            then streams(sf_streamID v \<mapsto> stream_of_frame v
                   (if sf_reset v then sf_delta v else ms_body cur @ sf_delta v))
            else streams)"

definition applyMessageStream :: "int \<Rightarrow> stream_frame \<Rightarrow> messenger \<Rightarrow> messenger \<times> int option" where
  "applyMessageStream now v s =
     (s\<lparr>messageStreams := stream_update now v (messageStreams s)\<rparr>,
      if sf_done v then None else timer_delay now (sf_expiresAt v))"

definition expireMessageStream :: "stream_frame \<Rightarrow> messenger \<Rightarrow> messenger" where
  "expireMessageStream v s =
     (case messageStreams s (sf_streamID v) of
        None \<Rightarrow> s
      | Some cur \<Rightarrow>
          if ms_expiresAt cur \<noteq> sf_expiresAt v then s
          else s\<lparr>messageStreams := (messageStreams s)(sf_streamID v := None)\<rparr>)"

definition clearAgentEphemeral :: "messenger \<Rightarrow> messenger" where
  "clearAgentEphemeral s = s\<lparr>agentStatuses := Map.empty, messageStreams := Map.empty\<rparr>"

definition resetDurable :: "int \<Rightarrow> messenger \<Rightarrow> messenger" where
  "resetDurable v s =
     s\<lparr>chats := Map.empty, messages := Map.empty, unread := emptyUnread,
       agentStatuses := Map.empty, messageStreams := Map.empty, checkpoint := v\<rparr>"

section \<open>Lemmas on message lists\<close>

lemma message_key_spread [simp]: "message_key (spread_message a b) = message_key b"
  by (simp add: message_key_def)

lemma message_key_delivery [simp]: "message_key (m\<lparr>m_delivery := d\<rparr>) = message_key m"
  by (simp add: message_key_def)

lemma merge_item_simps [simp]:
  "merge_item item None = item"
  "merge_item item (Some o') = spread_message o' item"
  by (simp_all add: merge_item_def)

lemma message_key_merge_item [simp]: "message_key (merge_item item old) = message_key item"
  by (cases old) auto

text \<open>Each entry of the map sits under its own key.\<close>

definition keyed :: "(jstring \<times> client_message) list \<Rightarrow> bool" where
  "keyed kvs \<longleftrightarrow> map message_key (map snd kvs) = map fst kvs"

lemma keyed_Cons [simp]: "keyed ((k, v) # kvs) \<longleftrightarrow> message_key v = k \<and> keyed kvs"
  by (simp add: keyed_def)

lemma keyed_Nil [simp]: "keyed []"
  by (simp add: keyed_def)

lemma keyed_in: "keyed kvs \<Longrightarrow> (k, v) \<in> set kvs \<Longrightarrow> message_key v = k"
  by (induction kvs) auto

lemma keyed_upsert:
  "keyed kvs \<Longrightarrow> keyed (upsert (message_key item) (merge_item item) kvs)"
  by (induction kvs) auto

lemma keyed_unique_map: "keyed acc \<Longrightarrow> keyed (unique_map acc items)"
  by (induction acc items rule: unique_map.induct) (auto intro: keyed_upsert)

lemma distinct_unique_map:
  "distinct (map fst acc) \<Longrightarrow> distinct (map fst (unique_map acc items))"
  by (induction acc items rule: unique_map.induct) (auto intro: distinct_upsert)

lemma keys_unique_map:
  "fst ` set (unique_map acc items) = fst ` set acc \<union> message_key ` set items"
  by (induction acc items rule: unique_map.induct) auto

text \<open>What the map holds under a key: the items with that key, spread from left to right.\<close>

definition merged_at :: "jstring \<Rightarrow> client_message list \<Rightarrow> client_message option" where
  "merged_at k items =
     fold (\<lambda>m acc. Some (merge_item m acc)) (filter (\<lambda>m. message_key m = k) items) None"

lemma map_of_unique_map:
  "map_of (unique_map acc items) k =
     fold (\<lambda>m acc. Some (merge_item m acc)) (filter (\<lambda>m. message_key m = k) items) (map_of acc k)"
  by (induction acc items rule: unique_map.induct) (auto simp: map_of_upsert)

lemma map_of_unique_map_Nil: "map_of (unique_map [] items) k = merged_at k items"
  by (simp add: map_of_unique_map merged_at_def)

lemma set_uniqueSorted:
  "set (uniqueSorted items) = {m. merged_at (message_key m) items = Some m}"
proof -
  let ?kvs = "unique_map [] items"
  have k: "keyed ?kvs" by (rule keyed_unique_map) simp
  have d: "distinct (map fst ?kvs)" by (rule distinct_unique_map) simp
  have "m \<in> snd ` set ?kvs \<longleftrightarrow> map_of ?kvs (message_key m) = Some m" for m
  proof
    assume "m \<in> snd ` set ?kvs"
    then obtain c where c: "(c, m) \<in> set ?kvs" by force
    with k have "message_key m = c" by (rule keyed_in)
    with c d show "map_of ?kvs (message_key m) = Some m" by simp
  next
    assume "map_of ?kvs (message_key m) = Some m"
    then show "m \<in> snd ` set ?kvs" by (force dest: map_of_SomeD)
  qed
  then show ?thesis
    by (auto simp: uniqueSorted_def map_of_unique_map_Nil)
qed

lemma sorted_uniqueSorted: "sorted (map m_created_seq (uniqueSorted items))"
  by (simp add: uniqueSorted_def)

lemma distinct_map_mset_eq: "mset xs = mset ys \<Longrightarrow> distinct (map f xs) = distinct (map f ys)"
  by (metis mset_eq_imp_distinct_iff mset_map)

lemma unique_map_values:
  "map message_key (map snd (unique_map [] items)) = map fst (unique_map [] items)"
  using keyed_unique_map [of "[]" items] unfolding keyed_def by simp

lemma distinct_keys_uniqueSorted: "distinct (map message_key (uniqueSorted items))"
proof -
  have "distinct (map message_key (map snd (unique_map [] items)))"
    unfolding unique_map_values by (rule distinct_unique_map) simp
  then show ?thesis
    unfolding uniqueSorted_def
    by (subst distinct_map_mset_eq [of _ "map snd (unique_map [] items)"]) (simp_all only: mset_sort)
qed

lemma keys_uniqueSorted: "message_key ` set (uniqueSorted items) = message_key ` set items"
proof -
  have "message_key ` set (uniqueSorted items) = set (map message_key (map snd (unique_map [] items)))"
    by (simp add: uniqueSorted_def image_image)
  also have "\<dots> = message_key ` set items"
    unfolding unique_map_values by (simp add: keys_unique_map)
  finally show ?thesis .
qed

text \<open>A list in the store: in sequence order, one entry per key.\<close>

definition list_ok :: "client_message list \<Rightarrow> bool" where
  "list_ok items \<longleftrightarrow>
     sorted (map m_created_seq items) \<and> distinct (map message_key items)"

lemma list_ok_uniqueSorted [simp]: "list_ok (uniqueSorted items)"
  by (simp add: list_ok_def sorted_uniqueSorted distinct_keys_uniqueSorted)

lemma upsert_fresh: "k \<notin> fst ` set kvs \<Longrightarrow> upsert k f kvs = kvs @ [(k, f None)]"
  by (induction kvs) auto

lemma unique_map_fresh:
  assumes "distinct (map message_key items)"
    and "fst ` set acc \<inter> message_key ` set items = {}"
  shows "unique_map acc items = acc @ map (\<lambda>m. (message_key m, m)) items"
  using assms
proof (induction acc items rule: unique_map.induct)
  case (1 acc)
  then show ?case by simp
next
  case (2 acc item items)
  then have "upsert (message_key item) (merge_item item) acc = acc @ [(message_key item, item)]"
    by (subst upsert_fresh) auto
  with 2 show ?case by auto
qed

text \<open>Where no two items share a key, \<open>uniqueSorted\<close> only sorts.\<close>

lemma uniqueSorted_distinct:
  "distinct (map message_key items) \<Longrightarrow> uniqueSorted items = sort_key m_created_seq items"
  by (simp add: uniqueSorted_def unique_map_fresh comp_def)

lemma uniqueSorted_ok: "list_ok items \<Longrightarrow> uniqueSorted items = items"
  by (simp add: uniqueSorted_distinct list_ok_def sort_key_id_if_sorted)

lemma keys_deliver:
  "message_key ` set (deliver d xs) \<subseteq> insert (message_key d) (message_key ` set xs)"
proof (cases "find_index (same_message d) xs")
  case None
  then show ?thesis by (auto simp: deliver_def)
next
  case (Some i)
  then have "i < length xs" by (rule find_index_Some [THEN conjunct1])
  then show ?thesis
    using Some by (auto simp: deliver_def Let_def map_at_split dest: in_set_takeD in_set_dropD)
qed

section \<open>The invariant of the store\<close>

definition store_ok :: "messenger \<Rightarrow> bool" where
  "store_ok s \<longleftrightarrow> (\<forall>c xs. messages s c = Some xs \<longrightarrow> list_ok xs)"

lemma store_ok_update:
  "store_ok s \<Longrightarrow> store_ok (s\<lparr>messages := (messages s)(c \<mapsto> uniqueSorted xs)\<rparr>)"
  by (simp add: store_ok_def)

lemma list_ok_map:
  assumes "\<And>m. message_key (f m) = message_key m" and "\<And>m. m_created_seq (f m) = m_created_seq m"
  shows "list_ok (map f xs) = list_ok xs"
  using assms by (simp add: list_ok_def comp_def)

lemma store_ok_mapMessages:
  assumes "store_ok s"
    and "\<And>m. message_key (f m) = message_key m" and "\<And>m. m_created_seq (f m) = m_created_seq m"
  shows "store_ok (s\<lparr>messages := mapMessages (messages s) f\<rparr>)"
  using assms by (auto simp: store_ok_def mapMessages_def list_ok_map)

lemma event_messages_cases:
  "event_messages e ms = ms \<or> (\<exists>c xs. event_messages e ms = ms(c \<mapsto> uniqueSorted xs))"
  by (auto simp: event_messages_def split: option.splits)

lemma store_ok_event_messages:
  assumes "store_ok s" and "messages t = event_messages e (messages s)"
  shows "store_ok t"
  using assms event_messages_cases [of e "messages s"]
  by (auto simp: store_ok_def split: if_splits)

text \<open>The operations a client runs on the store, one constructor per method of the state and per
  timer callback.\<close>

datatype store_op =
    ReplaceChats "chat list"
  | ReplaceMessages jstring "client_message list"
  | PrependMessages jstring "client_message list"
  | Optimistic client_message
  | Reconcile client_message
  | SetRetrying jstring
  | SetFailed jstring jstring
  | ApplyEvent durable_event
  | SetUnread unread_snapshot
  | SetRealtime realtime_state
  | SetActive "jstring option"
  | SetTyping jstring jstring bool
  | SetPresence jstring presence
  | SetAgentStatus int agent_status
  | ExpireAgentStatus agent_status
  | ApplyMessageStream int stream_frame
  | ExpireMessageStream stream_frame
  | ClearAgentEphemeral
  | ResetDurable int

fun store_step :: "store_op \<Rightarrow> messenger \<Rightarrow> messenger" where
  "store_step (ReplaceChats cs) s = replaceChats cs s"
| "store_step (ReplaceMessages c xs) s = replaceMessages c xs s"
| "store_step (PrependMessages c xs) s = prependMessages c xs s"
| "store_step (Optimistic m) s = optimistic m s"
| "store_step (Reconcile m) s = reconcile m s"
| "store_step (SetRetrying cid) s = retrying cid s"
| "store_step (SetFailed cid code) s = failed cid code s"
| "store_step (ApplyEvent e) s = snd (apply_event e s)"
| "store_step (SetUnread v) s = setUnread v s"
| "store_step (SetRealtime v) s = setRealtime v s"
| "store_step (SetActive v) s = setActive v s"
| "store_step (SetTyping c a b) s = setTyping c a b s"
| "store_step (SetPresence a v) s = setPresence a v s"
| "store_step (SetAgentStatus now v) s = fst (setAgentStatus now v s)"
| "store_step (ExpireAgentStatus v) s = expireAgentStatus v s"
| "store_step (ApplyMessageStream now v) s = fst (applyMessageStream now v s)"
| "store_step (ExpireMessageStream v) s = expireMessageStream v s"
| "store_step ClearAgentEphemeral s = clearAgentEphemeral s"
| "store_step (ResetDurable v) s = resetDurable v s"

lemmas store_op_defs [defs] =
  replaceChats_def replaceMessages_def prependMessages_def optimistic_def reconcile_def
  reconcileMessage_def retrying_def failed_def apply_event_def setUnread_def setRealtime_def
  setActive_def setTyping_def setPresence_def setAgentStatus_def expireAgentStatus_def
  applyMessageStream_def expireMessageStream_def clearAgentEphemeral_def resetDurable_def

lemma store_ok_cong: "messages t = messages s \<Longrightarrow> store_ok t = store_ok s"
  by (simp add: store_ok_def)

text \<open>The operations that leave the message lists alone.\<close>

lemma messages_frame [simp]:
  "messages (replaceChats cs s) = messages s"
  "messages (setUnread u s) = messages s"
  "messages (setRealtime r s) = messages s"
  "messages (setActive v0 s) = messages s"
  "messages (setTyping c a b s) = messages s"
  "messages (setPresence a p s) = messages s"
  "messages (fst (setAgentStatus now v s)) = messages s"
  "messages (expireAgentStatus v s) = messages s"
  "messages (fst (applyMessageStream now f s)) = messages s"
  "messages (expireMessageStream f s) = messages s"
  "messages (clearAgentEphemeral s) = messages s"
  by (simp_all add: store_op_defs Let_def split: option.split)

lemmas store_ok_frame = messages_frame [THEN store_ok_cong]

lemma store_step_ok: "store_ok s \<Longrightarrow> store_ok (store_step op s)"
proof (cases op)
  case (SetRetrying cid)
  then show "store_ok s \<Longrightarrow> ?thesis"
    by (auto simp: retrying_def message_key_def intro!: store_ok_mapMessages)
next
  case (SetFailed cid code)
  then show "store_ok s \<Longrightarrow> ?thesis"
    by (auto simp: failed_def message_key_def intro!: store_ok_mapMessages)
next
  case (ApplyEvent e)
  then show "store_ok s \<Longrightarrow> ?thesis"
    by (auto simp: apply_event_def intro: store_ok_event_messages)
next
  case (ResetDurable v)
  then show "store_ok s \<Longrightarrow> ?thesis" by (simp add: resetDurable_def store_ok_def)
qed (simp_all add: replaceMessages_def prependMessages_def optimistic_def reconcile_def
  reconcileMessage_def Let_def store_ok_update store_ok_frame)

lemma store_ok_init [simp]: "store_ok (createMessengerStore cp)"
  by (simp add: store_ok_def createMessengerStore_def)

lemma fold_store_step_ok: "store_ok s \<Longrightarrow> store_ok (fold store_step ops s)"
  by (induction ops arbitrary: s) (auto intro: store_step_ok)

section \<open>Durable events: at-least-once delivery, exactly-once effect\<close>

definition apply_events :: "durable_event list \<Rightarrow> messenger \<Rightarrow> messenger" where
  "apply_events es s = fold (\<lambda>e t. snd (apply_event e t)) es s"

lemma apply_events_simps [simp]:
  "apply_events [] s = s"
  "apply_events (e # es) s = apply_events es (snd (apply_event e s))"
  "apply_events (es @ ds) s = apply_events ds (apply_events es s)"
  by (simp_all add: apply_events_def)

lemma checkpoint_apply_event: "checkpoint (snd (apply_event e s)) = max (checkpoint s) (e_seq e)"
  by (simp add: apply_event_def)

lemma checkpoint_apply_events_ge: "checkpoint s \<le> checkpoint (apply_events es s)"
proof (induction es arbitrary: s)
  case (Cons e es)
  have "checkpoint s \<le> checkpoint (snd (apply_event e s))"
    by (simp add: checkpoint_apply_event)
  with Cons [of "snd (apply_event e s)"] show ?case by simp
qed simp

lemma checkpoint_apply_events_in:
  "e \<in> set es \<Longrightarrow> e_seq e \<le> checkpoint (apply_events es s)"
proof (induction es arbitrary: s)
  case (Cons d es)
  show ?case
  proof (cases "e = d")
    case True
    have "e_seq e \<le> checkpoint (snd (apply_event d s))"
      using True by (simp add: checkpoint_apply_event)
    also have "\<dots> \<le> checkpoint (apply_events es (snd (apply_event d s)))"
      by (rule checkpoint_apply_events_ge)
    finally show ?thesis by simp
  next
    case False
    with Cons show ?thesis by simp
  qed
qed simp

lemma apply_events_old:
  "\<forall>e \<in> set ds. e_seq e \<le> checkpoint s \<Longrightarrow> apply_events ds s = s"
  by (induction ds) (auto simp: apply_event_def)

section \<open>One message, however its arrival is reported\<close>

text \<open>A message sent by this client comes back as the REST response, as durable events (replayed
  after a reconnect, so any number of times), in any order.\<close>

datatype arrival = Response | EventWith int

definition created_event :: "client_message \<Rightarrow> int \<Rightarrow> durable_event" where
  "created_event d seq =
     \<lparr>e_seq = seq, e_type = js ''message.created'', e_occurred_at = m_created_at d,
      e_actor_id = m_actor_id d, e_chat_id = m_chat_id d, e_subject_id = m_id d, e_data = d\<rparr>"

fun arrive :: "client_message \<Rightarrow> arrival \<Rightarrow> messenger \<Rightarrow> messenger" where
  "arrive d Response s = reconcile d s"
| "arrive d (EventWith seq) s = snd (apply_event (created_event d seq) s)"

definition copies :: "jstring \<Rightarrow> client_message list \<Rightarrow> client_message list" where
  "copies cid items = filter (\<lambda>x. m_client_msg_id x = cid) items"

text \<open>In the chat's list the message \<open>d\<close> has one entry, \<open>x\<close>, and no other entry carries its ids.\<close>

definition sole_copy :: "client_message \<Rightarrow> client_message \<Rightarrow> client_message list \<Rightarrow> bool" where
  "sole_copy d x items \<longleftrightarrow>
     (\<exists>ys zs. items = ys @ x # zs \<and> same_message d x \<and>
        (\<forall>y \<in> set (ys @ zs). \<not> same_message d y \<and>
           message_key y \<notin> {m_id d, m_client_msg_id d}))"

lemma find_index_split:
  "p x \<Longrightarrow> \<forall>y \<in> set ys. \<not> p y \<Longrightarrow> find_index p (ys @ x # zs) = Some (length ys)"
  by (induction ys) auto

lemma map_at_length: "map_at (length ys) f (ys @ x # zs) = ys @ f x # zs"
  by (induction ys) auto

lemma deliver_sole_copy:
  assumes "sole_copy d x items"
  obtains ys zs where "deliver d items = ys @ spread_message x (d\<lparr>m_delivery := Val Sent\<rparr>) # zs"
    and "items = ys @ x # zs"
    and "\<forall>y \<in> set (ys @ zs). \<not> same_message d y \<and> message_key y \<notin> {m_id d, m_client_msg_id d}"
proof -
  from assms obtain ys zs where i: "items = ys @ x # zs" and x: "same_message d x"
    and o': "\<forall>y \<in> set (ys @ zs). \<not> same_message d y \<and> message_key y \<notin> {m_id d, m_client_msg_id d}"
    by (auto simp: sole_copy_def)
  have "find_index (same_message d) items = Some (length ys)"
    unfolding i by (rule find_index_split) (use x o' in auto)
  then have "deliver d items = ys @ spread_message x (d\<lparr>m_delivery := Val Sent\<rparr>) # zs"
    by (simp add: deliver_def i map_at_length)
  with i o' show ?thesis by (intro that)
qed

lemma sole_copy_perm:
  assumes "sole_copy d x items" and "mset items' = mset items"
  shows "sole_copy d x items'"
proof -
  from assms(1) obtain ys zs where i: "items = ys @ x # zs" and x: "same_message d x"
    and o': "\<forall>y \<in> set (ys @ zs). \<not> same_message d y \<and> message_key y \<notin> {m_id d, m_client_msg_id d}"
    by (auto simp: sole_copy_def)
  from assms(2) i have "x \<in> set items'" by (metis in_set_conv_decomp mset_eq_setD)
  then obtain us vs where i': "items' = us @ x # vs" by (meson split_list)
  with assms(2) i have "mset (us @ vs) = mset (ys @ zs)" by simp
  then have "set (us @ vs) = set (ys @ zs)" by (rule mset_eq_setD)
  with i' x o' show ?thesis unfolding sole_copy_def by blast
qed

lemma distinct_keys_replace:
  assumes "distinct (map message_key (ys @ x # zs))"
    and "message_key x' \<notin> message_key ` set (ys @ zs)"
  shows "distinct (map message_key (ys @ x' # zs))"
  using assms by auto

lemma sole_copy_deliver:
  assumes "list_ok items" and "sole_copy d x items" and "m_id d \<noteq> []"
  shows "sole_copy d (spread_message x (d\<lparr>m_delivery := Val Sent\<rparr>)) (uniqueSorted (deliver d items))"
proof -
  let ?x = "spread_message x (d\<lparr>m_delivery := Val Sent\<rparr>)"
  obtain ys zs where dl: "deliver d items = ys @ ?x # zs" and i: "items = ys @ x # zs"
    and o': "\<forall>y \<in> set (ys @ zs). \<not> same_message d y \<and> message_key y \<notin> {m_id d, m_client_msg_id d}"
    using deliver_sole_copy [OF assms(2)] .
  have key: "message_key ?x = m_id d" using assms(3) by (simp add: message_key_def)
  have "distinct (map message_key (ys @ ?x # zs))"
    by (rule distinct_keys_replace [of ys x zs]) (use assms(1) i o' key in \<open>auto simp: list_ok_def\<close>)
  then have m: "mset (uniqueSorted (deliver d items)) = mset (ys @ ?x # zs)"
    unfolding dl by (simp add: uniqueSorted_distinct)
  have "sole_copy d ?x (ys @ ?x # zs)"
    unfolding sole_copy_def using o' by (auto simp: same_message_def)
  then show ?thesis using m by (rule sole_copy_perm)
qed

lemma copies_sole_copy:
  assumes "sole_copy d x items" and "m_client_msg_id x = m_client_msg_id d"
  shows "copies (m_client_msg_id d) items = [x]"
proof -
  from assms(1) obtain ys zs where i: "items = ys @ x # zs"
    and o': "\<forall>y \<in> set (ys @ zs). \<not> same_message d y"
    by (auto simp: sole_copy_def)
  have "\<forall>y \<in> set ys. m_client_msg_id y \<noteq> m_client_msg_id d"
    and "\<forall>y \<in> set zs. m_client_msg_id y \<noteq> m_client_msg_id d"
    using o' by (auto simp: same_message_def)
  then have "filter (\<lambda>y. m_client_msg_id y = m_client_msg_id d) ys = []"
    and "filter (\<lambda>y. m_client_msg_id y = m_client_msg_id d) zs = []"
    by (auto simp: filter_empty_conv)
  with assms(2) show ?thesis by (simp add: copies_def i)
qed

text \<open>The state of one chat during the arrivals.\<close>

definition delivered_as :: "client_message \<Rightarrow> jstring \<Rightarrow> bool \<Rightarrow> messenger \<Rightarrow> bool" where
  "delivered_as d c sent s \<longleftrightarrow>
     list_ok (items_of (messages s) c) \<and>
     (\<exists>x. sole_copy d x (items_of (messages s) c) \<and> m_client_msg_id x = m_client_msg_id d \<and>
          (sent \<longrightarrow> m_id x = m_id d \<and> m_delivery x = Val Sent))"

lemma items_of_upd [simp]: "items_of (m(c \<mapsto> xs)) c' = (if c' = c then xs else items_of m c')"
  by (simp add: items_of_def)

lemma delivered_as_deliver:
  assumes "delivered_as d c sent s" and "m_id d \<noteq> []"
    and "items_of (messages t) c = uniqueSorted (deliver d (items_of (messages s) c))"
  shows "delivered_as d c True t"
proof -
  from assms(1) obtain x where l: "list_ok (items_of (messages s) c)"
    and x: "sole_copy d x (items_of (messages s) c)"
    by (auto simp: delivered_as_def)
  have "sole_copy d (spread_message x (d\<lparr>m_delivery := Val Sent\<rparr>)) (items_of (messages t) c)"
    unfolding assms(3) using l x assms(2) by (rule sole_copy_deliver)
  then show ?thesis
    unfolding delivered_as_def using assms(3)
    by (intro conjI exI [of _ "spread_message x (d\<lparr>m_delivery := Val Sent\<rparr>)"]) auto
qed

lemma delivered_as_mono: "delivered_as d c True s \<Longrightarrow> delivered_as d c sent s"
  by (auto simp: delivered_as_def)

lemma delivered_as_arrive:
  assumes "delivered_as d c sent s" and "m_id d \<noteq> []" and "m_chat_id d = Val c" and "c \<noteq> []"
    and "m_thread_root_id d = Undefined \<or> m_thread_root_id d = Null"
  shows "delivered_as d c (sent \<or> a = Response) (arrive d a s)"
proof (cases a)
  case Response
  have "items_of (messages (arrive d a s)) c = uniqueSorted (deliver d (items_of (messages s) c))"
    using Response assms(3) by (simp add: reconcile_def reconcileMessage_def)
  with assms(1,2) have "delivered_as d c True (arrive d a s)"
    by (rule delivered_as_deliver)
  then show ?thesis by (rule delivered_as_mono)
next
  case (EventWith seq)
  show ?thesis
  proof (cases "seq \<le> checkpoint s")
    case True
    with assms(1) EventWith show ?thesis by (simp add: apply_event_def created_event_def)
  next
    case False
    have "items_of (messages (arrive d a s)) c = uniqueSorted (deliver d (items_of (messages s) c))"
      using EventWith False assms(3-5)
      by (auto simp: apply_event_def created_event_def event_messages_def event_chat_def
          is_message_event_def count_thread_def)
    with assms(1,2) have "delivered_as d c True (arrive d a s)"
      by (rule delivered_as_deliver)
    then show ?thesis by (rule delivered_as_mono)
  qed
qed

lemma delivered_as_arrivals:
  assumes "delivered_as d c sent s" and "m_id d \<noteq> []" and "m_chat_id d = Val c" and "c \<noteq> []"
    and "m_thread_root_id d = Undefined \<or> m_thread_root_id d = Null"
  shows "delivered_as d c (sent \<or> Response \<in> set as) (fold (arrive d) as s)"
  using assms(1)
proof (induction as arbitrary: s sent)
  case (Cons a as)
  from delivered_as_arrive [OF Cons.prems assms(2-5), of a]
  have "delivered_as d c ((sent \<or> a = Response) \<or> Response \<in> set as) (fold (arrive d) as (arrive d a s))"
    by (rule Cons.IH)
  moreover have "((sent \<or> a = Response) \<or> Response \<in> set as) = (sent \<or> Response \<in> set (a # as))"
    by auto
  ultimately show ?case by simp
qed simp

lemma delivered_as_optimistic:
  assumes "store_ok s" and "m_chat_id o' = Val c"
    and "m_id o' = m_client_msg_id d" and "m_client_msg_id o' = m_client_msg_id d"
    and "m_client_msg_id d \<noteq> []"
    and fresh: "\<forall>y \<in> set (items_of (messages s) c).
      \<not> same_message d y \<and> message_key y \<notin> {m_id d, m_client_msg_id d}"
  shows "delivered_as d c False (optimistic o' s)"
proof -
  let ?xs = "items_of (messages s) c"
  have ok: "list_ok ?xs"
    using assms(1) by (auto simp: store_ok_def items_of_def list_ok_def split: option.split)
  have key: "message_key o' = m_client_msg_id d"
    using assms(3,5) by (simp add: message_key_def)
  have "distinct (map message_key (?xs @ [o']))"
    using ok fresh key by (auto simp: list_ok_def)
  then have m: "mset (uniqueSorted (?xs @ [o'])) = mset (?xs @ [o'])"
    by (simp only: uniqueSorted_distinct mset_sort)
  have "sole_copy d o' (?xs @ [o'])"
    unfolding sole_copy_def using fresh assms(4)
    by (intro exI [of _ ?xs] exI [of _ "[]"]) (auto simp: same_message_def)
  then have "sole_copy d o' (uniqueSorted (?xs @ [o']))"
    using m by (rule sole_copy_perm)
  then show ?thesis
    using assms(2,4) by (auto simp: delivered_as_def optimistic_def)
qed

section \<open>Reply counters\<close>

lemma set_uniqueSorted_distinct:
  "distinct (map message_key xs) \<Longrightarrow> set (uniqueSorted xs) = set xs"
  by (simp add: uniqueSorted_distinct)

lemma deliver_keeps:
  assumes "r \<in> set items" and "\<not> same_message d r"
  shows "r \<in> set (deliver d items)"
proof (cases "find_index (same_message d) items")
  case None
  with assms(1) show ?thesis by (simp add: deliver_def)
next
  case (Some i)
  from assms(1) obtain j where j: "j < length items" "items ! j = r"
    by (auto simp: in_set_conv_nth)
  from find_index_Some [OF Some] assms(2) j have "j \<noteq> i" by auto
  with Some j have "deliver d items ! j = r" and "j < length (deliver d items)"
    by (simp_all add: deliver_def Let_def nth_map_at)
  then show ?thesis using nth_mem by metis
qed

lemma message_key_bump [simp]: "message_key (bump_replies root k m) = message_key m"
  by (simp add: bump_replies_def message_key_def)

lemma count_thread_keys [simp]:
  "map message_key (count_thread t d xs) = map message_key xs"
  by (simp add: count_thread_def comp_def split: field.split)

definition counted_event :: "jstring \<Rightarrow> client_message \<Rightarrow> int \<Rightarrow> durable_event" where
  "counted_event t d seq = (created_event d seq)\<lparr>e_type := t\<rparr>"

lemma reply_event_counts:
  assumes "t = js ''message.created'' \<or> t = js ''message.deleted''" and "checkpoint s < seq"
    and "m_chat_id d = Val c" and "c \<noteq> []" and "m_thread_root_id d = Val root" and "root \<noteq> []"
    and "r \<in> set (items_of (messages s) c)" and "m_id r = root" and "\<not> same_message d r"
    and "distinct (map message_key (deliver d (items_of (messages s) c)))"
  shows "r\<lparr>m_thread_reply_count :=
            Val (max_zero (num_add (to_number (m_thread_reply_count r)) (thread_delta t)))\<rparr>
         \<in> set (items_of (messages (snd (apply_event (counted_event t d seq) s))) c)"
proof -
  let ?xs = "deliver d (items_of (messages s) c)"
  have "r \<in> set ?xs" using assms(7,9) by (rule deliver_keeps)
  moreover have "items_of (messages (snd (apply_event (counted_event t d seq) s))) c =
      uniqueSorted (map (bump_replies root (thread_delta t)) ?xs)"
    using assms(1-6) by (auto simp: apply_event_def counted_event_def created_event_def
        event_messages_def event_chat_def is_message_event_def count_thread_def)
  moreover have "distinct (map message_key (map (bump_replies root (thread_delta t)) ?xs))"
    using assms(10) by (simp add: comp_def)
  ultimately have "bump_replies root (thread_delta t) r
      \<in> set (items_of (messages (snd (apply_event (counted_event t d seq) s))) c)"
    by (simp only: set_uniqueSorted_distinct) simp
  then show ?thesis using assms(8) by (simp add: bump_replies_def)
qed

section \<open>Agent streams\<close>

text \<open>The frames a stream accepts from a delivery: those whose index exceeds every earlier one.\<close>

fun accepted :: "int option \<Rightarrow> stream_frame list \<Rightarrow> stream_frame list" where
  "accepted cur [] = []"
| "accepted cur (f # fs) =
     (case cur of
        None \<Rightarrow> f # accepted (Some (sf_index f)) fs
      | Some i \<Rightarrow> if i < sf_index f then f # accepted (Some (sf_index f)) fs else accepted cur fs)"

definition live_frame :: "int \<Rightarrow> jstring \<Rightarrow> stream_frame \<Rightarrow> bool" where
  "live_frame now sid f \<longleftrightarrow> sf_streamID f = sid \<and> \<not> sf_done f \<and> \<not> expired now (sf_expiresAt f)"

fun stream_text :: "jstring \<Rightarrow> stream_frame list \<Rightarrow> jstring" where
  "stream_text body [] = body"
| "stream_text body (f # fs) = stream_text (if sf_reset f then sf_delta f else body @ sf_delta f) fs"

lemma stream_text_append [simp]: "stream_text b (xs @ ys) = stream_text (stream_text b xs) ys"
  by (induction b xs rule: stream_text.induct) auto

lemma stream_text_no_reset:
  "\<forall>f \<in> set fs. \<not> sf_reset f \<Longrightarrow> stream_text b fs = b @ concat (map sf_delta fs)"
  by (induction fs arbitrary: b) auto

lemma stream_of_frame_simps [simp]:
  "ms_body (stream_of_frame f b) = b" "ms_index (stream_of_frame f b) = sf_index f"
  by (simp_all add: stream_of_frame_def)

text \<open>What a live frame does to its own stream.\<close>

definition extend_stream :: "stream_frame \<Rightarrow> message_stream option \<Rightarrow> message_stream option" where
  "extend_stream f cur =
     (case cur of
        None \<Rightarrow> Some (stream_of_frame f (sf_delta f))
      | Some c \<Rightarrow>
          if ms_index c < sf_index f
          then Some (stream_of_frame f (if sf_reset f then sf_delta f else ms_body c @ sf_delta f))
          else cur)"

lemma extend_stream_simps [simp]:
  "extend_stream f None = Some (stream_of_frame f (sf_delta f))"
  "extend_stream f (Some c) =
     (if ms_index c < sf_index f
      then Some (stream_of_frame f (if sf_reset f then sf_delta f else ms_body c @ sf_delta f))
      else Some c)"
  by (simp_all add: extend_stream_def)

lemma stream_update_live:
  "live_frame now sid f \<Longrightarrow> stream_update now f streams sid = extend_stream f (streams sid)"
  by (auto simp: stream_update_def live_frame_def Let_def split: option.split)

lemma fold_stream_update:
  "\<forall>f \<in> set fs. live_frame now sid f \<Longrightarrow>
     fold (stream_update now) fs streams sid = fold extend_stream fs (streams sid)"
  by (induction fs arbitrary: streams) (auto simp: stream_update_live)

lemma fold_extend_stream_Some:
  "fold extend_stream fs (Some c) =
     (case accepted (Some (ms_index c)) fs of
        [] \<Rightarrow> Some c
      | g # gs \<Rightarrow> Some (stream_of_frame (last (g # gs)) (stream_text (ms_body c) (g # gs))))"
proof (induction fs arbitrary: c)
  case (Cons f fs)
  show ?case
  proof (cases "ms_index c < sf_index f")
    case True
    then show ?thesis
      by (simp add: Cons split: list.split)
  next
    case False
    then show ?thesis by (simp add: Cons)
  qed
qed simp

lemma fold_extend_stream_None:
  "fold extend_stream fs None =
     (case accepted None fs of
        [] \<Rightarrow> None
      | g # gs \<Rightarrow> Some (stream_of_frame (last (g # gs)) (stream_text [] (g # gs))))"
proof (cases fs)
  case (Cons f fs')
  then show ?thesis
    by (simp add: fold_extend_stream_Some split: list.split)
qed simp

section \<open>Properties\<close>

text \<open>C1: In every state reached from a new store by any sequence of its operations, the messages of
  each chat are in sequence order and no two of them share a key.\<close>

theorem reachable_store_ok: "store_ok (fold store_step ops (createMessengerStore cp))"
  by (rule fold_store_step_ok) simp

text \<open>\<open>uniqueSorted\<close> returns the items in sequence order, one per key, each the left-to-right
  spread of the given items with that key; it loses no key and is idempotent.\<close>

theorem uniqueSorted_correct:
  "sorted (map m_created_seq (uniqueSorted items)) \<and>
   distinct (map message_key (uniqueSorted items)) \<and>
   set (uniqueSorted items) = {m. merged_at (message_key m) items = Some m} \<and>
   message_key ` set (uniqueSorted items) = message_key ` set items \<and>
   uniqueSorted (uniqueSorted items) = uniqueSorted items"
  by (intro conjI sorted_uniqueSorted distinct_keys_uniqueSorted set_uniqueSorted keys_uniqueSorted)
    (rule uniqueSorted_ok, rule list_ok_uniqueSorted)

text \<open>C2: Durable events take effect once: redelivering any events already received, at any later
  point of the stream, leaves the store as it would be without the redelivery.\<close>

theorem redelivered_events_ignored:
  assumes "set ds \<subseteq> set es"
  shows "apply_events (es @ ds @ fs) s = apply_events (es @ fs) s"
proof -
  have "\<forall>e \<in> set ds. e_seq e \<le> checkpoint (apply_events es s)"
    using assms checkpoint_apply_events_in by blast
  then show ?thesis by (simp add: apply_events_old)
qed

definition sample_message :: client_message where
  "sample_message =
     \<lparr>m_id = js ''m1'', m_chat_id = Val (js ''chat''), m_actor_id = js ''a'',
      m_client_msg_id = js ''k1'', m_body = js ''hi'', m_body_format = Markdown,
      m_reply_to_id = Undefined, m_thread_root_id = Undefined, m_version = 1,
      m_created_seq = 5, m_created_at = js ''2026-01-01T00:00:00Z'', m_edited_at = Undefined,
      m_deleted_at = Undefined, m_forwarded_from = Undefined, m_mentioned_actor_ids = [],
      m_thread_reply_count = Undefined, m_files = Undefined, m_delivery = Undefined,
      m_error_code = Undefined\<rparr>"

theorem redelivered_events_ignored_witness:
  "apply_events ([created_event sample_message 5] @ [created_event sample_message 5] @ [])
     (createMessengerStore 0) =
   apply_events ([created_event sample_message 5] @ []) (createMessengerStore 0)"
  by (rule redelivered_events_ignored) simp

text \<open>A message sent optimistically and then reported back, by the response of the request and by
  any number of durable events in any order, has exactly one entry in its chat; once the response
  has arrived that entry is the server's message, marked sent.\<close>

theorem sent_message_has_one_entry:
  assumes "store_ok s" and "m_chat_id o' = Val c"
    and "m_id o' = m_client_msg_id d" and "m_client_msg_id o' = m_client_msg_id d"
    and "m_client_msg_id d \<noteq> []" and "m_id d \<noteq> []" and "m_chat_id d = Val c" and "c \<noteq> []"
    and "m_thread_root_id d = Undefined \<or> m_thread_root_id d = Null"
    and "\<forall>y \<in> set (items_of (messages s) c).
      \<not> same_message d y \<and> message_key y \<notin> {m_id d, m_client_msg_id d}"
  shows "\<exists>x. copies (m_client_msg_id d)
               (items_of (messages (fold (arrive d) arrivals (optimistic o' s))) c) = [x] \<and>
             (Response \<in> set arrivals \<longrightarrow> m_id x = m_id d \<and> m_delivery x = Val Sent)"
proof -
  have "delivered_as d c False (optimistic o' s)"
    using assms(1-5,10) by (rule delivered_as_optimistic)
  then have "delivered_as d c (False \<or> Response \<in> set arrivals)
      (fold (arrive d) arrivals (optimistic o' s))"
    using assms(6-9) by (rule delivered_as_arrivals)
  then show ?thesis
    unfolding delivered_as_def by (auto dest: copies_sole_copy)
qed

theorem sent_message_has_one_entry_witness:
  "\<exists>x. copies (js ''k1'')
        (items_of (messages (fold (arrive sample_message) [EventWith 5, Response, EventWith 5]
          (optimistic (sample_message\<lparr>m_id := js ''k1''\<rparr>) (createMessengerStore 0)))) (js ''chat'')) = [x] \<and>
      (Response \<in> set [EventWith 5, Response, EventWith 5] \<longrightarrow>
        m_id x = js ''m1'' \<and> m_delivery x = Val Sent)"
  using sent_message_has_one_entry [of "createMessengerStore 0" "sample_message\<lparr>m_id := js ''k1''\<rparr>"
      "js ''chat''" sample_message "[EventWith 5, Response, EventWith 5]"]
  by (simp add: sample_message_def createMessengerStore_def items_of_def store_ok_def)

text \<open>A created reply adds one to the counter of its thread root and a deleted reply takes one
  away, never below zero, whenever the root's counter is a number.\<close>

theorem reply_counter_follows_events:
  assumes "t = js ''message.created'' \<or> t = js ''message.deleted''" and "checkpoint s < seq"
    and "m_chat_id d = Val c" and "c \<noteq> []" and "m_thread_root_id d = Val root" and "root \<noteq> []"
    and "r \<in> set (items_of (messages s) c)" and "m_id r = root" and "\<not> same_message d r"
    and "distinct (map message_key (deliver d (items_of (messages s) c)))"
    and "m_thread_reply_count r = Val (Num n)"
  shows "r\<lparr>m_thread_reply_count := Val (Num (max 0 (n + thread_delta t)))\<rparr>
         \<in> set (items_of (messages (snd (apply_event (counted_event t d seq) s))) c)"
  using reply_event_counts [OF assms(1-10)] assms(11) by simp

definition sample_reply :: client_message where
  "sample_reply = sample_message\<lparr>m_id := js ''m2'', m_client_msg_id := js ''k2'',
     m_thread_root_id := Val (js ''m1''), m_created_seq := 6\<rparr>"

theorem reply_counter_follows_events_witness:
  "sample_message\<lparr>m_thread_reply_count := Val (Num (max 0 (3 + thread_delta (js ''message.created''))))\<rparr>
     \<in> set (items_of (messages (snd (apply_event (counted_event (js ''message.created'') sample_reply 6)
          (replaceMessages (js ''chat'') [sample_message\<lparr>m_thread_reply_count := Val (Num 3)\<rparr>]
            (createMessengerStore 0))))) (js ''chat''))"
  using reply_counter_follows_events [of "js ''message.created''"
      "replaceMessages (js ''chat'') [sample_message\<lparr>m_thread_reply_count := Val (Num 3)\<rparr>]
         (createMessengerStore 0)" 6 sample_reply "js ''chat''" "js ''m1''"
      "sample_message\<lparr>m_thread_reply_count := Val (Num 3)\<rparr>" 3]
  by (simp add: sample_message_def sample_reply_def createMessengerStore_def replaceMessages_def
      uniqueSorted_def message_key_def same_message_def deliver_def)

text \<open>The event log hydrates a message event without \<open>thread_reply_count\<close>, so a thread root that
  arrived as an event has no counter and the first reply to it makes the counter NaN.\<close>

theorem live_thread_root_counter_is_NaN:
  "map m_thread_reply_count
     (items_of (messages (apply_events [created_event sample_message 5, created_event sample_reply 6]
        (createMessengerStore 0))) (js ''chat'')) = [Val NaN, Undefined]"
  by code_simp

text \<open>The body of an agent stream is the text since its last reset frame, whatever stale or
  repeated frames the delivery mixes in: a frame counts only when its index exceeds all before it.\<close>

theorem stream_body_reassembled:
  assumes "\<forall>f \<in> set ds. live_frame now sid f" and "streams sid = None"
    and "accepted None ds = pre @ r # post" and "sf_reset r" and "\<forall>f \<in> set post. \<not> sf_reset f"
  shows "map_option ms_body (fold (stream_update now) ds streams sid) =
         Some (sf_delta r @ concat (map sf_delta post))"
proof -
  obtain g gs where g: "accepted None ds = g # gs"
    unfolding assms(3) by (cases pre) auto
  have "fold (stream_update now) ds streams sid =
      Some (stream_of_frame (last (g # gs)) (stream_text [] (g # gs)))"
    using g by (simp add: fold_stream_update [OF assms(1)] assms(2) fold_extend_stream_None)
  moreover have "stream_text [] (g # gs) = sf_delta r @ concat (map sf_delta post)"
    using assms(4,5) by (simp add: g [symmetric] assms(3) stream_text_no_reset)
  ultimately show ?thesis by simp
qed

definition sample_frame :: "int \<Rightarrow> string \<Rightarrow> bool \<Rightarrow> stream_frame" where
  "sample_frame i d r =
     \<lparr>sf_streamID = js ''s'', sf_runID = js ''run'', sf_actorID = js ''a'', sf_chatID = js ''chat'',
      sf_threadRootID = None, sf_index = i, sf_expiresAt = js ''2099-01-01T00:00:00Z'',
      sf_delta = js d, sf_reset = r, sf_done = False\<rparr>"

theorem stream_body_reassembled_witness:
  "map_option ms_body (fold (stream_update 0)
     [sample_frame 1 ''Hel'' True, sample_frame 2 ''lo'' False, sample_frame 1 ''stale'' False]
     Map.empty (js ''s'')) = Some (js ''Hello'')"
proof -
  have e: "expired 0 (js ''2099-01-01T00:00:00Z'') = False" by code_simp
  show ?thesis
    using stream_body_reassembled [of "[sample_frame 1 ''Hel'' True, sample_frame 2 ''lo'' False,
        sample_frame 1 ''stale'' False]" 0 "js ''s''" Map.empty "[]" "sample_frame 1 ''Hel'' True"
        "[sample_frame 2 ''lo'' False]"]
    by (simp add: sample_frame_def live_frame_def e [simplified])
qed

end
