(* ===== verification/Links.thy ===== *)
theory Links
  imports Prelude
begin

unbundle bit_operations_syntax

text \<open>
  Compact deep links, \<open>packages/core/src/links.ts\<close>: a UUID as a 22-character URL-safe key and back.
  A thrown \<open>Error\<close> is \<open>None\<close>. The code's bytes and 6-bit groups are \<open>8 word\<close>: every mask is applied
  before the shift, so no bit leaves the low eight and the source's 32-bit shifts agree.

  The lemmas show that \<open>expandUUID\<close> inverts \<open>compactUUID\<close> and the shape of the key.
\<close>

type_synonym byte = "8 word"

definition alphabet :: jstring where
  "alphabet = js ''ABCDEFGHIJKLMNOPQRSTUVWXYZabcdefghijklmnopqrstuvwxyz0123456789-_''"

definition letter :: "byte \<Rightarrow> cunit" where
  "letter w = alphabet ! unat w"

text \<open>\<open>alphabet.indexOf(character)\<close>; the callers have checked that it is there.\<close>

definition letter_index :: "cunit \<Rightarrow> byte" where
  "letter_index c = (case find_index (\<lambda>x. x = c) alphabet of Some n \<Rightarrow> of_nat n | None \<Rightarrow> - 1)"

definition is_lower_hex :: "cunit \<Rightarrow> bool" where
  "is_lower_hex c \<longleftrightarrow> is_digit c \<or> (97 \<le> c \<and> c \<le> 102)"

definition hex_value :: "cunit \<Rightarrow> byte" where
  "hex_value c = (if is_digit c then ucast c - 48 else ucast c - 87)"

definition hex_digit :: "byte \<Rightarrow> cunit" where
  "hex_digit w = (if w < 10 then ucast w + 48 else ucast w + 87)"

text \<open>\<open>Number.parseInt(hex.slice(2 * i, 2 * i + 2), 16)\<close> for each \<open>i\<close>.\<close>

fun hex_bytes :: "jstring \<Rightarrow> byte list" where
  "hex_bytes (a # b # rest) = (push_bit 4 (hex_value a) OR hex_value b) # hex_bytes rest"
| "hex_bytes _ = []"

text \<open>The four 6-bit groups of three bytes.\<close>

definition sextet1 :: "byte \<Rightarrow> byte" where
  "sextet1 left = drop_bit 2 left"

definition sextet2 :: "byte \<Rightarrow> byte \<Rightarrow> byte" where
  "sextet2 left middle = push_bit 4 (left AND 3) OR drop_bit 4 middle"

definition sextet3 :: "byte \<Rightarrow> byte \<Rightarrow> byte" where
  "sextet3 middle right = push_bit 2 (middle AND 15) OR drop_bit 6 right"

definition sextet4 :: "byte \<Rightarrow> byte" where
  "sextet4 right = right AND 63"

text \<open>The loop over groups of three bytes; the last group may be short, a missing byte reads as 0.\<close>

fun compact_loop :: "byte list \<Rightarrow> jstring" where
  "compact_loop [] = []"
| "compact_loop [left] = [letter (sextet1 left), letter (sextet2 left 0)]"
| "compact_loop [left, middle] =
     [letter (sextet1 left), letter (sextet2 left middle), letter (sextet3 middle 0)]"
| "compact_loop (left # middle # right # rest) =
     letter (sextet1 left) # letter (sextet2 left middle) # letter (sextet3 middle right) #
     letter (sextet4 right) # compact_loop rest"

definition compactUUID :: "jstring \<Rightarrow> jstring option" where
  "compactUUID value =
     (let hex = to_lower (filter (\<lambda>c. c \<noteq> ch CHR ''-'') value) in
      if length hex = 32 \<and> list_all is_lower_hex hex
      then Some (compact_loop (hex_bytes hex)) else None)"

text \<open>The three bytes of four 6-bit groups, and the loop over chunks of four characters.\<close>

definition octet1 :: "byte \<Rightarrow> byte \<Rightarrow> byte" where
  "octet1 a b = push_bit 2 a OR drop_bit 4 b"

definition octet2 :: "byte \<Rightarrow> byte \<Rightarrow> byte" where
  "octet2 b c = push_bit 4 (b AND 15) OR drop_bit 2 c"

definition octet3 :: "byte \<Rightarrow> byte \<Rightarrow> byte" where
  "octet3 c d = push_bit 6 (c AND 3) OR d"

fun expand_loop :: "byte list \<Rightarrow> byte list" where
  "expand_loop [] = []"
| "expand_loop [a] = [octet1 a 0]"
| "expand_loop [a, b] = [octet1 a b]"
| "expand_loop [a, b, c] = [octet1 a b, octet2 b c]"
| "expand_loop (a # b # c # d # rest) = octet1 a b # octet2 b c # octet3 c d # expand_loop rest"

definition is_key_char :: "cunit \<Rightarrow> bool" where
  "is_key_char c \<longleftrightarrow> is_alnum c \<or> c = ch CHR ''_'' \<or> c = ch CHR ''-''"

definition hex_of_byte :: "byte \<Rightarrow> jstring" where
  "hex_of_byte w = [hex_digit (drop_bit 4 w), hex_digit (w AND 15)]"

text \<open>The template string that puts the dashes in.\<close>

definition format_uuid :: "jstring \<Rightarrow> jstring" where
  "format_uuid hex =
     js_slice hex 0 8 @ js ''-'' @ js_slice hex 8 12 @ js ''-'' @ js_slice hex 12 16 @ js ''-'' @
     js_slice hex 16 20 @ js ''-'' @ js_slice_from hex 20"

definition expandUUID :: "jstring \<Rightarrow> jstring option" where
  "expandUUID value =
     (if length value = 22 \<and> list_all is_key_char value
      then let bytes = expand_loop (map letter_index value) in
        (if length bytes = 16 then Some (format_uuid (concat (map hex_of_byte bytes))) else None)
      else None)"

section \<open>The alphabet and the hex digits\<close>

lemma word8_less_cases:
  fixes w :: byte
  assumes "w < of_nat n" and "n \<le> 255"
  shows "\<exists>k < n. w = of_nat k"
proof (intro exI conjI)
  have "unat w < unat (of_nat n :: byte)" using assms(1) by (simp add: word_less_nat_alt)
  also have "\<dots> = n" using assms(2) by (simp add: unat_of_nat)
  finally show "unat w < n" .
  show "w = of_nat (unat w)" by simp
qed

lemma all_letters: "list_all (\<lambda>k. letter_index (letter (of_nat k)) = of_nat k) [0..<64]"
  by code_simp

lemma letter_index_letter: "w < 64 \<Longrightarrow> letter_index (letter w) = w"
  using word8_less_cases [of w 64] all_letters by (auto simp: list_all_iff)

lemma all_letters_key: "list_all (\<lambda>k. is_key_char (letter (of_nat k))) [0..<64]"
  by code_simp

lemma is_key_char_letter: "w < 64 \<Longrightarrow> is_key_char (letter w)"
  using word8_less_cases [of w 64] all_letters_key by (auto simp: list_all_iff)

lemma all_hex_digits:
  "list_all (\<lambda>k. let c = word_of_nat k in
     is_lower_hex c \<longrightarrow> hex_digit (hex_value c) = c \<and> hex_value c < 16) [0..<103]"
  by code_simp

lemma is_lower_hex_bound: "is_lower_hex c \<Longrightarrow> unat c < 103"
  by (auto simp: is_lower_hex_def is_digit_def word_le_nat_alt)

lemma hex_value_correct:
  assumes "is_lower_hex c"
  shows "hex_digit (hex_value c) = c \<and> hex_value c < 16"
  using all_hex_digits is_lower_hex_bound [OF assms] assms
  by (auto simp: list_all_iff Let_def dest!: bspec [of _ _ "unat c"])

section \<open>Bits\<close>

lemma mask_less_64: "(w :: byte) AND 63 < 64"
  by (rule order.strict_trans1 [OF word_and_le1]) simp

lemma bit_mask_numerals:
  "bit (3 :: byte) n \<longleftrightarrow> n < 2" "bit (15 :: byte) n \<longleftrightarrow> n < 4" "bit (63 :: byte) n \<longleftrightarrow> n < 6"
proof -
  have m: "(3 :: byte) = mask 2" "(15 :: byte) = mask 4" "(63 :: byte) = mask 6"
    by (simp_all add: mask_eq_exp_minus_1)
  show "bit (3 :: byte) n \<longleftrightarrow> n < 2" unfolding m(1) bit_mask_iff by auto
  show "bit (15 :: byte) n \<longleftrightarrow> n < 4" unfolding m(2) bit_mask_iff by auto
  show "bit (63 :: byte) n \<longleftrightarrow> n < 6" unfolding m(3) bit_mask_iff by auto
qed

lemma less_8_cases:
  "n < 8 \<longleftrightarrow> n = 0 \<or> n = Suc 0 \<or> n = Suc (Suc 0) \<or> n = Suc (Suc (Suc 0)) \<or>
     n = Suc (Suc (Suc (Suc 0))) \<or> n = Suc (Suc (Suc (Suc (Suc 0)))) \<or>
     n = Suc (Suc (Suc (Suc (Suc (Suc 0))))) \<or> n = Suc (Suc (Suc (Suc (Suc (Suc (Suc 0))))))"
  by auto

lemma octets_of_sextets:
  "octet1 (sextet1 l) (sextet2 l m) = l"
  "octet2 (sextet2 l m) (sextet3 m r) = m"
  "octet3 (sextet3 m r) (sextet4 r) = r"
  unfolding octet1_def octet2_def octet3_def sextet1_def sextet2_def sextet3_def sextet4_def
  by (rule bit_word_eqI; auto simp: less_8_cases bit_simps bit_mask_numerals;
      simp add: eval_nat_numeral)+

lemma sextet_below_64:
  "sextet1 l < 64" "sextet2 l m < 64" "sextet3 m r < 64" "sextet4 r < 64"
proof -
  have h: "\<not> bit w n" if "8 \<le> n" for w :: byte and n
    using that bit_imp_le_length [of w n] by auto
  have "sextet1 l AND 63 = sextet1 l" "sextet2 l m AND 63 = sextet2 l m"
    "sextet3 m r AND 63 = sextet3 m r"
    unfolding sextet1_def sextet2_def sextet3_def
    by (rule bit_word_eqI; auto simp: less_8_cases bit_simps bit_mask_numerals h)+
  then show "sextet1 l < 64" "sextet2 l m < 64" "sextet3 m r < 64"
    by (metis mask_less_64)+
  show "sextet4 r < 64" by (simp add: sextet4_def mask_less_64)
qed

lemma all_nibbles:
  "list_all (\<lambda>a. list_all (\<lambda>b. hex_of_byte (push_bit 4 (of_nat a) OR of_nat b) =
      [hex_digit (of_nat a), hex_digit (of_nat b)]) [0..<16]) [0..<16]"
  by code_simp

lemma hex_of_byte_nibbles:
  assumes "a < 16" and "b < 16"
  shows "hex_of_byte (push_bit 4 a OR b) = [hex_digit a, hex_digit b]"
  using all_nibbles word8_less_cases [of a 16] word8_less_cases [of b 16] assms
  by (auto simp: list_all_iff)

section \<open>The round trip\<close>

lemma hex_of_hex_bytes:
  "even (length hex) \<Longrightarrow> list_all is_lower_hex hex \<Longrightarrow>
     concat (map hex_of_byte (hex_bytes hex)) = hex"
  by (induction hex rule: hex_bytes.induct)
    (auto simp: hex_of_byte_nibbles hex_value_correct)

lemma length_hex_bytes: "length (hex_bytes hex) = length hex div 2"
  by (induction hex rule: hex_bytes.induct) auto

lemma length_compact_loop: "length (compact_loop bs) = (4 * length bs + 2) div 3"
  by (induction bs rule: compact_loop.induct) auto

lemma compact_loop_chars: "list_all is_key_char (compact_loop bs)"
  by (induction bs rule: compact_loop.induct) (auto simp: sextet_below_64 intro!: is_key_char_letter)

lemma expand_compact_loop: "expand_loop (map letter_index (compact_loop bs)) = bs"
  by (induction bs rule: compact_loop.induct)
    (auto simp: letter_index_letter sextet_below_64 octets_of_sextets)

definition undash :: "jstring \<Rightarrow> jstring" where
  "undash value = to_lower (filter (\<lambda>c. c \<noteq> ch CHR ''-'') value)"

lemma compactUUID_Some:
  "compactUUID value = Some key \<longleftrightarrow>
     length (undash value) = 32 \<and> list_all is_lower_hex (undash value) \<and>
     key = compact_loop (hex_bytes (undash value))"
  by (auto simp: compactUUID_def undash_def Let_def)

text \<open>Expanding a compacted UUID gives the UUID back, in lower case with the dashes of the
  canonical form, and the key in between has 22 URL-safe characters.\<close>

theorem expand_compact_roundtrip:
  assumes "compactUUID value = Some key"
  shows "expandUUID key = Some (format_uuid (undash value)) \<and> length key = 22 \<and>
         list_all is_key_char key"
proof -
  from assms have h: "length (undash value) = 32" "list_all is_lower_hex (undash value)"
    and key: "key = compact_loop (hex_bytes (undash value))"
    by (auto simp: compactUUID_Some)
  have len: "length key = 22" using h(1) by (simp add: key length_compact_loop length_hex_bytes)
  have chars: "list_all is_key_char key" by (simp add: key compact_loop_chars)
  have "expand_loop (map letter_index key) = hex_bytes (undash value)"
    by (simp add: key expand_compact_loop)
  moreover have "concat (map hex_of_byte (hex_bytes (undash value))) = undash value"
    using h by (intro hex_of_hex_bytes) auto
  ultimately have "expandUUID key = Some (format_uuid (undash value))"
    using len chars h(1) by (simp add: expandUUID_def Let_def length_hex_bytes)
  with len chars show ?thesis by blast
qed

lemma zero_digits:
  "hex_value (ch CHR ''0'') = 0" "letter 0 = ch CHR ''A''" "letter_index (ch CHR ''A'') = 0"
  "letter_index (ch CHR ''B'') = 1" "hex_of_byte 0 = js ''00''"
  "sextet1 0 = 0" "sextet2 0 0 = 0" "sextet3 0 0 = 0" "sextet4 0 = 0"
  "octet1 0 0 = 0" "octet2 0 0 = 0" "octet3 0 0 = 0" "octet1 0 1 = 0"
  by code_simp+

theorem expand_compact_roundtrip_witness:
  "expandUUID (js ''AAAAAAAAAAAAAAAAAAAAAA'') =
     Some (format_uuid (undash (js ''00000000-0000-0000-0000-000000000000'')))"
  using expand_compact_roundtrip
    [of "js ''00000000-0000-0000-0000-000000000000''" "js ''AAAAAAAAAAAAAAAAAAAAAA''"]
  by (simp add: compactUUID_Some undash_def to_lower_def lower_unit_def is_upper_def
      is_lower_hex_def is_digit_def zero_digits [simplified])

text \<open>The last character of a key has four bits that \<open>expandUUID\<close> never reads, so two different
  keys expand to one UUID.\<close>

lemma expand_not_injective:
  "expandUUID (js ''AAAAAAAAAAAAAAAAAAAAAA'') = expandUUID (js ''AAAAAAAAAAAAAAAAAAAAAB'') \<and>
   expandUUID (js ''AAAAAAAAAAAAAAAAAAAAAB'') \<noteq> None"
  by (simp add: expandUUID_def is_key_char_def is_alnum_def is_upper_def is_lower_def is_digit_def
      zero_digits [simplified])

end
