(* ===== verification/Mentions.thy ===== *)
theory Mentions
  imports Prelude
begin

text \<open>
  Structured mentions, \<open>packages/core/src/mentions.ts\<close>. A message body holds
  \<open>@[label](actorID)\<close>; the composer edits a draft whose text shows \<open>@label\<close> and which remembers
  where each mention stands. The pattern
  \<open>/@\[([^\]]+)\]\(([0-9a-f-]{36})\)/gi\<close> is deterministic: the label ends at the first \<open>]\<close>, so
  matching at a position is a function, and \<open>matchAll\<close> scans for the leftmost match.

  The lemmas show that decoding and encoding are inverse on every body, and that editing the text
  and inserting a mention keep each remembered range on its label.
\<close>

record mention_ref =
  mr_actorID :: jstring
  mr_label :: jstring
  mr_start :: int
  mr_end :: int

record mention_draft =
  md_text :: jstring
  md_mentions :: "mention_ref list"

section \<open>The pattern\<close>

definition is_uuid_char :: "cunit \<Rightarrow> bool" where
  "is_uuid_char c \<longleftrightarrow> is_hex c \<or> c = ch CHR ''-''"

text \<open>The match of \<open>mentionPattern\<close> at the start of a string: label, actor and length.\<close>

definition mention_at :: "jstring \<Rightarrow> (jstring \<times> jstring \<times> nat) option" where
  "mention_at s =
     (let label = takeWhile (\<lambda>c. c \<noteq> ch CHR '']'') (drop 2 s);
          rest = drop (2 + length label) s;
          actor = take 36 (drop 2 rest)
      in if starts_with (js ''@['') s \<and> label \<noteq> [] \<and> starts_with (js '']('') rest \<and>
            length actor = 36 \<and> list_all is_uuid_char actor \<and> starts_with (js '')'') (drop 38 rest)
         then Some (label, actor, length label + 41) else None)"

record mention_match =
  mm_index :: nat
  mm_length :: nat
  mm_label :: jstring
  mm_actor :: jstring

fun match_all :: "nat \<Rightarrow> jstring \<Rightarrow> mention_match list" where
  "match_all pos [] = []"
| "match_all pos (c # cs) =
     (case mention_at (c # cs) of
        None \<Rightarrow> match_all (pos + 1) cs
      | Some (label, actor, n) \<Rightarrow>
          \<lparr>mm_index = pos, mm_length = n, mm_label = label, mm_actor = actor\<rparr> #
            match_all (pos + n) (drop (n - 1) cs))"

section \<open>Decoding and encoding\<close>

definition visible :: "jstring \<Rightarrow> jstring" where
  "visible label = js ''@'' @ label"

definition decode_step ::
  "jstring \<Rightarrow> mention_match \<Rightarrow> jstring \<times> int \<times> mention_ref list \<Rightarrow> jstring \<times> int \<times> mention_ref list"
where
  "decode_step source m st =
     (case st of (text, cursor, mentions) \<Rightarrow>
        let text1 = text @ js_slice source cursor (int (mm_index m));
            start = int (length text1)
        in (text1 @ visible (mm_label m),
            int (mm_index m + mm_length m),
            mentions @ [\<lparr>mr_actorID = mm_actor m, mr_label = mm_label m, mr_start = start,
                         mr_end = start + int (length (visible (mm_label m)))\<rparr>]))"

definition decodeMentions :: "jstring \<Rightarrow> mention_draft" where
  "decodeMentions source =
     (case fold (decode_step source) (match_all 0 source) ([], 0, []) of
        (text, cursor, mentions) \<Rightarrow>
          \<lparr>md_text = text @ js_slice_from source cursor, md_mentions = mentions\<rparr>)"

text \<open>\<open>normalizedReferences\<close>: the filter compares with the element before in the sorted list, kept or
  not.\<close>

definition ref_shown :: "jstring \<Rightarrow> mention_ref \<Rightarrow> bool" where
  "ref_shown text m \<longleftrightarrow>
     0 \<le> mr_start m \<and> mr_end m \<le> int (length text) \<and> mr_start m < mr_end m \<and>
     js_slice text (mr_start m) (mr_end m) = visible (mr_label m)"

fun filter_refs :: "jstring \<Rightarrow> mention_ref option \<Rightarrow> mention_ref list \<Rightarrow> mention_ref list" where
  "filter_refs text prev [] = []"
| "filter_refs text prev (m # ms) =
     (if ref_shown text m \<and> (case prev of None \<Rightarrow> True | Some p \<Rightarrow> mr_end p \<le> mr_start m)
      then m # filter_refs text (Some m) ms else filter_refs text (Some m) ms)"

definition normalizedReferences :: "mention_draft \<Rightarrow> mention_ref list" where
  "normalizedReferences d = filter_refs (md_text d) None (sort_key mr_start (md_mentions d))"

definition raw_mention :: "mention_ref \<Rightarrow> jstring" where
  "raw_mention m = js ''@['' @ mr_label m @ js '']('' @ mr_actorID m @ js '')''"

fun encode_loop :: "jstring \<Rightarrow> int \<Rightarrow> mention_ref list \<Rightarrow> jstring" where
  "encode_loop text cursor [] = js_slice_from text cursor"
| "encode_loop text cursor (m # ms) =
     js_slice text cursor (mr_start m) @ raw_mention m @ encode_loop text (mr_end m) ms"

definition encodeMentions :: "mention_draft \<Rightarrow> jstring" where
  "encodeMentions d = encode_loop (md_text d) 0 (normalizedReferences d)"

definition mentionedActorIDs :: "jstring \<Rightarrow> jstring list" where
  "mentionedActorIDs source = js_set [] (map mr_actorID (md_mentions (decodeMentions source)))"

section \<open>Editing\<close>

fun common_prefix :: "jstring \<Rightarrow> jstring \<Rightarrow> nat" where
  "common_prefix (a # as) (b # bs) = (if a = b then Suc (common_prefix as bs) else 0)"
| "common_prefix _ _ = 0"

text \<open>The second loop of \<open>updateMentionText\<close>: both ends move left while they agree and stay right of
  the prefix.\<close>

fun suffix_loop :: "jstring \<Rightarrow> jstring \<Rightarrow> nat \<Rightarrow> nat \<Rightarrow> nat \<Rightarrow> nat \<times> nat" where
  "suffix_loop old new p (Suc i) (Suc j) =
     (if p < Suc i \<and> p < Suc j \<and> old ! i = new ! j then suffix_loop old new p i j
      else (Suc i, Suc j))"
| "suffix_loop old new p i j = (i, j)"

definition shift_ref :: "int \<Rightarrow> mention_ref \<Rightarrow> mention_ref" where
  "shift_ref d m = m\<lparr>mr_start := mr_start m + d, mr_end := mr_end m + d\<rparr>"

definition updateMentionText :: "mention_draft \<Rightarrow> jstring \<Rightarrow> mention_draft" where
  "updateMentionText previous text =
     (if text = md_text previous then previous
      else
        let prefix = common_prefix (md_text previous) text;
            (oldSuffix, newSuffix) =
              suffix_loop (md_text previous) text prefix (length (md_text previous)) (length text);
            shift = int newSuffix - int oldSuffix;
            keep = (\<lambda>m. if mr_end m \<le> int prefix then [m]
                        else if int oldSuffix \<le> mr_start m then [shift_ref shift m] else [])
        in \<lparr>md_text = text, md_mentions = concat (map keep (md_mentions previous))\<rparr>)"

definition is_label_break :: "cunit \<Rightarrow> bool" where
  "is_label_break c \<longleftrightarrow> c = ch CHR '']'' \<or> c = 13 \<or> c = 10"

text \<open>\<open>replace(/[\]\r\n]+/g, " ")\<close>: each run becomes one space.\<close>

fun replace_breaks :: "bool \<Rightarrow> jstring \<Rightarrow> jstring" where
  "replace_breaks inside [] = []"
| "replace_breaks inside (c # cs) =
     (if is_label_break c then (if inside then [] else js '' '') @ replace_breaks True cs
      else c # replace_breaks False cs)"

definition insertMention ::
  "mention_draft \<Rightarrow> int \<Rightarrow> int \<Rightarrow> jstring \<Rightarrow> jstring \<Rightarrow> mention_draft" where
  "insertMention draft start stop actorID rawLabel =
     (let label = js_trim (replace_breaks False rawLabel);
          vis = visible label;
          text = js_slice (md_text draft) 0 start @ vis @ js '' '' @ js_slice_from (md_text draft) stop;
          shift = int (length vis) + 1 - (stop - start);
          kept = map (\<lambda>m. if stop \<le> mr_start m then shift_ref shift m else m)
                   (filter (\<lambda>m. mr_end m \<le> start \<or> stop \<le> mr_start m) (md_mentions draft));
          new = \<lparr>mr_actorID = actorID, mr_label = label, mr_start = start,
                 mr_end = start + int (length vis)\<rparr>
      in \<lparr>md_text = text, md_mentions = sort_key mr_start (kept @ [new])\<rparr>)"

section \<open>Encoding inverts decoding\<close>

text \<open>Matches that follow one another in the source, the first not before \<open>pos\<close>.\<close>

definition raw_match :: "mention_match \<Rightarrow> jstring" where
  "raw_match m = js ''@['' @ mm_label m @ js '']('' @ mm_actor m @ js '')''"

fun tiles :: "jstring \<Rightarrow> nat \<Rightarrow> mention_match list \<Rightarrow> bool" where
  "tiles s pos [] \<longleftrightarrow> pos \<le> length s"
| "tiles s pos (m # ms) \<longleftrightarrow>
     pos \<le> mm_index m \<and> mm_index m + mm_length m \<le> length s \<and>
     take (mm_length m) (drop (mm_index m) s) = raw_match m \<and>
     tiles s (mm_index m + mm_length m) ms"

lemma tiles_le: "tiles s pos ms \<Longrightarrow> pos \<le> length s"
  by (induction s pos ms rule: tiles.induct) auto

lemma tiles_mono: "tiles s pos ms \<Longrightarrow> pos' \<le> pos \<Longrightarrow> tiles s pos' ms"
  by (cases ms) auto

lemma mention_at_prefix:
  assumes "mention_at s = Some (label, actor, n)"
  shows "n \<le> length s" and "0 < n"
    and "take n s = js ''@['' @ label @ js '']('' @ actor @ js '')''"
proof -
  define rest where "rest = drop (2 + length label) s"
  have label: "label = takeWhile (\<lambda>c. c \<noteq> ch CHR '']'') (drop 2 s)"
    and actor: "actor = take 36 (drop 2 rest)" and n: "n = length label + 41"
    and open1: "starts_with (js ''@['') s" and open2: "starts_with (js '']('') rest"
    and len: "length actor = 36" and close: "starts_with (js '')'') (drop 38 rest)"
    using assms by (auto simp: mention_at_def Let_def rest_def split: if_splits)
  obtain t where t: "drop 38 rest = js '')'' @ t" using starts_withE [OF close] by blast
  have rest2: "rest = js '']('' @ actor @ js '')'' @ t"
  proof -
    obtain r where r: "rest = js '']('' @ r" using starts_withE [OF open2] by blast
    then have "r = take 36 r @ drop 36 r" by simp
    moreover have "take 36 r = actor" using r actor by simp
    moreover have "drop 36 r = js '')'' @ t" using r t by simp
    ultimately show ?thesis using r by simp
  qed
  have s: "s = js ''@['' @ label @ rest"
  proof -
    obtain r where r: "s = js ''@['' @ r" using starts_withE [OF open1] by blast
    then have "label = takeWhile (\<lambda>c. c \<noteq> ch CHR '']'') r" using label by simp
    moreover from this have "rest = dropWhile (\<lambda>c. c \<noteq> ch CHR '']'') r"
      using r by (simp add: rest_def dropWhile_eq_drop)
    ultimately show ?thesis using r by simp
  qed
  show "0 < n" using n by simp
  show "n \<le> length s" using s rest2 n len by simp
  define raw where "raw = js ''@['' @ label @ js '']('' @ actor @ js '')''"
  have "s = raw @ t" and "length raw = n" using s rest2 n len by (simp_all add: raw_def)
  then have "take n s = raw" by auto
  then show "take n s = js ''@['' @ label @ js '']('' @ actor @ js '')''"
    by (simp only: raw_def)
qed


lemma tiles_match_all:
  assumes "drop pos s = cs" and "pos \<le> length s"
  shows "tiles s pos (match_all pos cs)"
  using assms
proof (induction pos cs rule: match_all.induct)
  case (1 pos)
  then show ?case by simp
next
  case (2 pos c cs)
  then have tail: "drop (pos + k + 1) s = drop k cs" for k
    by (metis add.commute add_Suc_right drop_drop drop_Suc_Cons plus_1_eq_Suc)
  have len: "length (c # cs) = length s - pos" using 2(3) by (metis length_drop)
  show ?case
  proof (cases "mention_at (c # cs)")
    case None
    have "tiles s (pos + 1) (match_all (pos + 1) cs)"
      using 2(1) [OF None] tail [of 0] len by simp
    with None show ?thesis using tiles_mono by fastforce
  next
    case (Some t)
    obtain label actor n where t: "t = (label, actor, n)" by (cases t)
    note m = mention_at_prefix [OF Some [unfolded t]]
    have "tiles s (pos + n) (match_all (pos + n) (drop (n - 1) cs))"
      using 2(2) [OF Some t [symmetric] refl] tail [of "n - 1"] m(1,2) len by simp
    with m len 2(3) show ?thesis by (simp add: Some t raw_match_def)
  qed
qed

text \<open>What \<open>decodeMentions\<close> accumulates, by recursion on the matches.\<close>

fun dec_text :: "jstring \<Rightarrow> nat \<Rightarrow> mention_match list \<Rightarrow> jstring" where
  "dec_text s c [] = drop c s"
| "dec_text s c (m # ms) =
     take (mm_index m - c) (drop c s) @ visible (mm_label m) @
       dec_text s (mm_index m + mm_length m) ms"

definition ref_of :: "nat \<Rightarrow> mention_match \<Rightarrow> mention_ref" where
  "ref_of p m = \<lparr>mr_actorID = mm_actor m, mr_label = mm_label m, mr_start = int p,
                 mr_end = int (p + length (visible (mm_label m)))\<rparr>"

fun dec_refs :: "nat \<Rightarrow> nat \<Rightarrow> mention_match list \<Rightarrow> mention_ref list" where
  "dec_refs c off [] = []"
| "dec_refs c off (m # ms) =
     ref_of (off + (mm_index m - c)) m #
       dec_refs (mm_index m + mm_length m)
         (off + (mm_index m - c) + length (visible (mm_label m))) ms"

lemma ref_of_sel [simp]:
  "mr_actorID (ref_of p m) = mm_actor m" "mr_label (ref_of p m) = mm_label m"
  "mr_start (ref_of p m) = int p" "mr_end (ref_of p m) = int (p + length (visible (mm_label m)))"
  by (simp_all add: ref_of_def)

lemma fold_decode:
  "tiles s c ms \<Longrightarrow>
     (case fold (decode_step s) ms (text, int c, refs) of
        (t, c', r) \<Rightarrow> t @ js_slice_from s c' = text @ dec_text s c ms \<and>
                     r = refs @ dec_refs c (length text) ms)"
proof (induction ms arbitrary: c "text" refs)
  case Nil
  then show ?case by (simp add: js_slice_from_nat)
next
  case (Cons m ms)
  have "mm_index m \<le> length s" and le: "c \<le> mm_index m" using Cons.prems by auto
  then have "decode_step s m (text, int c, refs) =
      (text @ take (mm_index m - c) (drop c s) @ visible (mm_label m),
       int (mm_index m + mm_length m), refs @ [ref_of (length text + (mm_index m - c)) m])"
    by (simp add: decode_step_def Let_def js_slice_nat ref_of_def min_absorb2)
  moreover have "tiles s (mm_index m + mm_length m) ms" using Cons.prems by simp
  note Cons.IH [OF this, of "text @ take (mm_index m - c) (drop c s) @ visible (mm_label m)"
      "refs @ [ref_of (length text + (mm_index m - c)) m]"]
  ultimately show ?case
    using \<open>mm_index m \<le> length s\<close> le by (simp add: min_absorb2 add.assoc)
qed

lemma decodeMentions_eq:
  "decodeMentions s =
     \<lparr>md_text = dec_text s 0 (match_all 0 s), md_mentions = dec_refs 0 0 (match_all 0 s)\<rparr>"
proof -
  have "tiles s 0 (match_all 0 s)" by (rule tiles_match_all) auto
  from fold_decode [OF this, of "[]" "[]"] show ?thesis
    by (auto simp: decodeMentions_def split: prod.splits)
qed

text \<open>The invariant of a draft: the remembered ranges follow one another without overlap, and each
  shows its label.\<close>

definition wf_draft :: "mention_draft \<Rightarrow> bool" where
  "wf_draft d \<longleftrightarrow> sorted_wrt (\<lambda>a b. mr_end a \<le> mr_start b) (md_mentions d) \<and>
     (\<forall>m \<in> set (md_mentions d). ref_shown (md_text d) m)"

lemma length_visible [simp]: "length (visible l) = Suc (length l)"
  by (simp add: visible_def)

lemma ref_shown_at:
  "ref_shown (A @ visible (mm_label m) @ B) (ref_of (length A) m)"
proof -
  have "js_slice (A @ visible (mm_label m) @ B) (int (length A))
      (int (length A + length (visible (mm_label m)))) = visible (mm_label m)"
    by (subst js_slice_nat) auto
  then show ?thesis by (simp add: ref_shown_def)
qed

lemma dec_refs_shown:
  "tiles s c ms \<Longrightarrow> x \<in> set (dec_refs c (length A) ms) \<Longrightarrow>
     int (length A) \<le> mr_start x \<and> ref_shown (A @ dec_text s c ms) x"
proof (induction ms arbitrary: c A)
  case Nil
  then show ?case by simp
next
  case (Cons m ms)
  define A1 where "A1 = A @ take (mm_index m - c) (drop c s)"
  have "mm_index m \<le> length s" using Cons.prems(1) by simp
  then have A1: "length A1 = length A + (mm_index m - c)" by (simp add: A1_def)
  have T: "A @ dec_text s c (m # ms) =
      A1 @ visible (mm_label m) @ dec_text s (mm_index m + mm_length m) ms"
    by (simp add: A1_def)
  consider "x = ref_of (length A1) m"
    | "x \<in> set (dec_refs (mm_index m + mm_length m) (length (A1 @ visible (mm_label m))) ms)"
    using Cons.prems(2) A1 by auto
  then show ?case
  proof cases
    case 1
    then have "ref_shown (A @ dec_text s c (m # ms)) x" unfolding T by (simp only: ref_shown_at)
    with 1 A1 show ?thesis by simp
  next
    case 2
    from Cons.IH [OF _ this] Cons.prems(1) show ?thesis unfolding T using A1 by simp
  qed
qed

lemma dec_refs_sorted:
  "tiles s c ms \<Longrightarrow> sorted_wrt (\<lambda>a b. mr_end a \<le> mr_start b) (dec_refs c off ms)"
proof (induction ms arbitrary: c off)
  case Nil
  then show ?case by simp
next
  case (Cons m ms)
  define off' where "off' = off + (mm_index m - c) + length (visible (mm_label m))"
  have t: "tiles s (mm_index m + mm_length m) ms" using Cons.prems by simp
  have "int off' \<le> mr_start x" if "x \<in> set (dec_refs (mm_index m + mm_length m) off' ms)" for x
    using dec_refs_shown [OF t, of x "replicate off' 0"] that by simp
  with Cons.IH [OF t, of off'] show ?case by (simp add: off'_def)
qed

lemma wf_decodeMentions: "wf_draft (decodeMentions s)"
proof -
  have t: "tiles s 0 (match_all 0 s)" by (rule tiles_match_all) auto
  show ?thesis
    using dec_refs_shown [OF t, of _ "[]"] dec_refs_sorted [OF t]
    by (simp add: wf_draft_def decodeMentions_eq)
qed

lemma filter_refs_id:
  assumes "sorted_wrt (\<lambda>a b. mr_end a \<le> mr_start b) ms" and "\<forall>m \<in> set ms. ref_shown text m"
    and "\<forall>p. prev = Some p \<longrightarrow> (\<forall>m \<in> set ms. mr_end p \<le> mr_start m)"
  shows "filter_refs text prev ms = ms"
  using assms by (induction "text" prev ms rule: filter_refs.induct) (auto split: option.splits)

lemma wf_sorted:
  assumes "wf_draft d"
  shows "sort_key mr_start (md_mentions d) = md_mentions d"
proof (rule sort_key_id_if_sorted)
  have "sorted_wrt (\<lambda>a b. mr_start a \<le> mr_start b) (md_mentions d)"
    by (rule sorted_wrt_mono_rel [of _ "\<lambda>a b. mr_end a \<le> mr_start b"])
      (use assms in \<open>auto simp: wf_draft_def ref_shown_def\<close>)
  then show "sorted (map mr_start (md_mentions d))" by (simp add: sorted_wrt_map)
qed

lemma normalizedReferences_wf:
  "wf_draft d \<Longrightarrow> normalizedReferences d = md_mentions d"
  by (simp add: normalizedReferences_def wf_sorted) (simp add: filter_refs_id wf_draft_def)

lemma raw_mention_ref [simp]: "raw_mention (ref_of p m) = raw_match m"
  by (simp add: raw_mention_def raw_match_def)

lemma encode_dec:
  "tiles s c ms \<Longrightarrow>
     encode_loop (A @ dec_text s c ms) (int (length A)) (dec_refs c (length A) ms) = drop c s"
proof (induction ms arbitrary: c A)
  case Nil
  then show ?case by (simp add: js_slice_from_nat)
next
  case (Cons m ms)
  define i n where "i = mm_index m" and "n = mm_length m"
  define A1 where "A1 = A @ take (i - c) (drop c s)"
  define A2 where "A2 = A1 @ visible (mm_label m)"
  have ci: "c \<le> i" "i + n \<le> length s" and raw: "take n (drop i s) = raw_match m"
    and t: "tiles s (i + n) ms"
    using Cons.prems by (auto simp: i_def n_def)
  have A1: "length A1 = length A + (i - c)" using ci by (simp add: A1_def)
  have T: "A @ dec_text s c (m # ms) = A2 @ dec_text s (i + n) ms"
    by (simp add: A1_def A2_def i_def n_def)
  have slice: "js_slice (A2 @ dec_text s (i + n) ms) (int (length A)) (int (length A1)) =
      take (i - c) (drop c s)"
    by (subst js_slice_nat) (use A1 ci in \<open>auto simp: A2_def A1_def\<close>)
  have "dec_refs c (length A) (m # ms) = ref_of (length A1) m # dec_refs (i + n) (length A2) ms"
    using A1 by (simp add: A2_def i_def n_def)
  moreover have "mr_end (ref_of (length A1) m) = int (length A2)" by (simp add: A2_def)
  moreover have "drop c s = take (i - c) (drop c s) @ take n (drop i s) @ drop (i + n) s"
    using ci by (metis add.commute append_take_drop_id drop_drop le_add_diff_inverse2)
  ultimately show ?case using Cons.IH [OF t, of A2] slice raw unfolding T by simp
qed

text \<open>C3: Decoding a message body and encoding the draft again gives back the same body, for every
  string whatever (malformed, nested or adjacent mentions included): opening a message in the
  composer and saving it unchanged does not alter it.\<close>

theorem encode_decode_roundtrip: "encodeMentions (decodeMentions s) = s"
proof -
  have "tiles s 0 (match_all 0 s)" by (rule tiles_match_all) auto
  from encode_dec [OF this, of "[]"] show ?thesis
    unfolding encodeMentions_def normalizedReferences_wf [OF wf_decodeMentions]
    by (simp add: decodeMentions_eq)
qed


lemma mentionedActorIDs_distinct: "distinct (mentionedActorIDs s)"
  by (simp add: mentionedActorIDs_def distinct_js_set)

section \<open>Editing keeps the mentions on their labels\<close>

lemma sorted_wrt_concat_map:
  assumes "sorted_wrt R xs" and "\<And>x. x \<in> set xs \<Longrightarrow> sorted_wrt R (f x)"
    and "\<And>x y u v. x \<in> set xs \<Longrightarrow> y \<in> set xs \<Longrightarrow> R x y \<Longrightarrow> u \<in> set (f x) \<Longrightarrow> v \<in> set (f y) \<Longrightarrow> R u v"
  shows "sorted_wrt R (concat (map f xs))"
  using assms
proof (induction xs)
  case Nil
  then show ?case by simp
next
  case (Cons a xs)
  have "sorted_wrt R (concat (map f xs))"
    by (rule Cons.IH) (use Cons.prems in \<open>simp_all, blast\<close>)
  moreover have "R u v" if "u \<in> set (f a)" "y \<in> set xs" "v \<in> set (f y)" for u y v
    using Cons.prems(3) [of a y u v] Cons.prems(1) that by simp
  ultimately show ?case using Cons.prems(2) by (auto simp: sorted_wrt_append)
qed

lemma common_prefix_take:
  "common_prefix old new \<le> length old \<and> common_prefix old new \<le> length new \<and>
     take (common_prefix old new) old = take (common_prefix old new) new"
  by (induction old new rule: common_prefix.induct) auto

lemma suffix_loop_drop:
  assumes "suffix_loop old new p i j = (i', j')" and "p \<le> i" and "p \<le> j"
    and "i \<le> length old" and "j \<le> length new" and "drop i old = drop j new"
  shows "p \<le> i' \<and> p \<le> j' \<and> i' \<le> length old \<and> j' \<le> length new \<and> drop i' old = drop j' new"
  using assms
proof (induction old new p i j rule: suffix_loop.induct)
  case (1 old new p i j)
  show ?case
  proof (cases "p < Suc i \<and> p < Suc j \<and> old ! i = new ! j")
    case True
    with 1 have "drop i old = drop j new" by (simp add: Cons_nth_drop_Suc [symmetric])
    with True 1 show ?thesis by auto
  next
    case False
    with 1 show ?thesis by auto
  qed
qed auto

text \<open>A visible range lying in a part that two texts share is visible in both.\<close>

lemma ref_shown_left:
  assumes "ref_shown old m" and "mr_end m \<le> int p" and "take p old = take p new"
    and "p \<le> length new"
  shows "ref_shown new m"
proof -
  obtain a b where ab: "mr_start m = int a" "mr_end m = int b"
    using assms(1) by (metis ref_shown_def nonneg_int_cases order.trans order_less_imp_le)
  have *: "take (b - a) (drop a xs) = take (b - a) (drop a (take p xs))" for xs :: jstring
    using assms(2) ab by (simp add: drop_take min_def)
  have "take (b - a) (drop a old) = take (b - a) (drop a new)"
    by (subst (1 2) *) (simp only: assms(3))
  moreover have "a < b" "b \<le> length old" "b \<le> length new"
    using assms(1,2,4) ab by (auto simp: ref_shown_def)
  ultimately show ?thesis using assms(1) ab by (simp add: ref_shown_def js_slice_nat less_imp_le)
qed

lemma shift_ref_sel [simp]:
  "mr_label (shift_ref d m) = mr_label m" "mr_actorID (shift_ref d m) = mr_actorID m"
  "mr_start (shift_ref d m) = mr_start m + d" "mr_end (shift_ref d m) = mr_end m + d"
  by (simp_all add: shift_ref_def)

lemma ref_shown_right:
  assumes "ref_shown old m" and "int q \<le> mr_start m" and "drop q old = drop q' new"
    and "q \<le> length old" and "q' \<le> length new" and "d = int q' - int q"
  shows "ref_shown new (shift_ref d m)"
proof -
  obtain a b where ab: "mr_start m = int a" "mr_end m = int b"
    using assms(1) by (metis ref_shown_def nonneg_int_cases order.trans order_less_imp_le)
  define a' b' where "a' = q' + (a - q)" and "b' = q' + (b - q)"
  have q: "q \<le> a" "a < b" "b \<le> length old" and vis: "take (b - a) (drop a old) = visible (mr_label m)"
    using assms(1,2) ab by (auto simp: ref_shown_def js_slice_nat)
  define m' where "m' = shift_ref d m"
  have a': "mr_start m' = int a'" "mr_end m' = int b'" "mr_label m' = mr_label m"
    using q ab assms(6) by (simp_all add: m'_def a'_def b'_def of_nat_diff)
  have "length old - q = length new - q'" using assms(3) by (metis length_drop)
  then have "a' < b'" "b' \<le> length new" using q assms(5) by (auto simp: a'_def b'_def)
  moreover have "drop a' new = drop a old"
    using assms(3) q by (metis a'_def add.commute drop_drop le_add_diff_inverse2)
  moreover have "b' - a' = b - a" using q by (simp add: a'_def b'_def)
  ultimately have "ref_shown new m'" using vis by (simp add: ref_shown_def a' js_slice_nat less_imp_le)
  then show ?thesis by (simp add: m'_def)
qed

lemma wf_updateMentionText:
  assumes "wf_draft d"
  shows "wf_draft (updateMentionText d new)"
proof (cases "new = md_text d")
  case True
  with assms show ?thesis by (simp add: updateMentionText_def)
next
  case False
  define p where "p = common_prefix (md_text d) new"
  obtain q q' where q: "suffix_loop (md_text d) new p (length (md_text d)) (length new) = (q, q')"
    by fastforce
  define keep where "keep = (\<lambda>m. if mr_end m \<le> int p then [m]
      else if int q \<le> mr_start m then [shift_ref (int q' - int q) m] else [])"
  have eq: "updateMentionText d new =
      \<lparr>md_text = new, md_mentions = concat (map keep (md_mentions d))\<rparr>"
    using False q by (simp add: updateMentionText_def keep_def flip: p_def)
  have pre: "p \<le> length (md_text d)" "p \<le> length new" "take p (md_text d) = take p new"
    using common_prefix_take by (simp_all add: p_def)
  have suf: "p \<le> q" "p \<le> q'" "q \<le> length (md_text d)" "q' \<le> length new"
      "drop q (md_text d) = drop q' new"
    using suffix_loop_drop [OF q] pre by auto
  have shown: "ref_shown (md_text d) m" if "m \<in> set (md_mentions d)" for m
    using assms that by (auto simp: wf_draft_def)
  have "ref_shown new m'" if "m \<in> set (md_mentions d)" "m' \<in> set (keep m)" for m m'
    using that(2) ref_shown_left [OF shown [OF that(1)] _ pre(3,2)]
      ref_shown_right [OF shown [OF that(1)] _ suf(5,3,4) refl]
    by (auto simp: keep_def split: if_splits)
  moreover have "sorted_wrt (\<lambda>a b. mr_end a \<le> mr_start b) (concat (map keep (md_mentions d)))"
  proof (rule sorted_wrt_concat_map)
    show "sorted_wrt (\<lambda>a b. mr_end a \<le> mr_start b) (md_mentions d)"
      using assms by (simp add: wf_draft_def)
    show "sorted_wrt (\<lambda>a b. mr_end a \<le> mr_start b) (keep m)" for m by (simp add: keep_def)
    fix x y u v
    assume "x \<in> set (md_mentions d)" "y \<in> set (md_mentions d)" and le: "mr_end x \<le> mr_start y"
      and u: "u \<in> set (keep x)" and v: "v \<in> set (keep y)"
    then have "mr_start x < mr_end x" "mr_start y < mr_end y"
      using shown by (auto simp: ref_shown_def)
    with le u v suf(1,2) show "mr_end u \<le> mr_start v"
      by (simp add: keep_def shift_ref_def split: if_splits)
  qed
  ultimately show ?thesis by (auto simp: wf_draft_def eq)
qed


text \<open>Ranges that do not overlap are in order once sorted by their start.\<close>

lemma sort_disjoint:
  assumes "distinct ms" and "\<forall>m \<in> set ms. mr_start m < mr_end m"
    and "\<forall>a \<in> set ms. \<forall>b \<in> set ms. a \<noteq> b \<longrightarrow> mr_end a \<le> mr_start b \<or> mr_end b \<le> mr_start a"
  shows "sorted_wrt (\<lambda>a b. mr_end a \<le> mr_start b) (sort_key mr_start ms)"
proof -
  let ?xs = "sort_key mr_start ms"
  have d: "distinct ?xs" using assms(1) by simp
  have "sorted (map mr_start ?xs)" by simp
  then have "sorted_wrt (\<lambda>a b. mr_start a \<le> mr_start b) ?xs" by (simp add: sorted_wrt_map)
  then show ?thesis
    unfolding sorted_wrt_iff_nth_less
  proof (intro allI impI)
    fix i j assume le: "\<forall>i j. i < j \<longrightarrow> j < length ?xs \<longrightarrow> mr_start (?xs ! i) \<le> mr_start (?xs ! j)"
      and ij: "i < j" "j < length ?xs"
    let ?a = "?xs ! i" and ?b = "?xs ! j"
    have in_ms: "?a \<in> set ms" "?b \<in> set ms" using ij by (metis nth_mem order.strict_trans set_sort)+
    moreover have "?a \<noteq> ?b" using d ij by (simp add: nth_eq_iff_index_eq)
    moreover have "mr_start ?a \<le> mr_start ?b" using le ij by blast
    ultimately show "mr_end ?a \<le> mr_start ?b" using assms(2,3) by force
  qed
qed

lemma disjoint_if_sorted:
  "sorted_wrt (\<lambda>a b. mr_end a \<le> mr_start b) ms \<Longrightarrow> a \<in> set ms \<Longrightarrow> b \<in> set ms \<Longrightarrow> a \<noteq> b \<Longrightarrow>
     mr_end a \<le> mr_start b \<or> mr_end b \<le> mr_start a"
  by (induction ms) auto

lemma distinct_if_sorted:
  "sorted_wrt (\<lambda>a b. mr_end a \<le> mr_start b) ms \<Longrightarrow> \<forall>m \<in> set ms. mr_start m < mr_end m \<Longrightarrow>
     distinct ms"
  by (induction ms) force+

lemma wf_insertMention:
  assumes wf: "wf_draft d" and range: "a \<le> b" "b \<le> length (md_text d)"
  shows "wf_draft (insertMention d (int a) (int b) actor raw)"
proof -
  define label where "label = js_trim (replace_breaks False raw)"
  define n where "n = length (visible label)"
  define new where "new = \<lparr>mr_actorID = actor, mr_label = label, mr_start = int a,
    mr_end = int a + int n\<rparr>"
  define T where "T = take a (md_text d) @ visible label @ js '' '' @ drop b (md_text d)"
  define shift where "shift = int (a + n + 1) - int b"
  define keep where "keep = (\<lambda>m. if int b \<le> mr_start m then shift_ref shift m else m)"
  define kept where "kept = map keep (filter (\<lambda>m. mr_end m \<le> int a \<or> int b \<le> mr_start m) (md_mentions d))"
  have sh: "int (length (visible label)) + 1 - (int b - int a) = shift"
    by (simp add: shift_def n_def)
  have tx: "js_slice (md_text d) 0 (int a) @ visible label @ js '' '' @
      js_slice_from (md_text d) (int b) = T"
    using range js_slice_nat [of 0 a "md_text d"] by (simp add: T_def js_slice_from_nat)
  have eq: "insertMention d (int a) (int b) actor raw =
      \<lparr>md_text = T, md_mentions = sort_key mr_start (kept @ [new])\<rparr>"
    unfolding insertMention_def Let_def label_def [symmetric] sh tx
    by (simp add: new_def kept_def keep_def n_def)
  have shown: "ref_shown (md_text d) m" if "m \<in> set (md_mentions d)" for m
    using wf that by (auto simp: wf_draft_def)
  have T: "take a T = take a (md_text d)" "drop (a + n + 1) T = drop b (md_text d)"
      "a \<le> length T" "a + n + 1 \<le> length T"
    using range by (simp_all add: T_def n_def min_absorb2)
  have keep: "ref_shown T (keep m) \<and>
      (mr_end m \<le> int a \<and> keep m = m \<or> int b \<le> mr_start m \<and> keep m = shift_ref shift m)"
    if "m \<in> set (md_mentions d)" "mr_end m \<le> int a \<or> int b \<le> mr_start m" for m
  proof (cases "int b \<le> mr_start m")
    case True
    with ref_shown_right [OF shown [OF that(1)] True T(2) [symmetric] range(2) T(4) shift_def]
    show ?thesis by (simp add: keep_def)
  next
    case False
    with that ref_shown_left [OF shown [OF that(1)] _ T(1) [symmetric] T(3)]
    show ?thesis by (simp add: keep_def)
  qed
  have new: "ref_shown T new"
    using range ref_shown_at [of "take a (md_text d)"
        "\<lparr>mm_index = 0, mm_length = 0, mm_label = label, mm_actor = actor\<rparr>"
        "js '' '' @ drop b (md_text d)"]
    by (simp add: T_def new_def n_def ref_of_def min_absorb2 add.commute del: length_visible)
  have kept: "\<exists>m0. m0 \<in> set (md_mentions d) \<and> m = keep m0 \<and>
      (mr_end m0 \<le> int a \<or> int b \<le> mr_start m0)" if "m \<in> set kept" for m
    using that by (auto simp: kept_def)
  have all_shown: "\<forall>m \<in> set (kept @ [new]). ref_shown T m" using kept keep new by auto
  then have pos: "\<forall>m \<in> set (kept @ [new]). mr_start m < mr_end m" by (simp add: ref_shown_def)
  have side: "mr_end m \<le> int a \<or> int (a + n + 1) \<le> mr_start m" if in_kept: "m \<in> set kept" for m
  proof -
    obtain m0 where m0: "m0 \<in> set (md_mentions d)" "m = keep m0"
        "mr_end m0 \<le> int a \<or> int b \<le> mr_start m0"
      using kept [OF in_kept] by blast
    from conjunct2 [OF keep [OF m0(1,3)]] show ?thesis
    proof
      assume "mr_end m0 \<le> int a \<and> keep m0 = m0"
      then show ?thesis using m0(2) by simp
    next
      assume "int b \<le> mr_start m0 \<and> keep m0 = shift_ref shift m0"
      then show ?thesis using m0(2) by (simp add: shift_def)
    qed
  qed
  have "sorted_wrt (\<lambda>x y. mr_end x \<le> mr_start y) kept"
    unfolding kept_def sorted_wrt_map
  proof (rule sorted_wrt_mono_rel)
    show "sorted_wrt (\<lambda>x y. mr_end x \<le> mr_start y)
        (filter (\<lambda>m. mr_end m \<le> int a \<or> int b \<le> mr_start m) (md_mentions d))"
      using wf by (simp add: wf_draft_def sorted_wrt_filter)
    fix x y
    assume "x \<in> set (filter (\<lambda>m. mr_end m \<le> int a \<or> int b \<le> mr_start m) (md_mentions d))"
      and "y \<in> set (filter (\<lambda>m. mr_end m \<le> int a \<or> int b \<le> mr_start m) (md_mentions d))"
      and le: "mr_end x \<le> mr_start y"
    then show "mr_end (keep x) \<le> mr_start (keep y)"
      using keep [of x] keep [of y] shown [of x] shown [of y] range
      by (auto simp: shift_def ref_shown_def)
  qed
  note kept_sorted = this
  have "distinct (kept @ [new])"
    using distinct_if_sorted [OF kept_sorted] pos side by (force simp: new_def)
  then have "sorted_wrt (\<lambda>x y. mr_end x \<le> mr_start y) (sort_key mr_start (kept @ [new]))"
  proof (rule sort_disjoint [OF _ pos], intro ballI impI)
    fix x y assume "x \<in> set (kept @ [new])" "y \<in> set (kept @ [new])" "x \<noteq> y"
    then show "mr_end x \<le> mr_start y \<or> mr_end y \<le> mr_start x"
      using disjoint_if_sorted [OF kept_sorted, of x y] side [of x] side [of y]
      by (auto simp: new_def)
  qed
  with all_shown show ?thesis by (simp add: wf_draft_def eq)
qed


text \<open>The drafts a composer can hold: a decoded body, edited and completed any number of times. An
  insertion replaces a range of the text.\<close>

inductive composed :: "mention_draft \<Rightarrow> bool" where
  opened: "composed (decodeMentions s)"
| edited: "composed d \<Longrightarrow> composed (updateMentionText d new)"
| completed: "composed d \<Longrightarrow> a \<le> b \<Longrightarrow> b \<le> length (md_text d) \<Longrightarrow>
     composed (insertMention d (int a) (int b) actor label)"

text \<open>C4: Whatever is typed, deleted, pasted or completed in the composer, every remembered mention
  still covers exactly its label in the text, mentions never overlap, and encoding therefore
  drops none of them.\<close>

theorem composed_wf:
  assumes "composed d"
  shows "wf_draft d \<and> normalizedReferences d = md_mentions d"
proof -
  have "wf_draft d"
    using assms by induction (auto intro: wf_decodeMentions wf_updateMentionText wf_insertMention)
  then show ?thesis by (simp add: normalizedReferences_wf)
qed

theorem composed_wf_witness:
  "normalizedReferences (insertMention (decodeMentions (js ''hi'')) 2 2 (js ''u'') (js ''Al'')) =
     [\<lparr>mr_actorID = js ''u'', mr_label = js ''Al'', mr_start = 2, mr_end = 5\<rparr>]"
proof -
  define d where "d = decodeMentions (js ''hi'')"
  have eq: "d = \<lparr>md_text = js ''hi'', md_mentions = []\<rparr>"
    by (simp add: d_def decodeMentions_def mention_at_def starts_with_def js_slice_from_def
        js_slice_def js_clamp_def)
  have "composed d" unfolding d_def by (rule composed.opened)
  then have "composed (insertMention d (int 2) (int 2) (js ''u'') (js ''Al''))"
    by (rule composed.completed) (simp_all add: eq)
  from conjunct2 [OF composed_wf [OF this]] show ?thesis
    unfolding d_def [symmetric]
    by (simp add: eq insertMention_def Let_def visible_def js_trim_def is_space_def is_label_break_def)
qed

end
