(* ===== verification/Outbox.thy ===== *)
theory Outbox
  imports Types "HOL-Library.List_Lexorder"
begin

text \<open>
  The outbox, \<open>packages/core/src/outbox.ts\<close>, over the storage interface its clients implement and
  the web client's implementation, \<open>apps/web/src/persistence.ts\<close>.

  Every \<open>await\<close> is a place where other code runs, so the outbox is a state machine: the phase is the
  \<open>await\<close> the one running \<open>flush\<close> stands at, and an event either calls a method or settles a
  promise. The storage is a parameter, with the laws its clients rely on in the locale
  \<open>outbox_storage\<close>; they hold for the IndexedDB store, which keeps items ordered by key.

  The lemmas show that an accepted message is never lost, that one flush runs at a time, that a flush
  sends each stored item once, and what a flush does not send.
\<close>

section \<open>Items and storage\<close>

record create_input =
  ci_client_msg_id :: jstring
  ci_body :: jstring
  ci_body_format :: "body_format field"
  ci_reply_to_id :: "jstring field"
  ci_thread_root_id :: "jstring field"
  ci_mentioned_actor_ids :: "jstring list field"
  ci_file_ids :: "jstring list field"

record outbox_item =
  oi_chatID :: jstring
  oi_input :: create_input
  oi_createdAt :: jstring
  oi_attempts :: nat

abbreviation key_of :: "outbox_item \<Rightarrow> jstring" where
  "key_of i \<equiv> ci_client_msg_id (oi_input i)"

record 's storage =
  st_list :: "'s \<Rightarrow> outbox_item list"
  st_put :: "outbox_item \<Rightarrow> 's \<Rightarrow> 's"
  st_delete :: "jstring \<Rightarrow> 's \<Rightarrow> 's"

definition stored_keys :: "'s storage \<Rightarrow> 's \<Rightarrow> jstring set" where
  "stored_keys db s = key_of ` set (st_list db s)"

locale outbox_storage =
  fixes db :: "'s storage"
  assumes distinct_list: "distinct (map key_of (st_list db s))"
    and list_put: "set (st_list db (st_put db i s)) =
                     insert i {j \<in> set (st_list db s). key_of j \<noteq> key_of i}"
    and list_delete: "set (st_list db (st_delete db k s)) = {j \<in> set (st_list db s). key_of j \<noteq> k}"
begin

lemma keys_put [simp]: "stored_keys db (st_put db i s) = insert (key_of i) (stored_keys db s)"
  by (auto simp: stored_keys_def list_put image_iff)

lemma keys_delete [simp]: "stored_keys db (st_delete db k s) = stored_keys db s - {k}"
  by (auto simp: stored_keys_def list_delete image_iff)

end

text \<open>The object store of \<open>persistence.ts\<close>: \<open>keyPath: "input.client_msg_id"\<close>, \<open>getAll\<close> in key order.\<close>

typedef idb = "{xs :: outbox_item list. sorted (map key_of xs) \<and> distinct (map key_of xs)}"
  morphisms idb_items Abs_idb
  by (rule exI [of _ "[]"]) simp

setup_lifting type_definition_idb

lift_definition idb_empty :: idb is "[]"
  by simp

lift_definition idb_list :: "idb \<Rightarrow> outbox_item list" is "\<lambda>xs. xs"
  .

lemma sorted_filter_keys:
  "sorted (map key_of xs) \<Longrightarrow> sorted (map key_of (filter P xs))"
  by (rule sorted_filter)

lift_definition idb_put :: "outbox_item \<Rightarrow> idb \<Rightarrow> idb" is
  "\<lambda>i xs. insort_key key_of i (filter (\<lambda>j. key_of j \<noteq> key_of i) xs)"
  by (auto simp: sorted_insort_key sorted_filter distinct_map_filter distinct_map
      set_insort_key distinct_insort inj_on_def)

lift_definition idb_delete :: "jstring \<Rightarrow> idb \<Rightarrow> idb" is
  "\<lambda>k xs. filter (\<lambda>j. key_of j \<noteq> k) xs"
  by (auto simp: sorted_filter distinct_map_filter)

lemma idb_list_order: "sorted (map key_of (idb_list s)) \<and> distinct (map key_of (idb_list s))"
  by (transfer, simp)

definition outboxStorage :: "idb storage" where
  "outboxStorage = \<lparr>st_list = idb_list, st_put = idb_put, st_delete = idb_delete\<rparr>"

interpretation idb: outbox_storage outboxStorage
proof
  fix s :: idb and i k
  show "distinct (map key_of (st_list outboxStorage s))"
    by (simp add: outboxStorage_def) (transfer, simp)
  show "set (st_list outboxStorage (st_put outboxStorage i s)) =
      insert i {j \<in> set (st_list outboxStorage s). key_of j \<noteq> key_of i}"
    by (simp add: outboxStorage_def) (transfer, auto simp: set_insort_key)
  show "set (st_list outboxStorage (st_delete outboxStorage k s)) =
      {j \<in> set (st_list outboxStorage s). key_of j \<noteq> k}"
    by (simp add: outboxStorage_def) (transfer, auto)
qed

section \<open>The state machine\<close>

text \<open>Why a \<open>createMessage\<close> call was rejected: an API error with its code, or anything else.\<close>

datatype rejection = ApiRejection jstring | OtherRejection

fun failure_code :: "rejection \<Rightarrow> jstring" where
  "failure_code (ApiRejection c) = c"
| "failure_code OtherRejection = js ''offline''"

text \<open>The \<open>await\<close> a running flush stands at, with the items its loop has left.\<close>

datatype phase =
    Stopped
  | Listing
  | Posting outbox_item "outbox_item list"
  | Removing outbox_item client_message "outbox_item list"
  | Dropping outbox_item rejection "outbox_item list"
  | Requeueing outbox_item rejection "outbox_item list"

text \<open>What happened, in order: the requests sent and how they were answered, and the callbacks
  made.\<close>

datatype effect =
    Request jstring create_input
  | Accepted jstring
  | Refused jstring
  | OnOptimistic client_message
  | OnDelivered client_message
  | OnRetrying jstring
  | OnFailed jstring jstring

record 's outbox =
  ob_running :: bool
  ob_phase :: phase
  ob_puts :: "outbox_item list"
  ob_store :: 's
  ob_token :: "jstring option"
  ob_log :: "effect list"

text \<open>\<open>StorageRejects\<close> rejects the storage promise the flush waits for.\<close>

datatype event =
    Enqueue jstring create_input jstring
  | PutDone
  | PutRejects
  | Flush
  | SetToken "jstring option"
  | Listed
  | Created client_message
  | CreateRejects rejection
  | StorageDone
  | StorageRejects

definition new_item :: "jstring \<Rightarrow> create_input \<Rightarrow> jstring \<Rightarrow> outbox_item" where
  "new_item chatID input now =
     \<lparr>oi_chatID = chatID, oi_input = input, oi_createdAt = now, oi_attempts = 0\<rparr>"

definition optimistic_message :: "outbox_item \<Rightarrow> client_message" where
  "optimistic_message i =
     (let input = oi_input i in
      \<lparr>m_id = ci_client_msg_id input, m_chat_id = Val (oi_chatID i), m_actor_id = [],
       m_client_msg_id = ci_client_msg_id input, m_body = ci_body input,
       m_body_format = nullish (ci_body_format input) Plain,
       m_reply_to_id = (case ci_reply_to_id input of Val r \<Rightarrow> Val r | _ \<Rightarrow> Null),
       m_thread_root_id = (case ci_thread_root_id input of Val r \<Rightarrow> Val r | _ \<Rightarrow> Null),
       m_version = 1, m_created_seq = max_safe_integer, m_created_at = oi_createdAt i,
       m_edited_at = Null, m_deleted_at = Null, m_forwarded_from = Null,
       m_mentioned_actor_ids = nullish (ci_mentioned_actor_ids input) [],
       m_thread_reply_count = Val (Num 0), m_files = Val [], m_delivery = Val Sending,
       m_error_code = Undefined\<rparr>)"

definition emit :: "effect list \<Rightarrow> 's outbox \<Rightarrow> 's outbox" where
  "emit es o' = o'\<lparr>ob_log := ob_log o' @ es\<rparr>"

text \<open>The head of the \<open>for\<close> loop: the next item is posted, or the flush ends.\<close>

fun next_item :: "outbox_item list \<Rightarrow> 's outbox \<Rightarrow> 's outbox" where
  "next_item [] o' = o'\<lparr>ob_running := False, ob_phase := Stopped\<rparr>"
| "next_item (i # rest) o' =
     emit ((if oi_attempts i > 0 then [OnRetrying (key_of i)] else []) @
           [Request (oi_chatID i) (oi_input i)])
       (o'\<lparr>ob_phase := Posting i rest\<rparr>)"

definition flush :: "'s outbox \<Rightarrow> 's outbox" where
  "flush o' = (if ob_running o' \<or> ob_token o' = None \<or> ob_token o' = Some [] then o'
               else o'\<lparr>ob_running := True, ob_phase := Listing\<rparr>)"

definition rejected :: "outbox_item \<Rightarrow> rejection \<Rightarrow> outbox_item list \<Rightarrow> 's outbox \<Rightarrow> 's outbox" where
  "rejected i r rest o' =
     (if r = ApiRejection (js ''idempotency_conflict'') then o'\<lparr>ob_phase := Dropping i r rest\<rparr>
      else o'\<lparr>ob_phase := Requeueing i r rest\<rparr>)"

definition storage_done :: "'s storage \<Rightarrow> 's outbox \<Rightarrow> 's outbox" where
  "storage_done db o' =
     (case ob_phase o' of
        Removing i m rest \<Rightarrow>
          next_item rest
            (emit [OnDelivered m] (o'\<lparr>ob_store := st_delete db (key_of i) (ob_store o')\<rparr>))
      | Dropping i r rest \<Rightarrow>
          next_item rest
            (emit [OnFailed (key_of i) (failure_code r)]
              (o'\<lparr>ob_store := st_delete db (key_of i) (ob_store o')\<rparr>))
      | Requeueing i r rest \<Rightarrow>
          next_item rest
            (emit [OnFailed (key_of i) (failure_code r)]
              (o'\<lparr>ob_store := st_put db (i\<lparr>oi_attempts := oi_attempts i + 1\<rparr>) (ob_store o')\<rparr>))
      | _ \<Rightarrow> o')"

text \<open>A rejected \<open>delete\<close> after a delivery is caught like a failed request; a rejection inside the
  \<open>catch\<close> block, or of \<open>list\<close>, leaves the loop through \<open>finally\<close>.\<close>

definition storage_rejects :: "'s outbox \<Rightarrow> 's outbox" where
  "storage_rejects o' =
     (case ob_phase o' of
        Removing i m rest \<Rightarrow> rejected i OtherRejection rest o'
      | Posting i rest \<Rightarrow> o'
      | Stopped \<Rightarrow> o'
      | _ \<Rightarrow> next_item [] o')"

fun step :: "'s storage \<Rightarrow> event \<Rightarrow> 's outbox \<Rightarrow> 's outbox" where
  "step db (Enqueue chatID input now) o' = o'\<lparr>ob_puts := ob_puts o' @ [new_item chatID input now]\<rparr>"
| "step db PutDone o' =
     (case ob_puts o' of
        [] \<Rightarrow> o'
      | i # is \<Rightarrow>
          flush (emit [OnOptimistic (optimistic_message i)]
            (o'\<lparr>ob_puts := is, ob_store := st_put db i (ob_store o')\<rparr>)))"
| "step db PutRejects o' = o'\<lparr>ob_puts := tl (ob_puts o')\<rparr>"
| "step db Flush o' = flush o'"
| "step db (SetToken t) o' = o'\<lparr>ob_token := t\<rparr>"
| "step db Listed o' =
     (if ob_phase o' = Listing then next_item (st_list db (ob_store o')) o' else o')"
| "step db (Created m) o' =
     (case ob_phase o' of
        Posting i rest \<Rightarrow> emit [Accepted (key_of i)] (o'\<lparr>ob_phase := Removing i m rest\<rparr>)
      | _ \<Rightarrow> o')"
| "step db (CreateRejects r) o' =
     (case ob_phase o' of
        Posting i rest \<Rightarrow> emit [Refused (key_of i)] (rejected i r rest o')
      | _ \<Rightarrow> o')"
| "step db StorageDone o' = storage_done db o'"
| "step db StorageRejects o' = storage_rejects o'"

definition start :: "'s \<Rightarrow> 's outbox" where
  "start s = \<lparr>ob_running = False, ob_phase = Stopped, ob_puts = [], ob_store = s, ob_token = None,
              ob_log = []\<rparr>"

definition run :: "'s storage \<Rightarrow> event list \<Rightarrow> 's outbox \<Rightarrow> 's outbox" where
  "run db es o' = fold (step db) es o'"

section \<open>One flush at a time, and nothing lost\<close>

fun phase_items :: "phase \<Rightarrow> outbox_item list" where
  "phase_items (Posting i rest) = i # rest"
| "phase_items (Removing i m rest) = i # rest"
| "phase_items (Dropping i r rest) = i # rest"
| "phase_items (Requeueing i r rest) = i # rest"
| "phase_items _ = []"

fun is_request :: "effect \<Rightarrow> bool" where
  "is_request (Request c i) \<longleftrightarrow> True"
| "is_request _ \<longleftrightarrow> False"

fun is_answer :: "effect \<Rightarrow> bool" where
  "is_answer (Accepted k) \<longleftrightarrow> True"
| "is_answer (Refused k) \<longleftrightarrow> True"
| "is_answer _ \<longleftrightarrow> False"

definition in_flight :: "effect list \<Rightarrow> int" where
  "in_flight es = int (length (filter is_request es)) - int (length (filter is_answer es))"

abbreviation conflict :: jstring where
  "conflict \<equiv> js ''idempotency_conflict''"

definition settled :: "effect list \<Rightarrow> jstring \<Rightarrow> bool" where
  "settled es k \<longleftrightarrow> Accepted k \<in> set es \<or> OnFailed k conflict \<in> set es"

definition shown :: "effect list \<Rightarrow> jstring set" where
  "shown es = {m_client_msg_id m |m. OnOptimistic m \<in> set es}"

fun phase_ok :: "effect list \<Rightarrow> phase \<Rightarrow> bool" where
  "phase_ok es (Removing i m rest) \<longleftrightarrow> Accepted (key_of i) \<in> set es"
| "phase_ok es (Dropping i r rest) \<longleftrightarrow> failure_code r = conflict"
| "phase_ok es _ \<longleftrightarrow> True"

fun posting :: "phase \<Rightarrow> bool" where
  "posting (Posting i rest) \<longleftrightarrow> True"
| "posting _ \<longleftrightarrow> False"

definition outbox_inv :: "'s storage \<Rightarrow> jstring set \<Rightarrow> 's outbox \<Rightarrow> bool" where
  "outbox_inv db K o' \<longleftrightarrow>
     (ob_running o' \<longleftrightarrow> ob_phase o' \<noteq> Stopped) \<and>
     in_flight (ob_log o') = (if posting (ob_phase o') then 1 else 0) \<and>
     phase_ok (ob_log o') (ob_phase o') \<and>
     (\<forall>k \<in> K \<union> shown (ob_log o'). k \<in> stored_keys db (ob_store o') \<or> settled (ob_log o') k)"

lemma in_flight_simps [simp]:
  "in_flight [] = 0"
  "in_flight (es @ es') = in_flight es + in_flight es'"
  "in_flight (e # es) = (if is_request e then 1 else 0) - (if is_answer e then 1 else 0) + in_flight es"
  by (simp_all add: in_flight_def)

lemma settled_simps [simp]:
  "settled [] k \<longleftrightarrow> False"
  "settled (es @ es') k \<longleftrightarrow> settled es k \<or> settled es' k"
  "settled (e # es) k \<longleftrightarrow> e = Accepted k \<or> e = OnFailed k conflict \<or> settled es k"
  by (auto simp: settled_def)

lemma settled_accepted: "Accepted k \<in> set es \<Longrightarrow> settled es k"
  by (simp add: settled_def)

lemma shown_simps [simp]:
  "shown [] = {}"
  "shown (es @ es') = shown es \<union> shown es'"
  "shown (e # es) = (case e of OnOptimistic m \<Rightarrow> {m_client_msg_id m} | _ \<Rightarrow> {}) \<union> shown es"
  by (auto simp: shown_def split: effect.splits)

lemma outbox_emit_sel [simp]:
  "ob_log (emit es o') = ob_log o' @ es" "ob_phase (emit es o') = ob_phase o'"
  "ob_running (emit es o') = ob_running o'" "ob_store (emit es o') = ob_store o'"
  "ob_puts (emit es o') = ob_puts o'" "ob_token (emit es o') = ob_token o'"
  by (simp_all add: emit_def)

lemma optimistic_key [simp]: "m_client_msg_id (optimistic_message i) = key_of i"
  by (simp add: optimistic_message_def Let_def)

lemma next_item_inv:
  assumes "ob_running o'" and "in_flight (ob_log o') = 0"
    and "\<forall>k \<in> K \<union> shown (ob_log o'). k \<in> stored_keys db (ob_store o') \<or> settled (ob_log o') k"
  shows "outbox_inv db K (next_item rest o')"
  using assms by (cases rest) (auto simp: outbox_inv_def)

lemma flush_inv: "outbox_inv db K o' \<Longrightarrow> outbox_inv db K (flush o')"
  by (auto simp: outbox_inv_def flush_def)

lemma rejected_inv:
  assumes "ob_running o'" and "in_flight (ob_log o') = 0"
    and "\<forall>k \<in> K \<union> shown (ob_log o'). k \<in> stored_keys db (ob_store o') \<or> settled (ob_log o') k"
  shows "outbox_inv db K (rejected i r rest o')"
  using assms by (auto simp: outbox_inv_def rejected_def)

context outbox_storage
begin

lemma storage_done_inv:
  assumes "outbox_inv db K o'"
  shows "outbox_inv db K (storage_done db o')"
proof (cases "ob_phase o'")
  case (Removing i m rest)
  show ?thesis
    unfolding storage_done_def Removing phase.case
    by (rule next_item_inv) (use assms Removing in \<open>auto simp: outbox_inv_def settled_accepted\<close>)
next
  case (Dropping i r rest)
  show ?thesis
    unfolding storage_done_def Dropping phase.case
    by (rule next_item_inv) (use assms Dropping in \<open>auto simp: outbox_inv_def\<close>)
next
  case (Requeueing i r rest)
  show ?thesis
    unfolding storage_done_def Requeueing phase.case
    by (rule next_item_inv) (use assms Requeueing in \<open>auto simp: outbox_inv_def\<close>)
qed (use assms in \<open>simp_all add: storage_done_def\<close>)

lemma step_inv:
  assumes "outbox_inv db K o'"
  shows "outbox_inv db K (step db e o')"
proof (cases e)
  case (Enqueue c i now)
  with assms show ?thesis by (simp add: outbox_inv_def)
next
  case PutDone
  show ?thesis
  proof (cases "ob_puts o'")
    case (Cons i ps)
    have "outbox_inv db K (emit [OnOptimistic (optimistic_message i)]
        (o'\<lparr>ob_puts := ps, ob_store := st_put db i (ob_store o')\<rparr>))"
      using assms by (cases "ob_phase o'") (auto simp: outbox_inv_def)
    with PutDone Cons show ?thesis by (simp add: flush_inv)
  qed (use assms PutDone in simp)
next
  case Listed
  show ?thesis
  proof (cases "ob_phase o' = Listing")
    case True
    then have "outbox_inv db K (next_item (st_list db (ob_store o')) o')"
      by (intro next_item_inv) (use assms in \<open>auto simp: outbox_inv_def\<close>)
    with True Listed show ?thesis by simp
  qed (use assms Listed in simp)
next
  case (Created m)
  with assms show ?thesis by (cases "ob_phase o'") (auto simp: outbox_inv_def)
next
  case (CreateRejects r)
  show ?thesis
  proof (cases "ob_phase o'")
    case (Posting i rest)
    have "outbox_inv db K (rejected i r rest (emit [Refused (key_of i)] o'))"
      by (rule rejected_inv) (use assms Posting in \<open>auto simp: outbox_inv_def\<close>)
    moreover have "rejected i r rest (emit [Refused (key_of i)] o') =
        emit [Refused (key_of i)] (rejected i r rest o')"
      by (simp add: rejected_def emit_def)
    ultimately show ?thesis using CreateRejects Posting by simp
  qed (use assms CreateRejects in simp_all)
next
  case StorageRejects
  show ?thesis
  proof (cases "ob_phase o'")
    case (Removing i m rest)
    have "outbox_inv db K (rejected i OtherRejection rest o')"
      by (rule rejected_inv) (use assms Removing in \<open>auto simp: outbox_inv_def\<close>)
    with StorageRejects Removing show ?thesis by (simp add: storage_rejects_def)
  qed (use assms StorageRejects in \<open>auto simp: storage_rejects_def outbox_inv_def\<close>)
next
  case PutRejects
  with assms show ?thesis by (simp add: outbox_inv_def)
next
  case (SetToken t)
  with assms show ?thesis by (simp add: outbox_inv_def)
qed (simp_all add: assms flush_inv storage_done_inv)

lemma run_inv: "outbox_inv db K o' \<Longrightarrow> outbox_inv db K (run db es o')"
  unfolding run_def by (induction es arbitrary: o') (auto intro: step_inv)

lemma start_inv: "outbox_inv db (stored_keys db s) (start s)"
  by (simp add: outbox_inv_def start_def)

end

text \<open>C5: No queued message is ever lost: in every interleaving of sends, flushes, answers, storage
  failures and sign-outs, each message that was shown as sending, or that a previous session left
  in the store, is still in the store unless the server accepted it or refused it as an
  idempotency conflict.\<close>

theorem no_message_lost:
  "stored_keys outboxStorage s \<union> shown (ob_log (run outboxStorage es (start s))) \<subseteq>
     stored_keys outboxStorage (ob_store (run outboxStorage es (start s))) \<union>
     {k. settled (ob_log (run outboxStorage es (start s))) k}"
  using idb.run_inv [OF idb.start_inv, where es = es and s1 = s] by (auto simp: outbox_inv_def)

text \<open>However often flush is called, by new messages, the online event or retry buttons, at most
  one message is being posted at any time.\<close>

theorem one_request_in_flight:
  "in_flight (ob_log (run outboxStorage es (start s))) \<in> {0, 1}"
  using idb.run_inv [OF idb.start_inv, where es = es and s1 = s] by (simp add: outbox_inv_def)

section \<open>What one flush does\<close>

text \<open>The events that settle the promises of one item, given what the server does with it.\<close>

fun answer_events :: "(outbox_item \<Rightarrow> client_message + rejection) \<Rightarrow> outbox_item \<Rightarrow> event list" where
  "answer_events ans i =
     [case ans i of Inl m \<Rightarrow> Created m | Inr r \<Rightarrow> CreateRejects r, StorageDone]"

definition item_log :: "(outbox_item \<Rightarrow> client_message + rejection) \<Rightarrow> outbox_item \<Rightarrow> effect list" where
  "item_log ans i =
     (if oi_attempts i > 0 then [OnRetrying (key_of i)] else []) @
     [Request (oi_chatID i) (oi_input i)] @
     (case ans i of Inl m \<Rightarrow> [Accepted (key_of i), OnDelivered m]
                  | Inr r \<Rightarrow> [Refused (key_of i), OnFailed (key_of i) (failure_code r)])"

definition requeued :: "(outbox_item \<Rightarrow> client_message + rejection) \<Rightarrow> outbox_item \<Rightarrow> bool" where
  "requeued ans i \<longleftrightarrow> (\<exists>r. ans i = Inr r \<and> r \<noteq> ApiRejection conflict)"

definition retry_later :: "outbox_item \<Rightarrow> outbox_item" where
  "retry_later i = i\<lparr>oi_attempts := oi_attempts i + 1\<rparr>"

lemma key_retry_later [simp]: "key_of (retry_later i) = key_of i"
  by (simp add: retry_later_def)

lemma outbox_run_append: "run db (es @ es') o' = run db es' (run db es o')"
  by (simp add: run_def)

lemma outbox_run_Nil [simp]: "run db [] o' = o'"
  by (simp add: run_def)

lemma outbox_run_Cons [simp]: "run db (e # es) o' = run db es (step db e o')"
  by (simp add: run_def)

lemma next_item_cong:
  assumes "ob_running a = ob_running b" and "ob_puts a = ob_puts b" and "ob_store a = ob_store b"
    and "ob_token a = ob_token b" and "ob_log a = ob_log b"
  shows "next_item rest a = next_item rest b"
  using assms by (cases rest) (simp_all add: emit_def)

context outbox_storage
begin

definition after_item :: "(outbox_item \<Rightarrow> client_message + rejection) \<Rightarrow> outbox_item \<Rightarrow> 's \<Rightarrow> 's" where
  "after_item ans i s =
     (if requeued ans i then st_put db (retry_later i) s else st_delete db (key_of i) s)"

lemma item_step:
  "run db (answer_events ans i) (next_item (i # rest) o') =
     next_item rest (emit (item_log ans i) (o'\<lparr>ob_store := after_item ans i (ob_store o')\<rparr>))"
proof (cases "ans i")
  case (Inl m)
  then show ?thesis
    by (auto simp: storage_done_def after_item_def requeued_def item_log_def intro!: next_item_cong)
next
  case (Inr r)
  then show ?thesis
    by (auto simp: storage_done_def after_item_def requeued_def item_log_def rejected_def
        retry_later_def intro!: next_item_cong)
qed

lemma flush_loop:
  "run db (concat (map (answer_events ans) items)) (next_item items o') =
     next_item [] (emit (concat (map (item_log ans) items))
       (o'\<lparr>ob_store := fold (after_item ans) items (ob_store o')\<rparr>))"
proof (induction items arbitrary: o')
  case Nil
  show ?case by (simp add: emit_def)
next
  case (Cons i items)
  show ?case
    unfolding list.map concat.simps outbox_run_append item_step Cons.IH
    by (rule next_item_cong) simp_all
qed

lemma fold_after_item:
  "distinct (map key_of items) \<Longrightarrow>
     set (st_list db (fold (after_item ans) items s)) =
       {j \<in> set (st_list db s). key_of j \<notin> key_of ` set items} \<union>
       retry_later ` {i \<in> set items. requeued ans i}"
proof (induction items arbitrary: s)
  case Nil
  show ?case by simp
next
  case (Cons i items)
  then have "key_of i \<notin> key_of ` set items" by (auto simp: image_iff)
  with Cons show ?case
    by (auto simp: after_item_def list_put list_delete)
qed

text \<open>One flush from the start: the items of the store, each posted once, in the order of the
  store.\<close>

lemma flush_whole:
  fixes ans :: "outbox_item \<Rightarrow> client_message + rejection" and o' :: "'s outbox"
  assumes "ob_phase o' = Stopped" and "\<not> ob_running o'" and "ob_token o' = Some t" and "t \<noteq> []"
  defines "items \<equiv> st_list db (ob_store o')"
  defines "o2 \<equiv> run db ([Flush, Listed] @ concat (map (answer_events ans) items)) o'"
  shows "ob_phase o2 = Stopped" and "\<not> ob_running o2"
    and "ob_log o2 = ob_log o' @ concat (map (item_log ans) items)"
    and "set (st_list db (ob_store o2)) = retry_later ` {i \<in> set items. requeued ans i}"
proof -
  have eq: "run db [Flush, Listed] o' = next_item items (o'\<lparr>ob_running := True, ob_phase := Listing\<rparr>)"
    using assms(1-4) by (simp add: flush_def items_def)
  have o2: "o2 = next_item [] (emit (concat (map (item_log ans) items))
      (o'\<lparr>ob_running := True, ob_phase := Listing, ob_store := fold (after_item ans) items (ob_store o')\<rparr>))"
    unfolding o2_def outbox_run_append eq flush_loop by simp
  show "ob_phase o2 = Stopped" "\<not> ob_running o2"
      "ob_log o2 = ob_log o' @ concat (map (item_log ans) items)"
    by (simp_all add: o2)
  have "distinct (map key_of items)" by (simp add: items_def distinct_list)
  then show "set (st_list db (ob_store o2)) = retry_later ` {i \<in> set items. requeued ans i}"
    by (simp add: o2 fold_after_item) (auto simp: items_def)
qed

end

text \<open>A flush that starts while signed in posts every stored message exactly once, in ascending
  order of client message id, whatever the server answers to each; it reports each outcome, and
  leaves in the store exactly the messages that failed otherwise than by an idempotency conflict,
  with one more attempt counted.\<close>

theorem flush_posts_each_message_once:
  fixes ans :: "outbox_item \<Rightarrow> client_message + rejection" and o' :: "idb outbox"
  assumes "ob_phase o' = Stopped" and "\<not> ob_running o'" and "ob_token o' = Some t" and "t \<noteq> []"
  defines "items \<equiv> idb_list (ob_store o')"
  defines "o2 \<equiv> run outboxStorage ([Flush, Listed] @ concat (map (answer_events ans) items)) o'"
  shows "sorted (map key_of items) \<and> distinct (map key_of items) \<and>
    ob_phase o2 = Stopped \<and> \<not> ob_running o2 \<and>
    ob_log o2 = ob_log o' @ concat (map (item_log ans) items) \<and>
    set (idb_list (ob_store o2)) = retry_later ` {i \<in> set items. requeued ans i}"
proof -
  have "sorted (map key_of items) \<and> distinct (map key_of items)"
    unfolding items_def by (rule idb_list_order)
  then show ?thesis
    using idb.flush_whole [OF assms(1-4), where ans = ans]
    by (simp only: o2_def items_def) (simp add: outboxStorage_def)
qed

definition example_input :: create_input where
  "example_input =
     \<lparr>ci_client_msg_id = js ''a'', ci_body = js ''hi'', ci_body_format = Val Markdown,
      ci_reply_to_id = Undefined, ci_thread_root_id = Undefined,
      ci_mentioned_actor_ids = Undefined, ci_file_ids = Undefined\<rparr>"

lemma idb_list_put_empty: "idb_list (idb_put i idb_empty) = [i]"
  by (transfer, simp)

theorem flush_posts_each_message_once_witness:
  "ob_log (run outboxStorage [Flush, Listed, CreateRejects OtherRejection, StorageDone]
     (start (idb_put (new_item (js ''c'') example_input (js ''t'')) idb_empty)
        \<lparr>ob_token := Some (js ''x'')\<rparr>)) =
   [Request (js ''c'') example_input, Refused (js ''a''), OnFailed (js ''a'') (js ''offline'')]"
proof -
  let ?o = "start (idb_put (new_item (js ''c'') example_input (js ''t'')) idb_empty)
        \<lparr>ob_token := Some (js ''x'')\<rparr>"
  note flush_posts_each_message_once [where o' = ?o and t = "js ''x''" and ans = "\<lambda>_. Inr OtherRejection"]
  from this show ?thesis
    by (simp add: start_def idb_list_put_empty item_log_def new_item_def example_input_def)
qed

section \<open>What one flush leaves\<close>

text \<open>A message stored while a flush is running is not in the list that flush works through, and the
  flush its own \<open>enqueue\<close> asks for returns at once.\<close>

definition waiting :: "'s storage \<Rightarrow> jstring \<Rightarrow> nat \<Rightarrow> 's outbox \<Rightarrow> bool" where
  "waiting db k n o' \<longleftrightarrow>
     ob_puts o' = [] \<and> k \<in> stored_keys db (ob_store o') \<and> k \<notin> key_of ` set (phase_items (ob_phase o')) \<and>
     ob_phase o' \<noteq> Listing \<and>
     length (filter (\<lambda>e. \<exists>c i. e = Request c i \<and> ci_client_msg_id i = k) (ob_log o')) = n"

fun starts_flush :: "event \<Rightarrow> bool" where
  "starts_flush (Enqueue c i now) \<longleftrightarrow> True"
| "starts_flush Flush \<longleftrightarrow> True"
| "starts_flush _ \<longleftrightarrow> False"

lemma waiting_next_item:
  "waiting db k n o' \<Longrightarrow> k \<notin> key_of ` set rest \<Longrightarrow> waiting db k n (next_item rest o')"
  by (cases rest) (auto simp: waiting_def)

context outbox_storage
begin

lemma waiting_step:
  assumes "waiting db k n o'" and "\<not> starts_flush e"
  shows "waiting db k n (step db e o')"
proof (cases e)
  case StorageDone
  show ?thesis
  proof (cases "ob_phase o'")
    case (Removing i m rest)
    have "waiting db k n (storage_done db o')"
      unfolding storage_done_def Removing phase.case
      by (rule waiting_next_item) (use assms(1) Removing in \<open>auto simp: waiting_def\<close>)
    with StorageDone show ?thesis by simp
  next
    case (Dropping i r rest)
    have "waiting db k n (storage_done db o')"
      unfolding storage_done_def Dropping phase.case
      by (rule waiting_next_item) (use assms(1) Dropping in \<open>auto simp: waiting_def\<close>)
    with StorageDone show ?thesis by simp
  next
    case (Requeueing i r rest)
    have "waiting db k n (storage_done db o')"
      unfolding storage_done_def Requeueing phase.case
      by (rule waiting_next_item) (use assms(1) Requeueing in \<open>auto simp: waiting_def\<close>)
    with StorageDone show ?thesis by simp
  qed (use assms StorageDone in \<open>simp_all add: storage_done_def\<close>)
next
  case StorageRejects
  with assms show ?thesis
    by (cases "ob_phase o'") (auto simp: storage_rejects_def rejected_def waiting_def)
next
  case (Created m)
  with assms show ?thesis by (cases "ob_phase o'") (auto simp: waiting_def)
next
  case (CreateRejects r)
  with assms show ?thesis by (cases "ob_phase o'") (auto simp: rejected_def waiting_def)
qed (use assms in \<open>auto simp: waiting_def\<close>)

lemma waiting_run:
  "waiting db k n o' \<Longrightarrow> list_all (\<lambda>e. \<not> starts_flush e) es \<Longrightarrow> waiting db k n (run db es o')"
  by (induction es arbitrary: o') (auto intro: waiting_step)

end

text \<open>A message queued while a flush is running, and not among the messages that flush is working
  through, is not posted by it: however the flush goes on and ends, the message stays in the store
  with no request sent, until something starts another flush.\<close>

theorem message_queued_during_flush_waits:
  fixes o' :: "idb outbox"
  assumes "ob_running o'" and "ob_phase o' \<noteq> Listing" and "ob_puts o' = [i]"
    and "key_of i \<notin> key_of ` set (phase_items (ob_phase o'))"
    and "\<forall>c input. Request c input \<in> set (ob_log o') \<longrightarrow> ci_client_msg_id input \<noteq> key_of i"
    and "list_all (\<lambda>e. \<not> starts_flush e) es"
  defines "o2 \<equiv> run outboxStorage (PutDone # es) o'"
  shows "key_of i \<in> stored_keys outboxStorage (ob_store o2) \<and>
    (\<forall>c input. Request c input \<in> set (ob_log o2) \<longrightarrow> ci_client_msg_id input \<noteq> key_of i)"
proof -
  have "waiting outboxStorage (key_of i) 0 (step outboxStorage PutDone o')"
    using assms(1-5) by (auto simp: waiting_def flush_def filter_empty_conv)
  from idb.waiting_run [OF this assms(6)] show ?thesis
    by (auto simp: o2_def waiting_def filter_empty_conv)
qed

theorem message_queued_during_flush_waits_witness:
  "key_of (new_item (js ''c'') example_input (js ''t'')) \<in> stored_keys outboxStorage
     (ob_store (run outboxStorage [PutDone, StorageDone]
       (start idb_empty\<lparr>ob_running := True, ob_token := Some (js ''x''),
          ob_phase := Removing ((new_item (js ''c'') example_input (js ''t''))
                         \<lparr>oi_input := example_input\<lparr>ci_client_msg_id := js ''b''\<rparr>\<rparr>)
                       (optimistic_message (new_item (js ''c'') example_input (js ''t''))) [],
          ob_puts := [new_item (js ''c'') example_input (js ''t'')]\<rparr>)))"
  by (rule conjunct1 [OF message_queued_during_flush_waits])
    (simp_all add: start_def new_item_def example_input_def)

end
