(* ===== verification/Utf8.thy ===== *)
theory Utf8
  imports Prelude
begin

text \<open>
  UTF-16 to UTF-8, the conversions of the standard library that the code relies on:
  \<open>encodeURIComponent\<close> in the paths of the API client, \<open>TextEncoder\<close> in the agent runtime, and
  iteration over a string by code points. Code points and bytes are naturals; a lone surrogate
  stays in the list of code points as its own value.
\<close>

definition is_high :: "cunit \<Rightarrow> bool" where
  "is_high c \<longleftrightarrow> 0xD800 \<le> c \<and> c \<le> 0xDBFF"

definition is_low :: "cunit \<Rightarrow> bool" where
  "is_low c \<longleftrightarrow> 0xDC00 \<le> c \<and> c \<le> 0xDFFF"

fun code_points :: "jstring \<Rightarrow> nat list" where
  "code_points [] = []"
| "code_points [c] = [unat c]"
| "code_points (c # d # s) =
     (if is_high c \<and> is_low d
      then (0x10000 + (unat c - 0xD800) * 0x400 + (unat d - 0xDC00)) # code_points s
      else unat c # code_points (d # s))"

definition is_surrogate :: "nat \<Rightarrow> bool" where
  "is_surrogate n \<longleftrightarrow> 0xD800 \<le> n \<and> n \<le> 0xDFFF"

definition well_formed :: "jstring \<Rightarrow> bool" where
  "well_formed s \<longleftrightarrow> list_all (\<lambda>n. \<not> is_surrogate n) (code_points s)"

text \<open>The UTF-8 bytes of a code point.\<close>

definition utf8 :: "nat \<Rightarrow> nat list" where
  "utf8 n =
     (if n < 0x80 then [n]
      else if n < 0x800 then [0xC0 + n div 64, 0x80 + n mod 64]
      else if n < 0x10000 then [0xE0 + n div 4096, 0x80 + n div 64 mod 64, 0x80 + n mod 64]
      else [0xF0 + n div 262144, 0x80 + n div 4096 mod 64, 0x80 + n div 64 mod 64, 0x80 + n mod 64])"

text \<open>\<open>TextEncoder.encode\<close>: a lone surrogate becomes U+FFFD.\<close>

definition text_encode :: "jstring \<Rightarrow> nat list" where
  "text_encode s = concat (map (\<lambda>n. utf8 (if is_surrogate n then 0xFFFD else n)) (code_points s))"

text \<open>\<open>encodeURIComponent\<close>: \<open>None\<close> is the URIError on a lone surrogate.\<close>

definition is_unreserved :: "cunit \<Rightarrow> bool" where
  "is_unreserved c \<longleftrightarrow> is_alnum c \<or> c \<in> set (js ''-_.!~*'') \<or> c = 39 \<or> c = 40 \<or> c = 41"

definition upper_hex :: "nat \<Rightarrow> cunit" where
  "upper_hex n = (if n < 10 then of_nat (48 + n) else of_nat (55 + n))"

definition percent :: "nat \<Rightarrow> jstring" where
  "percent b = [37, upper_hex (b div 16), upper_hex (b mod 16)]"

definition encode_point :: "nat \<Rightarrow> jstring" where
  "encode_point n = (if n < 0x80 \<and> is_unreserved (of_nat n) then [of_nat n]
                     else concat (map percent (utf8 n)))"

definition encodeURIComponent :: "jstring \<Rightarrow> jstring option" where
  "encodeURIComponent s =
     (if well_formed s then Some (concat (map encode_point (code_points s))) else None)"

section \<open>Code points\<close>

definition units_of :: "nat \<Rightarrow> jstring" where
  "units_of n = (if n < 0x10000 then [of_nat n]
     else [of_nat (0xD800 + (n - 0x10000) div 0x400), of_nat (0xDC00 + (n - 0x10000) mod 0x400)])"

lemma surrogate_units:
  "is_high c \<longleftrightarrow> 0xD800 \<le> unat c \<and> unat c \<le> 0xDBFF"
  "is_low c \<longleftrightarrow> 0xDC00 \<le> unat c \<and> unat c \<le> 0xDFFF"
  by (simp_all add: is_high_def is_low_def word_le_nat_alt)

lemma units_of_pair:
  assumes "is_high c" and "is_low d"
  shows "units_of (0x10000 + (unat c - 0xD800) * 0x400 + (unat d - 0xDC00)) = [c, d]"
proof -
  define x y where "x = unat c - 0xD800" and "y = unat d - 0xDC00"
  have "y < 0x400" "unat c = 0xD800 + x" "unat d = 0xDC00 + y"
    using assms by (auto simp: surrogate_units x_def y_def)
  moreover from this have "c = of_nat (0xD800 + x)" "d = of_nat (0xDC00 + y)"
    by (metis of_nat_unat ucast_id)+
  moreover have "(x * 0x400 + y) div 0x400 = x" "(x * 0x400 + y) mod 0x400 = y"
    using \<open>y < 0x400\<close> by auto
  ultimately show ?thesis unfolding units_of_def x_def [symmetric] y_def [symmetric] by simp
qed

lemma unat_cunit_less: "unat (c :: cunit) < 0x10000"
  using unsigned_less [of c] by simp

lemma units_code_points: "concat (map units_of (code_points s)) = s"
proof (induction s rule: code_points.induct)
  case (3 c d s)
  then show ?case
    using units_of_pair by (auto simp: units_of_def unat_cunit_less)
qed (auto simp: units_of_def unat_cunit_less)

lemma code_points_inj: "code_points s = code_points t \<Longrightarrow> s = t"
  using units_code_points by metis

lemma code_points_less: "n \<in> set (code_points s) \<Longrightarrow> n < 0x110000"
proof (induction s rule: code_points.induct)
  case (3 c d s)
  then show ?case by (auto simp: surrogate_units split: if_splits intro: less_trans [OF unat_cunit_less])
qed (auto intro: less_trans [OF unat_cunit_less])

lemma length_code_points: "length (code_points s) \<le> length s"
  by (induction s rule: code_points.induct) auto

text \<open>Appending two strings appends their code points unless the seam splits a pair.\<close>

lemma code_points_append:
  assumes "s = [] \<or> t = [] \<or> \<not> (is_high (last s) \<and> is_low (hd t))"
  shows "code_points (s @ t) = code_points s @ code_points t"
  using assms
proof (induction s rule: code_points.induct)
  case 1
  then show ?case by simp
next
  case (2 c)
  then show ?case by (cases t) auto
next
  case (3 c d s)
  then show ?case by (cases s) auto
qed

section \<open>UTF-8 is a prefix code\<close>

lemma utf8_bytes: "n < 0x110000 \<Longrightarrow> b \<in> set (utf8 n) \<Longrightarrow> b < 256"
  by (auto simp: utf8_def split: if_splits)

lemma utf8_nonempty [simp]: "utf8 n \<noteq> []"
  by (simp add: utf8_def)

lemma length_utf8: "1 \<le> length (utf8 n)" "length (utf8 n) \<le> 4"
  by (auto simp: utf8_def)

text \<open>Reading one code point back from the front of a byte list.\<close>

fun utf8_take :: "nat list \<Rightarrow> nat \<times> nat list" where
  "utf8_take (b # c # d # e # r) =
     (if b < 0x80 then (b, c # d # e # r)
      else if b < 0xE0 then ((b - 0xC0) * 64 + (c - 0x80), d # e # r)
      else if b < 0xF0 then ((b - 0xE0) * 4096 + (c - 0x80) * 64 + (d - 0x80), e # r)
      else ((b - 0xF0) * 262144 + (c - 0x80) * 4096 + (d - 0x80) * 64 + (e - 0x80), r))"
| "utf8_take (b # c # d # []) =
     (if b < 0x80 then (b, [c, d])
      else if b < 0xE0 then ((b - 0xC0) * 64 + (c - 0x80), [d])
      else ((b - 0xE0) * 4096 + (c - 0x80) * 64 + (d - 0x80), []))"
| "utf8_take (b # c # []) = (if b < 0x80 then (b, [c]) else ((b - 0xC0) * 64 + (c - 0x80), []))"
| "utf8_take (b # []) = (b, [])"
| "utf8_take [] = (0, [])"

lemma base64_digits:
  fixes n :: nat
  shows "n div 64 * 64 + n mod 64 = n"
    and "n div 4096 * 4096 + n div 64 mod 64 * 64 + n mod 64 = n"
    and "n div 262144 * 262144 + n div 4096 mod 64 * 4096 + n div 64 mod 64 * 64 + n mod 64 = n"
proof -
  define q r where "q = n div 64" and "r = n div 4096"
  have rq: "r = q div 64" "n div 262144 = r div 64"
    by (simp_all add: q_def r_def div_mult2_eq [symmetric])
  have n: "n = q * 64 + n mod 64" and q: "q = r * 64 + q mod 64" and r: "r = r div 64 * 64 + r mod 64"
    by (simp_all add: q_def rq(1))
  show "n div 64 * 64 + n mod 64 = n" by simp
  show "n div 4096 * 4096 + n div 64 mod 64 * 64 + n mod 64 = n"
    using n q unfolding q_def [symmetric] r_def [symmetric] by linarith
  show "n div 262144 * 262144 + n div 4096 mod 64 * 4096 + n div 64 mod 64 * 64 + n mod 64 = n"
    using n q r unfolding q_def [symmetric] r_def [symmetric] rq(2) by linarith
qed

lemma utf8_take_utf8:
  assumes "n < 0x110000"
  shows "utf8_take (utf8 n @ r) = (n, r)"
proof -
  consider (1) "n < 0x80" | (2) "0x80 \<le> n" "n < 0x800" | (3) "0x800 \<le> n" "n < 0x10000"
    | (4) "0x10000 \<le> n" by linarith
  then show ?thesis
  proof cases
    case 1
    then show ?thesis
      by (cases r rule: utf8_take.cases) (simp_all add: utf8_def)
  next
    case 2
    define x y where "x = n div 64" and "y = n mod 64"
    have u: "utf8 n = [0xC0 + x, 0x80 + y]" using 2 by (simp add: utf8_def x_def y_def)
    have "x < 32" "x * 64 + y = n" using 2 by (auto simp: x_def y_def)
    then show ?thesis unfolding u by (cases r rule: utf8_take.cases) simp_all
  next
    case 3
    define x y z where "x = n div 4096" and "y = n div 64 mod 64" and "z = n mod 64"
    have u: "utf8 n = [0xE0 + x, 0x80 + y, 0x80 + z]"
      using 3 by (simp add: utf8_def x_def y_def z_def)
    have "x < 16" using 3 by (auto simp: x_def)
    moreover have "x * 4096 + y * 64 + z = n"
      unfolding x_def y_def z_def by (rule base64_digits(2))
    ultimately show ?thesis unfolding u by (cases r) simp_all
  next
    case 4
    define w x y z where "w = n div 262144" and "x = n div 4096 mod 64" and "y = n div 64 mod 64"
      and "z = n mod 64"
    have u: "utf8 n = [0xF0 + w, 0x80 + x, 0x80 + y, 0x80 + z]"
      using 4 by (simp add: utf8_def w_def x_def y_def z_def)
    have "w * 262144 + x * 4096 + y * 64 + z = n"
      unfolding w_def x_def y_def z_def by (rule base64_digits(3))
    then show ?thesis unfolding u by simp
  qed
qed

lemma utf8_prefix:
  assumes "a < 0x110000" and "b < 0x110000" and "utf8 a @ r = utf8 b @ r'"
  shows "a = b \<and> r = r'"
  using utf8_take_utf8 [OF assms(1), of r] utf8_take_utf8 [OF assms(2), of r'] assms(3)
  by (metis prod.inject)

text \<open>Concatenated codes of a prefix code determine the coded list.\<close>

lemma prefix_code_inj:
  assumes "\<And>x y r r'. P x \<Longrightarrow> P y \<Longrightarrow> f x @ r = f y @ r' \<Longrightarrow> x = y \<and> r = r'"
    and "\<And>x. f x \<noteq> []" and "\<forall>x \<in> set xs. P x" and "\<forall>y \<in> set ys. P y"
    and "concat (map f xs) = concat (map f ys)"
  shows "xs = ys"
  using assms(3-5)
proof (induction xs arbitrary: ys)
  case Nil
  then show ?case using assms(2) by (cases ys) auto
next
  case (Cons x xs)
  then obtain y ys' where ys: "ys = y # ys'" using assms(2) [of x] by (cases ys) simp_all
  have xy: "x = y \<and> concat (map f xs) = concat (map f ys')"
    using Cons.prems assms(1) [of x y] by (simp add: ys)
  have "xs = ys'"
  proof (rule Cons.IH)
    show "\<forall>x \<in> set xs. P x" "\<forall>y \<in> set ys'. P y" using Cons.prems(1,2) ys by auto
  qed (rule conjunct2 [OF xy])
  with xy ys show ?case by simp
qed

lemma text_encode_inj:
  assumes "well_formed s" and "well_formed t" and "text_encode s = text_encode t"
  shows "s = t"
proof -
  have eq: "text_encode u = concat (map utf8 (code_points u))" if "well_formed u" for u
    using that by (auto simp: text_encode_def well_formed_def list_all_iff intro!: arg_cong [where f = concat])
  have "code_points s = code_points t"
  proof (rule prefix_code_inj [OF utf8_prefix utf8_nonempty])
    show "concat (map utf8 (code_points s)) = concat (map utf8 (code_points t))"
      using assms eq by simp
  qed (auto dest: code_points_less)
  then show ?thesis by (rule code_points_inj)
qed

section \<open>Percent encoding\<close>

definition hex_digits :: "cunit set" where
  "hex_digits = set (js ''0123456789ABCDEF'')"

lemma unat_upper_hex: "n < 16 \<Longrightarrow> unat (upper_hex n) = (if n < 10 then 48 + n else 55 + n)"
  by (simp add: upper_hex_def unat_of_nat del: of_nat_add)

lemma upper_hex_mem:
  assumes "n < 16"
  shows "upper_hex n \<in> hex_digits"
proof -
  have "\<forall>n \<in> set [0..<16]. upper_hex n \<in> hex_digits"
    by (simp add: upt_rec upper_hex_def hex_digits_def)
  with assms show ?thesis by simp
qed

lemma upper_hex_inj:
  assumes "m < 16" and "n < 16" and "upper_hex m = upper_hex n"
  shows "m = n"
proof -
  have "(if m < 10 then 48 + m else 55 + m) = (if n < 10 then 48 + n else 55 + n)"
    using unat_upper_hex [OF assms(1)] unat_upper_hex [OF assms(2)] assms(3) by metis
  with assms(1,2) show ?thesis by (simp split: if_splits)
qed

lemma percent_inj:
  assumes "a < 256" and "b < 256" and "percent a = percent b"
  shows "a = b"
proof -
  have "a div 16 = b div 16"
    using assms by (intro upper_hex_inj) (auto simp: percent_def)
  moreover have "a mod 16 = b mod 16"
    using assms by (intro upper_hex_inj) (auto simp: percent_def)
  ultimately show ?thesis by (metis div_mult_mod_eq)
qed

text \<open>Encoded text holds only unreserved characters and percent triples, so none of the characters
  that structure a URL.\<close>

definition uri_safe :: "cunit \<Rightarrow> bool" where
  "uri_safe c \<longleftrightarrow> is_unreserved c \<or> c = ch CHR ''%''"

lemma hex_digits_safe: "c \<in> hex_digits \<Longrightarrow> uri_safe c"
  by (auto simp: hex_digits_def uri_safe_def is_unreserved_def is_alnum_def is_digit_def is_upper_def)

lemma percent_safe:
  assumes "b < 256" and "c \<in> set (percent b)"
  shows "uri_safe c"
proof -
  have "b div 16 < 16" using assms(1) by auto
  then have "upper_hex (b div 16) \<in> hex_digits" "upper_hex (b mod 16) \<in> hex_digits"
    by (simp_all add: upper_hex_mem)
  with assms(2) hex_digits_safe show ?thesis by (auto simp: percent_def uri_safe_def)
qed

lemma encode_point_safe:
  assumes "n < 0x110000" and "c \<in> set (encode_point n)"
  shows "uri_safe c"
proof (cases "n < 0x80 \<and> is_unreserved (of_nat n)")
  case True
  then show ?thesis using assms by (simp add: encode_point_def uri_safe_def)
next
  case False
  with assms obtain b where "b \<in> set (utf8 n)" "c \<in> set (percent b)"
    by (auto simp: encode_point_def split: if_splits)
  then show ?thesis using percent_safe utf8_bytes assms(1) by blast
qed

lemma encodeURIComponent_safe:
  assumes "encodeURIComponent s = Some e" and "c \<in> set e"
  shows "uri_safe c"
proof -
  have "e = concat (map encode_point (code_points s))"
    using assms(1) by (simp add: encodeURIComponent_def split: if_splits)
  with assms(2) obtain n where "n \<in> set (code_points s)" "c \<in> set (encode_point n)" by auto
  then show ?thesis using encode_point_safe code_points_less by blast
qed

lemma length_percent [simp]: "length (percent b) = 3"
  by (simp add: percent_def)

lemma percent_prefix:
  "list_all (\<lambda>b. b < 256) xs \<Longrightarrow> list_all (\<lambda>b. b < 256) ys \<Longrightarrow>
     concat (map percent xs) @ r = concat (map percent ys) @ r' \<Longrightarrow>
     \<exists>z. ys = xs @ z \<or> xs = ys @ z"
proof (induction xs arbitrary: ys)
  case Nil
  then show ?case by blast
next
  case (Cons x xs)
  show ?case
  proof (cases ys)
    case Nil
    then show ?thesis by simp
  next
    case (Cons y ys')
    with Cons.prems have "percent x = percent y"
      and "concat (map percent xs) @ r = concat (map percent ys') @ r'"
      by auto
    with Cons.prems Cons.IH [of ys'] Cons percent_inj [of x y] show ?thesis by auto
  qed
qed

lemma encode_point_prefix:
  assumes "a < 0x110000" and "b < 0x110000" and "encode_point a @ r = encode_point b @ r'"
  shows "a = b \<and> r = r'"
proof -
  let ?plain = "\<lambda>n. n < 0x80 \<and> is_unreserved (of_nat n)"
  have bytes: "list_all (\<lambda>b. b < 256) (utf8 n)" if "n < 0x110000" for n
    using utf8_bytes that by (auto simp: list_all_iff)
  have first: "\<exists>t. concat (map percent (utf8 n)) = 37 # t" for n
    by (cases "utf8 n") (simp_all add: percent_def)
  have no37: "\<not> is_unreserved 37"
    by (simp add: is_unreserved_def is_alnum_def is_digit_def is_upper_def is_lower_def)
  have inj: "a = b" if "?plain a" "?plain b" "(of_nat a :: cunit) = of_nat b"
  proof -
    have "unat (of_nat a :: cunit) = a" "unat (of_nat b :: cunit) = b"
      using that(1,2) by (simp_all add: unat_of_nat)
    with that(3) show ?thesis by metis
  qed
  show ?thesis
  proof (cases "?plain a"; cases "?plain b")
    assume "?plain a" "?plain b"
    with assms(3) inj show ?thesis by (auto simp: encode_point_def)
  next
    assume *: "?plain a" "\<not> ?plain b"
    with first [of b] assms(3) no37 show ?thesis by (auto simp: encode_point_def)
  next
    assume *: "\<not> ?plain a" "?plain b"
    with first [of a] assms(3) no37 show ?thesis by (auto simp: encode_point_def)
  next
    assume *: "\<not> ?plain a" "\<not> ?plain b"
    then have eq: "concat (map percent (utf8 a)) @ r = concat (map percent (utf8 b)) @ r'"
      using assms(3) by (auto simp: encode_point_def)
    from percent_prefix [OF bytes bytes eq] assms(1,2) obtain z
      where "utf8 b @ [] = utf8 a @ z \<or> utf8 a @ [] = utf8 b @ z" by auto
    then have "a = b" using utf8_prefix [OF assms(1,2)] utf8_prefix [OF assms(2,1)] by metis
    with eq show ?thesis by simp
  qed
qed

lemma encode_point_nonempty: "encode_point n \<noteq> []"
  by (cases "utf8 n") (auto simp: encode_point_def percent_def)

lemma encodeURIComponent_inj:
  assumes "encodeURIComponent s = Some e" and "encodeURIComponent t = Some e"
  shows "s = t"
proof -
  have "code_points s = code_points t"
  proof (rule prefix_code_inj [OF encode_point_prefix encode_point_nonempty])
    show "concat (map encode_point (code_points s)) = concat (map encode_point (code_points t))"
      using assms by (auto simp: encodeURIComponent_def split: if_splits)
  qed (auto dest: code_points_less)
  then show ?thesis by (rule code_points_inj)
qed

lemma code_points_ascii:
  assumes "list_all is_unreserved s"
  shows "code_points s = map unat s"
proof -
  have "\<not> is_high c" if "is_unreserved c" for c
    using that by (auto simp: is_unreserved_def is_alnum_def is_digit_def is_upper_def is_lower_def
        is_high_def word_le_nat_alt)
  with assms show ?thesis by (induction s rule: code_points.induct) simp_all
qed

text \<open>A string of unreserved characters, such as a UUID, is its own encoding.\<close>

lemma encodeURIComponent_unreserved:
  assumes "list_all is_unreserved s"
  shows "encodeURIComponent s = Some s"
proof -
  have small: "unat c < 0x80" if "is_unreserved c" for c
    using that by (auto simp: is_unreserved_def is_alnum_def is_digit_def is_upper_def is_lower_def
        word_le_nat_alt)
  have "well_formed s"
    using assms small unfolding well_formed_def code_points_ascii [OF assms]
    by (fastforce simp: list_all_iff is_surrogate_def)
  moreover have "concat (map encode_point (map unat s)) = s"
    using assms small by (induction s) (auto simp: encode_point_def)
  ultimately show ?thesis by (simp add: encodeURIComponent_def code_points_ascii [OF assms])
qed

end
