(* ===== verification/Json.thy ===== *)
theory Json
  imports Utf8
begin

text \<open>
  \<open>JSON.stringify\<close> on the values of the protocols, with integers as the numbers. The lemmas show that
  the output is never empty and has no control character, so that it fits on one line.
\<close>

text \<open>\<open>String(n)\<close> of an integer.\<close>

fun show_nat :: "nat \<Rightarrow> jstring" where
  "show_nat n = (if n < 10 then [of_nat (48 + n)] else show_nat (n div 10) @ [of_nat (48 + n mod 10)])"

declare show_nat.simps [simp del]

definition show_int :: "int \<Rightarrow> jstring" where
  "show_int i = (if i < 0 then js ''-'' @ show_nat (nat (- i)) else show_nat (nat i))"

fun default_to :: "'a \<Rightarrow> 'a option \<Rightarrow> 'a" where
  "default_to d None = d"
| "default_to d (Some x) = x"

definition lower_hex :: "nat \<Rightarrow> cunit" where
  "lower_hex n = (if n < 10 then of_nat (48 + n) else of_nat (87 + n))"

definition unicode_escape :: "nat \<Rightarrow> jstring" where
  "unicode_escape n =
     [92, 117, lower_hex (n div 4096), lower_hex (n div 256 mod 16), lower_hex (n div 16 mod 16),
      lower_hex (n mod 16)]"

definition quote_point :: "nat \<Rightarrow> jstring" where
  "quote_point n =
     (if n = 8 then [92, 98] else if n = 9 then [92, 116] else if n = 10 then [92, 110]
      else if n = 12 then [92, 102] else if n = 13 then [92, 114]
      else if n = 34 then [92, 34] else if n = 92 then [92, 92]
      else if n < 32 \<or> is_surrogate n then unicode_escape n else units_of n)"

definition quote :: "jstring \<Rightarrow> jstring" where
  "quote s = [34] @ concat (map quote_point (code_points s)) @ [34]"

fun stringify :: "json \<Rightarrow> jstring" where
  "stringify JNull = js ''null''"
| "stringify (JBool b) = (if b then js ''true'' else js ''false'')"
| "stringify (JNum n) = show_int n"
| "stringify (JStr s) = quote s"
| "stringify (JArr vs) = js ''['' @ join_with (js '','') (map stringify vs) @ js '']''"
| "stringify (JObj kvs) =
     js ''{'' @ join_with (js '','') (map (\<lambda>(k, v). quote k @ js '':'' @ stringify v) kvs) @ js ''}''"

text \<open>\<open>JSON.stringify(undefined)\<close> is undefined.\<close>

fun stringify_opt :: "json option \<Rightarrow> jstring option" where
  "stringify_opt None = None"
| "stringify_opt (Some v) = Some (stringify v)"

lemma show_nat_nonempty [simp]: "show_nat n \<noteq> []"
  by (subst show_nat.simps) simp

lemma stringify_nonempty: "stringify v \<noteq> []"
  by (cases v) (auto simp: show_int_def quote_def)

definition control :: "cunit \<Rightarrow> bool" where
  "control c \<longleftrightarrow> c < 32"

lemma lower_hex_not_control: "n < 16 \<Longrightarrow> \<not> control (lower_hex n)"
  by (auto simp: lower_hex_def control_def word_less_nat_alt unat_of_nat simp del: of_nat_add)

lemma quote_point_not_control:
  assumes "n < 0x110000" and "c \<in> set (quote_point n)"
  shows "\<not> control c"
proof -
  have esc: "\<not> control c" if "n < 0x10000" "n div 4096 < 16" "c \<in> set (unicode_escape n)"
    using that lower_hex_not_control [of "n div 4096"] lower_hex_not_control [of "n div 256 mod 16"]
      lower_hex_not_control [of "n div 16 mod 16"] lower_hex_not_control [of "n mod 16"]
    by (auto simp: unicode_escape_def) (auto simp: control_def)
  have units: "\<not> control c" if "32 \<le> n" "\<not> is_surrogate n" "c \<in> set (units_of n)"
  proof (cases "n < 0x10000")
    case True
    then have "c = of_nat n" using that(3) by (simp add: units_of_def)
    with True that(1) show ?thesis by (simp add: control_def word_less_nat_alt unat_of_nat)
  next
    case False
    then have "n - 0x10000 < 0x100000" using assms(1) by simp
    then have "(n - 0x10000) div 0x400 < 0x400" by auto
    with False that(3) show ?thesis
      by (auto simp: units_of_def control_def word_less_nat_alt unat_of_nat simp del: of_nat_add)
  qed
  have "n < 32 \<or> is_surrogate n \<Longrightarrow> n < 0x10000 \<and> n div 4096 < 16"
    by (auto simp: is_surrogate_def)
  then show ?thesis
    using assms(2) esc units
    by (auto simp: quote_point_def control_def split: if_splits)
qed

lemma quote_not_control: "c \<in> set (quote s) \<Longrightarrow> \<not> control c"
  using quote_point_not_control code_points_less by (auto simp: quote_def) (auto simp: control_def)

lemma set_join_with: "set (join_with d ps) \<subseteq> set d \<union> \<Union> (set ` set ps)"
  by (induction d ps rule: join_with.induct) auto

lemma show_nat_digit: "c \<in> set (show_nat n) \<Longrightarrow> is_digit c"
proof (induction n rule: show_nat.induct)
  case (1 n)
  have "is_digit (of_nat (48 + m) :: cunit)" if "m < 10" for m
    using that by (simp add: is_digit_def word_le_nat_alt unat_of_nat del: of_nat_add)
  then show ?case using 1 by (subst (asm) (2) show_nat.simps) (auto split: if_splits)
qed

lemma show_int_not_control: "c \<in> set (show_int i) \<Longrightarrow> \<not> control c"
  using show_nat_digit by (fastforce simp: show_int_def control_def is_digit_def word_less_nat_alt word_le_nat_alt split: if_splits)

lemma stringify_not_control: "c \<in> set (stringify v) \<Longrightarrow> \<not> control c"
proof (induction v arbitrary: c)
  case (JArr vs)
  then consider "c \<in> set (js ''[],'')" | v where "v \<in> set vs" "c \<in> set (stringify v)"
    using set_join_with [of "js '',''" "map stringify vs"] by auto
  then show ?case using JArr.IH by cases (auto simp: control_def)
next
  case (JObj kvs)
  then consider "c \<in> set (js ''{},:'')"
    | k v where "(k, v) \<in> set kvs" "c \<in> set (quote k) \<or> c \<in> set (stringify v)"
    using set_join_with [of "js '',''" "map (\<lambda>(k, v). quote k @ js '':'' @ stringify v) kvs"] by auto
  then show ?case
  proof cases
    case 2
    then show ?thesis using JObj.IH [of "(k, v)" v] quote_not_control by auto
  qed (auto simp: control_def)
qed (auto simp: show_int_not_control quote_not_control split: if_splits, auto simp: control_def)

end
