(* ===== verification/Api_Endpoints.thy ===== *)
theory Api_Endpoints
  imports Json
begin

text \<open>
  The endpoints of \<open>MessengerAPI\<close>, \<open>packages/core/src/api.ts\<close>: one constructor per method, one
  equation that says which HTTP request the method makes and what it returns of the answer. A
  path is kept as the pieces of the source's template: literal text, an argument passed through
  \<open>encodeURIComponent\<close>, an argument interpolated as it is, a serialized \<open>URLSearchParams\<close>.

  The lemmas show that an encoded argument cannot add a path segment, a query or a fragment to the
  request, and that two different arguments never give the same request line.
\<close>

section \<open>Requests\<close>

datatype http = GET | POST | PUT | PATCH | DELETE

datatype piece =
    Lit jstring
  | Enc jstring
  | Raw jstring
  | Form "(jstring \<times> jstring) list"

text \<open>A body is absent, \<open>JSON.stringify\<close> of a value, or a blob, of which the requests read the
  type.\<close>

datatype body = NoBody | JsonBody json | BlobBody jstring

text \<open>What a method does with the answer: all of it, one member, adopting it as tokens, null for no
  answer, the blob, or clearing the token whatever happens.\<close>

datatype projection = Whole | Member jstring | Tokens | OrNull | AsBlob | ThenClear

record request =
  rq_method :: http
  rq_path :: "piece list"
  rq_headers :: "(jstring \<times> jstring) list"
  rq_body :: body
  rq_result :: projection

definition req_with ::
  "(jstring \<times> jstring) list \<Rightarrow> http \<Rightarrow> piece list \<Rightarrow> body \<Rightarrow> projection \<Rightarrow> request" where
  "req_with hs m p b r =
     \<lparr>rq_method = m, rq_path = p,
      rq_headers = (case b of BlobBody mime \<Rightarrow> [(js ''Content-Type'', mime)] | _ \<Rightarrow> hs),
      rq_body = b, rq_result = r\<rparr>"

abbreviation req :: "http \<Rightarrow> piece list \<Rightarrow> body \<Rightarrow> projection \<Rightarrow> request" where
  "req \<equiv> req_with []"

text \<open>The serializer of \<open>URLSearchParams\<close>: \<open>application/x-www-form-urlencoded\<close>.\<close>

definition form_byte :: "nat \<Rightarrow> jstring" where
  "form_byte b =
     (if b = 32 then [43]
      else if b < 0x80 \<and> (is_alnum (of_nat b) \<or> b = 42 \<or> b = 45 \<or> b = 46 \<or> b = 95) then [of_nat b]
      else percent b)"

definition form_encode :: "jstring \<Rightarrow> jstring" where
  "form_encode s = concat (map form_byte (text_encode s))"

definition form_pairs :: "(jstring \<times> jstring) list \<Rightarrow> jstring" where
  "form_pairs kvs =
     join_with (js ''&'') (map (\<lambda>(k, v). form_encode k @ js ''='' @ form_encode v) kvs)"

fun render_piece :: "piece \<Rightarrow> jstring option" where
  "render_piece (Lit s) = Some s"
| "render_piece (Enc s) = encodeURIComponent s"
| "render_piece (Raw s) = Some s"
| "render_piece (Form kvs) = Some (form_pairs kvs)"

fun render :: "piece list \<Rightarrow> jstring option" where
  "render [] = Some []"
| "render (p # ps) =
     (case render_piece p of None \<Rightarrow> None | Some s \<Rightarrow> map_option ((@) s) (render ps))"

section \<open>Queries\<close>

text \<open>\<open>${query.size ? `?${query}` : ""}\<close>\<close>

definition optional_query :: "(jstring \<times> jstring) list \<Rightarrow> piece list" where
  "optional_query kvs = (if kvs = [] then [] else [Lit (js ''?''), Form kvs])"

fun query_param :: "jstring \<Rightarrow> jstring option \<Rightarrow> (jstring \<times> jstring) list" where
  "query_param k (Some v) = (if v \<noteq> [] then [(k, v)] else [])"
| "query_param k None = []"

fun query_number :: "jstring \<Rightarrow> int option \<Rightarrow> (jstring \<times> jstring) list" where
  "query_number k (Some n) = (if n \<noteq> 0 then [(k, show_int n)] else [])"
| "query_number k None = []"

record audit_filters =
  af_limit :: "int option"
  af_category :: "jstring option"
  af_actor_id :: "jstring option"
  af_from :: "jstring option"
  af_to :: "jstring option"
  af_after_id :: "jstring option"

definition audit_query :: "audit_filters \<Rightarrow> (jstring \<times> jstring) list" where
  "audit_query f =
     (js ''limit'', show_int (default_to 50 (af_limit f))) #
       query_param (js ''category'') (af_category f) @ query_param (js ''actor_id'') (af_actor_id f) @
       query_param (js ''from'') (af_from f) @ query_param (js ''to'') (af_to f) @
       query_param (js ''after_id'') (af_after_id f)"

definition actors_query :: "jstring \<Rightarrow> jstring \<Rightarrow> (jstring \<times> jstring) list" where
  "actors_query q afterID =
     query_param (js ''q'') (Some q) @ query_param (js ''after_id'') (Some afterID)"

datatype query_value = QUndefined | QString jstring | QNumber int | QBool bool

text \<open>\<open>Object.entries\<close> of the filters, whose keys are distinct.\<close>

fun search_param :: "jstring \<times> query_value \<Rightarrow> (jstring \<times> jstring) list" where
  "search_param (k, QUndefined) = []"
| "search_param (k, QString v) = (if v \<noteq> [] then [(k, v)] else [])"
| "search_param (k, QNumber n) = [(k, show_int n)]"
| "search_param (k, QBool b) = [(k, if b then js ''true'' else js ''false'')]"

definition search_query :: "(jstring \<times> query_value) list \<Rightarrow> (jstring \<times> jstring) list" where
  "search_query fs = concat (map search_param fs)"

definition messages_query ::
  "int option \<Rightarrow> int option \<Rightarrow> jstring option \<Rightarrow> (jstring \<times> jstring) list" where
  "messages_query before lim root =
     query_number (js ''before_seq'') before @ query_number (js ''limit'') lim @
     query_param (js ''thread_root_id'') root"

definition before_query :: "int option \<Rightarrow> piece list" where
  "before_query before =
     (case before of Some n \<Rightarrow> if n \<noteq> 0 then [Lit (js ''?before_seq='' @ show_int n)] else []
                   | None \<Rightarrow> [])"

datatype brand_kind = Logo | Favicon

fun brand_name :: "brand_kind \<Rightarrow> jstring" where
  "brand_name Logo = js ''logo''"
| "brand_name Favicon = js ''favicon''"

datatype connection_kind = S3 | SMTP

fun connection_name :: "connection_kind \<Rightarrow> jstring" where
  "connection_name S3 = js ''s3''"
| "connection_name SMTP = js ''smtp''"

section \<open>Endpoints\<close>

text \<open>Sign-in, the own account and invitations.\<close>

datatype account_ep =
    BootstrapStatus | Bootstrap json "jstring option" | Login json | ForgotPassword json
  | ResetPassword json | Logout | AcceptInvitation jstring json | Me | UpdateMe json
  | ChangePassword json | SetStatus json | ClearStatus | ChangeEmail json | ConfirmEmail json
  | CreateInvitation json | Invitations | RevokeInvitation jstring | RotateInvitation jstring

primrec account_request :: "account_ep \<Rightarrow> request" where
  "account_request BootstrapStatus =
     req GET [Lit (js ''/api/v1/bootstrap/status'')] NoBody (Member (js ''bootstrapped''))"
| "account_request (Bootstrap input token) =
     req_with (if default_to [] token \<noteq> []
               then [(js ''X-Coma-Bootstrap-Token'', default_to [] token)] else [])
       POST [Lit (js ''/api/v1/bootstrap'')]
       (JsonBody input) Tokens"
| "account_request (Login input) =
     req POST [Lit (js ''/api/v1/auth/login'')] (JsonBody input) Tokens"
| "account_request (ForgotPassword input) =
     req POST [Lit (js ''/api/v1/auth/password/forgot'')] (JsonBody input) Whole"
| "account_request (ResetPassword input) =
     req POST [Lit (js ''/api/v1/auth/password/reset'')] (JsonBody input) Whole"
| "account_request Logout = req POST [Lit (js ''/api/v1/auth/logout'')] NoBody ThenClear"
| "account_request (AcceptInvitation token input) =
     req POST [Lit (js ''/api/v1/invitations/''), Enc token, Lit (js ''/accept'')]
       (JsonBody input) Tokens"
| "account_request Me = req GET [Lit (js ''/api/v1/me'')] NoBody Whole"
| "account_request (UpdateMe input) = req PATCH [Lit (js ''/api/v1/me'')] (JsonBody input) Whole"
| "account_request (ChangePassword input) =
     req POST [Lit (js ''/api/v1/me/password'')] (JsonBody input) Whole"
| "account_request (SetStatus input) =
     req PUT [Lit (js ''/api/v1/me/status'')] (JsonBody input) Whole"
| "account_request ClearStatus = req DELETE [Lit (js ''/api/v1/me/status'')] NoBody Whole"
| "account_request (ChangeEmail input) =
     req POST [Lit (js ''/api/v1/me/email/change'')] (JsonBody input) Whole"
| "account_request (ConfirmEmail input) =
     req POST [Lit (js ''/api/v1/me/email/confirm'')] (JsonBody input) Whole"
| "account_request (CreateInvitation input) =
     req POST [Lit (js ''/api/v1/invitations'')] (JsonBody input) Whole"
| "account_request Invitations = req GET [Lit (js ''/api/v1/invitations'')] NoBody Whole"
| "account_request (RevokeInvitation id') =
     req DELETE [Lit (js ''/api/v1/invitations/''), Enc id'] NoBody Whole"
| "account_request (RotateInvitation id') =
     req POST [Lit (js ''/api/v1/invitations/''), Enc id', Lit (js ''/rotate'')] NoBody Whole"

text \<open>Agents platform, tools, runs and the runtime protocol.\<close>

datatype agent_run_ep =
    Agents | AgentPlatformSettings | UpdateAgentPlatformSettings json | AgentTools
  | InvokeAgentTool jstring json | AgentToolConfirmations "jstring option"
  | ApproveAgentToolConfirmation jstring | DenyAgentToolConfirmation jstring
  | InvokeAgent jstring json | AgentRuns jstring | AgentRun jstring | AgentUsage jstring
  | AgentProductMetrics | CancelAgentRun jstring | ClaimAgentRun json
  | HeartbeatAgentRun jstring json | PublishAgentRun jstring json
  | CompleteAgentRun jstring json | FailAgentRun jstring json | AgentRuntimeCheckpoint jstring
  | UpdateAgentRuntimeCheckpoint jstring json | AgentProviderCredential jstring
  | UpdateAgentProviderCredential jstring json

primrec agent_run_request :: "agent_run_ep \<Rightarrow> request" where
  "agent_run_request Agents = req GET [Lit (js ''/api/v1/agents'')] NoBody Whole"
| "agent_run_request AgentPlatformSettings =
     req GET [Lit (js ''/api/v1/agents/settings'')] NoBody Whole"
| "agent_run_request (UpdateAgentPlatformSettings input) =
     req PATCH [Lit (js ''/api/v1/agents/settings'')] (JsonBody input) Whole"
| "agent_run_request AgentTools = req GET [Lit (js ''/api/v1/agent-tools'')] NoBody Whole"
| "agent_run_request (InvokeAgentTool name input) =
     req POST [Lit (js ''/api/v1/agent-tools/''), Enc name] (JsonBody input) Whole"
| "agent_run_request (AgentToolConfirmations status) =
     req GET [Lit (js ''/api/v1/agents/tool-confirmations?status=''),
              Enc (default_to (js ''pending'') status)]
       NoBody Whole"
| "agent_run_request (ApproveAgentToolConfirmation id') =
     req POST [Lit (js ''/api/v1/agents/tool-confirmations/''), Enc id', Lit (js ''/approve'')]
       NoBody Whole"
| "agent_run_request (DenyAgentToolConfirmation id') =
     req POST [Lit (js ''/api/v1/agents/tool-confirmations/''), Enc id', Lit (js ''/deny'')]
       NoBody Whole"
| "agent_run_request (InvokeAgent id' input) =
     req POST [Lit (js ''/api/v1/agents/''), Enc id', Lit (js ''/invoke'')] (JsonBody input) Whole"
| "agent_run_request (AgentRuns id') =
     req GET [Lit (js ''/api/v1/agents/''), Enc id', Lit (js ''/runs'')] NoBody Whole"
| "agent_run_request (AgentRun runID) =
     req GET [Lit (js ''/api/v1/agent-runs/''), Enc runID] NoBody Whole"
| "agent_run_request (AgentUsage id') =
     req GET [Lit (js ''/api/v1/agents/''), Enc id', Lit (js ''/usage'')] NoBody Whole"
| "agent_run_request AgentProductMetrics =
     req GET [Lit (js ''/api/v1/agents/product-metrics'')] NoBody Whole"
| "agent_run_request (CancelAgentRun runID) =
     req POST [Lit (js ''/api/v1/agent-runs/''), Enc runID, Lit (js ''/cancel'')] NoBody Whole"
| "agent_run_request (ClaimAgentRun input) =
     req POST [Lit (js ''/api/v1/agent-runtime/runs/claim'')] (JsonBody input) OrNull"
| "agent_run_request (HeartbeatAgentRun runID input) =
     req POST [Lit (js ''/api/v1/agent-runtime/runs/''), Enc runID, Lit (js ''/heartbeat'')]
       (JsonBody input) Whole"
| "agent_run_request (PublishAgentRun id' input) =
     req POST [Lit (js ''/api/v1/agent-runtime/runs/''), Enc id', Lit (js ''/publish'')]
       (JsonBody input) Whole"
| "agent_run_request (CompleteAgentRun runID input) =
     req POST [Lit (js ''/api/v1/agent-runtime/runs/''), Enc runID, Lit (js ''/complete'')]
       (JsonBody input) Whole"
| "agent_run_request (FailAgentRun runID input) =
     req POST [Lit (js ''/api/v1/agent-runtime/runs/''), Enc runID, Lit (js ''/fail'')]
       (JsonBody input) Whole"
| "agent_run_request (AgentRuntimeCheckpoint consumer) =
     req GET [Lit (js ''/api/v1/agent-runtime/checkpoints/''), Enc consumer] NoBody Whole"
| "agent_run_request (UpdateAgentRuntimeCheckpoint consumer input) =
     req PUT [Lit (js ''/api/v1/agent-runtime/checkpoints/''), Enc consumer] (JsonBody input) Whole"
| "agent_run_request (AgentProviderCredential id') =
     req GET [Lit (js ''/api/v1/agents/''), Enc id', Lit (js ''/provider-credentials'')]
       NoBody Whole"
| "agent_run_request (UpdateAgentProviderCredential id' input) =
     req PUT [Lit (js ''/api/v1/agents/''), Enc id', Lit (js ''/provider-credentials'')]
       (JsonBody input) Whole"

text \<open>Model connections, MCP servers, tool and provider calls.\<close>

datatype agent_provider_ep =
    AgentLlmConnections | AgentLlmConnection jstring | CreateAgentLlmConnection json
  | UpdateAgentLlmConnection jstring json | DeleteAgentLlmConnection jstring
  | TestAgentLlmConnection jstring | AgentMcpServers jstring
  | CreateAgentMcpServer jstring json | UpdateAgentMcpServer jstring jstring json
  | DeleteAgentMcpServer jstring jstring | AgentRuntimeMcpServers json
  | StartAgentMcpToolCall json | FinishAgentMcpToolCall jstring json
  | StartAgentProviderCall json | FinishAgentProviderCall jstring json

primrec agent_provider_request :: "agent_provider_ep \<Rightarrow> request" where
  "agent_provider_request AgentLlmConnections =
     req GET [Lit (js ''/api/v1/agent-connections'')] NoBody Whole"
| "agent_provider_request (AgentLlmConnection id') =
     req GET [Lit (js ''/api/v1/agent-connections/''), Enc id'] NoBody Whole"
| "agent_provider_request (CreateAgentLlmConnection input) =
     req POST [Lit (js ''/api/v1/agent-connections'')] (JsonBody input) Whole"
| "agent_provider_request (UpdateAgentLlmConnection id' input) =
     req PATCH [Lit (js ''/api/v1/agent-connections/''), Enc id'] (JsonBody input) Whole"
| "agent_provider_request (DeleteAgentLlmConnection id') =
     req DELETE [Lit (js ''/api/v1/agent-connections/''), Enc id'] NoBody Whole"
| "agent_provider_request (TestAgentLlmConnection id') =
     req POST [Lit (js ''/api/v1/agent-connections/''), Enc id', Lit (js ''/test'')] NoBody Whole"
| "agent_provider_request (AgentMcpServers id') =
     req GET [Lit (js ''/api/v1/agents/''), Enc id', Lit (js ''/mcp-servers'')] NoBody Whole"
| "agent_provider_request (CreateAgentMcpServer id' input) =
     req POST [Lit (js ''/api/v1/agents/''), Enc id', Lit (js ''/mcp-servers'')]
       (JsonBody input) Whole"
| "agent_provider_request (UpdateAgentMcpServer id' serverID input) =
     req PATCH [Lit (js ''/api/v1/agents/''), Enc id', Lit (js ''/mcp-servers/''), Enc serverID]
       (JsonBody input) Whole"
| "agent_provider_request (DeleteAgentMcpServer id' serverID) =
     req DELETE [Lit (js ''/api/v1/agents/''), Enc id', Lit (js ''/mcp-servers/''), Enc serverID]
       NoBody Whole"
| "agent_provider_request (AgentRuntimeMcpServers input) =
     req POST [Lit (js ''/api/v1/agent-runtime/mcp-servers'')] (JsonBody input) Whole"
| "agent_provider_request (StartAgentMcpToolCall input) =
     req POST [Lit (js ''/api/v1/agent-runtime/mcp-tool-calls'')] (JsonBody input) Whole"
| "agent_provider_request (FinishAgentMcpToolCall callID input) =
     req POST [Lit (js ''/api/v1/agent-runtime/mcp-tool-calls/''), Enc callID, Lit (js ''/finish'')]
       (JsonBody input) Whole"
| "agent_provider_request (StartAgentProviderCall input) =
     req POST [Lit (js ''/api/v1/agent-runtime/provider-calls'')] (JsonBody input) Whole"
| "agent_provider_request (FinishAgentProviderCall callID input) =
     req POST [Lit (js ''/api/v1/agent-runtime/provider-calls/''), Enc callID, Lit (js ''/finish'')]
       (JsonBody input) Whole"

text \<open>Triggers, agents, versions and keys.\<close>

datatype agent_admin_ep =
    AgentTriggers jstring | CreateAgentTrigger jstring json
  | UpdateAgentTrigger jstring jstring json | DeleteAgentTrigger jstring jstring
  | CreateAgent json | Agent jstring | UpdateAgent jstring json | DeleteAgent jstring
  | DuplicateAgent jstring json | ResetAgentRecipe jstring | AgentVersions jstring
  | PublishAgent jstring | PauseAgent jstring | ResumeAgent jstring
  | RollbackAgent jstring jstring | AgentKeys jstring | CreateAgentKey jstring json
  | RevokeAgentKey jstring jstring

primrec agent_admin_request :: "agent_admin_ep \<Rightarrow> request" where
  "agent_admin_request (AgentTriggers id') =
     req GET [Lit (js ''/api/v1/agents/''), Enc id', Lit (js ''/triggers'')] NoBody Whole"
| "agent_admin_request (CreateAgentTrigger id' input) =
     req POST [Lit (js ''/api/v1/agents/''), Enc id', Lit (js ''/triggers'')]
       (JsonBody input) Whole"
| "agent_admin_request (UpdateAgentTrigger id' triggerID input) =
     req PATCH [Lit (js ''/api/v1/agents/''), Enc id', Lit (js ''/triggers/''), Enc triggerID]
       (JsonBody input) Whole"
| "agent_admin_request (DeleteAgentTrigger id' triggerID) =
     req DELETE [Lit (js ''/api/v1/agents/''), Enc id', Lit (js ''/triggers/''), Enc triggerID]
       NoBody Whole"
| "agent_admin_request (CreateAgent input) =
     req POST [Lit (js ''/api/v1/agents'')] (JsonBody input) Whole"
| "agent_admin_request (Agent id') = req GET [Lit (js ''/api/v1/agents/''), Enc id'] NoBody Whole"
| "agent_admin_request (UpdateAgent id' input) =
     req PATCH [Lit (js ''/api/v1/agents/''), Enc id'] (JsonBody input) Whole"
| "agent_admin_request (DeleteAgent id') =
     req DELETE [Lit (js ''/api/v1/agents/''), Enc id'] NoBody Whole"
| "agent_admin_request (DuplicateAgent id' input) =
     req POST [Lit (js ''/api/v1/agents/''), Enc id', Lit (js ''/duplicate'')]
       (JsonBody input) Whole"
| "agent_admin_request (ResetAgentRecipe id') =
     req POST [Lit (js ''/api/v1/agents/''), Enc id', Lit (js ''/reset-recipe'')] NoBody Whole"
| "agent_admin_request (AgentVersions id') =
     req GET [Lit (js ''/api/v1/agents/''), Enc id', Lit (js ''/versions'')] NoBody Whole"
| "agent_admin_request (PublishAgent id') =
     req POST [Lit (js ''/api/v1/agents/''), Enc id', Lit (js ''/publish'')] NoBody Whole"
| "agent_admin_request (PauseAgent id') =
     req POST [Lit (js ''/api/v1/agents/''), Enc id', Lit (js ''/pause'')] NoBody Whole"
| "agent_admin_request (ResumeAgent id') =
     req POST [Lit (js ''/api/v1/agents/''), Enc id', Lit (js ''/resume'')] NoBody Whole"
| "agent_admin_request (RollbackAgent id' versionID) =
     req POST [Lit (js ''/api/v1/agents/''), Enc id', Lit (js ''/versions/''), Enc versionID, Lit (js ''/rollback'')]
       NoBody Whole"
| "agent_admin_request (AgentKeys id') =
     req GET [Lit (js ''/api/v1/agents/''), Enc id', Lit (js ''/keys'')] NoBody Whole"
| "agent_admin_request (CreateAgentKey id' input) =
     req POST [Lit (js ''/api/v1/agents/''), Enc id', Lit (js ''/keys'')] (JsonBody input) Whole"
| "agent_admin_request (RevokeAgentKey id' keyID) =
     req DELETE [Lit (js ''/api/v1/agents/''), Enc id', Lit (js ''/keys/''), Enc keyID]
       NoBody Whole"

text \<open>Branding, sessions and the organization.\<close>

datatype organization_ep =
    Branding | Sessions | RevokeSession jstring | RevokeOtherSessions | Organization
  | UpdateOrganization json | PutBrandingAsset "brand_kind" jstring
  | DeleteBrandingAsset "brand_kind" | Infrastructure | UpdateInfrastructure json
  | TestInfrastructure "connection_kind" | OrganizationMembers
  | UpdateOrganizationMember jstring json | RequireMemberPasswordChange jstring
  | IssueMemberPasswordReset jstring | PutMyAvatar jstring | DeleteMyAvatar
  | PutOrganizationMemberAvatar jstring jstring | DeleteOrganizationMemberAvatar jstring
  | TransferOrganizationOwnership json | OrganizationAudit "audit_filters"

primrec organization_request :: "organization_ep \<Rightarrow> request" where
  "organization_request Branding = req GET [Lit (js ''/api/v1/branding'')] NoBody Whole"
| "organization_request Sessions =
     req GET [Lit (js ''/api/v1/sessions'')] NoBody (Member (js ''sessions''))"
| "organization_request (RevokeSession id') =
     req DELETE [Lit (js ''/api/v1/sessions/''), Enc id'] NoBody Whole"
| "organization_request RevokeOtherSessions =
     req POST [Lit (js ''/api/v1/sessions/revoke-others'')] NoBody Whole"
| "organization_request Organization = req GET [Lit (js ''/api/v1/organization'')] NoBody Whole"
| "organization_request (UpdateOrganization input) =
     req PATCH [Lit (js ''/api/v1/organization'')] (JsonBody input) Whole"
| "organization_request (PutBrandingAsset kind mime) =
     req PUT [Lit (js ''/api/v1/organization/branding/''), Lit (brand_name kind)]
       (BlobBody mime) Whole"
| "organization_request (DeleteBrandingAsset kind) =
     req DELETE [Lit (js ''/api/v1/organization/branding/''), Lit (brand_name kind)] NoBody Whole"
| "organization_request Infrastructure =
     req GET [Lit (js ''/api/v1/organization/infrastructure'')] NoBody Whole"
| "organization_request (UpdateInfrastructure input) =
     req PATCH [Lit (js ''/api/v1/organization/infrastructure'')] (JsonBody input) Whole"
| "organization_request (TestInfrastructure kind) =
     req POST [Lit (js ''/api/v1/organization/infrastructure/test'')]
       (JsonBody (JObj [(js ''kind'', JStr (connection_name kind))])) Whole"
| "organization_request OrganizationMembers =
     req GET [Lit (js ''/api/v1/organization/members'')] NoBody (Member (js ''members''))"
| "organization_request (UpdateOrganizationMember actorID input) =
     req PATCH [Lit (js ''/api/v1/organization/members/''), Enc actorID] (JsonBody input) Whole"
| "organization_request (RequireMemberPasswordChange actorID) =
     req POST [Lit (js ''/api/v1/organization/members/''), Enc actorID, Lit (js ''/require-password-change'')]
       NoBody Whole"
| "organization_request (IssueMemberPasswordReset actorID) =
     req POST [Lit (js ''/api/v1/organization/members/''), Enc actorID, Lit (js ''/password-reset'')]
       NoBody Whole"
| "organization_request (PutMyAvatar mime) =
     req PUT [Lit (js ''/api/v1/me/avatar'')] (BlobBody mime) Whole"
| "organization_request DeleteMyAvatar = req DELETE [Lit (js ''/api/v1/me/avatar'')] NoBody Whole"
| "organization_request (PutOrganizationMemberAvatar actorID mime) =
     req PUT [Lit (js ''/api/v1/organization/members/''), Enc actorID, Lit (js ''/avatar'')]
       (BlobBody mime) Whole"
| "organization_request (DeleteOrganizationMemberAvatar actorID) =
     req DELETE [Lit (js ''/api/v1/organization/members/''), Enc actorID, Lit (js ''/avatar'')]
       NoBody Whole"
| "organization_request (TransferOrganizationOwnership input) =
     req POST [Lit (js ''/api/v1/organization/transfer-ownership'')] (JsonBody input) Whole"
| "organization_request (OrganizationAudit f) =
     req GET [Lit (js ''/api/v1/organization/audit?''), Form (audit_query f)] NoBody Whole"

text \<open>Chats, members, actors, files and search.\<close>

datatype chat_ep =
    Chats | Chat jstring | CreateChat json | DiscoverChats | JoinChat jstring
  | UpdateChat jstring json | ArchiveChat jstring | Members jstring
  | AddMember jstring jstring "jstring option" | UpdateMember jstring jstring jstring
  | RemoveMember jstring jstring | Actors "jstring option" "jstring option"
  | ActorAvatar jstring | CreateFileUpload json | SignFileUploadParts jstring "int list"
  | CompleteFileUpload jstring "json list option" | AbortFileUpload jstring | File jstring
  | DownloadFile jstring | Search "(jstring \<times> query_value) list"

primrec chat_request :: "chat_ep \<Rightarrow> request" where
  "chat_request Chats = req GET [Lit (js ''/api/v1/chats'')] NoBody (Member (js ''chats''))"
| "chat_request (Chat id') = req GET [Lit (js ''/api/v1/chats/''), Raw id'] NoBody Whole"
| "chat_request (CreateChat input) = req POST [Lit (js ''/api/v1/chats'')] (JsonBody input) Whole"
| "chat_request DiscoverChats =
     req GET [Lit (js ''/api/v1/chats/discover'')] NoBody (Member (js ''chats''))"
| "chat_request (JoinChat id') =
     req POST [Lit (js ''/api/v1/chats/''), Raw id', Lit (js ''/join'')] NoBody Whole"
| "chat_request (UpdateChat id' input) =
     req PATCH [Lit (js ''/api/v1/chats/''), Raw id'] (JsonBody input) Whole"
| "chat_request (ArchiveChat id') =
     req DELETE [Lit (js ''/api/v1/chats/''), Raw id'] NoBody Whole"
| "chat_request (Members chatID) =
     req GET [Lit (js ''/api/v1/chats/''), Raw chatID, Lit (js ''/members'')]
       NoBody (Member (js ''members''))"
| "chat_request (AddMember chatID actorID role) =
     req POST [Lit (js ''/api/v1/chats/''), Raw chatID, Lit (js ''/members'')]
       (JsonBody (JObj [(js ''actor_id'', JStr actorID),
                        (js ''role'', JStr (default_to (js ''member'') role))])) Whole"
| "chat_request (UpdateMember chatID actorID role) =
     req PATCH [Lit (js ''/api/v1/chats/''), Raw chatID, Lit (js ''/members/''), Raw actorID]
       (JsonBody (JObj [(js ''role'', JStr role)])) Whole"
| "chat_request (RemoveMember chatID actorID) =
     req DELETE [Lit (js ''/api/v1/chats/''), Raw chatID, Lit (js ''/members/''), Raw actorID]
       NoBody Whole"
| "chat_request (Actors q a) =
     req GET (Lit (js ''/api/v1/actors'') # optional_query (actors_query (default_to [] q) (default_to [] a)))
       NoBody Whole"
| "chat_request (ActorAvatar actorID) =
     req GET [Lit (js ''/api/v1/actors/''), Enc actorID, Lit (js ''/avatar'')] NoBody AsBlob"
| "chat_request (CreateFileUpload input) =
     req POST [Lit (js ''/api/v1/files/uploads'')] (JsonBody input) Whole"
| "chat_request (SignFileUploadParts uploadID partNumbers) =
     req POST [Lit (js ''/api/v1/files/uploads/''), Enc uploadID, Lit (js ''/parts'')]
       (JsonBody (JObj [(js ''part_numbers'', JArr (map JNum partNumbers))])) Whole"
| "chat_request (CompleteFileUpload uploadID parts) =
     req POST [Lit (js ''/api/v1/files/uploads/''), Enc uploadID, Lit (js ''/complete'')]
       (JsonBody (JObj [(js ''parts'', JArr (default_to [] parts))])) Whole"
| "chat_request (AbortFileUpload uploadID) =
     req DELETE [Lit (js ''/api/v1/files/uploads/''), Enc uploadID] NoBody Whole"
| "chat_request (File fileID) = req GET [Lit (js ''/api/v1/files/''), Enc fileID] NoBody Whole"
| "chat_request (DownloadFile fileID) =
     req GET [Lit (js ''/api/v1/files/''), Enc fileID, Lit (js ''/download'')] NoBody AsBlob"
| "chat_request (Search f) =
     req GET [Lit (js ''/api/v1/search?''), Form (search_query f)] NoBody Whole"

text \<open>Messages, threads, reactions, pins, read markers and drafts.\<close>

datatype message_ep =
    Messages jstring "int option" "int option" "jstring option" | Thread jstring "int option"
  | MessageContext jstring "int option" | Threads "int option" | CreateMessage jstring json
  | UpdateMessage jstring json | DeleteMessage jstring | Reactions jstring | Receipts jstring
  | React jstring jstring | Unreact jstring jstring | Pins jstring | Pin jstring
  | Unpin jstring | Forward jstring jstring jstring | FollowThread jstring
  | UnfollowThread jstring | Unread | MarkRead jstring "int" | MarkThreadRead jstring "int"
  | Drafts | PutDraft jstring jstring "int" "jstring option"
  | DeleteDraft jstring "jstring option"

primrec message_request :: "message_ep \<Rightarrow> request" where
  "message_request (Messages chatID before lim root) =
     req GET ([Lit (js ''/api/v1/chats/''), Raw chatID, Lit (js ''/messages'')] @
              optional_query (messages_query before lim root))
       NoBody Whole"
| "message_request (Thread rootID before) =
     req GET ([Lit (js ''/api/v1/messages/''), Raw rootID, Lit (js ''/thread'')] @ before_query before)
       NoBody Whole"
| "message_request (MessageContext messageID lim) =
     req GET [Lit (js ''/api/v1/messages/''), Raw messageID,
              Lit (js ''/context?limit='' @ show_int (default_to 51 lim))]
       NoBody Whole"
| "message_request (Threads before) =
     req GET (Lit (js ''/api/v1/threads'') # before_query before) NoBody Whole"
| "message_request (CreateMessage chatID input) =
     req POST [Lit (js ''/api/v1/chats/''), Raw chatID, Lit (js ''/messages'')]
       (JsonBody input) Whole"
| "message_request (UpdateMessage id' input) =
     req PATCH [Lit (js ''/api/v1/messages/''), Raw id'] (JsonBody input) Whole"
| "message_request (DeleteMessage id') =
     req DELETE [Lit (js ''/api/v1/messages/''), Raw id'] NoBody Whole"
| "message_request (Reactions id') =
     req GET [Lit (js ''/api/v1/messages/''), Raw id', Lit (js ''/reactions'')]
       NoBody (Member (js ''reactions''))"
| "message_request (Receipts id') =
     req GET [Lit (js ''/api/v1/messages/''), Raw id', Lit (js ''/receipts'')]
       NoBody (Member (js ''receipts''))"
| "message_request (React id' emoji) =
     req PUT [Lit (js ''/api/v1/messages/''), Raw id', Lit (js ''/reactions/''), Enc emoji]
       NoBody Whole"
| "message_request (Unreact id' emoji) =
     req DELETE [Lit (js ''/api/v1/messages/''), Raw id', Lit (js ''/reactions/''), Enc emoji]
       NoBody Whole"
| "message_request (Pins chatID) =
     req GET [Lit (js ''/api/v1/chats/''), Raw chatID, Lit (js ''/pins'')]
       NoBody (Member (js ''pins''))"
| "message_request (Pin id') =
     req PUT [Lit (js ''/api/v1/messages/''), Raw id', Lit (js ''/pin'')] NoBody Whole"
| "message_request (Unpin id') =
     req DELETE [Lit (js ''/api/v1/messages/''), Raw id', Lit (js ''/pin'')] NoBody Whole"
| "message_request (Forward id' chatID clientMsgID) =
     req POST [Lit (js ''/api/v1/messages/''), Raw id', Lit (js ''/forward'')]
       (JsonBody (JObj [(js ''chat_id'', JStr chatID), (js ''client_msg_id'', JStr clientMsgID)])) Whole"
| "message_request (FollowThread id') =
     req PUT [Lit (js ''/api/v1/messages/''), Raw id', Lit (js ''/thread/follow'')] NoBody Whole"
| "message_request (UnfollowThread id') =
     req DELETE [Lit (js ''/api/v1/messages/''), Raw id', Lit (js ''/thread/follow'')] NoBody Whole"
| "message_request Unread = req GET [Lit (js ''/api/v1/unread'')] NoBody Whole"
| "message_request (MarkRead chatID seq) =
     req POST [Lit (js ''/api/v1/chats/''), Raw chatID, Lit (js ''/read'')]
       (JsonBody (JObj [(js ''last_read_seq'', JNum seq)])) Whole"
| "message_request (MarkThreadRead id' seq) =
     req POST [Lit (js ''/api/v1/messages/''), Raw id', Lit (js ''/thread/read'')]
       (JsonBody (JObj [(js ''last_read_seq'', JNum seq)])) Whole"
| "message_request Drafts = req GET [Lit (js ''/api/v1/drafts'')] NoBody (Member (js ''drafts''))"
| "message_request (PutDraft chatID body version root) =
     req PUT [Lit (js ''/api/v1/drafts/''), Raw chatID]
       (JsonBody (JObj [(js ''body'', JStr body), (js ''body_format'', JStr (js ''markdown'')),
                        (js ''expected_version'', JNum version),
                        (js ''thread_root_id'', case root of None \<Rightarrow> JNull | Some r \<Rightarrow> JStr r)]))
       Whole"
| "message_request (DeleteDraft chatID root) =
     req DELETE ([Lit (js ''/api/v1/drafts/''), Raw chatID] @
                 (case root of Some r \<Rightarrow> if r \<noteq> [] then [Lit (js ''?thread_root_id=''), Raw r] else []
                             | None \<Rightarrow> []))
       NoBody Whole"

text \<open>Push, preferences and notifications.\<close>

datatype setting_ep =
    PushConfig | RegisterPush json | PushSubscriptions | TestPush | RemovePush jstring
  | Preferences | UpdatePreferences json | ChatFolders | PutChatFolders json | PinnedChats
  | PutPinnedChats json | ChatNotifications jstring | UpdateChatNotifications jstring json
  | ResetChatNotifications jstring | ChatNotificationOverrides

primrec setting_request :: "setting_ep \<Rightarrow> request" where
  "setting_request PushConfig = req GET [Lit (js ''/api/v1/push/config'')] NoBody Whole"
| "setting_request (RegisterPush input) =
     req PUT [Lit (js ''/api/v1/push/subscriptions'')] (JsonBody input) Whole"
| "setting_request PushSubscriptions =
     req GET [Lit (js ''/api/v1/push/subscriptions'')] NoBody Whole"
| "setting_request TestPush = req POST [Lit (js ''/api/v1/push/test'')] NoBody Whole"
| "setting_request (RemovePush id') =
     req DELETE [Lit (js ''/api/v1/push/subscriptions/''), Raw id'] NoBody Whole"
| "setting_request Preferences = req GET [Lit (js ''/api/v1/preferences'')] NoBody Whole"
| "setting_request (UpdatePreferences input) =
     req PATCH [Lit (js ''/api/v1/preferences'')] (JsonBody input) Whole"
| "setting_request ChatFolders =
     req GET [Lit (js ''/api/v1/preferences/chat-folders'')] NoBody Whole"
| "setting_request (PutChatFolders input) =
     req PUT [Lit (js ''/api/v1/preferences/chat-folders'')] (JsonBody input) Whole"
| "setting_request PinnedChats =
     req GET [Lit (js ''/api/v1/preferences/pinned-chats'')] NoBody Whole"
| "setting_request (PutPinnedChats input) =
     req PUT [Lit (js ''/api/v1/preferences/pinned-chats'')] (JsonBody input) Whole"
| "setting_request (ChatNotifications chatID) =
     req GET [Lit (js ''/api/v1/chats/''), Raw chatID, Lit (js ''/notification-preferences'')]
       NoBody Whole"
| "setting_request (UpdateChatNotifications chatID input) =
     req PATCH [Lit (js ''/api/v1/chats/''), Raw chatID, Lit (js ''/notification-preferences'')]
       (JsonBody input) Whole"
| "setting_request (ResetChatNotifications chatID) =
     req DELETE [Lit (js ''/api/v1/chats/''), Raw chatID, Lit (js ''/notification-preferences'')]
       NoBody Whole"
| "setting_request ChatNotificationOverrides =
     req GET [Lit (js ''/api/v1/chats/notification-overrides'')] NoBody Whole"

datatype endpoint =
    AccountEp account_ep
  | AgentRunsEp agent_run_ep
  | AgentProvidersEp agent_provider_ep
  | AgentAdminEp agent_admin_ep
  | OrganizationEp organization_ep
  | ChatEp chat_ep
  | MessageEp message_ep
  | SettingEp setting_ep

fun request_of :: "endpoint \<Rightarrow> request" where
  "request_of (AccountEp e) = account_request e"
| "request_of (AgentRunsEp e) = agent_run_request e"
| "request_of (AgentProvidersEp e) = agent_provider_request e"
| "request_of (AgentAdminEp e) = agent_admin_request e"
| "request_of (OrganizationEp e) = organization_request e"
| "request_of (ChatEp e) = chat_request e"
| "request_of (MessageEp e) = message_request e"
| "request_of (SettingEp e) = setting_request e"

end
