(* ===== verification/Api_Client.thy ===== *)
theory Api_Client
  imports Api_Endpoints
begin

text \<open>
  The core of \<open>MessengerAPI\<close>, \<open>packages/core/src/api.ts\<close>: \<open>request\<close>, \<open>requestBlob\<close>, \<open>refresh\<close> and the
  token they share. Any number of calls run at once, so the client is a state machine: a call is at
  one of its \<open>await\<close>s, and an event starts a call or settles a fetch or the shared refresh. The code
  after a settled promise runs before any other event, which is the order of the JavaScript job
  queue for the callers of one refresh.

  The lemmas show that one refresh at a time serves all calls that were refused, that a call is sent
  at most twice, and that every call settles.
\<close>

section \<open>Answers\<close>

text \<open>A response body: empty, text that is not JSON, or JSON.\<close>

datatype response_body = EmptyBody | TextBody | JsonText json

record response =
  rs_status :: nat
  rs_body :: response_body

datatype failure = ApiError nat json json | NetworkError | SyntaxError | TypeError

datatype outcome = Fulfilled "json option" | FulfilledBlob response_body | Rejected failure

definition ok :: "response \<Rightarrow> bool" where
  "ok r \<longleftrightarrow> 200 \<le> rs_status r \<and> rs_status r \<le> 299"

text \<open>\<open>payload.k ?? d\<close>\<close>

definition member_or :: "jstring \<Rightarrow> jstring \<Rightarrow> json \<Rightarrow> json" where
  "member_or k d v = (case get k v of None \<Rightarrow> JStr d | Some JNull \<Rightarrow> JStr d | Some x \<Rightarrow> x)"

text \<open>The error thrown for a response that is not ok; a body of \<open>null\<close> makes \<open>payload.code\<close> throw.\<close>

definition error_of :: "jstring \<Rightarrow> response \<Rightarrow> failure" where
  "error_of text r =
     (case rs_body r of
        JsonText JNull \<Rightarrow> TypeError
      | JsonText v \<Rightarrow> ApiError (rs_status r) (member_or (js ''code'') (js ''request_failed'') v)
                       (member_or (js ''message'') text v)
      | _ \<Rightarrow> ApiError (rs_status r) (JStr (js ''request_failed'')) (JStr text))"

definition answer :: "response \<Rightarrow> outcome" where
  "answer r =
     (if \<not> ok r then Rejected (error_of (js ''Request failed.'') r)
      else if rs_status r = 204 then Fulfilled None
      else case rs_body r of
             EmptyBody \<Rightarrow> Fulfilled None
           | TextBody \<Rightarrow> Rejected SyntaxError
           | JsonText v \<Rightarrow> Fulfilled (Some v))"

definition blob_answer :: "response \<Rightarrow> outcome" where
  "blob_answer r = (if ok r then FulfilledBlob (rs_body r)
                    else Rejected (error_of (js ''Request failed.'') r))"

definition agentRuntimeProviderChat :: "response \<Rightarrow> failure + response" where
  "agentRuntimeProviderChat r =
     (if ok r then Inr r else Inl (error_of (js ''Provider request failed.'') r))"

text \<open>\<open>getHealth\<close>: \<open>None\<close> is a rejected fetch.\<close>

fun getHealth :: "response option \<Rightarrow> bool" where
  "getHealth (Some r) = ok r"
| "getHealth None = False"

section \<open>Calls\<close>

text \<open>What a caller waits for: an endpoint, or the refresh itself.\<close>

datatype target = Endpoint request jstring | RefreshOnly

datatype phase =
    Fetching bool
  | Waiting response
  | Settled outcome

record call =
  cl_target :: target
  cl_phase :: phase
  cl_sent :: "jstring option list"

record client =
  accessToken :: "jstring option"
  refreshing :: bool
  refreshes :: nat
  calls :: "call list"

definition new_client :: client where
  "new_client = \<lparr>accessToken = None, refreshing = False, refreshes = 0, calls = []\<rparr>"

definition refresh_path :: jstring where
  "refresh_path = js ''/api/v1/auth/refresh''"

definition bearer :: "client \<Rightarrow> jstring option" where
  "bearer c = (case accessToken c of Some t \<Rightarrow> if t = [] then None else Some t | None \<Rightarrow> None)"

fun is_blob :: "target \<Rightarrow> bool" where
  "is_blob (Endpoint q p) = (rq_result q = AsBlob)"
| "is_blob RefreshOnly = False"

fun may_refresh :: "target \<Rightarrow> bool" where
  "may_refresh (Endpoint q p) = (rq_result q = AsBlob \<or> p \<noteq> refresh_path)"
| "may_refresh RefreshOnly = False"

definition useAccessToken :: "jstring \<Rightarrow> client \<Rightarrow> client" where
  "useAccessToken t c = c\<lparr>accessToken := Some t\<rparr>"

text \<open>\<open>clearToken(expected)\<close>: the outer option is an omitted argument.\<close>

definition clearToken :: "jstring option option \<Rightarrow> client \<Rightarrow> bool \<times> client" where
  "clearToken expected c =
     (case expected of
        Some e \<Rightarrow> if accessToken c \<noteq> e then (False, c) else (True, c\<lparr>accessToken := None\<rparr>)
      | None \<Rightarrow> (True, c\<lparr>accessToken := None\<rparr>))"

definition json_token :: "json \<Rightarrow> jstring option" where
  "json_token v = (case get (js ''access_token'') v of Some (JStr t) \<Rightarrow> Some t | _ \<Rightarrow> None)"

definition acceptTokens :: "json \<Rightarrow> client \<Rightarrow> client" where
  "acceptTokens v c = c\<lparr>accessToken := json_token v\<rparr>"

text \<open>The code of a method after its \<open>request\<close> has settled: the outcome it passes on, and the token.\<close>

fun project :: "projection \<Rightarrow> outcome \<Rightarrow> outcome" where
  "project (Member k) (Fulfilled None) = Rejected TypeError"
| "project (Member k) (Fulfilled (Some JNull)) = Rejected TypeError"
| "project (Member k) (Fulfilled (Some v)) = Fulfilled (get k v)"
| "project Tokens (Fulfilled None) = Rejected TypeError"
| "project Tokens (Fulfilled (Some JNull)) = Rejected TypeError"
| "project OrNull (Fulfilled None) = Fulfilled (Some JNull)"
| "project p r = r"

fun after_settled :: "projection \<Rightarrow> outcome \<Rightarrow> client \<Rightarrow> client" where
  "after_settled Tokens (Fulfilled (Some v)) c = (if v = JNull then c else acceptTokens v c)"
| "after_settled ThenClear r c = c\<lparr>accessToken := None\<rparr>"
| "after_settled p r c = c"

definition set_call :: "nat \<Rightarrow> call \<Rightarrow> client \<Rightarrow> client" where
  "set_call i k c = c\<lparr>calls := (calls c)[i := k]\<rparr>"

definition settle :: "nat \<Rightarrow> call \<Rightarrow> outcome \<Rightarrow> client \<Rightarrow> client" where
  "settle i k r c =
     (case cl_target k of
        Endpoint q p \<Rightarrow>
          after_settled (rq_result q) r (set_call i (k\<lparr>cl_phase := Settled (project (rq_result q) r)\<rparr>) c)
      | RefreshOnly \<Rightarrow> set_call i (k\<lparr>cl_phase := Settled r\<rparr>) c)"

text \<open>\<open>this.refresh()\<close>: starts a refresh unless one is under way.\<close>

definition join_refresh :: "client \<Rightarrow> client" where
  "join_refresh c = (if refreshing c then c
                     else c\<lparr>refreshing := True, refreshes := refreshes c + 1\<rparr>)"

definition start_call :: "endpoint \<Rightarrow> client \<Rightarrow> client" where
  "start_call e c =
     (case render (rq_path (request_of e)) of
        None \<Rightarrow> c
      | Some p \<Rightarrow>
          c\<lparr>calls := calls c @ [\<lparr>cl_target = Endpoint (request_of e) p, cl_phase = Fetching True,
                               cl_sent = [bearer c]\<rparr>]\<rparr>)"

definition start_refresh :: "client \<Rightarrow> client" where
  "start_refresh c =
     (join_refresh c)\<lparr>calls := calls c @
        [\<lparr>cl_target = RefreshOnly,
          cl_phase = Waiting \<lparr>rs_status = 0, rs_body = EmptyBody\<rparr>, cl_sent = []\<rparr>]\<rparr>"

text \<open>A fetch of call \<open>i\<close> settles; \<open>None\<close> is a rejected fetch.\<close>

definition fetch_settles :: "nat \<Rightarrow> response option \<Rightarrow> client \<Rightarrow> client" where
  "fetch_settles i r c =
     (if i < length (calls c)
      then let k = calls c ! i in
        (case cl_phase k of
           Fetching retry \<Rightarrow>
             (case r of
                None \<Rightarrow> settle i k (Rejected NetworkError) c
              | Some r \<Rightarrow>
                  if rs_status r = 401 \<and> retry \<and> may_refresh (cl_target k)
                  then join_refresh (set_call i (k\<lparr>cl_phase := Waiting r\<rparr>) c)
                  else settle i k (if is_blob (cl_target k) then blob_answer r else answer r) c)
         | _ \<Rightarrow> c)
      else c)"

text \<open>What the refresh promise settles with, after \<open>acceptTokens\<close>.\<close>

fun refreshed :: "failure + json option \<Rightarrow> failure + json" where
  "refreshed (Inl f) = Inl f"
| "refreshed (Inr None) = Inl TypeError"
| "refreshed (Inr (Some v)) = (if v = JNull then Inl TypeError else Inr v)"

text \<open>A waiting call resumes: it is sent once more with the new token, or fails; a JSON request fails
  with the refusal it had received and drops the token, a blob request with the refresh's error.\<close>

definition resume :: "failure + json \<Rightarrow> nat \<Rightarrow> client \<Rightarrow> client" where
  "resume res i c =
     (let k = calls c ! i in
      case cl_phase k of
        Waiting r \<Rightarrow>
          (case cl_target k of
             RefreshOnly \<Rightarrow> settle i k (case res of Inr v \<Rightarrow> Fulfilled (Some v) | Inl f \<Rightarrow> Rejected f) c
           | Endpoint q p \<Rightarrow>
               (case res of
                  Inr v \<Rightarrow> set_call i (k\<lparr>cl_phase := Fetching False, cl_sent := cl_sent k @ [bearer c]\<rparr>) c
                | Inl f \<Rightarrow>
                    if is_blob (cl_target k) then settle i k (Rejected f) c
                    else settle i k (answer r) (c\<lparr>accessToken := None\<rparr>)))
      | _ \<Rightarrow> c)"

definition refresh_settles :: "failure + json option \<Rightarrow> client \<Rightarrow> client" where
  "refresh_settles res c =
     (if refreshing c
      then fold (resume (refreshed res)) [0..<length (calls c)]
             ((case refreshed res of Inr v \<Rightarrow> acceptTokens v c | Inl f \<Rightarrow> c)\<lparr>refreshing := False\<rparr>)
      else c)"

datatype event =
    Call endpoint
  | Refresh
  | FetchSettles nat "response option"
  | RefreshSettles "failure + json option"
  | UseToken jstring
  | ClearToken "jstring option option"
  | AdoptTokens json

fun step :: "event \<Rightarrow> client \<Rightarrow> client" where
  "step (Call e) c = start_call e c"
| "step Refresh c = start_refresh c"
| "step (FetchSettles i r) c = fetch_settles i r c"
| "step (RefreshSettles res) c = refresh_settles res c"
| "step (UseToken t) c = useAccessToken t c"
| "step (ClearToken e) c = snd (clearToken e c)"
| "step (AdoptTokens v) c = acceptTokens v c"

section \<open>Invariants\<close>

fun phase_bound :: "phase \<Rightarrow> nat \<Rightarrow> bool" where
  "phase_bound (Fetching True) n \<longleftrightarrow> n = 1"
| "phase_bound (Fetching False) n \<longleftrightarrow> n = 2"
| "phase_bound (Waiting r) n \<longleftrightarrow> n \<le> 1"
| "phase_bound (Settled r) n \<longleftrightarrow> n \<le> 2"

fun waiting_phase :: "phase \<Rightarrow> bool" where
  "waiting_phase (Waiting r) \<longleftrightarrow> True"
| "waiting_phase _ \<longleftrightarrow> False"

abbreviation is_waiting :: "call \<Rightarrow> bool" where
  "is_waiting k \<equiv> waiting_phase (cl_phase k)"

definition call_ok :: "call \<Rightarrow> bool" where
  "call_ok k \<longleftrightarrow> phase_bound (cl_phase k) (length (cl_sent k)) \<and>
     (\<forall>r. cl_phase k = Waiting r \<longrightarrow> cl_target k \<noteq> RefreshOnly \<longrightarrow>
        rs_status r = 401 \<and> length (cl_sent k) = 1)"

definition client_ok :: "client \<Rightarrow> bool" where
  "client_ok c \<longleftrightarrow> list_all call_ok (calls c) \<and> (refreshing c \<longleftrightarrow> list_ex is_waiting (calls c))"

lemma after_settled_sel [simp]:
  "calls (after_settled p r c) = calls c" "refreshing (after_settled p r c) = refreshing c"
  "refreshes (after_settled p r c) = refreshes c"
  by (induction p r c rule: after_settled.induct) (auto simp: acceptTokens_def)

lemma set_call_sel [simp]:
  "calls (set_call i k c) = (calls c)[i := k]" "refreshing (set_call i k c) = refreshing c"
  "refreshes (set_call i k c) = refreshes c" "accessToken (set_call i k c) = accessToken c"
  by (simp_all add: set_call_def)

lemma settle_sel [simp]:
  "refreshing (settle i k r c) = refreshing c" "refreshes (settle i k r c) = refreshes c"
  by (auto simp: settle_def split: target.splits)

lemma settle_calls:
  "\<exists>o'. calls (settle i k r c) = (calls c)[i := k\<lparr>cl_phase := Settled o'\<rparr>]"
  by (auto simp: settle_def split: target.splits)

lemma length_settle [simp]: "length (calls (settle i k r c)) = length (calls c)"
  using settle_calls [of i k r c] by auto

lemma length_resume [simp]: "length (calls (resume res i c)) = length (calls c)"
  by (auto simp: resume_def Let_def split: phase.splits target.splits sum.splits)

lemma resume_other: "j \<noteq> i \<Longrightarrow> calls (resume res i c) ! j = calls c ! j"
proof -
  assume "j \<noteq> i"
  then have "calls (settle i k r c') ! j = calls c' ! j" for k r c'
    using settle_calls [of i k r c'] by auto
  with \<open>j \<noteq> i\<close> show ?thesis
    by (auto simp: resume_def Let_def split: phase.splits target.splits sum.splits)
qed

lemma resume_at:
  assumes "i < length (calls c)" and "call_ok (calls c ! i)"
  shows "call_ok (calls (resume res i c) ! i) \<and> \<not> is_waiting (calls (resume res i c) ! i)"
proof -
  have settled: "call_ok (calls (settle i (calls c ! i) r c') ! i) \<and>
      \<not> is_waiting (calls (settle i (calls c ! i) r c') ! i)"
    if "length (calls c') = length (calls c)" "cl_phase (calls c ! i) = Waiting w" for r c' w
  proof -
    obtain o' where "calls (settle i (calls c ! i) r c') = (calls c')[i := (calls c ! i)\<lparr>cl_phase := Settled o'\<rparr>]"
      using settle_calls by blast
    with assms that show ?thesis by (auto simp: call_ok_def)
  qed
  show ?thesis
  proof (cases "cl_phase (calls c ! i)")
    case (Waiting w)
    note settled = settled [OF _ Waiting]
    show ?thesis
    proof (cases "cl_target (calls c ! i)")
      case (Endpoint q p)
      show ?thesis
      proof (cases res)
        case (Inl f)
        with Endpoint Waiting settled [of c] settled [of "c\<lparr>accessToken := None\<rparr>"] show ?thesis
          by (simp add: resume_def Let_def)
      next
        case (Inr v)
        with Endpoint Waiting assms show ?thesis by (simp add: resume_def Let_def call_ok_def)
      qed
    next
      case RefreshOnly
      with Waiting settled [of c] show ?thesis by (simp add: resume_def Let_def)
    qed
  qed (use assms in \<open>simp_all add: resume_def Let_def\<close>)
qed

lemma resume_flags [simp]:
  "refreshing (resume res i c) = refreshing c" "refreshes (resume res i c) = refreshes c"
  by (auto simp: resume_def Let_def split: phase.splits target.splits sum.splits)

lemma fold_resume_flags [simp]:
  "refreshing (fold (resume res) is c) = refreshing c"
  "refreshes (fold (resume res) is c) = refreshes c"
  "length (calls (fold (resume res) is c)) = length (calls c)"
  by (induction "is" arbitrary: c) simp_all

lemma fold_resume_nth:
  "distinct is \<Longrightarrow> j \<notin> set is \<Longrightarrow> calls (fold (resume res) is c) ! j = calls c ! j"
  by (induction "is" arbitrary: c) (simp_all add: resume_other)

lemma fold_resume_ok:
  assumes "list_all call_ok (calls c)" and "n \<le> length (calls c)" and "j < n"
  shows "call_ok (calls (fold (resume res) [0..<n] c) ! j) \<and>
    \<not> is_waiting (calls (fold (resume res) [0..<n] c) ! j)"
  using assms(2,3)
proof (induction n)
  case 0
  then show ?case by simp
next
  case (Suc n)
  let ?c = "fold (resume res) [0..<n] c"
  have "calls ?c ! n = calls c ! n" by (rule fold_resume_nth) auto
  then have "call_ok (calls ?c ! n)" using assms(1) Suc.prems by (auto simp: list_all_length)
  with Suc show ?case
    by (cases "j = n") (simp_all add: resume_at resume_other)
qed

lemma fold_resume_all:
  assumes "list_all call_ok (calls c)"
  shows "list_all (\<lambda>k. call_ok k \<and> \<not> is_waiting k)
    (calls (fold (resume res) [0..<length (calls c)] c))"
  unfolding list_all_length
proof (intro allI impI)
  fix j assume "j < length (calls (fold (resume res) [0..<length (calls c)] c))"
  then have "j < length (calls c)" by simp
  from fold_resume_ok [OF assms le_refl this]
  show "call_ok (calls (fold (resume res) [0..<length (calls c)] c) ! j) \<and>
      \<not> is_waiting (calls (fold (resume res) [0..<length (calls c)] c) ! j)" .
qed

lemma join_refresh_sel [simp]:
  "calls (join_refresh c) = calls c" "refreshing (join_refresh c)"
  "accessToken (join_refresh c) = accessToken c"
  by (simp_all add: join_refresh_def)

lemma client_ok_update:
  assumes "client_ok c" and "i < length (calls c)" and "call_ok k" and "\<not> is_waiting (calls c ! i)"
    and "calls c' = (calls c)[i := k]" and "refreshing c' \<longleftrightarrow> refreshing c \<or> is_waiting k"
  shows "client_ok c'"
proof -
  have 1: "list_all call_ok ((calls c)[i := k])"
    using assms(1-3) by (auto simp: client_ok_def list_all_iff dest: set_update_subset_insert [THEN subsetD])
  have "list_ex is_waiting ((calls c)[i := k]) \<longleftrightarrow> list_ex is_waiting (calls c) \<or> is_waiting k"
    using assms(2,4) by (auto simp: list_ex_length nth_list_update)
  with 1 assms show ?thesis by (auto simp: client_ok_def)
qed

lemma fetch_settles_ok:
  assumes "client_ok c"
  shows "client_ok (fetch_settles i r c)"
proof (cases "i < length (calls c) \<and> (\<exists>retry. cl_phase (calls c ! i) = Fetching retry)")
  case False
  then show ?thesis using assms by (auto simp: fetch_settles_def Let_def split: phase.splits)
next
  case True
  then obtain retry where i: "i < length (calls c)" and ph: "cl_phase (calls c ! i) = Fetching retry"
    by blast
  have ok: "call_ok (calls c ! i)" using assms i by (auto simp: client_ok_def list_all_length)
  have settled: "client_ok (settle i (calls c ! i) x c)" for x
  proof -
    obtain y where y: "calls (settle i (calls c ! i) x c) = (calls c)[i := (calls c ! i)\<lparr>cl_phase := Settled y\<rparr>]"
      using settle_calls by blast
    show ?thesis
      by (rule client_ok_update [OF assms i _ _ y]) (use ok ph in \<open>cases retry; auto simp: call_ok_def\<close>)+
  qed
  show ?thesis
  proof (cases r)
    case None
    with i ph settled show ?thesis by (simp add: fetch_settles_def)
  next
    case (Some r)
    show ?thesis
    proof (cases "rs_status r = 401 \<and> retry \<and> may_refresh (cl_target (calls c ! i))")
      case True
      have "client_ok (join_refresh (set_call i ((calls c ! i)\<lparr>cl_phase := Waiting r\<rparr>) c))"
        by (rule client_ok_update [OF assms i]) (use ok ph True in \<open>auto simp: call_ok_def\<close>)
      with Some i ph True show ?thesis by (simp add: fetch_settles_def)
    next
      case False
      with Some i ph settled show ?thesis by (auto simp: fetch_settles_def Let_def)
    qed
  qed
qed

lemma refresh_settles_ok:
  assumes "client_ok c"
  shows "client_ok (refresh_settles res c)"
proof (cases "refreshing c")
  case True
  define c' where "c' = (case refreshed res of Inr v \<Rightarrow> acceptTokens v c | Inl f \<Rightarrow> c)\<lparr>refreshing := False\<rparr>"
  have c': "calls c' = calls c" "\<not> refreshing c'"
    by (auto simp: c'_def acceptTokens_def split: sum.splits)
  have "list_all (\<lambda>k. call_ok k \<and> \<not> is_waiting k)
      (calls (fold (resume (refreshed res)) [0..<length (calls c')] c'))"
    by (rule fold_resume_all) (use assms c' in \<open>simp add: client_ok_def\<close>)
  then have "client_ok (fold (resume (refreshed res)) [0..<length (calls c')] c')"
    using c' by (auto simp: client_ok_def list_all_iff list_ex_iff)
  with True show ?thesis by (simp add: refresh_settles_def c' flip: c'_def)
qed (use assms in \<open>simp add: refresh_settles_def\<close>)

lemma step_ok: "client_ok c \<Longrightarrow> client_ok (step e c)"
proof (cases e)
  case (Call x)
  assume "client_ok c"
  with Call show ?thesis by (auto simp: start_call_def client_ok_def call_ok_def split: option.splits)
next
  case Refresh
  assume "client_ok c"
  with Refresh show ?thesis by (auto simp: start_refresh_def client_ok_def call_ok_def)
next
  case (ClearToken x)
  assume "client_ok c"
  with ClearToken show ?thesis by (auto simp: clearToken_def client_ok_def split: option.splits)
next
  case (UseToken t)
  assume "client_ok c"
  with UseToken show ?thesis by (simp add: useAccessToken_def client_ok_def)
next
  case (AdoptTokens v)
  assume "client_ok c"
  with AdoptTokens show ?thesis by (simp add: acceptTokens_def client_ok_def)
qed (simp_all add: fetch_settles_ok refresh_settles_ok)

definition run :: "event list \<Rightarrow> client" where
  "run es = fold step es new_client"

lemma run_ok: "client_ok (run es)"
proof -
  have "client_ok (fold step es c)" if "client_ok c" for c
    using that by (induction es arbitrary: c) (simp_all add: step_ok)
  moreover have "client_ok new_client" by (simp add: client_ok_def new_client_def)
  ultimately show ?thesis by (simp add: run_def)
qed

section \<open>The shared refresh\<close>

fun is_settlement :: "event \<Rightarrow> bool" where
  "is_settlement (RefreshSettles res) \<longleftrightarrow> True"
| "is_settlement _ \<longleftrightarrow> False"

lemma join_refreshes: "refreshes (join_refresh c) = refreshes c + (if refreshing c then 0 else 1)"
  by (simp add: join_refresh_def)

lemma refreshes_fetch:
  "refreshes (fetch_settles i r c) + (if refreshing c then 1 else 0) =
     refreshes c + (if refreshing (fetch_settles i r c) then 1 else 0)"
  by (auto simp: fetch_settles_def Let_def join_refreshes split: phase.splits option.splits)

lemma refreshes_step:
  "refreshes (step e c) + (if refreshing c then 1 else 0) \<le>
     refreshes c + (if is_settlement e then 1 else 0) + (if refreshing (step e c) then 1 else 0)"
proof (cases e)
  case (Call x)
  then show ?thesis by (auto simp: start_call_def split: option.splits)
next
  case Refresh
  then show ?thesis by (auto simp: start_refresh_def join_refresh_def)
next
  case (FetchSettles i r)
  then show ?thesis using refreshes_fetch [of i r c] by simp
next
  case (RefreshSettles res)
  then show ?thesis by (auto simp: refresh_settles_def acceptTokens_def split: sum.splits)
qed (auto simp: useAccessToken_def clearToken_def acceptTokens_def split: option.splits)

lemma refreshes_run:
  "refreshes (run es) \<le> length (filter is_settlement es) + (if refreshing (run es) then 1 else 0)"
proof (induction es rule: rev_induct)
  case Nil
  show ?case by (simp add: run_def new_client_def)
next
  case (snoc e es)
  have "run (es @ [e]) = step e (run es)" by (simp add: run_def)
  with snoc refreshes_step [of e "run es"] show ?case by (auto split: if_splits)
qed

text \<open>C7: Whatever calls overlap and however the server answers, no call is ever sent more than twice;
  a refresh is under way exactly while some call waits for one, and a new one starts only after
  the one before has settled: any number of calls refused together share one refresh.\<close>

theorem one_refresh_and_two_attempts:
  "list_all (\<lambda>k. length (cl_sent k) \<le> 2) (calls (run es)) \<and>
   (refreshing (run es) \<longleftrightarrow> list_ex is_waiting (calls (run es))) \<and>
   refreshes (run es) \<le> length (filter is_settlement es) + (if refreshing (run es) then 1 else 0)"
proof -
  have "length (cl_sent k) \<le> 2" if "call_ok k" for k
    using that by (cases "(cl_phase k, length (cl_sent k))" rule: phase_bound.cases) (auto simp: call_ok_def)
  then show ?thesis
    using run_ok [of es] refreshes_run [of es] by (auto simp: client_ok_def list_all_iff)
qed

lemma fold_resume_at:
  assumes "j < length (calls c)"
  shows "\<exists>c'. calls (fold (resume res) [0..<length (calls c)] c) ! j = calls (resume res j c') ! j \<and>
    calls c' ! j = calls c ! j \<and> length (calls c') = length (calls c) \<and>
    c' = fold (resume res) [0..<j] c"
proof -
  have split: "[0..<length (calls c)] = [0..<j] @ j # [Suc j..<length (calls c)]"
    using assms by (metis le_add_diff_inverse less_imp_le_nat upt_add_eq_append upt_conv_Cons zero_less_iff_neq_zero le0 add_0)
  let ?c = "fold (resume res) [0..<j] c"
  have "calls (fold (resume res) [Suc j..<length (calls c)] (resume res j ?c)) ! j =
      calls (resume res j ?c) ! j"
    by (rule fold_resume_nth) auto
  moreover have "calls ?c ! j = calls c ! j" by (rule fold_resume_nth) auto
  ultimately show ?thesis by (auto simp: split)
qed

lemma resume_ok_token: "accessToken (fold (resume (Inr v)) is c) = accessToken c"
proof (induction "is" arbitrary: c)
  case (Cons i "is")
  have "accessToken (resume (Inr v) i c) = accessToken c"
    by (auto simp: resume_def Let_def settle_def split: phase.splits target.splits)
  with Cons show ?case by simp
qed simp

text \<open>What a successful refresh does to a call.\<close>

definition resumed :: "json \<Rightarrow> client \<Rightarrow> call \<Rightarrow> call" where
  "resumed v c k =
     (if is_waiting k
      then (case cl_target k of
              Endpoint q p \<Rightarrow> k\<lparr>cl_phase := Fetching False, cl_sent := cl_sent k @ [bearer c]\<rparr>
            | RefreshOnly \<Rightarrow> k\<lparr>cl_phase := Settled (Fulfilled (Some v))\<rparr>)
      else k)"

lemma bearer_cong: "accessToken a = accessToken b \<Longrightarrow> bearer a = bearer b"
  by (simp add: bearer_def)

text \<open>When the shared refresh succeeds, every call that was waiting for it, and no other, is sent
  again with the new token; nothing is left waiting and no further refresh is started.\<close>

theorem refresh_resends_every_waiting_call:
  assumes "refreshing (run es)" and "v \<noteq> JNull"
  defines "c \<equiv> run es" and "c2 \<equiv> run (es @ [RefreshSettles (Inr (Some v))])"
  shows "accessToken c2 = json_token v \<and> \<not> refreshing c2 \<and> refreshes c2 = refreshes c \<and>
    calls c2 = map (resumed v c2) (calls c)"
proof -
  define c' where "c' = (acceptTokens v c)\<lparr>refreshing := False\<rparr>"
  have c': "calls c' = calls c" "accessToken c' = json_token v" "refreshes c' = refreshes c"
    by (simp_all add: c'_def acceptTokens_def)
  have c2: "c2 = fold (resume (Inr v)) [0..<length (calls c')] c'"
    using assms(1,2) c'(1) by (simp add: c2_def c_def c'_def run_def refresh_settles_def acceptTokens_def)
  have token: "accessToken c2 = json_token v" by (simp add: c2 resume_ok_token c')
  have "calls c2 ! j = resumed v c2 (calls c ! j)" if "j < length (calls c)" for j
  proof -
    have "j < length (calls c')" using that c'(1) by simp
    then obtain d where d: "calls c2 ! j = calls (resume (Inr v) j d) ! j" "calls d ! j = calls c ! j"
        "length (calls d) = length (calls c)" "d = fold (resume (Inr v)) [0..<j] c'"
      using fold_resume_at [of j c' "Inr v"] unfolding c2 c'(1) by blast
    have "bearer d = bearer c2" by (rule bearer_cong) (simp add: d(4) resume_ok_token token c')
    with d that show ?thesis
      by (cases "cl_phase (calls c ! j)"; cases "cl_target (calls c ! j)")
        (simp_all add: resume_def Let_def resumed_def settle_def)
  qed
  then have "calls c2 = map (resumed v c2) (calls c)"
    by (intro nth_equalityI) (simp_all add: c2 c')
  moreover have "\<not> refreshing c2 \<and> refreshes c2 = refreshes c"
    unfolding c2 by (simp add: c'(3)) (simp add: c'_def)
  ultimately show ?thesis using token by blast
qed

section \<open>Every call settles\<close>

fun phase_load :: "phase \<Rightarrow> nat" where
  "phase_load (Fetching True) = 3"
| "phase_load (Waiting r) = 2"
| "phase_load (Fetching False) = 1"
| "phase_load (Settled r) = 0"

definition load :: "client \<Rightarrow> nat" where
  "load c = sum_list (map (\<lambda>k. phase_load (cl_phase k)) (calls c))"

definition unsettled :: "client \<Rightarrow> bool" where
  "unsettled c \<longleftrightarrow> list_ex (\<lambda>k. \<not> (\<exists>r. cl_phase k = Settled r)) (calls c)"

lemma load_update:
  assumes "i < length (calls c)" and "calls c' = (calls c)[i := k]"
    and "phase_load (cl_phase k) < phase_load (cl_phase (calls c ! i))"
  shows "load c' < load c"
proof -
  have *: "sum_list (map f (xs[i := k])) + f (xs ! i) = sum_list (map f xs) + (f k :: nat)"
    if "i < length xs" for f and xs :: "call list"
    using that by (induction xs arbitrary: i) (auto simp: nth_Cons split: nat.splits)
  from * [OF assms(1), of "\<lambda>k. phase_load (cl_phase k)"] assms(2,3) show ?thesis
    by (simp add: load_def)
qed

lemma load_fetch:
  assumes "i < length (calls c)" and "cl_phase (calls c ! i) = Fetching retry"
  shows "load (fetch_settles i r c) < load c"
proof -
  have settled: "load (settle i (calls c ! i) x c) < load c" for x
  proof -
    obtain y where "calls (settle i (calls c ! i) x c) = (calls c)[i := (calls c ! i)\<lparr>cl_phase := Settled y\<rparr>]"
      using settle_calls by blast
    from load_update [OF assms(1) this] assms(2) show ?thesis by (cases retry) auto
  qed
  have wait: "load (join_refresh (set_call i ((calls c ! i)\<lparr>cl_phase := Waiting x\<rparr>) c)) < load c"
    if retry for x
    by (rule load_update [OF assms(1)]) (use that assms(2) in auto)
  show ?thesis
    using assms settled wait by (auto simp: fetch_settles_def Let_def split: option.splits)
qed

lemma resume_load:
  assumes "i < length (calls c)"
  shows "phase_load (cl_phase (calls (resume res i c) ! i)) +
     (if is_waiting (calls c ! i) then 1 else 0) \<le> phase_load (cl_phase (calls c ! i))"
proof (cases "cl_phase (calls c ! i)")
  case (Waiting r)
  have "phase_load (cl_phase (calls (settle i k x c') ! i)) = 0"
    if "length (calls c') = length (calls c)" for k x c'
    using settle_calls [of i k x c'] assms that by auto
  with Waiting assms show ?thesis
    by (auto simp: resume_def Let_def split: target.splits sum.splits)
qed (simp_all add: resume_def Let_def)

lemma load_refresh:
  assumes "refreshing c" and "list_ex is_waiting (calls c)"
  shows "load (refresh_settles res c) < load c"
proof -
  define c' where "c' = (case refreshed res of Inr v \<Rightarrow> acceptTokens v c | Inl f \<Rightarrow> c)\<lparr>refreshing := False\<rparr>"
  have c': "calls c' = calls c" by (auto simp: c'_def acceptTokens_def split: sum.splits)
  define c2 where "c2 = fold (resume (refreshed res)) [0..<length (calls c')] c'"
  have len: "length (calls c2) = length (calls c)" by (simp add: c2_def c')
  let ?f = "\<lambda>k. phase_load (cl_phase k)"
  have le: "?f (calls c2 ! j) + (if is_waiting (calls c ! j) then 1 else 0) \<le> ?f (calls c ! j)"
    if j: "j < length (calls c)" for j
  proof -
    obtain d where d: "calls c2 ! j = calls (resume (refreshed res) j d) ! j"
        "calls d ! j = calls c ! j" "length (calls d) = length (calls c)"
      using fold_resume_at [of j c' "refreshed res"] j by (auto simp: c2_def c')
    with resume_load [of j d "refreshed res"] j show ?thesis by simp
  qed
  obtain j where j: "j < length (calls c)" "is_waiting (calls c ! j)"
    using assms(2) by (auto simp: list_ex_length)
  have "(\<Sum>i < length (calls c). ?f (calls c2 ! i)) < (\<Sum>i < length (calls c). ?f (calls c ! i))"
    by (rule sum_strict_mono_ex1) (use le j in \<open>force+\<close>)
  then have "load c2 < load c"
    using len by (simp add: load_def sum_list_sum_nth lessThan_atLeast0)
  with assms(1) show ?thesis by (simp add: refresh_settles_def c2_def c' flip: c'_def)
qed

text \<open>C8: Every call settles. As long as one has not, the network owes the client an answer, to a
  fetch or to the refresh, and each such answer, success or failure, brings the calls nearer to
  the end: the load, three per fresh call, strictly decreases.\<close>

theorem every_call_settles:
  assumes "unsettled (run es)"
  shows "(refreshing (run es) \<or>
       (\<exists>i retry. i < length (calls (run es)) \<and> cl_phase (calls (run es) ! i) = Fetching retry)) \<and>
    (\<forall>res. refreshing (run es) \<longrightarrow> load (run (es @ [RefreshSettles res])) < load (run es)) \<and>
    (\<forall>i retry r. i < length (calls (run es)) \<longrightarrow> cl_phase (calls (run es) ! i) = Fetching retry \<longrightarrow>
       load (run (es @ [FetchSettles i r])) < load (run es))"
proof (intro conjI allI impI)
  have ok: "refreshing (run es) \<longleftrightarrow> list_ex is_waiting (calls (run es))"
    using run_ok [of es] by (simp add: client_ok_def)
  obtain i where "i < length (calls (run es))" "\<not> (\<exists>r. cl_phase (calls (run es) ! i) = Settled r)"
    using assms by (auto simp: unsettled_def list_ex_length)
  then show "refreshing (run es) \<or>
       (\<exists>i retry. i < length (calls (run es)) \<and> cl_phase (calls (run es) ! i) = Fetching retry)"
    using ok by (cases "cl_phase (calls (run es) ! i)") (auto simp: list_ex_length)
  show "load (run (es @ [RefreshSettles res])) < load (run es)" if "refreshing (run es)" for res
    using load_refresh [OF that] ok that by (simp add: run_def)
  show "load (run (es @ [FetchSettles i r])) < load (run es)"
    if "i < length (calls (run es))" "cl_phase (calls (run es) ! i) = Fetching retry" for i retry r
    using load_fetch [OF that] by (simp add: run_def)
qed

theorem refresh_resends_every_waiting_call_witness:
  "accessToken (run ([Call (AccountEp Me), FetchSettles 0 (Some \<lparr>rs_status = 401, rs_body = EmptyBody\<rparr>)] @
     [RefreshSettles (Inr (Some (JObj [(js ''access_token'', JStr (js ''t''))])))])) = Some (js ''t'')"
proof -
  have "refreshing (run [Call (AccountEp Me), FetchSettles 0 (Some \<lparr>rs_status = 401, rs_body = EmptyBody\<rparr>)])"
    by (simp add: run_def start_call_def req_with_def fetch_settles_def new_client_def refresh_path_def)
  from refresh_resends_every_waiting_call [OF this, of "JObj [(js ''access_token'', JStr (js ''t''))]"]
  show ?thesis by (simp add: json_token_def)
qed

theorem every_call_settles_witness:
  "load (run ([Call (AccountEp Me)] @ [FetchSettles 0 None])) < load (run [Call (AccountEp Me)])"
proof -
  have *: "unsettled (run [Call (AccountEp Me)])" "0 < length (calls (run [Call (AccountEp Me)]))"
    "cl_phase (calls (run [Call (AccountEp Me)]) ! 0) = Fetching True"
    by (simp_all add: run_def start_call_def req_with_def new_client_def unsettled_def)
  from every_call_settles [OF *(1)] *(2,3) show ?thesis by blast
qed

end
