(* ===== verification/Realtime.thy ===== *)
theory Realtime
  imports Types
begin

text \<open>
  The realtime coordinator, \<open>packages/core/src/realtime.ts\<close>, over the checkpoint storage its clients
  implement, with the web client's implementation from \<open>apps/web/src/persistence.ts\<close>.

  The coordinator is a state machine. Its methods and socket callbacks run without interruption up
  to the next \<open>await\<close>; what is left of a function then is a task, and the event \<open>Resolve n\<close> resumes
  the \<open>n\<close>-th task with the outcome of its promise. Pending reconnect timers are tasks too. Sockets
  are numbered; the callbacks of an old socket still run. The log lists, in order, the states
  reported, the frames sent, the sockets opened, the checkpoints stored and the callbacks made.
\<close>

section \<open>Checkpoints\<close>

record 's checkpoint_storage =
  cs_get :: "'s \<Rightarrow> int"
  cs_set :: "int \<Rightarrow> 's \<Rightarrow> 's"
  cs_clear :: "'s \<Rightarrow> 's"

locale checkpoints =
  fixes cp :: "'s checkpoint_storage"
  assumes get_set: "cs_get cp (cs_set cp v s) = v"
    and get_clear: "cs_get cp (cs_clear cp s) = 0"

text \<open>The \<open>meta\<close> object store.\<close>

type_synonym meta = "jstring \<Rightarrow> int option"

definition checkpointStorage :: "meta checkpoint_storage" where
  "checkpointStorage =
     \<lparr>cs_get = (\<lambda>s. case s (js ''checkpoint'') of Some v \<Rightarrow> v | None \<Rightarrow> 0),
      cs_set = (\<lambda>v s. s(js ''checkpoint'' \<mapsto> v)),
      cs_clear = (\<lambda>s. s(js ''checkpoint'' := None))\<rparr>"

interpretation meta: checkpoints checkpointStorage
  by unfold_locales (simp_all add: checkpointStorage_def)

section \<open>State\<close>

datatype frame_out =
    Auth "jstring option" int
  | SubscribeActive "jstring option" "jstring option"
  | TypingOut jstring "jstring option" bool
  | PresenceOut bool
  | Ack int

text \<open>An incoming frame; \<open>EventFrame seq applied\<close> carries what \<open>callbacks.event\<close> returns for it.\<close>

datatype frame_in =
    Hello "jsnum field" "jsnum field" "jsnum field"
  | EventFrame int bool
  | Resync int
  | ErrorFrame jstring
  | TypingIn json
  | PresenceIn json
  | AgentStatusIn json
  | MessageStreamingIn json
  | OtherFrame

datatype effect =
    StateIs realtime_state
  | Sent nat frame_out
  | Opened nat int
  | Persisted int
  | TimerSet int
  | Processed int
  | ResyncCalled int
  | SessionExpiredCalled
  | PasswordChangeCalled
  | EphemeralReset
  | Forwarded json

datatype ready = NotOpen | Open | Closing | Closed

record socket =
  sk_ready :: ready
  sk_token :: "jstring option"
  sk_checkpoint :: int

text \<open>What a suspended function still has to do.\<close>

datatype task =
    ConnectRefresh
  | ConnectGet
  | ReauthRefresh
  | ReconnectTimer
  | HelloGet jsnum
  | EventSet int
  | ResyncCall int
  | ResyncSet int

record 's realtime =
  rt_stopped :: bool
  rt_attempt :: nat
  rt_pcr :: bool
  rt_ackTimer :: "(int \<times> bool) option"
  rt_lastAck :: int
  rt_ackInterval :: int
  rt_ackBatch :: int
  rt_chat :: "jstring option"
  rt_thread :: "jstring option"
  rt_socket :: "nat option"
  rt_sockets :: "socket list"
  rt_tasks :: "task list"
  rt_token :: "jstring option"
  rt_store :: 's
  rt_log :: "effect list"

definition coordinator :: "'s \<Rightarrow> 's realtime" where
  "coordinator s =
     \<lparr>rt_stopped = True, rt_attempt = 0, rt_pcr = False, rt_ackTimer = None, rt_lastAck = 0,
      rt_ackInterval = 1000, rt_ackBatch = 50, rt_chat = None, rt_thread = None, rt_socket = None,
      rt_sockets = [], rt_tasks = [], rt_token = None, rt_store = s, rt_log = []\<rparr>"

definition emit :: "effect list \<Rightarrow> 's realtime \<Rightarrow> 's realtime" where
  "emit es r = r\<lparr>rt_log := rt_log r @ es\<rparr>"

definition spawn :: "task \<Rightarrow> 's realtime \<Rightarrow> 's realtime" where
  "spawn t r = r\<lparr>rt_tasks := rt_tasks r @ [t]\<rparr>"

text \<open>\<open>private send\<close>: only over an open current socket.\<close>

definition send :: "frame_out \<Rightarrow> 's realtime \<Rightarrow> 's realtime" where
  "send f r =
     (case rt_socket r of
        Some i \<Rightarrow> if i < length (rt_sockets r) \<and> sk_ready (rt_sockets r ! i) = Open
                  then emit [Sent i f] r else r
      | None \<Rightarrow> r)"

definition set_ready :: "nat \<Rightarrow> ready \<Rightarrow> 's realtime \<Rightarrow> 's realtime" where
  "set_ready i x r = r\<lparr>rt_sockets := (rt_sockets r)[i := (rt_sockets r ! i)\<lparr>sk_ready := x\<rparr>]\<rparr>"

text \<open>\<open>this.socket?.close()\<close>: nothing is sent or received over the socket any more; its close event
  is still to come.\<close>

definition close_socket :: "'s realtime \<Rightarrow> 's realtime" where
  "close_socket r =
     (case rt_socket r of
        Some i \<Rightarrow> if i < length (rt_sockets r) \<and> sk_ready (rt_sockets r ! i) \<noteq> Closed
                  then set_ready i Closing r else r
      | None \<Rightarrow> r)"

definition has_token :: "'s realtime \<Rightarrow> bool" where
  "has_token r \<longleftrightarrow> rt_token r \<noteq> None \<and> rt_token r \<noteq> Some []"

definition subscribe :: "jstring option \<Rightarrow> jstring option \<Rightarrow> 's realtime \<Rightarrow> 's realtime" where
  "subscribe c t r = send (SubscribeActive c t) (r\<lparr>rt_chat := c, rt_thread := t\<rparr>)"

definition typing :: "jstring \<Rightarrow> bool \<Rightarrow> jstring option \<Rightarrow> 's realtime \<Rightarrow> 's realtime" where
  "typing c active t r = send (TypingOut c t active) r"

definition presence :: "bool \<Rightarrow> 's realtime \<Rightarrow> 's realtime" where
  "presence active r = send (PresenceOut active) r"

section \<open>Connecting\<close>

definition connect :: "bool \<Rightarrow> 's realtime \<Rightarrow> 's realtime" where
  "connect reconnect r =
     (if rt_stopped r then r
      else spawn (if has_token r then ConnectGet else ConnectRefresh)
             (emit [StateIs (if reconnect then Reconnecting else Connecting)] r))"

definition start :: "'s realtime \<Rightarrow> 's realtime" where
  "start r = connect False (r\<lparr>rt_stopped := False\<rparr>)"

definition stop :: "'s realtime \<Rightarrow> 's realtime" where
  "stop r =
     emit [EphemeralReset, StateIs Idle]
       ((close_socket (r\<lparr>rt_stopped := True\<rparr>))
          \<lparr>rt_ackTimer := map_option (\<lambda>(s, live). (s, False)) (rt_ackTimer r)\<rparr>)"

text \<open>\<open>connect\<close> after \<open>storage.get\<close>.\<close>

definition open_socket :: "'s checkpoint_storage \<Rightarrow> 's realtime \<Rightarrow> 's realtime" where
  "open_socket cp r =
     (let checkpoint = cs_get cp (rt_store r);
          i = length (rt_sockets r)
      in emit [Opened i checkpoint]
           (r\<lparr>rt_sockets := rt_sockets r @
                [\<lparr>sk_ready = NotOpen, sk_token = rt_token r, sk_checkpoint = checkpoint\<rparr>],
              rt_pcr := False, rt_socket := Some i\<rparr>))"

definition retry_later :: "'s realtime \<Rightarrow> 's realtime" where
  "retry_later r = spawn ReconnectTimer (emit [TimerSet 1000] r)"

definition reauthenticate :: "jstring option \<Rightarrow> 's realtime \<Rightarrow> 's realtime" where
  "reauthenticate expired r =
     (if rt_stopped r then r
      else let r1 = emit [StateIs Reconnecting] r in
           if rt_token r = expired then spawn ReauthRefresh (r1\<lparr>rt_token := None\<rparr>)
           else connect True r1)"

text \<open>The callbacks of a socket.\<close>

definition on_open :: "nat \<Rightarrow> 's realtime \<Rightarrow> 's realtime" where
  "on_open i r =
     (if i < length (rt_sockets r) \<and> sk_ready (rt_sockets r ! i) = NotOpen
      then emit [StateIs Authenticating, Sent i (Auth (rt_token r) (sk_checkpoint (rt_sockets r ! i)))]
             (set_ready i Open r)
      else r)"

definition on_close :: "nat \<Rightarrow> nat \<Rightarrow> nat \<Rightarrow> 's realtime \<Rightarrow> 's realtime" where
  "on_close i code jitter r =
     (if i < length (rt_sockets r) \<and> sk_ready (rt_sockets r ! i) \<noteq> Closed
      then let r1 = emit [EphemeralReset] (set_ready i Closed r) in
        if rt_stopped r then r1
        else if code = 4001 then
          (if rt_pcr r then r1 else reauthenticate (sk_token (rt_sockets r ! i)) r1)
        else
          spawn ReconnectTimer
            (emit [TimerSet (min 30000 (500 * 2 ^ rt_attempt r) + int jitter)]
              (r1\<lparr>rt_attempt := rt_attempt r + 1\<rparr>))
      else r)"

section \<open>Receiving\<close>

definition ack :: "int \<Rightarrow> 's realtime \<Rightarrow> 's realtime" where
  "ack seq r = send (Ack seq) (r\<lparr>rt_ackTimer := None, rt_lastAck := seq\<rparr>)"

definition scheduleAck :: "int \<Rightarrow> 's realtime \<Rightarrow> 's realtime" where
  "scheduleAck seq r =
     (if seq - rt_lastAck r \<ge> rt_ackBatch r then ack seq r
      else if rt_ackTimer r = None then r\<lparr>rt_ackTimer := Some (seq, True)\<rparr> else r)"

text \<open>\<open>Number(x) || d\<close>\<close>

fun number_or :: "int \<Rightarrow> jsnum \<Rightarrow> int" where
  "number_or d NaN = d"
| "number_or d (Num n) = (if n = 0 then d else n)"

fun greater :: "jsnum \<Rightarrow> int \<Rightarrow> bool" where
  "greater NaN m \<longleftrightarrow> False"
| "greater (Num n) m \<longleftrightarrow> n > m"

definition event_done :: "int \<Rightarrow> 's realtime \<Rightarrow> 's realtime" where
  "event_done seq r = emit [StateIs Live] (scheduleAck seq (emit [Processed seq] r))"

fun receive :: "frame_in \<Rightarrow> 's realtime \<Rightarrow> 's realtime" where
  "receive (Hello seq interval batch) r =
     spawn (HelloGet (to_number seq))
       (r\<lparr>rt_attempt := 0, rt_ackInterval := number_or 1000 (to_number interval),
          rt_ackBatch := number_or 50 (to_number batch)\<rparr>)"
| "receive (EventFrame seq applied) r =
     (if applied then spawn (EventSet seq) r else event_done seq r)"
| "receive (Resync high) r = spawn (ResyncCall high) (emit [StateIs ResyncRequired, ResyncCalled high] r)"
| "receive (ErrorFrame code) r =
     (if code = js ''password_change_required''
      then emit [StateIs PasswordChangeRequired, PasswordChangeCalled] (r\<lparr>rt_pcr := True\<rparr>) else r)"
| "receive (TypingIn v) r = emit [Forwarded v] r"
| "receive (PresenceIn v) r = emit [Forwarded v] r"
| "receive (AgentStatusIn v) r = emit [Forwarded v] r"
| "receive (MessageStreamingIn v) r = emit [Forwarded v] r"
| "receive OtherFrame r = r"

section \<open>Steps\<close>

text \<open>How a promise settles: fulfilled, with the token where it is a refresh, or rejected, by an API
  error with that status or otherwise.\<close>

datatype settled = Fulfils "jstring option" | Rejects "nat option"

definition persist :: "'s checkpoint_storage \<Rightarrow> int \<Rightarrow> 's realtime \<Rightarrow> 's realtime" where
  "persist cp v r = emit [Persisted v] (r\<lparr>rt_store := cs_set cp v (rt_store r)\<rparr>)"

fun resume :: "'s checkpoint_storage \<Rightarrow> task \<Rightarrow> settled \<Rightarrow> 's realtime \<Rightarrow> 's realtime" where
  "resume cp ConnectRefresh (Fulfils t) r = spawn ConnectGet (r\<lparr>rt_token := t\<rparr>)"
| "resume cp ConnectRefresh (Rejects e) r = (if rt_stopped r then r else retry_later r)"
| "resume cp ConnectGet (Fulfils t) r = open_socket cp r"
| "resume cp ConnectGet (Rejects e) r = (if rt_stopped r then r else retry_later r)"
| "resume cp ReauthRefresh (Fulfils t) r =
     (if rt_stopped r then r\<lparr>rt_token := t\<rparr> else connect True (r\<lparr>rt_token := t\<rparr>))"
| "resume cp ReauthRefresh (Rejects e) r =
     (if rt_stopped r then r
      else if e = Some 401 then emit [StateIs SessionExpired, SessionExpiredCalled] r
      else retry_later r)"
| "resume cp ReconnectTimer _ r = connect True r"
| "resume cp (HelloGet seq) (Fulfils t) r =
     subscribe (rt_chat r) (rt_thread r)
       (emit [StateIs (if greater seq (cs_get cp (rt_store r)) then Backlog else Live)] r)"
| "resume cp (HelloGet seq) (Rejects e) r = r"
| "resume cp (EventSet seq) (Fulfils t) r = event_done seq (persist cp seq r)"
| "resume cp (EventSet seq) (Rejects e) r = r"
| "resume cp (ResyncCall high) (Fulfils t) r = spawn (ResyncSet high) r"
| "resume cp (ResyncCall high) (Rejects e) r = r"
| "resume cp (ResyncSet high) (Fulfils t) r = close_socket (persist cp high r)"
| "resume cp (ResyncSet high) (Rejects e) r = r"

datatype event =
    Start
  | Stop
  | Subscribe "jstring option" "jstring option"
  | Typing jstring bool "jstring option"
  | Presence bool
  | TokenSet "jstring option"
  | SocketOpens nat
  | SocketReceives nat frame_in
  | SocketCloses nat nat nat
  | AckFires
  | Resolve nat settled

definition remove_nth :: "nat \<Rightarrow> 'a list \<Rightarrow> 'a list" where
  "remove_nth n xs = take n xs @ drop (Suc n) xs"

fun step :: "'s checkpoint_storage \<Rightarrow> event \<Rightarrow> 's realtime \<Rightarrow> 's realtime" where
  "step cp Start r = start r"
| "step cp Stop r = stop r"
| "step cp (Subscribe c t) r = subscribe c t r"
| "step cp (Typing c a t) r = typing c a t r"
| "step cp (Presence a) r = presence a r"
| "step cp (TokenSet t) r = r\<lparr>rt_token := t\<rparr>"
| "step cp (SocketOpens i) r = on_open i r"
| "step cp (SocketReceives i f) r =
     (if i < length (rt_sockets r) \<and> sk_ready (rt_sockets r ! i) = Open then receive f r else r)"
| "step cp (SocketCloses i code jitter) r = on_close i code jitter r"
| "step cp AckFires r =
     (case rt_ackTimer r of Some (seq, True) \<Rightarrow> ack seq r | _ \<Rightarrow> r)"
| "step cp (Resolve n x) r =
     (if n < length (rt_tasks r)
      then resume cp (rt_tasks r ! n) x (r\<lparr>rt_tasks := remove_nth n (rt_tasks r)\<rparr>) else r)"

definition run :: "'s checkpoint_storage \<Rightarrow> event list \<Rightarrow> 's realtime \<Rightarrow> 's realtime" where
  "run cp es r = fold (step cp) es r"

section \<open>Acknowledgements\<close>

lemmas realtime_defs =
  emit_def spawn_def set_ready_def persist_def retry_later_def

lemma run_snoc: "run cp (es @ [e]) r = step cp e (run cp es r)"
  by (simp add: run_def)

lemma run_Nil [simp]: "run cp [] r = r"
  by (simp add: run_def)

lemma run_Cons [simp]: "run cp (e # es) r = run cp es (step cp e r)"
  by (simp add: run_def)

lemma run_append: "run cp (es @ es') r = run cp es' (run cp es r)"
  by (simp add: run_def)

text \<open>An invariant of the coordinator, from its state when it is constructed.\<close>

lemma run_invariant:
  assumes "P (coordinator s)" and "\<And>e r. P r \<Longrightarrow> P (step cp e r)"
  shows "P (run cp es (coordinator s))"
  using assms(1)
proof (induction es rule: rev_induct)
  case (snoc e es)
  then show ?case using assms(2) by (simp add: run_snoc)
qed simp

definition acked :: "effect list \<Rightarrow> int set" where
  "acked es = {n. \<exists>i. Sent i (Ack n) \<in> set es}"

definition processed :: "effect list \<Rightarrow> int set" where
  "processed es = {n. Processed n \<in> set es}"

definition ack_inv :: "'s realtime \<Rightarrow> bool" where
  "ack_inv r \<longleftrightarrow> acked (rt_log r) \<subseteq> processed (rt_log r) \<and>
     (\<forall>n live. rt_ackTimer r = Some (n, live) \<longrightarrow> n \<in> processed (rt_log r))"

lemma ack_inv_log:
  assumes "ack_inv r" and "rt_log r' = rt_log r @ es" and "acked es = {}"
    and "rt_ackTimer r' = rt_ackTimer r"
  shows "ack_inv r'"
  using assms by (auto simp: ack_inv_def acked_def processed_def)

lemma ack_inv_send: "ack_inv r \<Longrightarrow> acked [Sent 0 f] = {} \<Longrightarrow> ack_inv (send f r)"
  by (auto simp: send_def emit_def ack_inv_def acked_def processed_def split: option.splits)

lemma ack_inv_ack:
  assumes "ack_inv r" and "n \<in> processed (rt_log r)"
  shows "ack_inv (ack n r)"
  using assms by (auto simp: ack_def send_def emit_def ack_inv_def acked_def processed_def split: option.splits)

lemma ack_inv_event_done: "ack_inv r \<Longrightarrow> ack_inv (event_done seq r)"
proof -
  assume r: "ack_inv r"
  define r1 where "r1 = emit [Processed seq] r"
  have r1: "ack_inv r1" "seq \<in> processed (rt_log r1)"
    using r by (auto simp: r1_def emit_def ack_inv_def acked_def processed_def)
  then have "ack_inv (scheduleAck seq r1)"
    by (auto simp: scheduleAck_def intro: ack_inv_ack) (auto simp: ack_inv_def)
  then show ?thesis
    unfolding event_done_def r1_def [symmetric]
    by (rule ack_inv_log) (auto simp: emit_def acked_def)
qed

lemma close_socket_sel [simp]:
  "rt_log (close_socket r) = rt_log r" "rt_ackTimer (close_socket r) = rt_ackTimer r"
  "rt_stopped (close_socket r) = rt_stopped r" "rt_tasks (close_socket r) = rt_tasks r"
  "rt_store (close_socket r) = rt_store r" "rt_lastAck (close_socket r) = rt_lastAck r"
  "rt_ackBatch (close_socket r) = rt_ackBatch r" "rt_pcr (close_socket r) = rt_pcr r"
  by (auto simp: close_socket_def set_ready_def split: option.splits)

lemma ack_inv_connect: "ack_inv r \<Longrightarrow> ack_inv (connect b r)"
  by (auto simp: connect_def spawn_def emit_def ack_inv_def acked_def processed_def)

lemma ack_inv_reauthenticate: "ack_inv r \<Longrightarrow> ack_inv (reauthenticate t r)"
  by (auto simp: reauthenticate_def Let_def intro!: ack_inv_connect)
    (auto simp: spawn_def emit_def ack_inv_def acked_def processed_def)

lemma ack_inv_receive: "ack_inv r \<Longrightarrow> ack_inv (receive f r)"
  by (cases f)
    (auto simp: realtime_defs ack_inv_event_done intro: ack_inv_log, auto simp: ack_inv_def acked_def processed_def)

lemma ack_inv_persist: "ack_inv r \<Longrightarrow> ack_inv (persist cp v r)"
  by (rule ack_inv_log) (auto simp: persist_def emit_def acked_def)

lemma ack_inv_close: "ack_inv r \<Longrightarrow> ack_inv (close_socket r)"
  by (simp add: ack_inv_def)

lemma ack_inv_subscribe: "ack_inv r \<Longrightarrow> ack_inv (subscribe c t r)"
  unfolding subscribe_def by (rule ack_inv_send) (auto simp: ack_inv_def acked_def)

lemma ack_inv_state: "ack_inv r \<Longrightarrow> ack_inv (emit [StateIs x] r)"
  by (rule ack_inv_log) (auto simp: emit_def acked_def)

lemma ack_inv_resume: "ack_inv r \<Longrightarrow> ack_inv (resume cp t x r)"
proof (cases "(cp, t, x, r)" rule: resume.cases)
  case (8 cp' seq t' r')
  assume "ack_inv r"
  with 8 show ?thesis by (simp add: ack_inv_subscribe ack_inv_state)
next
  case (10 cp' seq t' r')
  assume "ack_inv r"
  with 10 show ?thesis by (simp add: ack_inv_event_done ack_inv_persist)
next
  case (14 cp' high t' r')
  assume "ack_inv r"
  with 14 show ?thesis by (simp add: ack_inv_close ack_inv_persist)
next
  case (5 cp' t' r')
  assume "ack_inv r"
  then have "ack_inv (r\<lparr>rt_token := t'\<rparr>)" by (simp add: ack_inv_def)
  with 5 show ?thesis by (simp add: ack_inv_connect)
qed (auto simp: realtime_defs open_socket_def Let_def ack_inv_connect, auto simp: ack_inv_def acked_def processed_def)

lemma send_log: "rt_log (send f r) = rt_log r \<or> (\<exists>i. rt_log (send f r) = rt_log r @ [Sent i f])"
  by (auto simp: send_def emit_def split: option.splits)

lemma send_sel [simp]:
  "rt_tasks (send f r) = rt_tasks r" "rt_sockets (send f r) = rt_sockets r"
  "rt_stopped (send f r) = rt_stopped r" "rt_pcr (send f r) = rt_pcr r"
  "rt_store (send f r) = rt_store r" "rt_ackTimer (send f r) = rt_ackTimer r"
  "rt_lastAck (send f r) = rt_lastAck r" "rt_ackBatch (send f r) = rt_ackBatch r"
  "rt_attempt (send f r) = rt_attempt r" "rt_socket (send f r) = rt_socket r"
  "rt_token (send f r) = rt_token r"
  by (auto simp: send_def emit_def split: option.splits)

lemma emit_sel [simp]:
  "rt_tasks (emit es r) = rt_tasks r" "rt_sockets (emit es r) = rt_sockets r"
  "rt_stopped (emit es r) = rt_stopped r" "rt_pcr (emit es r) = rt_pcr r"
  "rt_store (emit es r) = rt_store r" "rt_ackTimer (emit es r) = rt_ackTimer r"
  "rt_lastAck (emit es r) = rt_lastAck r" "rt_ackBatch (emit es r) = rt_ackBatch r"
  "rt_attempt (emit es r) = rt_attempt r" "rt_socket (emit es r) = rt_socket r"
  "rt_token (emit es r) = rt_token r" "rt_log (emit es r) = rt_log r @ es"
  by (simp_all add: emit_def)

lemma spawn_sel [simp]:
  "rt_tasks (spawn t r) = rt_tasks r @ [t]" "rt_sockets (spawn t r) = rt_sockets r"
  "rt_stopped (spawn t r) = rt_stopped r" "rt_pcr (spawn t r) = rt_pcr r"
  "rt_store (spawn t r) = rt_store r" "rt_ackTimer (spawn t r) = rt_ackTimer r"
  "rt_lastAck (spawn t r) = rt_lastAck r" "rt_ackBatch (spawn t r) = rt_ackBatch r"
  "rt_attempt (spawn t r) = rt_attempt r" "rt_socket (spawn t r) = rt_socket r"
  "rt_token (spawn t r) = rt_token r" "rt_log (spawn t r) = rt_log r"
  by (simp_all add: spawn_def)

lemma event_done_sel [simp]:
  "rt_tasks (event_done q r) = rt_tasks r" "rt_sockets (event_done q r) = rt_sockets r"
  "rt_stopped (event_done q r) = rt_stopped r" "rt_pcr (event_done q r) = rt_pcr r"
  "rt_store (event_done q r) = rt_store r"
  by (simp_all add: event_done_def scheduleAck_def ack_def)

lemma persist_sel [simp]:
  "rt_tasks (persist cp v r) = rt_tasks r" "rt_sockets (persist cp v r) = rt_sockets r"
  "rt_stopped (persist cp v r) = rt_stopped r" "rt_pcr (persist cp v r) = rt_pcr r"
  by (simp_all add: persist_def)

lemma event_done_log:
  "\<exists>es. rt_log (event_done q r) = rt_log r @ Processed q # es @ [StateIs Live] \<and>
     (es = [] \<or> (\<exists>i. es = [Sent i (Ack q)]))"
  using send_log [of "Ack q" "(emit [Processed q] r)\<lparr>rt_ackTimer := None, rt_lastAck := q\<rparr>"]
  by (auto simp: event_done_def scheduleAck_def ack_def)

lemma ack_inv_step: "ack_inv r \<Longrightarrow> ack_inv (step cp e r)"
proof (cases e)
  case (Resolve n x)
  assume "ack_inv r"
  then have "ack_inv (r\<lparr>rt_tasks := remove_nth n (rt_tasks r)\<rparr>)" by (simp add: ack_inv_def)
  with \<open>ack_inv r\<close> Resolve show ?thesis by (simp add: ack_inv_resume)
next
  case AckFires
  assume "ack_inv r"
  with AckFires show ?thesis
    by (auto simp: ack_inv_def [of r] split: option.splits bool.splits intro!: ack_inv_ack)
next
  case Start
  assume "ack_inv r"
  with Start show ?thesis by (auto simp: start_def intro!: ack_inv_connect) (simp add: ack_inv_def)
next
  case Stop
  assume "ack_inv r"
  with Stop show ?thesis by (auto simp: stop_def emit_def ack_inv_def acked_def processed_def)
next
  case (SocketOpens i)
  assume "ack_inv r"
  with SocketOpens show ?thesis
    by (auto simp: on_open_def set_ready_def ack_inv_def acked_def processed_def)
next
  case (SocketCloses i code j)
  assume "ack_inv r"
  then have "ack_inv (emit [EphemeralReset] (set_ready i Closed r))"
    by (auto simp: set_ready_def ack_inv_def acked_def processed_def)
  with SocketCloses \<open>ack_inv r\<close> show ?thesis
    by (auto simp: on_close_def Let_def ack_inv_reauthenticate)
      (auto simp: ack_inv_def acked_def processed_def)
qed (auto simp: ack_inv_subscribe typing_def presence_def acked_def ack_inv_receive intro!: ack_inv_send,
    auto simp: ack_inv_def)

text \<open>The server is only ever sent acknowledgements of events that were completely processed: applied
  and, where the store took them, with the checkpoint stored; whatever interleaving of frames,
  timers, storage operations, reconnects and stops.\<close>

theorem only_processed_events_acked:
  "acked (rt_log (run cp es (coordinator s))) \<subseteq> processed (rt_log (run cp es (coordinator s)))"
proof -
  have "ack_inv (run cp es (coordinator s))"
  proof (rule run_invariant [where P = ack_inv])
    show "ack_inv (coordinator s)" by (simp add: ack_inv_def coordinator_def acked_def)
  qed (rule ack_inv_step)
  then show ?thesis by (simp add: ack_inv_def)
qed

section \<open>Reconnecting\<close>

definition delays_ok :: "'s realtime \<Rightarrow> bool" where
  "delays_ok r \<longleftrightarrow> (\<forall>d. TimerSet d \<in> set (rt_log r) \<longrightarrow> 500 \<le> d \<and> d < 30350)"

fun jitter_ok :: "event \<Rightarrow> bool" where
  "jitter_ok (SocketCloses i code jitter) \<longleftrightarrow> jitter < 350"
| "jitter_ok _ \<longleftrightarrow> True"

fun reconnecting :: "task \<Rightarrow> bool" where
  "reconnecting ConnectRefresh \<longleftrightarrow> True"
| "reconnecting ConnectGet \<longleftrightarrow> True"
| "reconnecting ReauthRefresh \<longleftrightarrow> True"
| "reconnecting ReconnectTimer \<longleftrightarrow> True"
| "reconnecting _ \<longleftrightarrow> False"

text \<open>Something is under way that leads to a connection: a suspended connect, a reconnect timer, or a
  socket whose close event is still to come.\<close>

definition alive :: "'s realtime \<Rightarrow> bool" where
  "alive r \<longleftrightarrow> list_ex reconnecting (rt_tasks r) \<or> list_ex (\<lambda>k. sk_ready k \<noteq> Closed) (rt_sockets r)"








lemma alive_connect: "\<not> rt_stopped r \<Longrightarrow> alive (connect b r)"
  by (simp add: connect_def alive_def)







definition expiries :: "'s realtime \<Rightarrow> nat" where
  "expiries r = count_list (rt_log r) SessionExpiredCalled"

lemma expiries_send [simp]: "expiries (send f r) = expiries r"
  using send_log [of f r] by (auto simp: expiries_def)

lemma expiries_emit [simp]: "expiries (emit es r) = expiries r + count_list es SessionExpiredCalled"
  by (simp add: expiries_def)

lemma expiries_update [simp]:
  "expiries (spawn t r) = expiries r" "expiries (close_socket r) = expiries r"
  "expiries (r\<lparr>rt_tasks := ts\<rparr>) = expiries r" "expiries (r\<lparr>rt_token := tk\<rparr>) = expiries r"
  "expiries (r\<lparr>rt_stopped := b\<rparr>) = expiries r" "expiries (r\<lparr>rt_store := st\<rparr>) = expiries r"
  "expiries (r\<lparr>rt_attempt := n\<rparr>) = expiries r" "expiries (r\<lparr>rt_pcr := b\<rparr>) = expiries r"
  "expiries (r\<lparr>rt_ackTimer := at\<rparr>) = expiries r" "expiries (set_ready i x r) = expiries r"
  by (simp_all add: expiries_def set_ready_def)

lemma expiries_event_done [simp]: "expiries (event_done q r) = expiries r"
  using event_done_log [of q r] by (auto simp: expiries_def)

lemma expiries_connect [simp]: "expiries (connect b r) = expiries r"
  by (simp add: connect_def)

lemma expiries_subscribe [simp]: "expiries (subscribe c t r) = expiries r"
  by (simp add: subscribe_def) (simp add: expiries_def)

lemma expiries_ack [simp]: "expiries (ack q r) = expiries r"
  by (simp add: ack_def) (simp add: expiries_def)

lemma expiries_reauthenticate [simp]: "expiries (reauthenticate t r) = expiries r"
  by (simp add: reauthenticate_def Let_def)

lemma expiries_receive [simp]: "expiries (receive f r) = expiries r"
  by (cases f) (simp_all, simp add: expiries_def)

lemma expiries_resume:
  "expiries (resume cp t x r) =
     expiries r + (if t = ReauthRefresh \<and> x = Rejects (Some 401) \<and> \<not> rt_stopped r then 1 else 0)"
  by (cases "(cp, t, x, r)" rule: resume.cases)
    (auto simp: retry_later_def open_socket_def Let_def persist_def, simp_all add: expiries_def)

text \<open>The session is reported as expired exactly when the refresh that follows an authentication
  close is refused with status 401 while the coordinator runs; a network error, another status or
  a stopped coordinator never signs the user out.\<close>

theorem session_expires_only_on_refused_refresh:
  "expiries (step cp e r) =
     expiries r +
     (if \<exists>n. e = Resolve n (Rejects (Some 401)) \<and> n < length (rt_tasks r) \<and>
             rt_tasks r ! n = ReauthRefresh \<and> \<not> rt_stopped r then 1 else 0)"
proof (cases e)
  case (Resolve n x)
  then show ?thesis by (auto simp: expiries_resume)
qed (auto simp: start_def stop_def typing_def presence_def on_open_def on_close_def Let_def
    split: option.splits bool.splits)

section \<open>Delays and checkpoints\<close>

lemma delays_emit:
  "delays_ok (emit es r) \<longleftrightarrow> delays_ok r \<and> (\<forall>d. TimerSet d \<in> set es \<longrightarrow> 500 \<le> d \<and> d < 30350)"
  by (auto simp: delays_ok_def)

lemma delays_log: "rt_log r' = rt_log r \<Longrightarrow> delays_ok r' = delays_ok r"
  by (simp add: delays_ok_def)

lemma delays_send [simp]: "delays_ok (send f r) = delays_ok r"
  using send_log [of f r] by (auto simp: delays_ok_def)

lemma delays_event_done [simp]: "delays_ok (event_done q r) = delays_ok r"
  using event_done_log [of q r] by (auto simp: delays_ok_def)

lemma delays_update [simp]:
  "delays_ok (spawn t r) = delays_ok r" "delays_ok (close_socket r) = delays_ok r"
  "delays_ok (r\<lparr>rt_tasks := ts\<rparr>) = delays_ok r" "delays_ok (r\<lparr>rt_token := tk\<rparr>) = delays_ok r"
  "delays_ok (r\<lparr>rt_stopped := b\<rparr>) = delays_ok r" "delays_ok (r\<lparr>rt_store := st\<rparr>) = delays_ok r"
  "delays_ok (r\<lparr>rt_attempt := n\<rparr>) = delays_ok r" "delays_ok (r\<lparr>rt_pcr := b\<rparr>) = delays_ok r"
  "delays_ok (r\<lparr>rt_ackTimer := at\<rparr>) = delays_ok r" "delays_ok (set_ready i x r) = delays_ok r"
  "delays_ok (r\<lparr>rt_chat := c, rt_thread := th\<rparr>) = delays_ok r"
  "delays_ok (r\<lparr>rt_ackTimer := at, rt_lastAck := q\<rparr>) = delays_ok r"
  by (simp_all add: delays_ok_def set_ready_def)

lemma delays_ack [simp]: "delays_ok (ack q r) = delays_ok r"
  by (simp add: ack_def)

lemma delays_connect [simp]: "delays_ok (connect b r) = delays_ok r"
  by (simp add: connect_def delays_emit)

lemma delays_receive [simp]: "delays_ok (receive f r) = delays_ok r"
  by (cases f) (auto simp: delays_emit, simp_all add: delays_ok_def)

lemma delays_resume: "delays_ok r \<Longrightarrow> delays_ok (resume cp t x r)"
  by (cases "(cp, t, x, r)" rule: resume.cases)
    (auto simp: retry_later_def open_socket_def Let_def persist_def subscribe_def delays_emit,
      auto simp: delays_ok_def)

lemma delay_bounds:
  "500 \<le> min 30000 (500 * 2 ^ n) + int j"
  "j < 350 \<Longrightarrow> min 30000 (500 * 2 ^ n) + int j < 30350"
proof -
  have "(1 :: int) \<le> 2 ^ n" by simp
  then show "500 \<le> min 30000 (500 * 2 ^ n) + int j" by linarith
  show "j < 350 \<Longrightarrow> min 30000 (500 * 2 ^ n) + int j < 30350" by linarith
qed

lemma delays_step: "delays_ok r \<Longrightarrow> jitter_ok e \<Longrightarrow> delays_ok (step cp e r)"
proof (cases e)
  case (SocketCloses i code j)
  assume "delays_ok r" "jitter_ok e"
  then show ?thesis
    using SocketCloses
    by (auto simp: on_close_def Let_def reauthenticate_def delays_emit delay_bounds)
qed (auto simp: start_def stop_def subscribe_def typing_def presence_def on_open_def delays_emit
    delays_resume split: option.splits bool.splits)

text \<open>C13: Every reconnect waits at least half a second and less than 30.35 seconds, however often the
  socket has closed before.\<close>

theorem reconnect_delays_bounded:
  assumes "list_all jitter_ok es"
  shows "delays_ok (run cp es (coordinator s))"
  using assms
proof (induction es rule: rev_induct)
  case Nil
  show ?case by (simp add: delays_ok_def coordinator_def)
next
  case (snoc e es)
  then show ?case by (simp add: run_snoc delays_step)
qed

theorem reconnect_delays_bounded_witness:
  "delays_ok (run checkpointStorage [TokenSet (Some (js ''t'')), Start, Resolve 0 (Fulfils None),
     SocketCloses 0 1006 349] (coordinator Map.empty))"
  by (rule reconnect_delays_bounded) simp

text \<open>The checkpoints in the log: every socket is opened with the one stored last.\<close>

fun resumes_from :: "int \<Rightarrow> effect list \<Rightarrow> bool" where
  "resumes_from v [] \<longleftrightarrow> True"
| "resumes_from v (Persisted w # es) \<longleftrightarrow> resumes_from w es"
| "resumes_from v (Opened i w # es) \<longleftrightarrow> w = v \<and> resumes_from v es"
| "resumes_from v (e # es) \<longleftrightarrow> resumes_from v es"

fun last_checkpoint :: "int \<Rightarrow> effect list \<Rightarrow> int" where
  "last_checkpoint v [] = v"
| "last_checkpoint v (Persisted w # es) = last_checkpoint w es"
| "last_checkpoint v (e # es) = last_checkpoint v es"

lemma resumes_from_append:
  "resumes_from v (es @ es') \<longleftrightarrow> resumes_from v es \<and> resumes_from (last_checkpoint v es) es'"
  by (induction v es rule: resumes_from.induct) auto

lemma last_checkpoint_append:
  "last_checkpoint v (es @ es') = last_checkpoint (last_checkpoint v es) es'"
  by (induction v es rule: last_checkpoint.induct) auto

fun neutral :: "effect \<Rightarrow> bool" where
  "neutral (Persisted v) \<longleftrightarrow> False"
| "neutral (Opened i v) \<longleftrightarrow> False"
| "neutral _ \<longleftrightarrow> True"

lemma neutral_log:
  "list_all neutral es \<Longrightarrow> resumes_from v es \<and> last_checkpoint v es = v"
  by (induction v es rule: resumes_from.induct) auto

context checkpoints
begin

definition cp_inv :: "int \<Rightarrow> 's realtime \<Rightarrow> bool" where
  "cp_inv v r \<longleftrightarrow> resumes_from v (rt_log r) \<and> cs_get cp (rt_store r) = last_checkpoint v (rt_log r)"

lemma cp_inv_neutral:
  assumes "cp_inv v r" and "rt_log r' = rt_log r @ es" and "list_all neutral es"
    and "rt_store r' = rt_store r"
  shows "cp_inv v r'"
  using assms neutral_log [OF assms(3)]
  by (simp add: cp_inv_def resumes_from_append last_checkpoint_append)

lemma cp_inv_send [simp]: "cp_inv v (send f r) = cp_inv v r"
  using send_log [of f r] by (auto simp: cp_inv_def resumes_from_append last_checkpoint_append)

lemma cp_inv_event_done: "cp_inv v r \<Longrightarrow> cp_inv v (event_done q r)"
  using event_done_log [of q r]
  by (auto simp: cp_inv_def resumes_from_append last_checkpoint_append)

lemma cp_inv_persist: "cp_inv v r \<Longrightarrow> cp_inv v (persist cp w r)"
  by (simp add: cp_inv_def persist_def resumes_from_append last_checkpoint_append get_set)

lemma cp_inv_open: "cp_inv v r \<Longrightarrow> cp_inv v (open_socket cp r)"
  by (simp add: cp_inv_def open_socket_def Let_def resumes_from_append last_checkpoint_append)

lemma cp_inv_emit: "cp_inv v r \<Longrightarrow> list_all neutral es \<Longrightarrow> cp_inv v (emit es r)"
  by (rule cp_inv_neutral) auto

lemma cp_inv_update [simp]:
  "cp_inv v (spawn t r) = cp_inv v r" "cp_inv v (close_socket r) = cp_inv v r"
  "cp_inv v (r\<lparr>rt_tasks := ts\<rparr>) = cp_inv v r" "cp_inv v (r\<lparr>rt_token := tk\<rparr>) = cp_inv v r"
  "cp_inv v (r\<lparr>rt_stopped := b\<rparr>) = cp_inv v r" "cp_inv v (r\<lparr>rt_attempt := n\<rparr>) = cp_inv v r"
  "cp_inv v (r\<lparr>rt_pcr := b\<rparr>) = cp_inv v r" "cp_inv v (r\<lparr>rt_ackTimer := at\<rparr>) = cp_inv v r"
  "cp_inv v (set_ready i x r) = cp_inv v r"
  "cp_inv v (r\<lparr>rt_chat := c, rt_thread := th\<rparr>) = cp_inv v r"
  "cp_inv v (r\<lparr>rt_ackTimer := at, rt_lastAck := q\<rparr>) = cp_inv v r"
  "cp_inv v (r\<lparr>rt_attempt := n, rt_ackInterval := x1, rt_ackBatch := x2\<rparr>) = cp_inv v r"
  by (simp_all add: cp_inv_def set_ready_def)

lemma cp_inv_connect: "cp_inv v r \<Longrightarrow> cp_inv v (connect b r)"
  by (simp add: connect_def cp_inv_emit)

lemma cp_inv_receive: "cp_inv v r \<Longrightarrow> cp_inv v (receive f r)"
  by (cases f) (auto simp: cp_inv_emit cp_inv_event_done)

lemma cp_inv_resume: "cp_inv v r \<Longrightarrow> cp_inv v (resume cp t x r)"
  by (cases "(cp, t, x, r)" rule: resume.cases)
    (auto simp: retry_later_def subscribe_def cp_inv_emit cp_inv_connect cp_inv_event_done
      cp_inv_persist cp_inv_open)

lemma cp_inv_step: "cp_inv v r \<Longrightarrow> cp_inv v (step cp e r)"
  by (cases e)
    (auto simp: start_def stop_def subscribe_def typing_def presence_def on_open_def on_close_def
      Let_def reauthenticate_def ack_def cp_inv_emit cp_inv_connect cp_inv_receive cp_inv_resume
      split: option.splits bool.splits)

lemma opens_from_last_checkpoint:
  "cp_inv (cs_get cp s) (run cp es (coordinator s))"
  by (rule run_invariant) (simp_all add: cp_inv_step, simp add: cp_inv_def coordinator_def)

end


section \<open>Two surprises\<close>

text \<open>An applied event arriving over socket \<open>i\<close>, and its checkpoint being stored, with \<open>n\<close> tasks
  suspended before.\<close>

definition arrives :: "nat \<Rightarrow> nat \<Rightarrow> int \<Rightarrow> event list" where
  "arrives i n q = [SocketReceives i (EventFrame q True), Resolve n (Fulfils None)]"

lemma arrives_run:
  assumes "i < length (rt_sockets r)" and "sk_ready (rt_sockets r ! i) = Open"
    and "n = length (rt_tasks r)"
  shows "run cp (arrives i n q) r = event_done q (persist cp q r)"
  using assms by (simp add: arrives_def spawn_def remove_nth_def)

lemma arrives_timer:
  assumes "i < length (rt_sockets r)" and "sk_ready (rt_sockets r ! i) = Open"
    and "n = length (rt_tasks r)" and "\<forall>q \<in> set qs. q - rt_lastAck r < rt_ackBatch r"
    and "rt_ackTimer r = Some (q0, True)"
  shows "rt_ackTimer (run cp (concat (map (arrives i n) qs)) r) = Some (q0, True)"
  using assms
proof (induction qs arbitrary: r)
  case (Cons q qs)
  have "rt_ackTimer (event_done q (persist cp q r)) = Some (q0, True)"
      "rt_lastAck (event_done q (persist cp q r)) = rt_lastAck r"
      "rt_ackBatch (event_done q (persist cp q r)) = rt_ackBatch r"
    using Cons.prems by (auto simp: event_done_def scheduleAck_def persist_def)
  with Cons.IH [of "event_done q (persist cp q r)"] Cons.prems show ?case
    by (simp add: run_append arrives_run)
qed simp

text \<open>Of several events that arrive within one acknowledgement interval the delayed
  acknowledgement names the first, not the last: afterwards no timer is set, so the others stay
  unacknowledged until a further event arrives.\<close>

theorem delayed_ack_names_the_first_event:
  fixes r :: "'s realtime" and cp :: "'s checkpoint_storage"
  assumes "i < length (rt_sockets r)" and "sk_ready (rt_sockets r ! i) = Open"
    and "n = length (rt_tasks r)" and "rt_ackTimer r = None"
    and "\<forall>q \<in> set (q0 # qs). q - rt_lastAck r < rt_ackBatch r"
  defines "r2 \<equiv> run cp (concat (map (arrives i n) (q0 # qs)) @ [AckFires]) r"
  shows "rt_lastAck r2 = q0 \<and> rt_ackTimer r2 = None"
proof -
  define r1 where "r1 = event_done q0 (persist cp q0 r)"
  have "rt_ackTimer r1 = Some (q0, True)" "rt_lastAck r1 = rt_lastAck r"
      "rt_ackBatch r1 = rt_ackBatch r" "rt_sockets r1 = rt_sockets r" "rt_tasks r1 = rt_tasks r"
    using assms(4,5) by (auto simp: r1_def event_done_def scheduleAck_def persist_def)
  with assms have "rt_ackTimer (run cp (concat (map (arrives i n) qs)) r1) = Some (q0, True)"
    by (intro arrives_timer) auto
  then show ?thesis
    using assms(1-3) by (simp add: r2_def run_append arrives_run ack_def flip: r1_def)
qed

definition live_example :: "meta realtime" where
  "live_example = (coordinator Map.empty)
     \<lparr>rt_stopped := False, rt_socket := Some 0,
      rt_sockets := [\<lparr>sk_ready = Open, sk_token = None, sk_checkpoint = 0\<rparr>]\<rparr>"

theorem delayed_ack_names_the_first_event_witness:
  "rt_lastAck (run checkpointStorage (concat (map (arrives 0 0) [1, 2, 3]) @ [AckFires]) live_example) = 1"
  by (rule conjunct1 [OF delayed_ack_names_the_first_event]) (auto simp: live_example_def coordinator_def)

text \<open>Stopping does not abort a connect that is waiting for the stored checkpoint: when the promise
  settles, a socket is opened and, once open, authenticates, although the coordinator is stopped.\<close>

theorem stopped_coordinator_still_connects:
  fixes r :: "'s realtime" and cp :: "'s checkpoint_storage"
  assumes "rt_stopped r" and "n < length (rt_tasks r)" and "rt_tasks r ! n = ConnectGet"
  defines "i \<equiv> length (rt_sockets r)"
  defines "r2 \<equiv> run cp [Resolve n (Fulfils None), SocketOpens i] r"
  shows "rt_stopped r2 \<and> rt_socket r2 = Some i \<and>
    rt_log r2 = rt_log r @ [Opened i (cs_get cp (rt_store r)), StateIs Authenticating,
                            Sent i (Auth (rt_token r) (cs_get cp (rt_store r)))]"
  using assms by (simp add: open_socket_def Let_def on_open_def set_ready_def)

theorem stopped_coordinator_still_connects_witness:
  "rt_socket (run checkpointStorage [Resolve 0 (Fulfils None), SocketOpens 0]
     (run checkpointStorage [TokenSet (Some (js ''t'')), Start, Stop] (coordinator Map.empty))) = Some 0"
proof -
  define r0 where "r0 = run checkpointStorage [TokenSet (Some (js ''t'')), Start, Stop] (coordinator Map.empty)"
  have r0: "rt_stopped r0" "rt_tasks r0 = [ConnectGet]" "rt_sockets r0 = []"
    by (simp_all add: r0_def coordinator_def start_def stop_def connect_def has_token_def
        close_socket_def spawn_def emit_def)
  from stopped_coordinator_still_connects [of r0 0 checkpointStorage] show ?thesis
    unfolding r0_def [symmetric] by (simp only: r0) simp
qed

text \<open>The same with the acknowledgement timer: \<open>stop\<close> clears it but keeps the handle, which makes
  \<open>scheduleAck\<close> believe a timer is set; only an acknowledgement by batch size replaces it.\<close>

lemma dead_timer_stays:
  assumes "rt_ackTimer r = Some (q, False)" and "seq - rt_lastAck r < rt_ackBatch r"
  shows "rt_ackTimer (event_done seq r) = Some (q, False) \<and> step cp AckFires r = r"
  using assms by (simp add: event_done_def scheduleAck_def)

end
