(* ===== verification/Streaming.thy ===== *)
theory Streaming
  imports Json
begin

text \<open>
  The streaming of generated text: \<open>StreamingCoalescer\<close>, \<open>splitStreamingDelta\<close>, \<open>encodedSize\<close> and the
  escapes of \<open>apps/agent-runtime/src/runtime.ts\<close>, and \<open>DeltaCoalescer\<close> of
  \<open>packages/agent-sdk/src/index.ts\<close>. Both coalescers promise what the locale \<open>delta_buffer\<close> states:
  text goes out in the order it came in, and a flush leaves nothing behind.

  A timer is a flag: whether a timeout is set, whose callback is \<open>flush\<close>.
\<close>

definition byte_size :: "jstring \<Rightarrow> nat" where
  "byte_size s = length (text_encode s)"

text \<open>\<open>for (const character of value)\<close>: the characters of a string, by code point.\<close>

definition characters :: "jstring \<Rightarrow> jstring list" where
  "characters s = map units_of (code_points s)"

lemma concat_characters [simp]: "concat (characters s) = s"
  by (simp add: characters_def units_code_points)

section \<open>The contract of a coalescer\<close>

text \<open>Deltas are pushed (\<open>Some\<close>) and timers fire (\<open>None\<close>) in any order.\<close>

fun feed :: "(jstring \<Rightarrow> 'b \<Rightarrow> 'b) \<Rightarrow> ('b \<Rightarrow> 'b) \<Rightarrow> jstring option list \<Rightarrow> 'b \<Rightarrow> 'b" where
  "feed push flush [] b = b"
| "feed push flush (Some d # es) b = feed push flush es (push d b)"
| "feed push flush (None # es) b = feed push flush es (flush b)"

fun pushed :: "jstring option list \<Rightarrow> jstring" where
  "pushed [] = []"
| "pushed (Some d # es) = d @ pushed es"
| "pushed (None # es) = pushed es"

locale delta_buffer =
  fixes push :: "jstring \<Rightarrow> 'b \<Rightarrow> 'b" and flush :: "'b \<Rightarrow> 'b"
    and pending :: "'b \<Rightarrow> jstring" and emitted :: "'b \<Rightarrow> jstring list" and timer :: "'b \<Rightarrow> bool"
  assumes push_text: "concat (emitted (push d b)) @ pending (push d b) =
                        concat (emitted b) @ pending b @ d"
    and flush_text: "concat (emitted (flush b)) = concat (emitted b) @ pending b"
    and flush_pending: "pending (flush b) = []"
    and push_keeps: "\<exists>es. emitted (push d b) = emitted b @ es"
    and flush_keeps: "\<exists>es. emitted (flush b) = emitted b @ es"
    and push_timer: "timer b \<or> pending b = [] \<Longrightarrow> timer (push d b) \<or> pending (push d b) = []"
begin

lemma feed_text:
  "concat (emitted (feed push flush es b)) @ pending (feed push flush es b) =
     concat (emitted b) @ pending b @ pushed es"
proof (induction es arbitrary: b)
  case (Cons e es)
  show ?case
  proof (cases e)
    case None
    then show ?thesis using Cons [of "flush b"] flush_text [of b] flush_pending [of b] by simp
  next
    case (Some d)
    have "concat (emitted (push d b)) @ pending (push d b) @ pushed es =
        concat (emitted b) @ pending b @ d @ pushed es"
      using push_text [of d b] by (metis append_assoc)
    with Some Cons [of "push d b"] show ?thesis by simp
  qed
qed simp

lemma nothing_stays_behind:
  "concat (emitted (flush (feed push flush es b))) = concat (emitted b) @ pending b @ pushed es"
  using feed_text by (simp add: flush_text)

lemma pending_has_timer:
  "timer b \<or> pending b = [] \<Longrightarrow>
     timer (feed push flush es b) \<or> pending (feed push flush es b) = []"
proof (induction es arbitrary: b)
  case (Cons e es)
  show ?case
  proof (cases e)
    case None
    then show ?thesis using Cons.IH [of "flush b"] flush_pending [of b] by simp
  next
    case (Some d)
    then show ?thesis using Cons.IH [of "push d b"] push_timer [OF Cons.prems] by simp
  qed
qed simp

end

section \<open>The runtime's coalescer\<close>

record coalescer =
  co_pending :: jstring
  co_timer :: bool
  co_emitted :: "jstring list"

definition new_coalescer :: coalescer where
  "new_coalescer = \<lparr>co_pending = [], co_timer = False, co_emitted = []\<rparr>"

definition co_flush :: "coalescer \<Rightarrow> coalescer" where
  "co_flush b =
     (if co_pending b = [] then b\<lparr>co_timer := False\<rparr>
      else b\<lparr>co_timer := False, co_pending := [], co_emitted := co_emitted b @ [co_pending b]\<rparr>)"

definition runtime_push :: "jstring \<Rightarrow> coalescer \<Rightarrow> coalescer" where
  "runtime_push delta b =
     (if delta = [] then b
      else let b1 = b\<lparr>co_pending := co_pending b @ delta\<rparr> in
           if byte_size (co_pending b1) \<ge> 8192 then co_flush b1 else b1\<lparr>co_timer := True\<rparr>)"

interpretation runtime_coalescer: delta_buffer runtime_push co_flush co_pending co_emitted co_timer
  by unfold_locales (auto simp: runtime_push_def co_flush_def Let_def)

section \<open>The SDK's coalescer\<close>

definition sdk_push_character :: "nat \<Rightarrow> jstring \<Rightarrow> coalescer \<Rightarrow> coalescer" where
  "sdk_push_character maxBytes character b =
     (let b1 = (if byte_size (co_pending b @ character) > maxBytes then co_flush b else b)
      in b1\<lparr>co_pending := co_pending b1 @ character\<rparr>)"

definition sdk_push :: "nat \<Rightarrow> jstring \<Rightarrow> coalescer \<Rightarrow> coalescer" where
  "sdk_push maxBytes value b =
     (if value = [] then b
      else (fold (sdk_push_character maxBytes) (characters value) b)\<lparr>co_timer := True\<rparr>)"

lemma sdk_character_text:
  "concat (co_emitted (sdk_push_character n c b)) @ co_pending (sdk_push_character n c b) =
     concat (co_emitted b) @ co_pending b @ c"
  by (simp add: sdk_push_character_def Let_def co_flush_def)

lemma sdk_characters_text:
  "concat (co_emitted (fold (sdk_push_character n) cs b)) @ co_pending (fold (sdk_push_character n) cs b) =
     concat (co_emitted b) @ co_pending b @ concat cs"
proof (induction cs arbitrary: b)
  case (Cons c cs)
  then show ?case using sdk_character_text [of n c b] by (metis append_assoc concat.simps(2) fold_simps(2))
qed simp

lemma sdk_characters_keep: "\<exists>es. co_emitted (fold (sdk_push_character n) cs b) = co_emitted b @ es"
proof (induction cs arbitrary: b)
  case (Cons c cs)
  have "\<exists>es. co_emitted (sdk_push_character n c b) = co_emitted b @ es"
    by (auto simp: sdk_push_character_def Let_def co_flush_def)
  with Cons show ?case by (metis append_assoc fold_simps(2))
qed simp

interpretation sdk_coalescer: delta_buffer "sdk_push n" co_flush co_pending co_emitted co_timer
proof
  fix d b
  show "concat (co_emitted (sdk_push n d b)) @ co_pending (sdk_push n d b) =
      concat (co_emitted b) @ co_pending b @ d"
    using sdk_characters_text [of n "characters d" b] by (simp add: sdk_push_def)
  show "\<exists>es. co_emitted (sdk_push n d b) = co_emitted b @ es"
    using sdk_characters_keep by (simp add: sdk_push_def)
  show "co_timer b \<or> co_pending b = [] \<Longrightarrow>
      co_timer (sdk_push n d b) \<or> co_pending (sdk_push n d b) = []"
    by (auto simp: sdk_push_def)
qed (auto simp: co_flush_def)

section \<open>Splitting into frames\<close>

fun split_loop :: "jstring list \<Rightarrow> jstring \<Rightarrow> nat \<Rightarrow> jstring list" where
  "split_loop [] current bytes = (if current = [] then [] else [current])"
| "split_loop (c # cs) current bytes =
     (let size = byte_size c in
      if bytes + size > 8192 then current # split_loop cs c size
      else split_loop cs (current @ c) (bytes + size))"

definition splitStreamingDelta :: "jstring \<Rightarrow> jstring list" where
  "splitStreamingDelta value =
     (if byte_size value \<le> 8192 then [value] else split_loop (characters value) [] 0)"

lemma byte_size_simps [simp]:
  "byte_size [] = 0"
  by (simp add: byte_size_def text_encode_def)

definition point_size :: "nat \<Rightarrow> nat" where
  "point_size n = length (utf8 (if is_surrogate n then 0xFFFD else n))"

lemma byte_size_points: "byte_size s = sum_list (map point_size (code_points s))"
  by (simp add: byte_size_def text_encode_def length_concat comp_def flip: point_size_def)

lemma point_size_surrogate: "is_surrogate n \<Longrightarrow> point_size n = 3"
  by (simp add: point_size_def utf8_def)

lemma point_size_le: "point_size n \<le> 4"
  unfolding point_size_def by (rule length_utf8(2))

lemma surrogate_of_high: "is_high c \<Longrightarrow> is_surrogate (unat c)"
  and surrogate_of_low: "is_low c \<Longrightarrow> is_surrogate (unat c)"
  by (auto simp: surrogate_units is_surrogate_def)

lemma code_points_low: "is_low d \<Longrightarrow> code_points (d # t) = unat d # code_points t"
proof -
  assume "is_low d"
  then have "\<not> is_high d" by (auto simp: surrogate_units)
  then show ?thesis by (cases t) auto
qed

lemma byte_size_append: "byte_size (s @ t) \<le> byte_size s + byte_size t"
proof (induction s rule: code_points.induct)
  case 1
  then show ?case by simp
next
  case (2 c)
  show ?case
  proof (cases t)
    case Nil
    then show ?thesis by simp
  next
    case (Cons d t')
    show ?thesis
    proof (cases "is_high c \<and> is_low d")
      case True
      then have "byte_size (d # t') = 3 + byte_size t'"
        by (simp add: byte_size_points code_points_low point_size_surrogate surrogate_of_low)
      moreover have "byte_size [c] = 3"
        using True by (simp add: byte_size_points point_size_surrogate surrogate_of_high)
      moreover have "byte_size (c # d # t') \<le> 4 + byte_size t'"
        using True point_size_le by (simp add: byte_size_points)
      ultimately show ?thesis using Cons by simp
    next
      case False
      with Cons show ?thesis by (auto simp: byte_size_points)
    qed
  qed
next
  case (3 c d s)
  then show ?case by (auto simp: byte_size_points)
qed

lemma split_loop_concat: "concat (split_loop cs current bytes) = current @ concat cs"
  by (induction cs current bytes rule: split_loop.induct) (auto simp: Let_def)

lemma split_loop_size:
  assumes "list_all (\<lambda>c. byte_size c \<le> 8192) cs" and "byte_size current \<le> bytes" and "bytes \<le> 8192"
  shows "list_all (\<lambda>p. byte_size p \<le> 8192) (split_loop cs current bytes)"
  using assms
proof (induction cs current bytes rule: split_loop.induct)
  case (2 c cs current bytes)
  then show ?case
    using byte_size_append [of current c] by (auto simp: Let_def)
qed simp

lemma byte_size_length: "byte_size s \<le> 4 * length s"
proof -
  have "sum_list (map point_size ns) \<le> 4 * length ns" for ns
    using point_size_le by (induction ns) (auto simp: add_mono)
  then show ?thesis using length_code_points [of s] by (metis byte_size_points le_trans mult_le_mono2)
qed

lemma characters_small: "list_all (\<lambda>c. byte_size c \<le> 8) (characters s)"
proof -
  have "byte_size (units_of n) \<le> 8" for n
    using byte_size_length [of "units_of n"] by (auto simp: units_of_def split: if_splits)
  then show ?thesis by (simp add: characters_def list_all_iff)
qed

lemma split_size: "list_all (\<lambda>p. byte_size p \<le> 8192) (splitStreamingDelta s)"
proof -
  have "list_all (\<lambda>c. byte_size c \<le> 8192) (characters s)"
    using characters_small [of s] by (auto simp: list_all_iff)
  then show ?thesis by (auto simp: splitStreamingDelta_def intro: split_loop_size)
qed

lemma split_concat: "concat (splitStreamingDelta s) = s"
  by (simp add: splitStreamingDelta_def split_loop_concat)

text \<open>No part ends inside a surrogate pair: the parts of well-formed text are well-formed.\<close>

definition scalar :: "nat \<Rightarrow> bool" where
  "scalar n \<longleftrightarrow> n < 0x110000 \<and> \<not> is_surrogate n"

lemma units_astral:
  assumes "\<not> n < 0x10000" and "n < 0x110000"
  shows "\<exists>h l. units_of n = [h, l] \<and> is_high h \<and> is_low l \<and>
    0x10000 + (unat h - 0xD800) * 0x400 + (unat l - 0xDC00) = n"
proof -
  define m where "m = n - 0x10000"
  have m: "m < 0x100000" "n = 0x10000 + m" using assms by (auto simp: m_def)
  define x y where "x = m div 0x400" and "y = m mod 0x400"
  have xy: "x < 0x400" "y < 0x400" "x * 0x400 + y = m" using m(1) by (auto simp: x_def y_def)
  define h l :: cunit where "h = of_nat (0xD800 + x)" and "l = of_nat (0xDC00 + y)"
  have "unat h = (0xD800 + x) mod 0x10000" "unat l = (0xDC00 + y) mod 0x10000"
    by (simp_all only: h_def l_def unat_of_nat) simp_all
  then have "unat h = 0xD800 + x" "unat l = 0xDC00 + y" using xy(1,2) by simp_all
  moreover have "units_of n = [h, l]"
    using assms(1) by (simp add: units_of_def h_def l_def x_def y_def m_def)
  ultimately show ?thesis using xy m(2) by (auto simp: surrogate_units)
qed

lemma code_points_units:
  assumes "scalar n"
  shows "code_points (units_of n @ s) = n # code_points s"
proof (cases "n < 0x10000")
  case True
  then have "unat (of_nat n :: cunit) = n" by (simp add: unat_of_nat)
  moreover from this have "\<not> is_high (of_nat n)"
    using assms by (auto simp: surrogate_units scalar_def is_surrogate_def)
  ultimately show ?thesis using True by (cases s) (simp_all add: units_of_def)
next
  case False
  obtain h l where "units_of n = [h, l]" "is_high h" "is_low l"
      "0x10000 + (unat h - 0xD800) * 0x400 + (unat l - 0xDC00) = n"
    using units_astral [OF False] assms by (auto simp: scalar_def)
  then show ?thesis by simp
qed

lemma code_points_concat_units:
  "list_all scalar ns \<Longrightarrow> code_points (concat (map units_of ns)) = ns"
  by (induction ns) (simp_all add: code_points_units)

definition whole :: "jstring \<Rightarrow> bool" where
  "whole s \<longleftrightarrow> (\<exists>ns. list_all scalar ns \<and> s = concat (map units_of ns))"

lemma whole_well_formed: "whole s \<Longrightarrow> well_formed s"
  by (auto simp: whole_def well_formed_def code_points_concat_units scalar_def list_all_iff)

lemma whole_append: "whole s \<Longrightarrow> whole t \<Longrightarrow> whole (s @ t)"
  unfolding whole_def by (metis concat_append list_all_append map_append)

lemma whole_split_loop:
  "list_all whole cs \<Longrightarrow> whole current \<Longrightarrow> list_all whole (split_loop cs current bytes)"
  by (induction cs current bytes rule: split_loop.induct) (auto simp: Let_def whole_append)

lemma split_well_formed:
  assumes "well_formed s"
  shows "list_all well_formed (splitStreamingDelta s)"
proof (cases "byte_size s \<le> 8192")
  case False
  have "list_all scalar (code_points s)"
    using assms code_points_less by (auto simp: well_formed_def scalar_def list_all_iff)
  moreover have "whole (units_of n)" if "scalar n" for n
    unfolding whole_def by (rule exI [of _ "[n]"]) (simp add: that)
  ultimately have "list_all whole (characters s)" by (auto simp: characters_def list_all_iff)
  moreover have "whole []" unfolding whole_def by (rule exI [of _ "[]"]) simp
  ultimately have "list_all whole (splitStreamingDelta s)"
    using False by (simp add: splitStreamingDelta_def whole_split_loop)
  then show ?thesis by (auto simp: list_all_iff whole_well_formed)
qed (use assms in \<open>simp add: splitStreamingDelta_def\<close>)

text \<open>Splitting a delta into frames loses and reorders nothing, and no frame exceeds 8192 bytes of
  UTF-8; text without lone surrogates is never cut inside a surrogate pair.\<close>

theorem splitStreamingDelta_correct:
  assumes "well_formed s"
  shows "concat (splitStreamingDelta s) = s \<and>
    list_all (\<lambda>p. byte_size p \<le> 8192 \<and> well_formed p) (splitStreamingDelta s)"
  using split_concat split_size [of s] split_well_formed [OF assms] by (simp add: list_all_iff)

theorem splitStreamingDelta_correct_witness:
  "concat (splitStreamingDelta (js ''ab'')) = js ''ab''"
  by (rule conjunct1 [OF splitStreamingDelta_correct])
    (simp add: well_formed_def is_high_def is_surrogate_def)

section \<open>Streams end to end\<close>

definition runtime_frames :: "jstring option list \<Rightarrow> jstring list" where
  "runtime_frames es =
     concat (map splitStreamingDelta (co_emitted (co_flush (feed runtime_push co_flush es new_coalescer))))"

lemma concat_concat_map: "concat (concat (map f xs)) = concat (map (\<lambda>x. concat (f x)) xs)"
  by (induction xs) auto

text \<open>What the runtime streams of a provider's text, whenever its timer fires, is that text, cut
  into frames of at most 8192 bytes.\<close>

theorem runtime_streams_the_text:
  "concat (runtime_frames es) = pushed es \<and> list_all (\<lambda>p. byte_size p \<le> 8192) (runtime_frames es)"
proof -
  have "concat (runtime_frames es) = pushed es"
    using runtime_coalescer.nothing_stays_behind [of es new_coalescer]
    by (simp add: runtime_frames_def concat_concat_map split_concat new_coalescer_def)
  moreover have "list_all (\<lambda>p. byte_size p \<le> 8192) (runtime_frames es)"
    using split_size by (auto simp: runtime_frames_def list_all_iff)
  ultimately show ?thesis by simp
qed

definition sdk_frames :: "nat \<Rightarrow> jstring option list \<Rightarrow> jstring list" where
  "sdk_frames n es = co_emitted (co_flush (feed (sdk_push n) co_flush es new_coalescer))"

definition sdk_inv :: "nat \<Rightarrow> coalescer \<Rightarrow> bool" where
  "sdk_inv n b \<longleftrightarrow> byte_size (co_pending b) \<le> n \<and> list_all (\<lambda>p. byte_size p \<le> n) (co_emitted b)"

lemma sdk_inv_flush: "sdk_inv n b \<Longrightarrow> sdk_inv n (co_flush b)"
  by (auto simp: sdk_inv_def co_flush_def)

lemma sdk_inv_character:
  "sdk_inv n b \<Longrightarrow> byte_size c \<le> n \<Longrightarrow> sdk_inv n (sdk_push_character n c b)"
  by (auto simp: sdk_push_character_def Let_def sdk_inv_def co_flush_def)

lemma sdk_inv_characters:
  "sdk_inv n b \<Longrightarrow> list_all (\<lambda>c. byte_size c \<le> n) cs \<Longrightarrow>
     sdk_inv n (fold (sdk_push_character n) cs b)"
  by (induction cs arbitrary: b) (simp_all add: sdk_inv_character)

lemma sdk_inv_push:
  assumes "sdk_inv n b" and "8 \<le> n"
  shows "sdk_inv n (sdk_push n d b)"
proof -
  have "list_all (\<lambda>c. byte_size c \<le> n) (characters d)"
    using characters_small [of d] assms(2) by (auto simp: list_all_iff)
  then have "sdk_inv n (fold (sdk_push_character n) (characters d) b)"
    using assms(1) by (intro sdk_inv_characters)
  then show ?thesis using assms(1) by (auto simp: sdk_push_def sdk_inv_def)
qed

lemma sdk_inv_feed: "sdk_inv n b \<Longrightarrow> 8 \<le> n \<Longrightarrow> sdk_inv n (feed (sdk_push n) co_flush es b)"
  by (induction "sdk_push n" co_flush es b rule: feed.induct) (auto simp: sdk_inv_push sdk_inv_flush)

text \<open>What an SDK run streams of its chunks is their text, in frames that respect the byte limit.\<close>

theorem sdk_streams_the_text:
  assumes "8 \<le> n"
  shows "concat (sdk_frames n es) = pushed es \<and> list_all (\<lambda>p. byte_size p \<le> n) (sdk_frames n es)"
proof -
  have "sdk_inv n (co_flush (feed (sdk_push n) co_flush es new_coalescer))"
    by (intro sdk_inv_flush sdk_inv_feed assms) (simp add: sdk_inv_def new_coalescer_def)
  then show ?thesis
    using sdk_coalescer.nothing_stays_behind [of n es new_coalescer]
    by (simp add: sdk_frames_def sdk_inv_def new_coalescer_def)
qed

theorem sdk_streams_the_text_witness:
  "concat (sdk_frames 8192 [Some (js ''a''), None, Some (js ''b'')]) = js ''ab''"
  using sdk_streams_the_text [of 8192 "[Some (js ''a''), None, Some (js ''b'')]"] by simp

end
