(* ===== verification/Runtime_Props.thy ===== *)
theory Runtime_Props
  imports Runtime
begin

text \<open>
  What holds of every agent run, for every environment. \<open>extends r k s s'\<close> is the frame of the proofs:
  from \<open>s\<close> to \<open>s'\<close> the run has logged \<open>k\<close> model calls, stream frames with consecutive indices, model
  calls on well-formed conversations only, and no outcome.
\<close>

section \<open>Conversations\<close>

text \<open>The form chat APIs demand: every tool call of an assistant message is answered, in order, by a
  tool message with its id before anything else is said. The automaton returns the calls still
  open.\<close>

fun open_calls :: "jstring list \<Rightarrow> chat_message list \<Rightarrow> jstring list option" where
  "open_calls p [] = Some p"
| "open_calls [] (SystemMsg t # ms) = open_calls [] ms"
| "open_calls [] (UserMsg t # ms) = open_calls [] ms"
| "open_calls [] (AssistantMsg t cs # ms) = open_calls (map tc_id cs) ms"
| "open_calls (i # is) (ToolMsg j t # ms) = (if i = j then open_calls is ms else None)"
| "open_calls p (m # ms) = None"

text \<open>Text from tools and users reaches the model inside markup that the text cannot close.\<close>

definition no_angle :: "jstring \<Rightarrow> bool" where
  "no_angle t \<longleftrightarrow> ch CHR ''<'' \<notin> set t \<and> ch CHR ''>'' \<notin> set t"

fun marked :: "chat_message \<Rightarrow> bool" where
  "marked (ToolMsg i t) \<longleftrightarrow> (\<exists>b. t = tool_result b \<and> no_angle b)"
| "marked (UserMsg t) \<longleftrightarrow> (\<exists>b. t = run_input b \<and> no_angle b) \<or> (\<exists>m. t = untrustedMessage m)"
| "marked _ \<longleftrightarrow> True"

definition answered :: "chat_message list \<Rightarrow> bool" where
  "answered ms \<longleftrightarrow> open_calls [] ms = Some [] \<and> list_all marked ms"

lemma escape_no_angle: "no_angle (escapeUntrustedContent t)"
  by (auto simp: escapeUntrustedContent_def escape_unit_def no_angle_def split: if_splits)

lemma safeJSON_no_angle: "safeJSON v = Some t \<Longrightarrow> no_angle t"
  by (auto simp: safeJSON_def escape_no_angle)

lemma open_calls_append:
  "open_calls p (xs @ ys) = (case open_calls p xs of None \<Rightarrow> None | Some q \<Rightarrow> open_calls q ys)"
  by (induction p xs rule: open_calls.induct) auto

section \<open>The frame\<close>

fun stream_index :: "effect \<Rightarrow> nat list" where
  "stream_index (Stream i d b f) = [i]"
| "stream_index _ = []"

definition indices :: "effect list \<Rightarrow> nat list" where
  "indices es = concat (map stream_index es)"

fun loop_effect :: "effect \<Rightarrow> bool" where
  "loop_effect (ModelCall ms) \<longleftrightarrow> answered ms"
| "loop_effect (Publish b) \<longleftrightarrow> False"
| "loop_effect (Complete u j) \<longleftrightarrow> False"
| "loop_effect (FailRun c) \<longleftrightarrow> False"
| "loop_effect _ \<longleftrightarrow> True"

fun is_model_call :: "effect \<Rightarrow> bool" where
  "is_model_call (ModelCall ms) \<longleftrightarrow> True"
| "is_model_call _ \<longleftrightarrow> False"

definition model_calls :: "effect list \<Rightarrow> nat" where
  "model_calls es = length (filter is_model_call es)"

definition extends :: "run \<Rightarrow> nat \<Rightarrow> run_state_rec \<Rightarrow> run_state_rec \<Rightarrow> bool" where
  "extends r k s s' \<longleftrightarrow>
     (\<exists>es. rs_log s' = rs_log s @ es \<and> list_all loop_effect es \<and> model_calls es = k \<and>
        rs_index s \<le> rs_index s' \<and>
        indices es = (if in_chat r then [Suc (rs_index s)..<Suc (rs_index s')] else []))"

lemma indices_simps [simp]:
  "indices [] = []" "indices (es @ es') = indices es @ indices es'"
  "indices (e # es) = stream_index e @ indices es"
  by (simp_all add: indices_def)

lemma model_calls_simps [simp]:
  "model_calls [] = 0" "model_calls (es @ es') = model_calls es + model_calls es'"
  "model_calls (e # es) = (if is_model_call e then 1 else 0) + model_calls es"
  by (simp_all add: model_calls_def)

lemma extends_same:
  "rs_log s' = rs_log s \<Longrightarrow> rs_index s' = rs_index s \<Longrightarrow> extends r 0 s s'"
  by (simp add: extends_def)

lemma extends_trans [trans]:
  assumes "extends r j s s'" and "extends r k s' s''"
  shows "extends r (j + k) s s''"
proof -
  obtain es where es: "rs_log s' = rs_log s @ es" "list_all loop_effect es" "model_calls es = j"
      "rs_index s \<le> rs_index s'"
      "indices es = (if in_chat r then [Suc (rs_index s)..<Suc (rs_index s')] else [])"
    using assms(1) unfolding extends_def by blast
  obtain es' where es': "rs_log s'' = rs_log s' @ es'" "list_all loop_effect es'" "model_calls es' = k"
      "rs_index s' \<le> rs_index s''"
      "indices es' = (if in_chat r then [Suc (rs_index s')..<Suc (rs_index s'')] else [])"
    using assms(2) unfolding extends_def by blast
  have "[Suc (rs_index s)..<Suc (rs_index s')] @ [Suc (rs_index s')..<Suc (rs_index s'')] =
      [Suc (rs_index s)..<Suc (rs_index s'')]"
    using es(4) es'(4) by (metis Suc_le_mono le_add_diff_inverse upt_add_eq_append)
  with es es' show ?thesis
    unfolding extends_def by (intro exI [of _ "es @ es'"]) simp
qed

lemma extends_zero: "extends r 0 s s' \<Longrightarrow> extends r k s' s'' \<Longrightarrow> extends r k s s''"
  using extends_trans by fastforce

lemma extends_zero2: "extends r k s s' \<Longrightarrow> extends r 0 s' s'' \<Longrightarrow> extends r k s s''"
  using extends_trans by fastforce

lemma extends_noted:
  "loop_effect e \<Longrightarrow> stream_index e = [] \<Longrightarrow> \<not> is_model_call e \<Longrightarrow> extends r 0 s (noted e s)"
  by (simp add: extends_def noted_def)

lemma extends_model_call: "answered ms \<Longrightarrow> extends r 1 s (noted (ModelCall ms) s)"
  by (simp add: extends_def noted_def)

lemma extends_emitStatus: "extends r 0 s (emitStatus r st s)"
  by (simp add: emitStatus_def extends_noted extends_same)

lemma extends_emitStreaming: "extends r 0 s (emitStreaming r d b f s)"
  by (simp add: extends_def emitStreaming_def Let_def noted_def)

lemma extends_emit_parts: "extends r 0 s (emit_parts r parts s)"
proof (induction parts arbitrary: s)
  case Nil
  show ?case by (simp add: emit_parts_def extends_same)
next
  case (Cons p parts)
  have "emit_parts r (p # parts) s = emit_parts r parts (emitStreaming r p False False s)"
    by (simp add: emit_parts_def)
  with extends_zero [OF extends_emitStreaming Cons] show ?case by simp
qed

lemma messages_emit [simp]:
  "rs_messages (emitStatus r st s) = rs_messages s"
  "rs_messages (emitStreaming r d b f s) = rs_messages s"
  "rs_messages (noted e s) = rs_messages s"
  "rs_messages (emit_parts r parts s) = rs_messages s"
proof -
  show *: "rs_messages (emitStreaming r d b f s) = rs_messages s" for d b f s
    by (simp add: emitStreaming_def Let_def noted_def)
  show "rs_messages (emit_parts r parts s) = rs_messages s"
    by (induction parts arbitrary: s) (simp_all add: emit_parts_def *)
qed (simp_all add: emitStatus_def noted_def)

section \<open>Tools\<close>

lemma extends_finish_mcp: "extends r 0 s (finish_mcp st n c s)"
  by (simp add: extends_def finish_mcp_def noted_def)

lemma extends_invokeMCPTool:
  "extends r 0 s (snd (invokeMCPTool e t args s)) \<and>
   rs_messages (snd (invokeMCPTool e t args s)) = rs_messages s"
  by (auto simp: invokeMCPTool_def Let_def extends_def finish_mcp_def noted_def
      split: sum.splits option.splits prod.splits if_splits)

lemma extends_invoke_tool:
  "extends r 0 s (snd (invoke_tool e mcp c s)) \<and>
   rs_messages (snd (invoke_tool e mcp c s)) = rs_messages s"
proof (cases "mcp (tc_name c)")
  case None
  then show ?thesis by (simp add: invoke_tool_def extends_def noted_def)
next
  case (Some t)
  then show ?thesis by (simp add: invoke_tool_def extends_invokeMCPTool)
qed

lemma extends_run_tools:
  "run_tools e mcp cs s = (res, s') \<Longrightarrow> extends r 0 s s'"
proof (induction cs arbitrary: s)
  case Nil
  then show ?case by (simp add: extends_same)
next
  case (Cons c cs)
  define s1 where "s1 = snd (invoke_tool e mcp c (s\<lparr>rs_calls := rs_calls s + 1\<rparr>))"
  have "extends r 0 s (s\<lparr>rs_calls := rs_calls s + 1\<rparr>)" by (simp add: extends_same)
  then have s1: "extends r 0 s s1"
    using extends_invoke_tool extends_zero unfolding s1_def by blast
  have "extends r 0 s1 (say m s1)" for m by (simp add: extends_same say_def)
  with s1 have said: "extends r 0 s (say m s1)" for m by (rule extends_zero)
  show ?case
    using Cons.prems s1 extends_zero [OF said Cons.IH]
    by (auto simp: Let_def s1_def split: prod.splits option.splits)
qed

lemma run_tools_answers:
  assumes "run_tools e mcp cs s = (None, s')" and "open_calls [] (rs_messages s) = Some (map tc_id cs)"
    and "list_all marked (rs_messages s)"
  shows "answered (rs_messages s')"
  using assms
proof (induction cs arbitrary: s)
  case Nil
  then show ?case by (simp add: answered_def)
next
  case (Cons c cs)
  define s1 where "s1 = snd (invoke_tool e mcp c (s\<lparr>rs_calls := rs_calls s + 1\<rparr>))"
  have "rs_messages s1 = rs_messages s" using extends_invoke_tool by (simp add: s1_def)
  then have said: "open_calls [] (rs_messages (say (ToolMsg (tc_id c) t) s1)) = Some (map tc_id cs)"
      "no_angle b \<Longrightarrow> list_all marked (rs_messages (say (ToolMsg (tc_id c) (tool_result b)) s1))" for t b
    using Cons.prems(2,3) by (auto simp: say_def open_calls_append)
  obtain out s2 where inv: "invoke_tool e mcp c (s\<lparr>rs_calls := rs_calls s + 1\<rparr>) = (out, s2)" by fastforce
  then have "s2 = s1" by (simp add: s1_def)
  with Cons.prems(1) inv obtain t where t:
      "safeJSON (case out of Inl x \<Rightarrow> Some (toolErrorResult x) | Inr v \<Rightarrow> v) = Some t"
      "run_tools e mcp cs (say (ToolMsg (tc_id c) (tool_result t)) s1) = (None, s')"
    by (auto simp: Let_def split: option.splits)
  show ?case by (rule Cons.IH [OF t(2) said(1) said(2) [OF safeJSON_no_angle [OF t(1)]]])
qed

section \<open>The loop\<close>

lemma extends_model_call_step:
  assumes "model_call e r s = (res, s')" and "answered (rs_messages s)"
  shows "extends r 1 s s' \<and> rs_messages s' = rs_messages s"
proof -
  define s0 where "s0 = emitStatus r Streams (emitStreaming r [] True False s)"
  define s1 where "s1 = noted (ModelCall (rs_messages s)) s0"
  have "extends r 0 s s0"
    unfolding s0_def by (rule extends_zero [OF extends_emitStreaming extends_emitStatus])
  then have s1: "extends r 1 s s1"
    unfolding s1_def by (rule extends_zero) (rule extends_model_call [OF assms(2)])
  have parts: "extends r 1 s (emit_parts r ps s1)" for ps
    by (rule extends_zero2 [OF s1 extends_emit_parts])
  have "extends r 1 s (emit_parts r ps s1\<lparr>rs_usage := u\<rparr>)" for ps u
    by (rule extends_zero2 [OF parts [of ps]]) (simp add: extends_same)
  with parts assms(1) show ?thesis
    by (auto simp: model_call_def Let_def s1_def s0_def split: prod.splits option.splits if_splits)
qed

lemma extends_provider_loop:
  assumes "provider_loop e r mcp n s = (res, s')" and "answered (rs_messages s)"
  shows "\<exists>k \<le> n. extends r k s s'"
  using assms
proof (induction n arbitrary: s)
  case 0
  then show ?case by (auto simp: extends_same)
next
  case (Suc n)
  obtain x s1 where s1: "model_call e r s = (x, s1)" by fastforce
  note mc = extends_model_call_step [OF s1 Suc.prems(2)]
  show ?case
  proof (cases "\<exists>g. x = Inr g \<and> fi_calls g \<noteq> [] \<and> n \<noteq> 0")
    case False
    with Suc.prems(1) s1 have "s' = s1" by (auto split: sum.splits if_splits)
    with mc show ?thesis by (intro exI [of _ 1]) auto
  next
    case True
    then obtain g where g: "x = Inr g" "fi_calls g \<noteq> []" "n \<noteq> 0" by blast
    define s2 where "s2 = say (AssistantMsg (fi_content g) (fi_calls g))
      (emitStatus r Tool (emitStreaming r [] True False s1))"
    have "extends r 0 (emitStatus r Tool (emitStreaming r [] True False s1)) s2"
      by (simp add: s2_def say_def extends_same)
    with extends_zero [OF extends_emitStreaming extends_emitStatus] have "extends r 0 s1 s2"
      by (rule extends_zero)
    with mc have s2: "extends r 1 s s2" using extends_zero2 by blast
    have open2: "open_calls [] (rs_messages s2) = Some (map tc_id (fi_calls g))"
        "list_all marked (rs_messages s2)"
      using mc Suc.prems(2) by (simp_all add: s2_def say_def open_calls_append answered_def)
    obtain y s3 where s3: "run_tools e mcp (fi_calls g) s2 = (y, s3)" by fastforce
    have e3: "extends r 1 s s3" by (rule extends_zero2 [OF s2 extends_run_tools [OF s3]])
    show ?thesis
    proof (cases y)
      case (Some c)
      with Suc.prems(1) s1 g s3 have "s' = s3" by (simp add: s2_def)
      with e3 show ?thesis by (intro exI [of _ 1]) auto
    next
      case None
      define s4 where "s4 = s3\<lparr>rs_iteration := rs_iteration s3 + 1\<rparr>"
      have "answered (rs_messages s4)"
        using run_tools_answers [OF s3 [unfolded None] open2] by (simp add: s4_def)
      moreover have "provider_loop e r mcp n s4 = (res, s')"
        using Suc.prems(1) s1 g s3 None by (simp add: s2_def s4_def)
      ultimately obtain k where k: "k \<le> n" "extends r k s4 s'" using Suc.IH by blast
      have "extends r 1 s s4" by (rule extends_zero2 [OF e3]) (simp add: s4_def extends_same)
      from extends_trans [OF this k(2)] k(1) show ?thesis by (intro exI [of _ "1 + k"]) simp
    qed
  qed
qed

lemma answered_context: "assembleContext e r a = Inr msgs \<Longrightarrow> answered msgs"
proof -
  have hist: "open_calls [] (map (history_entry a) ps @ [UserMsg t]) = Some []" for ps t
    by (induction ps) (auto simp: history_entry_def)
  have entry: "marked (history_entry a m)" for m
    by (auto simp: history_entry_def)
  assume "assembleContext e r a = Inr msgs"
  then obtain page t where "safeJSON (Some (rn_input r)) = Some t"
    and msgs: "msgs = SystemMsg (system_prompt a) #
      map (history_entry a) (js_slice_from page (- 50)) @ [UserMsg (run_input t)]"
    by (auto simp: assembleContext_def split: sum.splits option.splits)
  then have "marked (UserMsg (run_input t))" using safeJSON_no_angle by auto
  then show ?thesis
    using hist entry by (simp add: msgs answered_def list_all_iff del: marked.simps(2))
qed

definition call_limit :: "env \<Rightarrow> run \<Rightarrow> nat" where
  "call_limit e r =
     (case (case rn_dry_run r of Some a \<Rightarrow> Inr a | None \<Rightarrow> en_agent e) of
        Inl c \<Rightarrow> 0 | Inr a \<Rightarrow> nat (ag_max_tool_iterations a + 1))"

lemma extends_prepare_and_loop:
  assumes "prepare_and_loop e r s = (res, s')"
  shows "\<exists>k \<le> call_limit e r. extends r k s s'"
proof -
  have loop: "\<exists>k \<le> nat (ag_max_tool_iterations a + 1). extends r k s s'"
    if "runProviderLoop e r a mcp (s\<lparr>rs_messages := msgs\<rparr>) = (res, s')" "answered msgs" for a mcp msgs
  proof (cases "en_provider e")
    case None
    define s0 where "s0 = s\<lparr>rs_messages := msgs, rs_usage := initial_usage, rs_iteration := 0, rs_calls := 0\<rparr>"
    have "provider_loop e r mcp (nat (ag_max_tool_iterations a + 1)) s0 = (res, s')"
      using that(1) None by (simp add: runProviderLoop_def s0_def)
    from extends_provider_loop [OF this] that(2) obtain k
      where k: "k \<le> nat (ag_max_tool_iterations a + 1)" "extends r k s0 s'" by (auto simp: s0_def)
    have "extends r 0 s s0" by (simp add: s0_def extends_same)
    with k show ?thesis using extends_zero by blast
  next
    case (Some c)
    with that(1) show ?thesis by (auto simp: runProviderLoop_def extends_same)
  qed
  show ?thesis
    using assms loop
    by (auto simp: prepare_and_loop_def call_limit_def extends_same dest: answered_context
        split: sum.splits option.splits if_splits)
qed

section \<open>Outcomes\<close>

fun is_outcome :: "effect \<Rightarrow> bool" where
  "is_outcome (Complete u j) \<longleftrightarrow> True"
| "is_outcome (FailRun c) \<longleftrightarrow> True"
| "is_outcome _ \<longleftrightarrow> False"

definition outcomes :: "effect list \<Rightarrow> effect list" where
  "outcomes es = filter is_outcome es"

definition final_log :: "env \<Rightarrow> run \<Rightarrow> effect list" where
  "final_log e r = rs_log (snd (execute e r))"

definition frames_ok :: "run \<Rightarrow> run_state_rec \<Rightarrow> bool" where
  "frames_ok r s \<longleftrightarrow> indices (rs_log s) = (if in_chat r then [1..<Suc (rs_index s)] else [])"

definition conversations :: "effect list \<Rightarrow> chat_message list list" where
  "conversations es = concat (map (\<lambda>x. case x of ModelCall ms \<Rightarrow> [ms] | _ \<Rightarrow> []) es)"

lemma conversations_simps [simp]:
  "conversations [] = []" "conversations (es @ es') = conversations es @ conversations es'"
  "conversations (x # es) = (case x of ModelCall ms \<Rightarrow> [ms] | _ \<Rightarrow> []) @ conversations es"
  by (simp_all add: conversations_def)

lemma outcomes_simps [simp]:
  "outcomes [] = []" "outcomes (es @ es') = outcomes es @ outcomes es'"
  "outcomes (x # es) = (if is_outcome x then [x] else []) @ outcomes es"
  by (simp_all add: outcomes_def)

lemma loop_effects_quiet: "list_all loop_effect es \<Longrightarrow> outcomes es = []"
proof (induction es)
  case (Cons x es)
  then show ?case by (cases x) auto
qed simp

lemma loop_effects_answered: "list_all loop_effect es \<Longrightarrow> list_all answered (conversations es)"
proof (induction es)
  case (Cons x es)
  then show ?case by (cases x) auto
qed simp

lemma model_calls_conversations: "model_calls es = length (conversations es)"
proof (induction es)
  case (Cons x es)
  then show ?case by (cases x) auto
qed simp

text \<open>What the log is like at any point of a run.\<close>

definition log_ok :: "nat \<Rightarrow> run \<Rightarrow> run_state_rec \<Rightarrow> bool" where
  "log_ok k r s \<longleftrightarrow> frames_ok r s \<and> list_all answered (conversations (rs_log s)) \<and>
     model_calls (rs_log s) \<le> k"

lemma log_ok_extends:
  assumes "extends r j initial s" and "j \<le> k"
  shows "log_ok k r s \<and> outcomes (rs_log s) = []"
  using assms loop_effects_quiet loop_effects_answered
  by (auto simp: extends_def log_ok_def frames_ok_def initial_def)

lemma log_ok_noted:
  "log_ok k r s \<Longrightarrow> stream_index x = [] \<Longrightarrow> \<not> is_model_call x \<Longrightarrow> log_ok k r (noted x s)"
  by (cases x) (auto simp: log_ok_def frames_ok_def noted_def)

lemma log_ok_emit:
  "log_ok k r s \<Longrightarrow> log_ok k r (emitStatus r st s)"
  "log_ok k r s \<Longrightarrow> log_ok k r (emitStreaming r d b f s)"
  by (auto simp: emitStatus_def log_ok_noted) (auto simp: log_ok_def frames_ok_def emitStreaming_def
      Let_def noted_def)

lemma outcomes_emit [simp]:
  "outcomes (rs_log (emitStatus r st s)) = outcomes (rs_log s)"
  "outcomes (rs_log (emitStreaming r d b f s)) = outcomes (rs_log s)"
  "outcomes (rs_log (noted x s)) = outcomes (rs_log s) @ (if is_outcome x then [x] else [])"
  by (simp_all add: emitStatus_def emitStreaming_def Let_def noted_def)

lemma report_failure_ok:
  assumes "report_failure e r c s = (x, s')" and "log_ok k r s"
  shows "log_ok k r s' \<and> (\<exists>code. outcomes (rs_log s') = outcomes (rs_log s) @ [FailRun code])"
  using assms by (auto simp: report_failure_def Let_def intro!: log_ok_noted log_ok_emit)

lemma publish_and_complete_ok:
  assumes "publish_and_complete e r res s = (x, s')" and "log_ok k r s" and "outcomes (rs_log s) = []"
  shows "log_ok k r s' \<and> (x \<noteq> None \<and> outcomes (rs_log s') = [] \<or>
    (\<exists>u j. outcomes (rs_log s') = [Complete u j] \<and> x = en_complete e))"
  using assms
  by (auto simp: publish_and_complete_def Let_def split: if_splits sum.splits prod.splits
      intro!: log_ok_noted log_ok_emit)

definition outcome_ok :: "env \<Rightarrow> effect list \<Rightarrow> bool" where
  "outcome_ok e os \<longleftrightarrow>
     (case os of
        [Complete u j] \<Rightarrow> en_complete e = None
      | [FailRun c] \<Rightarrow> True
      | [Complete u j, FailRun c] \<Rightarrow> en_complete e \<noteq> None
      | _ \<Rightarrow> False)"

lemma execute_ok:
  "log_ok (call_limit e r) r (snd (execute e r)) \<and> outcome_ok e (outcomes (final_log e r))"
proof -
  obtain x s where p: "prepare_and_loop e r (emitStatus r Thinking initial) = (x, s)" by fastforce
  obtain k where k: "k \<le> call_limit e r" "extends r k (emitStatus r Thinking initial) s"
    using extends_prepare_and_loop [OF p] by blast
  have s: "log_ok (call_limit e r) r s" "outcomes (rs_log s) = []"
    using log_ok_extends [OF extends_zero [OF extends_emitStatus k(2)] k(1)] by auto
  show ?thesis
  proof (cases x)
    case (Inl c)
    obtain y s' where f: "report_failure e r c s = (y, s')" by fastforce
    from report_failure_ok [OF f s(1)] p Inl f s(2) show ?thesis
      by (auto simp: execute_def final_log_def outcome_ok_def)
  next
    case (Inr res)
    obtain y s1 where c: "publish_and_complete e r res s = (y, s1)" by fastforce
    note c_ok = publish_and_complete_ok [OF c s]
    show ?thesis
    proof (cases y)
      case None
      with c_ok p Inr c show ?thesis by (auto simp: execute_def final_log_def outcome_ok_def)
    next
      case (Some d)
      obtain z s2 where f: "report_failure e r d s1 = (z, s2)" by fastforce
      have "en_complete e = None \<Longrightarrow> outcomes (rs_log s1) = []" using c_ok Some by auto
      with report_failure_ok [OF f conjunct1 [OF c_ok]] c_ok p Inr c f Some show ?thesis
        by (cases "en_complete e") (auto simp: execute_def final_log_def outcome_ok_def)
    qed
  qed
qed

text \<open>C11: Every run, however its model, tools and API calls behave, reports one outcome: it completes
  when the completion call succeeds, and otherwise ends with one failure report carrying an error
  code; only a failing completion call leads from a completion to a failure report.\<close>

theorem run_reports_one_outcome:
  "case outcomes (final_log e r) of
     [Complete u j] \<Rightarrow> en_complete e = None
   | [FailRun c] \<Rightarrow> True
   | [Complete u j, FailRun c] \<Rightarrow> \<exists>x. en_complete e = Some x
   | _ \<Rightarrow> False"
  using conjunct2 [OF execute_ok [of e r]]
  unfolding outcome_ok_def by (auto split: list.splits effect.splits)


text \<open>The stream frames of a run in a chat are numbered 1, 2, 3, \<dots> without gap or repetition,
  across model calls, resets and the final frame; a run outside a chat sends none.\<close>

theorem stream_frames_numbered:
  "indices (final_log e r) = (if in_chat r then [1..<Suc (rs_index (snd (execute e r)))] else [])"
  using conjunct1 [OF execute_ok [of e r]] by (simp add: log_ok_def frames_ok_def final_log_def)

section \<open>Escaping\<close>

text \<open>Reading the three entities back.\<close>

fun unescape :: "jstring \<Rightarrow> jstring" where
  "unescape [] = []"
| "unescape (c # cs) =
     (if take 5 (c # cs) = js ''&amp;'' then ch CHR ''&'' # unescape (drop 4 cs)
      else if take 4 (c # cs) = js ''&lt;'' then ch CHR ''<'' # unescape (drop 3 cs)
      else if take 4 (c # cs) = js ''&gt;'' then ch CHR ''>'' # unescape (drop 3 cs)
      else c # unescape cs)"

text \<open>Escaped content has no angle bracket, so it cannot open or close markup, and escaping loses
  nothing: the content can be read back.\<close>

theorem escape_is_safe_and_lossless:
  "no_angle (escapeUntrustedContent t) \<and> unescape (escapeUntrustedContent t) = t"
proof -
  have "unescape (escape_unit c @ s) = c # unescape s" for c s
    by (auto simp: escape_unit_def)
  then have "unescape (concat (map escape_unit t)) = t" by (induction t) simp_all
  then show ?thesis by (simp add: escape_no_angle) (simp add: escapeUntrustedContent_def)
qed

section \<open>Limits\<close>

text \<open>Whatever options are configured, the runtime runs 1 to 32 workers, polls at most twice a
  second, leases runs for 30 to 300 seconds, and renews a lease every third of its duration, so
  that two renewals fit in it.\<close>

theorem runtime_limits:
  "1 \<le> concurrency o' \<and> concurrency o' \<le> 32 \<and> 500 \<le> pollIntervalMS o' \<and>
   30 \<le> leaseSeconds o' \<and> leaseSeconds o' \<le> 300 \<and>
   heartbeat_thirds o' = leaseSeconds o' * 1000"
  by (simp add: concurrency_def pollIntervalMS_def leaseSeconds_def heartbeat_thirds_def)

section \<open>A tool without a result\<close>

text \<open>A core tool that answers with an empty response ends the whole run: undefined has no JSON
  text, and the error this raises is outside the handler that turns tool errors into results.\<close>

lemma tool_without_result_fails_the_run:
  assumes "mcp (tc_name c) = None" and "en_tool e (rs_core_calls s) = Inr None"
  shows "fst (run_tools e mcp (c # cs) s) = Some OtherFailure \<and>
    stableErrorCode OtherFailure None = js ''runtime_error''"
  using assms by (simp add: invoke_tool_def Let_def safeJSON_def)

end
