(* ===== verification/Sse.thy ===== *)
theory Sse
  imports Json
begin

text \<open>
  Server-sent events, as the model providers (\<open>readProviderSSE\<close> in \<open>apps/agent-runtime/src/providers.ts\<close>)
  and the MCP client (\<open>parseEventStream\<close> in \<open>apps/agent-runtime/src/mcp.ts\<close>) read them: the bytes of the
  network go through a \<open>TextDecoder\<close>, the text is cut at blank lines, and the \<open>data:\<close> lines of each
  event are joined.

  The lemmas show that decoding inverts \<open>TextEncoder\<close> and that reading depends only on the bytes, not on
  how the network cuts them into chunks.
\<close>

section \<open>TextDecoder\<close>

text \<open>The UTF-8 decoder of the Encoding standard with its byte order mark: a malformed sequence becomes
  U+FFFD, and U+FEFF is dropped where it comes first.\<close>

record decoder =
  de_point :: nat
  de_needed :: nat
  de_lower :: nat
  de_upper :: nat
  de_started :: bool

definition idle :: "bool \<Rightarrow> decoder" where
  "idle started = \<lparr>de_point = 0, de_needed = 0, de_lower = 0x80, de_upper = 0xBF, de_started = started\<rparr>"

definition emit_point :: "nat \<Rightarrow> decoder \<Rightarrow> jstring \<times> decoder" where
  "emit_point n d = (if n = 0xFEFF \<and> \<not> de_started d then [] else units_of n, idle True)"

definition lead_byte :: "nat \<Rightarrow> decoder \<Rightarrow> jstring \<times> decoder" where
  "lead_byte b d =
     (if b < 0x80 then emit_point b d
      else if 0xC2 \<le> b \<and> b \<le> 0xDF then ([], d\<lparr>de_needed := 1, de_point := b - 0xC0\<rparr>)
      else if 0xE0 \<le> b \<and> b \<le> 0xEF
      then ([], d\<lparr>de_needed := 2, de_point := b - 0xE0, de_lower := (if b = 0xE0 then 0xA0 else 0x80),
                  de_upper := (if b = 0xED then 0x9F else 0xBF)\<rparr>)
      else if 0xF0 \<le> b \<and> b \<le> 0xF4
      then ([], d\<lparr>de_needed := 3, de_point := b - 0xF0, de_lower := (if b = 0xF0 then 0x90 else 0x80),
                  de_upper := (if b = 0xF4 then 0x8F else 0xBF)\<rparr>)
      else emit_point 0xFFFD d)"

definition decode_byte :: "nat \<Rightarrow> decoder \<Rightarrow> jstring \<times> decoder" where
  "decode_byte b d =
     (if de_needed d = 0 then lead_byte b d
      else if de_lower d \<le> b \<and> b \<le> de_upper d
      then (if de_needed d = 1 then emit_point (de_point d * 64 + (b - 0x80)) d
            else ([], d\<lparr>de_point := de_point d * 64 + (b - 0x80), de_needed := de_needed d - 1,
                        de_lower := 0x80, de_upper := 0xBF\<rparr>))
      else (let (t, d1) = emit_point 0xFFFD d; (u, d2) = lead_byte b d1 in (t @ u, d2)))"

fun decode :: "nat list \<Rightarrow> decoder \<Rightarrow> jstring \<times> decoder" where
  "decode [] d = ([], d)"
| "decode (b # bs) d =
     (let (t, d1) = decode_byte b d; (u, d2) = decode bs d1 in (t @ u, d2))"

text \<open>\<open>new TextDecoder().decode(bytes)\<close>, which ends a sequence left open with U+FFFD.\<close>

definition decode_all :: "nat list \<Rightarrow> jstring" where
  "decode_all bs =
     (let (t, d) = decode bs (idle False) in if de_needed d = 0 then t else t @ fst (emit_point 0xFFFD d))"

lemma decode_append:
  "decode (bs @ cs) d = (let (t, d1) = decode bs d; (u, d2) = decode cs d1 in (t @ u, d2))"
  by (induction bs arbitrary: d) (auto simp: Let_def split: prod.splits)

lemmas decode_step = decode_byte_def lead_byte_def emit_point_def idle_def

lemma decode_point:
  assumes "n < 0x110000" and "\<not> is_surrogate n" and "n \<noteq> 0xFEFF \<or> started"
  shows "decode (utf8 n) (idle started) = (units_of n, idle True)"
proof -
  consider "n < 0x80" | "0x80 \<le> n" "n < 0x800" | "0x800 \<le> n" "n < 0x10000" | "0x10000 \<le> n"
    by linarith
  then show ?thesis
  proof cases
    case 1
    then show ?thesis using assms(3) by (simp add: utf8_def decode_step)
  next
    case 2
    define a b where "a = n div 64" and "b = n mod 64"
    have ab: "n = a * 64 + b" "b < 64" by (simp_all add: a_def b_def)
    with 2 have "2 \<le> a" "a < 32" by linarith+
    then show ?thesis using 2 ab
      by (simp add: utf8_def decode_step a_def [symmetric] b_def [symmetric])
  next
    case 3
    define a b c where "a = n div 4096" and "b = n div 64 mod 64" and "c = n mod 64"
    have abc: "n = (a * 64 + b) * 64 + c" "b < 64" "c < 64"
      unfolding a_def b_def c_def by (simp_all add: div_mult2_eq [of n 64 64, simplified])
    have n: "n = 4096 * a + 64 * b + c" by (subst abc(1)) simp
    from n 3 have "a < 16" by linarith
    moreover have "a = 0 \<longrightarrow> 32 \<le> b" using n abc(2,3) 3 by auto
    moreover have "a = 13 \<longrightarrow> b < 32"
      using assms(2) n abc(2,3) by (auto simp: is_surrogate_def)
    moreover have "utf8 n = [0xE0 + a, 0x80 + b, 0x80 + c]"
      using 3 by (simp add: utf8_def a_def b_def c_def)
    ultimately have "decode (utf8 n) (idle started) = emit_point ((a * 64 + b) * 64 + c) (idle started)"
      using abc(2,3) by (auto simp: decode_byte_def lead_byte_def emit_point_def idle_def)
    then show ?thesis using assms(3) by (simp only: abc(1) [symmetric]) (auto simp: emit_point_def idle_def)
  next
    case 4
    define a b c e where "a = n div 262144" and "b = n div 4096 mod 64" and "c = n div 64 mod 64"
      and "e = n mod 64"
    have abce: "n = ((a * 64 + b) * 64 + c) * 64 + e" "b < 64" "c < 64" "e < 64"
      unfolding a_def b_def c_def e_def
      by (simp_all add: div_mult2_eq [of n 64 64, simplified] div_mult2_eq [of n 4096 64, simplified])
    have n: "n = 262144 * a + 4096 * b + 64 * c + e" by (subst abce(1)) simp
    from n 4 assms(1) have "a \<le> 4" by linarith
    moreover have "a = 0 \<longrightarrow> 16 \<le> b" "a = 4 \<longrightarrow> b < 16" using n abce(2-4) 4 assms(1) by auto
    moreover have "utf8 n = [0xF0 + a, 0x80 + b, 0x80 + c, 0x80 + e]"
      using 4 by (simp add: utf8_def a_def b_def c_def e_def)
    ultimately have "decode (utf8 n) (idle started) =
        emit_point (((a * 64 + b) * 64 + c) * 64 + e) (idle started)"
      using abce(2-4) by (auto simp: decode_byte_def lead_byte_def emit_point_def idle_def)
    then show ?thesis using 4 by (simp only: abce(1) [symmetric]) (auto simp: emit_point_def idle_def)
  qed
qed

lemma decode_points:
  "list_all (\<lambda>n. n < 0x110000 \<and> \<not> is_surrogate n) ns \<Longrightarrow>
     decode (concat (map utf8 ns)) (idle True) = (concat (map units_of ns), idle True)"
  by (induction ns) (simp_all add: decode_append decode_point)

lemma decode_text_encode:
  assumes "well_formed s" and "s = [] \<or> hd (code_points s) \<noteq> 0xFEFF"
  shows "fst (decode (text_encode s) (idle False)) = s" and "decode_all (text_encode s) = s"
proof -
  have enc: "text_encode s = concat (map utf8 (code_points s))"
    using assms(1) unfolding text_encode_def well_formed_def
    by (intro arg_cong [where f = concat] map_cong) (auto simp: list_all_iff)
  have ok: "list_all (\<lambda>n. n < 0x110000 \<and> \<not> is_surrogate n) (code_points s)"
    using assms(1) code_points_less by (auto simp: well_formed_def list_all_iff)
  have "\<exists>d. decode (text_encode s) (idle False) = (s, d) \<and> de_needed d = 0"
  proof (cases "code_points s")
    case Nil
    then have "s = []" using units_code_points [of s] by simp
    then show ?thesis by (simp add: text_encode_def idle_def)
  next
    case (Cons n ns)
    then have "s \<noteq> []" by auto
    then have "decode (text_encode s) (idle False) = (concat (map units_of (code_points s)), idle True)"
      using assms(2) ok Cons decode_points [of ns]
      by (simp add: enc decode_append decode_point)
    then show ?thesis by (simp add: units_code_points idle_def)
  qed
  then show "fst (decode (text_encode s) (idle False)) = s" "decode_all (text_encode s) = s"
    by (auto simp: decode_all_def)
qed

section \<open>Cutting at matches\<close>

text \<open>\<open>split\<close> with a regular expression that does not match the empty string: \<open>m s\<close> is the length of its
  match at the front of \<open>s\<close>, or 0.\<close>

fun cons_first :: "'c \<Rightarrow> 'c list list \<Rightarrow> 'c list list" where
  "cons_first c [] = [[c]]"
| "cons_first c (p # ps) = (c # p) # ps"

function split_match :: "('c list \<Rightarrow> nat) \<Rightarrow> 'c list \<Rightarrow> 'c list list" where
  "split_match m [] = [[]]"
| "split_match m (c # cs) =
     (if m (c # cs) = 0 then cons_first c (split_match m cs)
      else [] # split_match m (drop (m (c # cs) - 1) cs))"
  by pat_completeness auto

termination
  by (relation "measure (\<lambda>(m, s). length s)") (auto simp: less_Suc_eq_le)

text \<open>\<open>/\r?\n\r?\n/\<close> and \<open>/\r?\n/\<close>.\<close>

definition blank_line :: "jstring \<Rightarrow> nat" where
  "blank_line s =
     (if take 4 s = [13, 10, 13, 10] then 4
      else if take 3 s = [13, 10, 10] \<or> take 3 s = [10, 13, 10] then 3
      else if take 2 s = [10, 10] then 2 else 0)"

definition line_break :: "jstring \<Rightarrow> nat" where
  "line_break s = (if take 2 s = [13, 10] then 2 else if take 1 s = [10] then 1 else 0)"

definition split_events :: "jstring \<Rightarrow> jstring list" where
  "split_events s = split_match blank_line s"

text \<open>The data of an event: its \<open>data:\<close> lines without the prefix.\<close>

definition event_data :: "jstring \<Rightarrow> jstring" where
  "event_data event =
     join_with [10] (map (\<lambda>line. js_trim_start (js_slice_from line 5))
       (filter (starts_with (js ''data:'')) (split_match line_break event)))"

lemma split_match_nonempty [simp]: "split_match m s \<noteq> []"
  by (induction m s rule: split_match.induct) (auto simp: neq_Nil_conv)

lemma cons_first_append: "xs \<noteq> [] \<Longrightarrow> cons_first c (xs @ ys) = cons_first c xs @ ys"
  by (cases xs) auto

lemma split_match_single: "split_match m s = [p] \<Longrightarrow> p = s"
proof (induction m s arbitrary: p rule: split_match.induct)
  case (2 m c cs)
  then show ?case by (cases "split_match m cs") (auto split: if_splits)
qed simp

lemma blank_line_le: "blank_line s \<le> length s"
proof -
  have "take n s = xs \<Longrightarrow> length xs = n \<Longrightarrow> n \<le> length s" for n xs by auto
  from this [of 4 "[13, 10, 13, 10]"] this [of 3 "[13, 10, 10]"] this [of 3 "[10, 13, 10]"]
    this [of 2 "[10, 10]"]
  show ?thesis by (auto simp: blank_line_def)
qed

text \<open>A match inside \<open>s\<close> does not depend on what follows; a match that reaches beyond \<open>s\<close> leaves no
  match inside \<open>s\<close>.\<close>

lemma take_append_eq: "take n s = xs \<Longrightarrow> length xs = n \<Longrightarrow> take n (s @ t) = xs"
  by auto

lemma short_cases:
  obtains "s = []" | a where "s = [a]" | a b where "s = [a, b]" | a b c where "s = [a, b, c]"
  | "4 \<le> length s"
proof (cases s)
  case (Cons a s1)
  show ?thesis
  proof (cases s1)
    case (Cons b s2)
    show ?thesis
    proof (cases s2)
      case (Cons c s3)
      show ?thesis by (cases s3) (use that Cons \<open>s = a # s1\<close> \<open>s1 = b # s2\<close> in auto)
    qed (use that Cons \<open>s = a # s1\<close> in auto)
  qed (use that Cons in auto)
qed (use that in auto)

lemma blank_line_inside: "blank_line s \<noteq> 0 \<Longrightarrow> blank_line (s @ t) = blank_line s"
  by (cases s rule: short_cases) (auto simp: blank_line_def split: if_splits)

lemma blank_line_beyond:
  assumes "blank_line s = 0" and "blank_line (s @ t) \<noteq> 0"
  shows "s \<in> {[], [13], [13, 10], [13, 10, 13], [10], [10, 13]}"
  using assms by (cases s rule: short_cases) (auto simp: blank_line_def split: if_splits)

lemma split_events_beyond:
  assumes "blank_line s = 0" and "blank_line (s @ t) \<noteq> 0"
  shows "split_events s = [s]"
  using blank_line_beyond [OF assms] by (auto simp: split_events_def blank_line_def)

lemma split_events_append:
  "split_events (s @ t) = butlast (split_events s) @ split_events (last (split_events s) @ t)"
proof (induction s rule: length_induct)
  case (1 s)
  show ?case
  proof (cases s)
    case Nil
    then show ?thesis by (simp add: split_events_def)
  next
    case (Cons c cs)
    let ?n = "blank_line s"
    consider "?n \<noteq> 0" | "?n = 0" "blank_line (s @ t) \<noteq> 0" | "?n = 0" "blank_line (s @ t) = 0" by blast
    then show ?thesis
    proof cases
      case 1
      have "?n - 1 \<le> length cs" using blank_line_le [of s] Cons by simp
      moreover have "split_events (s @ t) = [] # split_events (drop (?n - 1) (cs @ t))"
        using 1 blank_line_inside [OF 1, of t] Cons by (simp add: split_events_def)
      moreover have "split_events s = [] # split_events (drop (?n - 1) cs)"
        using 1 Cons by (simp add: split_events_def)
      moreover have "split_events (drop (?n - 1) cs @ t) =
          butlast (split_events (drop (?n - 1) cs)) @
            split_events (last (split_events (drop (?n - 1) cs)) @ t)"
        using "1.IH" Cons by simp
      ultimately show ?thesis by (simp add: split_events_def)
    next
      case 2
      then show ?thesis using split_events_beyond by simp
    next
      case 3
      have s: "split_events s = cons_first c (split_events cs)"
        "split_events (s @ t) = cons_first c (split_events (cs @ t))"
        using 3 Cons by (simp_all add: split_events_def)
      have cs: "split_events (cs @ t) =
          butlast (split_events cs) @ split_events (last (split_events cs) @ t)"
        using "1.IH" Cons by simp
      obtain p ps where ps: "split_events cs = p # ps"
        by (cases "split_events cs") (auto simp: split_events_def)
      show ?thesis
      proof (cases ps)
        case Nil
        then have "split_events s = [s]"
          using s ps Cons \<open>s = c # cs\<close> split_match_single [of blank_line cs p] by (simp add: split_events_def)
        then show ?thesis by simp
      next
        case (Cons q qs)
        then show ?thesis using s cs ps by simp
      qed
    qed
  qed
qed

lemma split_events_last: "split_events (last (split_events s)) = [last (split_events s)]"
proof -
  have "split_events s \<noteq> []" by (simp add: split_events_def)
  then have "butlast (split_events s) @ split_events (last (split_events s)) =
      butlast (split_events s) @ [last (split_events s)]"
    using split_events_append [of s "[]"] by simp
  then show ?thesis by simp
qed

lemma split_events_Nil [simp]: "split_events [] = [[]]"
  by (simp add: split_events_def)

end
