(* ===== verification/Providers.thy ===== *)
theory Providers
  imports Sse Runtime
begin

text \<open>
  The model providers, \<open>apps/agent-runtime/src/providers.ts\<close>: the requests to OpenAI and Anthropic, the
  reader of their event streams, and the accumulation of streamed text, usage and tool calls into one
  answer. \<open>openai_stream\<close> and \<open>anthropic_stream\<close> give what the generators yield and how they end, in
  the form the runtime consumes (\<open>en_model\<close> of \<open>Runtime\<close>).

  The network is the argument: \<open>fetched\<close> is a rejected fetch or a response, with its body as the byte
  chunks that \<open>reader.read()\<close> delivers. \<open>JSON.parse\<close> is the argument \<open>p\<close>, \<open>None\<close> where it throws; the
  lemmas hold for every such function.

  The lemmas show that the answer is the text streamed before it, that tool calls are the joined
  fragments of each index in the order of the indices, and that chunk borders do not matter.
\<close>

type_synonym parse = "jstring \<Rightarrow> json option"

section \<open>Reading untrusted JSON\<close>

fun objectValue :: "json option \<Rightarrow> json" where
  "objectValue (Some (JObj kvs)) = JObj kvs"
| "objectValue _ = JObj []"

fun objectArray :: "json option \<Rightarrow> json list" where
  "objectArray (Some (JArr vs)) = map (\<lambda>v. objectValue (Some v)) vs"
| "objectArray _ = []"

fun stringValue :: "json option \<Rightarrow> jstring" where
  "stringValue (Some (JStr s)) = s"
| "stringValue _ = []"

fun numberValue :: "json option \<Rightarrow> int" where
  "numberValue (Some (JNum n)) = n"
| "numberValue _ = 0"

fun json_truthy :: "json option \<Rightarrow> bool" where
  "json_truthy None = False"
| "json_truthy (Some JNull) = False"
| "json_truthy (Some (JBool b)) = b"
| "json_truthy (Some (JNum n)) = (n \<noteq> 0)"
| "json_truthy (Some (JStr s)) = (s \<noteq> [])"
| "json_truthy (Some (JArr vs)) = True"
| "json_truthy (Some (JObj kvs)) = True"

text \<open>\<open>a || b\<close> on strings.\<close>

definition or_else :: "jstring \<Rightarrow> jstring \<Rightarrow> jstring" where
  "or_else a b = (if a = [] then b else a)"

section \<open>Requests\<close>

record chat_record =
  cr_role :: jstring
  cr_content :: jstring
  cr_tool_call_id :: "jstring option"
  cr_tool_calls :: "tool_call list option"

record provider_tool =
  pt_name :: jstring
  pt_description :: jstring
  pt_schema :: json

record provider_request =
  pr_model :: jstring
  pr_messages :: "chat_record list"
  pr_tools :: "provider_tool list"
  pr_max_output_tokens :: int

record http_request =
  ht_url :: jstring
  ht_headers :: "(jstring \<times> jstring) list"
  ht_body :: jstring

text \<open>The messages as the runtime builds them.\<close>

fun chat_record_of :: "chat_message \<Rightarrow> chat_record" where
  "chat_record_of (SystemMsg t) =
     \<lparr>cr_role = js ''system'', cr_content = t, cr_tool_call_id = None, cr_tool_calls = None\<rparr>"
| "chat_record_of (UserMsg t) =
     \<lparr>cr_role = js ''user'', cr_content = t, cr_tool_call_id = None, cr_tool_calls = None\<rparr>"
| "chat_record_of (AssistantMsg t cs) =
     \<lparr>cr_role = js ''assistant'', cr_content = t, cr_tool_call_id = None,
      cr_tool_calls = (if cs = [] then None else Some cs)\<rparr>"
| "chat_record_of (ToolMsg i t) =
     \<lparr>cr_role = js ''tool'', cr_content = t, cr_tool_call_id = Some i, cr_tool_calls = None\<rparr>"

text \<open>An undefined member is left out by \<open>JSON.stringify\<close>.\<close>

definition defined :: "jstring \<Rightarrow> json option \<Rightarrow> (jstring \<times> json) list" where
  "defined k v = (case v of None \<Rightarrow> [] | Some x \<Rightarrow> [(k, x)])"

definition trim_slash :: "jstring \<Rightarrow> jstring" where
  "trim_slash url = (if ends_with (js ''/'') url then butlast url else url)"

definition openAIToolCall :: "tool_call \<Rightarrow> json" where
  "openAIToolCall c =
     JObj [(js ''id'', JStr (tc_id c)), (js ''type'', JStr (js ''function'')),
           (js ''function'', JObj [(js ''name'', JStr (tc_name c)),
                                   (js ''arguments'', JStr (stringify (tc_arguments c)))])]"

definition openAIMessage :: "chat_record \<Rightarrow> json" where
  "openAIMessage m =
     (if cr_role m = js ''tool''
      then JObj ((js ''role'', JStr (js ''tool'')) #
                 defined (js ''tool_call_id'') (map_option JStr (cr_tool_call_id m)) @
                 [(js ''content'', JStr (cr_content m))])
      else JObj ([(js ''role'', JStr (cr_role m)),
                  (js ''content'', if cr_content m = [] then JNull else JStr (cr_content m))] @
                 defined (js ''tool_calls'')
                   (map_option (\<lambda>cs. JArr (map openAIToolCall cs)) (cr_tool_calls m))))"

definition anthropicMessage :: "chat_record \<Rightarrow> json" where
  "anthropicMessage m =
     (if cr_role m = js ''tool''
      then JObj [(js ''role'', JStr (js ''user'')),
                 (js ''content'', JArr [JObj ((js ''type'', JStr (js ''tool_result'')) #
                    defined (js ''tool_use_id'') (map_option JStr (cr_tool_call_id m)) @
                    [(js ''content'', JStr (cr_content m))])])]
      else JObj [(js ''role'', JStr (cr_role m)),
                 (js ''content'', JArr (
                    (if cr_content m = [] then []
                     else [JObj [(js ''type'', JStr (js ''text'')), (js ''text'', JStr (cr_content m))]]) @
                    map (\<lambda>c. JObj [(js ''type'', JStr (js ''tool_use'')), (js ''id'', JStr (tc_id c)),
                                   (js ''name'', JStr (tc_name c)), (js ''input'', tc_arguments c)])
                      (default_to [] (cr_tool_calls m))))])"

definition anthropicMessages :: "chat_record list \<Rightarrow> json list" where
  "anthropicMessages messages = map anthropicMessage messages"

text \<open>\<open>/^(?:gpt-5|o[1-9](?:-|$))/\<close>.\<close>

definition completion_token_model :: "jstring \<Rightarrow> bool" where
  "completion_token_model m \<longleftrightarrow> starts_with (js ''gpt-5'') m \<or>
     (case m of o1 # d # rest \<Rightarrow> o1 = ch CHR ''o'' \<and> 49 \<le> d \<and> d \<le> 57 \<and> (rest = [] \<or> hd rest = ch CHR ''-'')
              | _ \<Rightarrow> False)"

definition openAITokenLimit :: "jstring \<Rightarrow> jstring \<Rightarrow> int \<Rightarrow> jstring \<times> json" where
  "openAITokenLimit provider model value =
     (if provider \<noteq> js ''openai'' then (js ''max_tokens'', JNum value)
      else if completion_token_model (to_lower (js_trim model))
      then (js ''max_completion_tokens'', JNum value)
      else (js ''max_tokens'', JNum value))"

definition openai_request :: "jstring \<Rightarrow> jstring \<Rightarrow> jstring \<Rightarrow> provider_request \<Rightarrow> http_request" where
  "openai_request api_key base_url name r =
     \<lparr>ht_url = trim_slash base_url @ js ''/chat/completions'',
      ht_headers = [(js ''Authorization'', js ''Bearer '' @ api_key),
                    (js ''Content-Type'', js ''application/json'')],
      ht_body = stringify (JObj (
        [(js ''model'', JStr (pr_model r)),
         (js ''messages'', JArr (map openAIMessage (pr_messages r))),
         (js ''tools'', JArr (map (\<lambda>t. JObj [(js ''type'', JStr (js ''function'')),
            (js ''function'', JObj [(js ''name'', JStr (pt_name t)),
               (js ''description'', JStr (pt_description t)), (js ''parameters'', pt_schema t)])])
            (pr_tools r)))] @
        defined (js ''tool_choice'') (if pr_tools r = [] then None else Some (JStr (js ''auto''))) @
        [openAITokenLimit name (pr_model r) (pr_max_output_tokens r),
         (js ''stream'', JBool True),
         (js ''stream_options'', JObj [(js ''include_usage'', JBool True)])]))\<rparr>"

definition anthropic_request :: "jstring \<Rightarrow> jstring \<Rightarrow> provider_request \<Rightarrow> http_request" where
  "anthropic_request api_key base_url r =
     \<lparr>ht_url = trim_slash base_url @ js ''/messages'',
      ht_headers = [(js ''x-api-key'', api_key), (js ''anthropic-version'', js ''2023-06-01''),
                    (js ''Content-Type'', js ''application/json'')],
      ht_body = stringify (JObj
        [(js ''model'', JStr (pr_model r)),
         (js ''system'', JStr (join_with [10, 10]
            (map cr_content (filter (\<lambda>m. cr_role m = js ''system'') (pr_messages r))))),
         (js ''messages'', JArr (anthropicMessages
            (filter (\<lambda>m. cr_role m \<noteq> js ''system'') (pr_messages r)))),
         (js ''tools'', JArr (map (\<lambda>t. JObj [(js ''name'', JStr (pt_name t)),
            (js ''description'', JStr (pt_description t)), (js ''input_schema'', pt_schema t)])
            (pr_tools r))),
         (js ''max_tokens'', JNum (pr_max_output_tokens r)),
         (js ''stream'', JBool True)])\<rparr>"

section \<open>Responses\<close>

text \<open>\<open>re_text\<close> is what \<open>text()\<close> gives, \<open>re_chunks\<close> what the reader delivers before the body ends, or
  fails with \<open>re_broken\<close>.\<close>

record response =
  re_status :: nat
  re_text :: "jstring option"
  re_body :: bool
  re_chunks :: "nat list list"
  re_broken :: "cause option"

record provider_error =
  pe_code :: jstring
  pe_retryable :: bool
  pe_message :: jstring

definition to_cause :: "provider_error \<Rightarrow> cause" where
  "to_cause e = ProviderFailed (pe_code e) (pe_retryable e)"

definition fail_with :: "jstring \<Rightarrow> bool \<Rightarrow> jstring \<Rightarrow> provider_error" where
  "fail_with code retryable message =
     \<lparr>pe_code = code, pe_retryable = retryable, pe_message = message\<rparr>"

text \<open>\<open>/^[a-zA-Z0-9_.-]{1,120}$/\<close>.\<close>

definition is_error_code :: "jstring \<Rightarrow> bool" where
  "is_error_code s \<longleftrightarrow> 1 \<le> length s \<and> length s \<le> 120 \<and>
     list_all (\<lambda>c. is_alnum c \<or> c \<in> set (js ''_.-'')) s"

definition safeProviderErrorCode :: "parse \<Rightarrow> response \<Rightarrow> jstring" where
  "safeProviderErrorCode p r =
     (case re_text r of
        None \<Rightarrow> []
      | Some raw \<Rightarrow>
          if raw = [] \<or> length raw > 65536 then []
          else (case p raw of
                  None \<Rightarrow> []
                | Some payload \<Rightarrow>
                    let error = objectValue (get (js ''error'') (objectValue (Some payload)));
                        candidate = or_else (stringValue (get (js ''code'') error))
                                      (stringValue (get (js ''type'') error))
                    in if is_error_code candidate then candidate else []))"

definition response_ok :: "response \<Rightarrow> bool" where
  "response_ok r \<longleftrightarrow> 200 \<le> re_status r \<and> re_status r \<le> 299"

definition ensureProviderOK :: "parse \<Rightarrow> response \<Rightarrow> provider_error option" where
  "ensureProviderOK p r =
     (if \<not> response_ok r
      then (let detail = safeProviderErrorCode p r in
            Some (fail_with
              (if re_status r = 429 then js ''provider_rate_limited'' else js ''provider_error'')
              (re_status r = 429 \<or> re_status r \<ge> 500)
              (js ''Provider returned HTTP '' @ show_nat (re_status r) @
               (if detail = [] then [] else js '' ('' @ detail @ js '')''))))
      else if \<not> re_body r
      then Some (fail_with (js ''provider_invalid_response'') False
              (js ''Provider returned an empty stream''))
      else None)"

section \<open>The event stream\<close>

definition error_event :: "json \<Rightarrow> bool" where
  "error_event payload \<longleftrightarrow> get (js ''type'') payload = Some (JStr (js ''error'')) \<or>
     json_truthy (get (js ''error'') payload)"

text \<open>The payloads of the events that have come in completely, and the error that ends the stream.\<close>

fun payloads :: "parse \<Rightarrow> jstring list \<Rightarrow> json list \<times> provider_error option" where
  "payloads p [] = ([], None)"
| "payloads p (event # events) =
     (let data = event_data event in
      if data = [] \<or> data = js ''[DONE]'' then payloads p events
      else (case p data of
              None \<Rightarrow> ([], Some (fail_with (js ''provider_invalid_response'') False
                                  (js ''Provider returned invalid stream JSON'')))
            | Some v \<Rightarrow>
                let payload = objectValue (Some v) in
                if error_event payload
                then ([], Some (fail_with (js ''provider_error'') True
                                 (js ''Provider stream returned an error event'')))
                else (let (ps, e) = payloads p events in (payload # ps, e))))"

definition transport_limit :: nat where
  "transport_limit = 16 * 1024 * 1024"

fun read_loop ::
  "parse \<Rightarrow> cause option \<Rightarrow> nat list list \<Rightarrow> decoder \<Rightarrow> jstring \<Rightarrow> nat \<Rightarrow> json list \<times> cause option" where
  "read_loop p broken [] d buffer bytes = ([], broken)"
| "read_loop p broken (value # chunks) d buffer bytes =
     (if bytes + length value > transport_limit
      then ([], Some (to_cause (fail_with (js ''provider_output_too_large'') False
                                 (js ''Provider stream exceeded its transport limit''))))
      else
        (let (decoded, d') = decode value d;
             events = split_events (buffer @ decoded);
             (ps, e) = payloads p (butlast events)
         in case e of
              Some c \<Rightarrow> (ps, Some (to_cause c))
            | None \<Rightarrow>
                let (qs, c) = read_loop p broken chunks d' (last events) (bytes + length value)
                in (ps @ qs, c)))"

definition readProviderSSE :: "parse \<Rightarrow> response \<Rightarrow> json list \<times> cause option" where
  "readProviderSSE p r = read_loop p (re_broken r) (re_chunks r) (idle False) [] 0"

section \<open>Accumulating the answer\<close>

record partial_call =
  pc_id :: jstring
  pc_name :: jstring
  pc_arguments :: jstring

definition no_call :: partial_call where
  "no_call = \<lparr>pc_id = [], pc_name = [], pc_arguments = []\<rparr>"

record accumulator =
  ac_content :: jstring
  ac_input :: int
  ac_output :: int
  ac_usage :: json
  ac_stop :: jstring
  ac_calls :: "(int \<times> partial_call) list"

definition empty_accumulator :: accumulator where
  "empty_accumulator =
     \<lparr>ac_content = [], ac_input = 0, ac_output = 0, ac_usage = JObj [], ac_stop = [], ac_calls = []\<rparr>"

text \<open>The text of a payload, as a delta if it is not empty.\<close>

definition add_text :: "jstring \<Rightarrow> accumulator \<Rightarrow> jstring list \<times> accumulator" where
  "add_text t a = ((if t = [] then [] else [t]), a\<lparr>ac_content := ac_content a @ t\<rparr>)"

definition extend_call :: "json \<Rightarrow> partial_call \<Rightarrow> partial_call" where
  "extend_call raw c =
     (let fn = objectValue (get (js ''function'') raw) in
      \<lparr>pc_id = pc_id c @ stringValue (get (js ''id'') raw),
       pc_name = pc_name c @ stringValue (get (js ''name'') fn),
       pc_arguments = pc_arguments c @ stringValue (get (js ''arguments'') fn)\<rparr>)"

definition add_fragment :: "json \<Rightarrow> (int \<times> partial_call) list \<Rightarrow> (int \<times> partial_call) list" where
  "add_fragment raw calls =
     upsert (numberValue (get (js ''index'') raw)) (\<lambda>c. extend_call raw (default_to no_call c)) calls"

definition first_choice :: "json \<Rightarrow> json" where
  "first_choice payload =
     (case objectArray (get (js ''choices'') payload) of [] \<Rightarrow> JObj [] | c # cs \<Rightarrow> c)"

definition openai_step :: "json \<Rightarrow> accumulator \<Rightarrow> jstring list \<times> accumulator" where
  "openai_step payload a =
     (let u = objectValue (get (js ''usage'') payload);
          choice = first_choice payload;
          delta = objectValue (get (js ''delta'') choice);
          (ds, a1) = add_text (stringValue (get (js ''content'') delta))
            (a\<lparr>ac_usage := (if u = JObj [] then ac_usage a else u),
               ac_stop := or_else (stringValue (get (js ''finish_reason'') choice)) (ac_stop a)\<rparr>)
      in (ds, a1\<lparr>ac_calls := fold add_fragment (objectArray (get (js ''tool_calls'') delta)) (ac_calls a1)\<rparr>))"

text \<open>\<open>calls.get(index)\<close> and the update of the object found.\<close>

definition append_arguments :: "int \<Rightarrow> jstring \<Rightarrow> (int \<times> partial_call) list \<Rightarrow> (int \<times> partial_call) list" where
  "append_arguments i t calls =
     map (\<lambda>(j, c). (j, if j = i then c\<lparr>pc_arguments := pc_arguments c @ t\<rparr> else c)) calls"

definition is_type :: "string \<Rightarrow> json \<Rightarrow> bool" where
  "is_type t v \<longleftrightarrow> get (js ''type'') v = Some (JStr (js t))"

definition anthropic_step :: "json \<Rightarrow> accumulator \<Rightarrow> jstring list \<times> accumulator" where
  "anthropic_step payload a =
     (let ty = stringValue (get (js ''type'') payload);
          index = numberValue (get (js ''index'') payload);
          block = objectValue (get (js ''content_block'') payload);
          delta = objectValue (get (js ''delta'') payload)
      in if ty = js ''message_start''
         then ([], a\<lparr>ac_input := numberValue (get (js ''input_tokens'')
                 (objectValue (get (js ''usage'') (objectValue (get (js ''message'') payload)))))\<rparr>)
         else if ty = js ''content_block_start''
         then (if is_type ''tool_use'' block
               then ([], a\<lparr>ac_calls := upsert index
                       (\<lambda>_. \<lparr>pc_id = stringValue (get (js ''id'') block),
                             pc_name = stringValue (get (js ''name'') block), pc_arguments = []\<rparr>)
                       (ac_calls a)\<rparr>)
               else ([], a))
         else if ty = js ''content_block_delta''
         then (if is_type ''text_delta'' delta then add_text (stringValue (get (js ''text'') delta)) a
               else if is_type ''input_json_delta'' delta
               then ([], a\<lparr>ac_calls := append_arguments index
                       (stringValue (get (js ''partial_json'') delta)) (ac_calls a)\<rparr>)
               else ([], a))
         else if ty = js ''message_delta''
         then ([], a\<lparr>ac_stop := or_else (stringValue (get (js ''stop_reason'') delta)) (ac_stop a),
                     ac_output := numberValue (get (js ''output_tokens'')
                       (objectValue (get (js ''usage'') payload)))\<rparr>)
         else ([], a))"

fun accumulate ::
  "(json \<Rightarrow> accumulator \<Rightarrow> jstring list \<times> accumulator) \<Rightarrow> json list \<Rightarrow> accumulator \<Rightarrow> jstring list \<times> accumulator" where
  "accumulate step [] a = ([], a)"
| "accumulate step (v # vs) a =
     (let (ds, a1) = step v a; (es, a2) = accumulate step vs a1 in (ds @ es, a2))"

definition parseArguments :: "parse \<Rightarrow> jstring \<Rightarrow> (provider_error, json) result" where
  "parseArguments p value =
     (case p value of
        Some v \<Rightarrow> Inr (objectValue (Some v))
      | None \<Rightarrow> Inl (fail_with (js ''provider_invalid_tool_call'') False
                       (js ''Provider returned invalid tool arguments'')))"

fun tool_calls :: "(jstring \<Rightarrow> (provider_error, json) result) \<Rightarrow> partial_call list \<Rightarrow> (provider_error, tool_call list) result" where
  "tool_calls pa [] = Inr []"
| "tool_calls pa (c # cs) =
     bind_result (pa (pc_arguments c)) (\<lambda>v. bind_result (tool_calls pa cs)
       (\<lambda>ts. Inr (\<lparr>tc_id = pc_id c, tc_name = pc_name c, tc_arguments = v\<rparr> # ts)))"

definition sorted_calls :: "accumulator \<Rightarrow> partial_call list" where
  "sorted_calls a = map snd (sort_key fst (ac_calls a))"

definition unpriced :: "int \<Rightarrow> int \<Rightarrow> usage" where
  "unpriced i out = \<lparr>us_input = i, us_output = out, us_cost = js ''0'', us_currency = js ''USD'',
                   us_source = js ''unknown''\<rparr>"

definition openai_finish :: "parse \<Rightarrow> accumulator \<Rightarrow> (provider_error, finish) result" where
  "openai_finish p a = bind_result (tool_calls (parseArguments p) (sorted_calls a))
     (\<lambda>cs. Inr \<lparr>fi_content = ac_content a, fi_calls = cs, fi_stop = ac_stop a,
        fi_usage = unpriced (numberValue (get (js ''prompt_tokens'') (ac_usage a)))
                     (numberValue (get (js ''completion_tokens'') (ac_usage a)))\<rparr>)"

definition anthropic_finish :: "parse \<Rightarrow> accumulator \<Rightarrow> (provider_error, finish) result" where
  "anthropic_finish p a =
     bind_result (tool_calls (\<lambda>t. parseArguments p (or_else t (js ''{}''))) (sorted_calls a))
       (\<lambda>cs. Inr \<lparr>fi_content = ac_content a, fi_calls = cs, fi_stop = ac_stop a,
          fi_usage = unpriced (ac_input a) (ac_output a)\<rparr>)"

text \<open>What the generator yields, and the error it ends with.\<close>

definition answer_stream ::
  "(json \<Rightarrow> accumulator \<Rightarrow> jstring list \<times> accumulator) \<Rightarrow> (accumulator \<Rightarrow> (provider_error, finish) result) \<Rightarrow>
   parse \<Rightarrow> cause + response \<Rightarrow> stream_item list \<times> cause option" where
  "answer_stream step fin p fetched =
     (case fetched of
        Inl c \<Rightarrow> ([], Some c)
      | Inr r \<Rightarrow>
          (case ensureProviderOK p r of
             Some e \<Rightarrow> ([], Some (to_cause e))
           | None \<Rightarrow>
               (let (vs, c) = readProviderSSE p r;
                    (ds, a) = accumulate step vs empty_accumulator
                in case c of
                     Some x \<Rightarrow> (map Delta ds, Some x)
                   | None \<Rightarrow>
                       (case fin a of
                          Inl e \<Rightarrow> (map Delta ds, Some (to_cause e))
                        | Inr g \<Rightarrow> (map Delta ds @ [Finish g], None)))))"

definition openai_stream :: "parse \<Rightarrow> cause + response \<Rightarrow> stream_item list \<times> cause option" where
  "openai_stream p fetched = answer_stream openai_step (openai_finish p) p fetched"

definition anthropic_stream :: "parse \<Rightarrow> cause + response \<Rightarrow> stream_item list \<times> cause option" where
  "anthropic_stream p fetched = answer_stream anthropic_step (anthropic_finish p) p fetched"

section \<open>Chunk borders do not matter\<close>

definition ended :: "cause option \<Rightarrow> json list \<times> provider_error option \<Rightarrow> json list \<times> cause option" where
  "ended broken r = (fst r, case snd r of Some e \<Rightarrow> Some (to_cause e) | None \<Rightarrow> broken)"

lemma payloads_append:
  "payloads p (xs @ ys) =
     (case payloads p xs of
        (ps, Some e) \<Rightarrow> (ps, Some e)
      | (ps, None) \<Rightarrow> (let (qs, e) = payloads p ys in (ps @ qs, e)))"
  by (induction xs) (auto simp: Let_def split: option.splits prod.splits)

lemma read_loop_bytes:
  assumes "bytes + sum_list (map length chunks) \<le> transport_limit" and "split_events buffer = [buffer]"
  shows "read_loop p broken chunks d buffer bytes =
    ended broken (payloads p (butlast (split_events (buffer @ fst (decode (concat chunks) d)))))"
  using assms
proof (induction chunks arbitrary: d buffer bytes)
  case Nil
  then show ?case by (simp add: ended_def)
next
  case (Cons bs chunks)
  obtain t d' where t: "decode bs d = (t, d')" by fastforce
  define E where "E = split_events (buffer @ t)"
  define u where "u = fst (decode (concat chunks) d')"
  have u: "fst (decode (concat (bs # chunks)) d) = t @ u"
    by (simp add: decode_append t u_def split: prod.splits)
  have E: "split_events (buffer @ t @ u) = butlast E @ split_events (last E @ u)"
    using split_events_append [of "buffer @ t" u] by (simp add: E_def)
  then have but: "butlast (split_events (buffer @ t @ u)) = butlast E @ butlast (split_events (last E @ u))"
    by (simp add: butlast_append split_events_def)
  have "read_loop p broken chunks d' (last E) (bytes + length bs) =
      ended broken (payloads p (butlast (split_events (last E @ u))))"
    using Cons.IH [of "bytes + length bs" "last E" d'] Cons.prems
    by (simp add: u_def E_def split_events_last)
  then show ?case
    using Cons.prems
    by (simp only: u but payloads_append)
      (auto simp: t E_def [symmetric] ended_def Let_def split: prod.splits option.splits)
qed

text \<open>C15: The provider's payloads depend only on the text of the response body: however the network cuts
  its bytes into chunks, inside a character, a line break or an event, they are those of the events
  of the text that a blank line ends.\<close>

theorem stream_payloads_of_text:
  assumes "concat (re_chunks r) = text_encode t"
    and "well_formed t" and "t = [] \<or> hd (code_points t) \<noteq> 0xFEFF"
    and "length (text_encode t) \<le> transport_limit"
  shows "readProviderSSE p r = ended (re_broken r) (payloads p (butlast (split_events t)))"
proof -
  have "0 + sum_list (map length (re_chunks r)) \<le> transport_limit"
    using assms(1,4) by (simp add: length_concat [symmetric])
  from read_loop_bytes [OF this split_events_Nil] show ?thesis
    using decode_text_encode(1) [OF assms(2,3)] by (simp add: readProviderSSE_def assms(1))
qed

text \<open>A body cut inside the two bytes of a character and inside the blank line.\<close>

definition cut_response :: response where
  "cut_response = \<lparr>re_status = 200, re_text = None, re_body = True,
     re_chunks = [[100, 97, 116, 97, 58, 0xC3], [0xA9, 10], [10]], re_broken = None\<rparr>"

theorem stream_payloads_of_text_witness:
  "readProviderSSE (\<lambda>s. Some (JObj [(js ''k'', JStr s)])) cut_response =
     ([JObj [(js ''k'', JStr [0xE9])]], None)"
proof -
  define t :: jstring where "t = js ''data:'' @ [0xE9, 10, 10]"
  have points: "code_points t = [100, 97, 116, 97, 58, 0xE9, 10, 10]"
    by (simp add: t_def is_high_def)
  have enc: "text_encode t = [100, 97, 116, 97, 58, 0xC3, 0xA9, 10, 10]"
    by (simp add: text_encode_def points is_surrogate_def utf8_def)
  have "readProviderSSE p cut_response = ended None (payloads p (butlast (split_events t)))" for p
    using stream_payloads_of_text [of cut_response t p]
    by (simp add: cut_response_def enc points well_formed_def is_surrogate_def transport_limit_def)
  moreover have "split_events t = [js ''data:'' @ [0xE9], []]"
    by (simp add: t_def split_events_def blank_line_def)
  moreover have "event_data (js ''data:'' @ [0xE9]) = [0xE9]"
    by (simp add: event_data_def line_break_def starts_with_def js_slice_from_def js_slice_def js_clamp_def
        js_trim_start_def is_space_def)
  ultimately show ?thesis
    by (simp add: ended_def error_event_def)
qed

section \<open>The answer is the text that was streamed\<close>

fun delta_of :: "stream_item \<Rightarrow> jstring list" where
  "delta_of (Delta t) = [t]"
| "delta_of _ = []"

definition deltas :: "stream_item list \<Rightarrow> jstring list" where
  "deltas items = concat (map delta_of items)"

text \<open>A generator that ends normally yields its deltas, none of them empty, and then one answer, whose
  content they are; one that throws yields no answer.\<close>

fun answer_ok :: "stream_item list \<times> cause option \<Rightarrow> bool" where
  "answer_ok (items, Some c) \<longleftrightarrow> items = map Delta (deltas items) \<and> [] \<notin> set (deltas items)"
| "answer_ok (items, None) \<longleftrightarrow> [] \<notin> set (deltas items) \<and>
     (\<exists>g. items = map Delta (deltas items) @ [Finish g] \<and> fi_content g = concat (deltas items))"

lemma deltas_simps [simp]:
  "deltas [] = []" "deltas (Delta t # xs) = t # deltas xs" "deltas (Finish g # xs) = deltas xs"
  "deltas (TimerFires # xs) = deltas xs" "deltas (xs @ ys) = deltas xs @ deltas ys"
  "deltas (map Delta ds) = ds"
  by (simp_all add: deltas_def) (induction ds, simp_all)

locale step_contract =
  fixes step :: "json \<Rightarrow> accumulator \<Rightarrow> jstring list \<times> accumulator"
    and fin :: "accumulator \<Rightarrow> (provider_error, finish) result"
  assumes step_content: "step v a = (ds, a') \<Longrightarrow> ac_content a' = ac_content a @ concat ds"
    and step_nonempty: "step v a = (ds, a') \<Longrightarrow> [] \<notin> set ds"
    and fin_content: "fin a = Inr g \<Longrightarrow> fi_content g = ac_content a"
begin

lemma accumulate_content:
  "accumulate step vs a = (ds, a') \<Longrightarrow> ac_content a' = ac_content a @ concat ds \<and> [] \<notin> set ds"
proof (induction vs arbitrary: a ds)
  case (Cons v vs)
  obtain d1 a1 where 1: "step v a = (d1, a1)" by fastforce
  obtain d2 where 2: "accumulate step vs a1 = (d2, a')" "ds = d1 @ d2"
    using Cons.prems 1 by (auto simp: Let_def split: prod.splits)
  from Cons.IH [OF 2(1)] step_content [OF 1] step_nonempty [OF 1] 2(2) show ?case by simp
qed simp

lemma answers: "answer_ok (answer_stream step fin p fetched)"
  using accumulate_content [of _ empty_accumulator] fin_content
  by (fastforce simp: answer_stream_def empty_accumulator_def Let_def
      split: sum.splits option.splits prod.splits)

end

lemma add_text_props:
  "add_text t a = (ds, a') \<Longrightarrow> ac_content a' = ac_content a @ concat ds \<and> [] \<notin> set ds"
  by (cases "t = []") (auto simp: add_text_def)

interpretation openai: step_contract openai_step "openai_finish p"
proof
  fix v a ds a'
  assume "openai_step v a = (ds, a')"
  then have "ac_content a' = ac_content a @ concat ds \<and> [] \<notin> set ds"
    by (auto simp: openai_step_def Let_def dest!: add_text_props split: prod.splits)
  then show "ac_content a' = ac_content a @ concat ds" "[] \<notin> set ds" by simp_all
next
  fix a g
  assume "openai_finish p a = Inr g"
  then show "fi_content g = ac_content a" by (auto simp: openai_finish_def bind_result_eq_Inr)
qed

interpretation anthropic: step_contract anthropic_step "anthropic_finish p"
proof
  fix v a ds a'
  assume "anthropic_step v a = (ds, a')"
  then have "ac_content a' = ac_content a @ concat ds \<and> [] \<notin> set ds"
    by (auto simp: anthropic_step_def Let_def dest!: add_text_props split: if_splits)
  then show "ac_content a' = ac_content a @ concat ds" "[] \<notin> set ds" by simp_all
next
  fix a g
  assume "anthropic_finish p a = Inr g"
  then show "fi_content g = ac_content a" by (auto simp: anthropic_finish_def bind_result_eq_Inr)
qed

text \<open>Whatever a model server sends, a provider call that ends normally yields deltas, none of them
  empty, and then exactly one answer, whose content is those deltas joined; a call that fails yields
  only deltas.\<close>

theorem answer_is_the_streamed_text:
  "answer_ok (openai_stream p fetched) \<and> answer_ok (anthropic_stream p fetched)"
  unfolding openai_stream_def anthropic_stream_def
  by (rule conjI) (rule openai.answers, rule anthropic.answers)

section \<open>Tool calls are joined by index\<close>

text \<open>The reference: all fragments of the stream, for each index in increasing order those that carry it
  joined.\<close>

definition call_fragments :: "json list \<Rightarrow> json list" where
  "call_fragments vs = concat (map (\<lambda>v. objectArray (get (js ''tool_calls'')
     (objectValue (get (js ''delta'') (first_choice v))))) vs)"

definition fragment_index :: "json \<Rightarrow> int" where
  "fragment_index raw = numberValue (get (js ''index'') raw)"

definition joined_call :: "json list \<Rightarrow> partial_call" where
  "joined_call raws =
     \<lparr>pc_id = concat (map (\<lambda>raw. stringValue (get (js ''id'') raw)) raws),
      pc_name = concat (map (\<lambda>raw. stringValue (get (js ''name'')
        (objectValue (get (js ''function'') raw)))) raws),
      pc_arguments = concat (map (\<lambda>raw. stringValue (get (js ''arguments'')
        (objectValue (get (js ''function'') raw)))) raws)\<rparr>"

definition calls_by_index :: "json list \<Rightarrow> partial_call list" where
  "calls_by_index raws =
     map (\<lambda>i. joined_call (filter (\<lambda>raw. fragment_index raw = i) raws))
       (sorted_list_of_set (fragment_index ` set raws))"

lemma joined_call_snoc: "joined_call (raws @ [raw]) = extend_call raw (joined_call raws)"
  by (simp add: joined_call_def extend_call_def Let_def)

lemma joined_call_Nil [simp]: "joined_call [] = no_call"
  by (simp add: joined_call_def no_call_def)

definition fragment_map :: "json list \<Rightarrow> int \<Rightarrow> partial_call option" where
  "fragment_map raws i =
     (let rs = filter (\<lambda>raw. fragment_index raw = i) raws in if rs = [] then None else Some (joined_call rs))"

lemma fragment_map_snoc:
  "fragment_map (raws @ [raw]) = (fragment_map raws)(fragment_index raw \<mapsto>
     extend_call raw (default_to no_call (fragment_map raws (fragment_index raw))))"
  by (rule ext) (simp add: fragment_map_def Let_def joined_call_snoc)

lemma add_fragments:
  "map_of (fold add_fragment raws []) = fragment_map raws \<and>
   distinct (map fst (fold add_fragment raws [])) \<and>
   fst ` set (fold add_fragment raws []) = fragment_index ` set raws"
proof (induction raws rule: rev_induct)
  case Nil
  then show ?case by (simp add: fragment_map_def fun_eq_iff)
next
  case (snoc raw raws)
  have "add_fragment raw calls =
      upsert (fragment_index raw) (\<lambda>c. extend_call raw (default_to no_call c)) calls" for calls
    by (simp only: add_fragment_def fragment_index_def)
  with snoc show ?case
    by (simp add: map_of_upsert fragment_map_snoc distinct_upsert)
qed

lemma accumulate_calls:
  "ac_calls (snd (accumulate openai_step vs a)) = fold add_fragment (call_fragments vs) (ac_calls a)"
proof (induction vs arbitrary: a)
  case (Cons v vs)
  obtain ds a1 where s: "openai_step v a = (ds, a1)" by fastforce
  then have "ac_calls a1 = fold add_fragment
      (objectArray (get (js ''tool_calls'') (objectValue (get (js ''delta'') (first_choice v))))) (ac_calls a)"
    by (auto simp: openai_step_def add_text_def Let_def)
  moreover have "snd (accumulate openai_step (v # vs) a) = snd (accumulate openai_step vs a1)"
    by (simp add: s split: prod.splits)
  ultimately show ?case using Cons [of a1] by (simp add: call_fragments_def)
qed (simp add: call_fragments_def)

lemma sort_key_map_of:
  assumes "distinct (map fst kvs)"
  shows "map snd (sort_key fst kvs) = map (\<lambda>k. the (map_of kvs k)) (sorted_list_of_set (fst ` set kvs))"
proof -
  let ?s = "sort_key fst kvs"
  have dist: "distinct (map fst ?s)"
    using assms by (metis distinct_map distinct_sort set_sort)
  moreover have "set (map fst ?s) = fst ` set kvs" by simp
  moreover have "sorted (map fst ?s)" by (rule sorted_sort_key)
  ultimately have keys: "map fst ?s = sorted_list_of_set (fst ` set kvs)"
    by (metis sorted_list_of_set.idem_if_sorted_distinct)
  have "snd x = the (map_of kvs (fst x))" if "x \<in> set ?s" for x
    using that map_of_is_SomeI [OF assms, of "fst x" "snd x"] by simp
  then have "map snd ?s = map (\<lambda>x. the (map_of kvs (fst x))) ?s" by (intro map_cong) simp_all
  also have "\<dots> = map (\<lambda>k. the (map_of kvs k)) (map fst ?s)" by simp
  finally show ?thesis by (simp only: keys)
qed

text \<open>C14: However the OpenAI stream interleaves the fragments of several tool calls, the calls of the
  answer are those fragments joined index by index, in the order of the indices.\<close>

theorem tool_calls_joined_by_index:
  "sorted_calls (snd (accumulate openai_step vs empty_accumulator)) = calls_by_index (call_fragments vs)"
proof -
  let ?raws = "call_fragments vs"
  have calls: "ac_calls (snd (accumulate openai_step vs empty_accumulator)) = fold add_fragment ?raws []"
    by (simp add: accumulate_calls empty_accumulator_def)
  have "the (fragment_map ?raws i) = joined_call (filter (\<lambda>raw. fragment_index raw = i) ?raws)"
    if "i \<in> fragment_index ` set ?raws" for i
    using that by (auto simp: fragment_map_def Let_def filter_empty_conv)
  then have "map (\<lambda>i. the (fragment_map ?raws i)) (sorted_list_of_set (fragment_index ` set ?raws)) =
      calls_by_index ?raws"
    unfolding calls_by_index_def by (intro map_cong) simp_all
  then show ?thesis
    using add_fragments [of ?raws] sort_key_map_of [of "fold add_fragment ?raws []"]
    by (simp add: sorted_calls_def calls)
qed

end
