(* ===== verification/Js_Number.thy ===== *)
theory Js_Number
  imports Json
begin

text \<open>
  \<open>Number(s)\<close> of a string, which the MCP client applies to the parts of an address, the web client to a
  stored draft version and the command line of the SDK to an option. The lemmas show that it reads back
  what \<open>String(n)\<close> prints.
\<close>

section \<open>The number conversion of a string\<close>

text \<open>\<open>Number(s)\<close> for a string without a decimal point, \<open>None\<close> where the result is not an integer. The
  decimal form with a negative exponent is exact here; JavaScript rounds it to a double first.\<close>

definition digit_value :: "cunit \<Rightarrow> nat" where
  "digit_value c =
     (if is_digit c then unat c - 48 else if is_lower c then unat c - 87 else unat c - 55)"

definition digits_value :: "nat \<Rightarrow> jstring \<Rightarrow> nat" where
  "digits_value base s = foldl (\<lambda>n c. n * base + digit_value c) 0 s"

definition radix_literal :: "nat \<Rightarrow> jstring \<Rightarrow> int option" where
  "radix_literal base s =
     (if s \<noteq> [] \<and> list_all (\<lambda>c. is_alnum c \<and> digit_value c < base) s
      then Some (int (digits_value base s)) else None)"

definition decimal_digits :: "jstring \<Rightarrow> nat option" where
  "decimal_digits s = (if s \<noteq> [] \<and> list_all is_digit s then Some (digits_value 10 s) else None)"

fun signed :: "jstring \<Rightarrow> bool \<times> jstring" where
  "signed [] = (False, [])"
| "signed (c # cs) = (if c = ch CHR ''-'' then (True, cs) else if c = ch CHR ''+'' then (False, cs)
                      else (False, c # cs))"

definition is_e :: "cunit \<Rightarrow> bool" where
  "is_e c \<longleftrightarrow> c = ch CHR ''e'' \<or> c = ch CHR ''E''"

definition scale :: "int \<Rightarrow> bool \<Rightarrow> nat \<Rightarrow> int option" where
  "scale n negative e =
     (if \<not> negative then Some (n * 10 ^ e) else if n mod 10 ^ e = 0 then Some (n div 10 ^ e) else None)"

definition decimal_literal :: "jstring \<Rightarrow> int option" where
  "decimal_literal s =
     (let (negative, r) = signed s;
          mantissa = takeWhile (\<lambda>c. \<not> is_e c) r;
          rest = drop (length mantissa) r
      in case decimal_digits mantissa of
           None \<Rightarrow> None
         | Some m \<Rightarrow>
             let n = (if negative then - int m else int m) in
             (case rest of
                [] \<Rightarrow> Some n
              | _ # ex \<Rightarrow>
                  let (eneg, er) = signed ex in
                  (case decimal_digits er of None \<Rightarrow> None | Some e \<Rightarrow> scale n eneg e)))"

definition number_of_string :: "jstring \<Rightarrow> int option" where
  "number_of_string s =
     (let t = js_trim s; p = to_lower (take 2 t) in
      if t = [] then Some 0
      else if p = js ''0x'' then radix_literal 16 (drop 2 t)
      else if p = js ''0o'' then radix_literal 8 (drop 2 t)
      else if p = js ''0b'' then radix_literal 2 (drop 2 t)
      else decimal_literal t)"

section \<open>Printed numbers\<close>

lemma digits_value_snoc: "digits_value b (s @ [c]) = digits_value b s * b + digit_value c"
  by (simp add: digits_value_def)

lemma digit_value_digit: "m < 10 \<Longrightarrow> digit_value (of_nat (48 + m)) = m"
  by (simp add: digit_value_def is_digit_def word_le_nat_alt unat_of_nat del: of_nat_add)

lemma digits_value_show_nat: "digits_value 10 (show_nat n) = n"
proof (induction n rule: show_nat.induct)
  case (1 n)
  then show ?case
    by (subst show_nat.simps)
      (auto simp: digits_value_snoc digit_value_digit simp del: of_nat_add,
       simp add: digits_value_def digit_value_digit del: of_nat_add)
qed

lemma all_digits_show_nat: "list_all is_digit (show_nat n)"
  using show_nat_digit by (simp add: list_all_iff)

lemma digit_facts:
  assumes "is_digit c"
  shows "\<not> is_space c" "\<not> is_e c" "c \<noteq> ch CHR ''-''" "c \<noteq> ch CHR ''+''" "c \<noteq> ch CHR ''.''"
    "c \<noteq> ch CHR '':''" "c \<noteq> ch CHR ''[''" "c \<noteq> ch CHR '']''" "lower_unit c = c"
    "lower_unit c \<notin> {ch CHR ''x'', ch CHR ''o'', ch CHR ''b'', ch CHR ''f'', ch CHR '':''}"
  using assms
  by (auto simp: is_digit_def is_space_def is_e_def lower_unit_def is_upper_def word_le_nat_alt)

lemma trim_digits: "list_all is_digit s \<Longrightarrow> js_trim s = s"
proof -
  assume "list_all is_digit s"
  then have no: "\<And>c. c \<in> set s \<Longrightarrow> \<not> is_space c" by (simp add: list_all_iff digit_facts)
  have "dropWhile is_space t = t" if "set t \<subseteq> set s" for t
    using that no by (cases t) auto
  then show ?thesis by (simp add: js_trim_def)
qed

lemma number_of_digits:
  assumes "list_all is_digit s" and "s \<noteq> []"
  shows "number_of_string s = Some (int (digits_value 10 s))"
proof -
  obtain c cs where s: "s = c # cs" using assms(2) by (cases s) auto
  have "to_lower (take 2 s) \<notin> {js ''0x'', js ''0o'', js ''0b''}"
    using assms(1) s digit_facts(10) by (cases cs) (auto simp: to_lower_def)
  moreover have "decimal_literal s = Some (int (digits_value 10 s))"
  proof -
    have sg: "signed s = (False, s)" using assms(1) s digit_facts by simp
    have tw: "takeWhile (\<lambda>c. \<not> is_e c) s = s"
      using assms(1) by (auto simp: takeWhile_eq_all_conv list_all_iff digit_facts)
    show ?thesis using assms by (simp add: decimal_literal_def sg tw decimal_digits_def)
  qed
  ultimately show ?thesis
    using assms by (simp add: number_of_string_def Let_def trim_digits)
qed

lemma number_of_show_nat: "number_of_string (show_nat n) = Some (int n)"
  by (simp add: number_of_digits all_digits_show_nat digits_value_show_nat)

end
