(* ===== verification/Mcp_Address.thy ===== *)
theory Mcp_Address
  imports Js_Number
begin

text \<open>
  Which endpoints the MCP client of \<open>apps/agent-runtime/src/mcp.ts\<close> talks to: \<open>isPrivateLiteralAddress\<close>,
  \<open>publicMCPAddresses\<close>, \<open>safeMCPLookup\<close> and \<open>assertSafeMCPEndpoint\<close>. The DNS answer and the parsed URL
  (\<open>new URL\<close>, \<open>None\<close> where it throws) are arguments.

  The lemmas show that the literal IPv4 addresses taken for private are exactly the ones of the
  special ranges, also in mapped and bracketed form, and that a lookup never hands out one of them.
\<close>

section \<open>Addresses\<close>

text \<open>\<open>replace(/^\[|\]$/g, "")\<close>.\<close>

definition strip_brackets :: "jstring \<Rightarrow> jstring" where
  "strip_brackets s =
     (let a = (if starts_with (js ''['') s then tl s else s)
      in if ends_with (js '']'') a then butlast a else a)"

text \<open>\<open>/^::ffff:(\d+\.\d+\.\d+\.\d+)$/i\<close> with its group.\<close>

definition mapped_ipv4 :: "jstring \<Rightarrow> jstring option" where
  "mapped_ipv4 host =
     (let rest = drop 7 host; parts = split_on (ch CHR ''.'') rest in
      if to_lower (take 7 host) = js ''::ffff:'' \<and> length parts = 4 \<and>
         list_all (\<lambda>d. d \<noteq> [] \<and> list_all is_digit d) parts
      then Some rest else None)"

text \<open>\<open>/^f[cd][0-9a-f]:/i\<close>, \<open>/^fe[89ab][0-9a-f]:/i\<close> and \<open>/^ff[0-9a-f]{2}:/i\<close>.\<close>

definition private_ipv6_prefix :: "jstring \<Rightarrow> bool" where
  "private_ipv6_prefix host \<longleftrightarrow>
     (case to_lower host of
        f # c # x # y # rest \<Rightarrow>
          f = ch CHR ''f'' \<and>
          (c \<in> set (js ''cd'') \<and> is_hex x \<and> y = ch CHR '':'' \<or>
           c = ch CHR ''e'' \<and> x \<in> set (js ''89ab'') \<and> is_hex y \<and> rest \<noteq> [] \<and> hd rest = ch CHR '':'' \<or>
           c = ch CHR ''f'' \<and> is_hex x \<and> is_hex y \<and> rest \<noteq> [] \<and> hd rest = ch CHR '':'')
      | _ \<Rightarrow> False)"

fun in_octet :: "int option \<Rightarrow> bool" where
  "in_octet (Some v) \<longleftrightarrow> 0 \<le> v \<and> v \<le> 255"
| "in_octet None \<longleftrightarrow> False"

definition private_octets :: "int \<Rightarrow> int \<Rightarrow> bool" where
  "private_octets a b \<longleftrightarrow>
     a = 0 \<or> a = 10 \<or> a = 127 \<or> a = 169 \<and> b = 254 \<or> a = 172 \<and> 16 \<le> b \<and> b \<le> 31 \<or>
     a = 192 \<and> b = 168 \<or> a \<ge> 224"

definition private_literal :: "jstring \<Rightarrow> bool" where
  "private_literal host \<longleftrightarrow>
     host = js ''::'' \<or> host = js ''::1'' \<or> private_ipv6_prefix host \<or>
     (let octets = map number_of_string (split_on (ch CHR ''.'') host) in
      length octets = 4 \<and> list_all in_octet octets \<and> private_octets (the (octets ! 0)) (the (octets ! 1)))"

lemma mapped_shorter: "mapped_ipv4 host = Some r \<Longrightarrow> length r < length host"
proof -
  assume a: "mapped_ipv4 host = Some r"
  then have "to_lower (take 7 host) = js ''::ffff:''" "r = drop 7 host"
    by (auto simp: mapped_ipv4_def Let_def split: if_splits)
  from this(1) have "length (to_lower (take 7 host)) = length (js ''::ffff:'')" by (simp only:)
  then have "7 \<le> length host" by (simp add: to_lower_def min_def split: if_splits)
  then show ?thesis using \<open>r = drop 7 host\<close> by simp
qed

lemma length_strip_brackets: "length (strip_brackets s) \<le> length s"
  by (auto simp: strip_brackets_def Let_def)

function isPrivateLiteralAddress :: "jstring \<Rightarrow> bool" where
  "isPrivateLiteralAddress hostname =
     (let host = strip_brackets hostname in
      case mapped_ipv4 host of
        Some inner \<Rightarrow> isPrivateLiteralAddress inner
      | None \<Rightarrow> private_literal host)"
  by pat_completeness auto

termination
  by (relation "measure length")
    (auto dest!: mapped_shorter intro: less_le_trans [OF _ length_strip_brackets])

declare isPrivateLiteralAddress.simps [simp del]

type_synonym lookup_address = "jstring \<times> nat"

definition publicMCPAddresses :: "lookup_address list \<Rightarrow> lookup_address list option" where
  "publicMCPAddresses addresses =
     (let allowed = filter (\<lambda>(address, family). \<not> isPrivateLiteralAddress address) addresses
      in if allowed = [] then None else Some allowed)"

text \<open>The callback of \<open>safeMCPLookup\<close>: with all addresses, with one, or with an error.\<close>

datatype lookup_result = LookupFailed | Denied | Resolved "lookup_address list"

definition safeMCPLookup :: "bool \<Rightarrow> lookup_address list option \<Rightarrow> lookup_result" where
  "safeMCPLookup all answer =
     (case answer of
        None \<Rightarrow> LookupFailed
      | Some addresses \<Rightarrow>
          (case publicMCPAddresses addresses of
             None \<Rightarrow> Denied
           | Some allowed \<Rightarrow> Resolved (if all then allowed else [hd allowed])))"

record url =
  ur_protocol :: jstring
  ur_username :: jstring
  ur_password :: jstring
  ur_hostname :: jstring

definition strip_dot :: "jstring \<Rightarrow> jstring" where
  "strip_dot s = (if ends_with (js ''.'') s then butlast s else s)"

definition assertSafeMCPEndpoint :: "url option \<Rightarrow> bool" where
  "assertSafeMCPEndpoint parsed =
     (case parsed of
        None \<Rightarrow> False
      | Some u \<Rightarrow>
          let host = strip_dot (to_lower (ur_hostname u)) in
          \<not> (ur_protocol u \<noteq> js ''https:'' \<or> ur_username u \<noteq> [] \<or> ur_password u \<noteq> [] \<or>
             host = js ''localhost'' \<or> ends_with (js ''.localhost'') host \<or> ends_with (js ''.local'') host \<or>
             ends_with (js ''.internal'') host \<or> isPrivateLiteralAddress host))"

section \<open>Literal IPv4 addresses\<close>

definition dotted :: "nat \<Rightarrow> nat \<Rightarrow> nat \<Rightarrow> nat \<Rightarrow> jstring" where
  "dotted a b c d = join_with (js ''.'') (map show_nat [a, b, c, d])"

text \<open>The special ranges in CIDR form: a base address and the length of its prefix.\<close>

definition address_of :: "nat \<Rightarrow> nat \<Rightarrow> nat \<Rightarrow> nat \<Rightarrow> nat" where
  "address_of a b c d = a * 2 ^ 24 + b * 2 ^ 16 + c * 2 ^ 8 + d"

definition in_block :: "nat \<times> nat \<Rightarrow> nat \<Rightarrow> bool" where
  "in_block blk n \<longleftrightarrow> n div 2 ^ (32 - snd blk) = fst blk div 2 ^ (32 - snd blk)"

definition special_blocks :: "(nat \<times> nat) list" where
  "special_blocks =
     [(address_of 0 0 0 0, 8), (address_of 10 0 0 0, 8), (address_of 127 0 0 0, 8),
      (address_of 169 254 0 0, 16), (address_of 172 16 0 0, 12), (address_of 192 168 0 0, 16),
      (address_of 224 0 0 0, 4), (address_of 240 0 0 0, 4)]"

lemma place_value:
  fixes x :: nat
  assumes "y < n" and "v < n"
  shows "x * n + y = u * n + v \<longleftrightarrow> x = u \<and> y = v"
proof
  assume eq: "x * n + y = u * n + v"
  have "(x * n + y) div n = x" "(u * n + v) div n = u" using assms by simp_all
  with eq show "x = u \<and> y = v" by simp
qed simp

lemma special_blocks_octets:
  assumes "a \<le> 255" and "b \<le> 255" and "c \<le> 255" and "d \<le> 255"
  shows "list_ex (\<lambda>blk. in_block blk (address_of a b c d)) special_blocks =
    private_octets (int a) (int b)"
proof -
  let ?n = "address_of a b c d"
  have 8: "?n div 16777216 = a"
    by (rule div_nat_eqI) (use assms in \<open>simp_all add: address_of_def\<close>)
  have 16: "?n div 65536 = a * 256 + b"
    by (rule div_nat_eqI) (use assms in \<open>simp_all add: address_of_def\<close>)
  have 12: "?n div 1048576 = a * 16 + b div 16"
  proof -
    have "?n div 1048576 = ?n div 65536 div 16" by (simp add: div_mult2_eq [symmetric])
    then show ?thesis by (simp add: 16)
  qed
  have 4: "?n div 268435456 = a div 16"
  proof -
    have "?n div 268435456 = ?n div 16777216 div 16" by (simp add: div_mult2_eq [symmetric])
    then show ?thesis by (simp add: 8)
  qed
  have "b div 16 < 16" using assms(2) by auto
  then have "a * 16 + b div 16 = 2753 \<longleftrightarrow> a = 172 \<and> b div 16 = 1"
    using place_value [of "b div 16" 16 1 a 172] by simp
  moreover have "b div 16 = 1 \<longleftrightarrow> 16 \<le> b \<and> b \<le> 31" by auto
  moreover have "a * 256 + b = 43518 \<longleftrightarrow> a = 169 \<and> b = 254"
    using place_value [of b 256 254 a 169] assms(2) by simp
  moreover have "a * 256 + b = 49320 \<longleftrightarrow> a = 192 \<and> b = 168"
    using place_value [of b 256 168 a 192] assms(2) by simp
  moreover have "a div 16 = 14 \<or> a div 16 = 15 \<longleftrightarrow> a \<ge> 224" using assms(1) by auto
  moreover have blocks: "special_blocks =
      [(0, 8), (167772160, 8), (2130706432, 8), (2851995648, 16), (2886729728, 12), (3232235520, 16),
       (3758096384, 4), (4026531840, 4)]"
    by (simp add: special_blocks_def address_of_def)
  have "list_ex (\<lambda>blk. in_block blk ?n) special_blocks \<longleftrightarrow>
      a = 0 \<or> a = 10 \<or> a = 127 \<or> a * 256 + b = 43518 \<or> a * 16 + b div 16 = 2753 \<or> a * 256 + b = 49320 \<or>
      a div 16 = 14 \<or> a div 16 = 15"
    by (simp add: blocks in_block_def 4 8 12 16)
  moreover have "private_octets (int a) (int b) \<longleftrightarrow>
      a = 0 \<or> a = 10 \<or> a = 127 \<or> a = 169 \<and> b = 254 \<or> a = 172 \<and> 16 \<le> b \<and> b \<le> 31 \<or>
      a = 192 \<and> b = 168 \<or> a \<ge> 224"
    unfolding private_octets_def by simp
  ultimately show ?thesis by blast
qed

lemma split_on_join:
  "ps \<noteq> [] \<Longrightarrow> list_all (\<lambda>p. d \<notin> set p) ps \<Longrightarrow> split_on d (join_with [d] ps) = ps"
proof (induction "[d]" ps rule: join_with.induct)
  case (2 p)
  have "d \<notin> set p \<Longrightarrow> split_on d p = [p]" by (induction p) auto
  with 2 show ?case by simp
next
  case (3 p q ps)
  have "d \<notin> set p \<Longrightarrow> split_on d (p @ d # r) = p # split_on d r" for r by (induction p) auto
  with 3 show ?case by simp
qed simp

lemma split_dotted: "split_on (ch CHR ''.'') (dotted a b c d) = map show_nat [a, b, c, d]"
proof -
  have "ch CHR ''.'' \<notin> set (show_nat n)" for n
    using show_nat_digit digit_facts(5) by blast
  then show ?thesis
    using split_on_join [of "map show_nat [a, b, c, d]" "ch CHR ''.''"] by (simp add: dotted_def)
qed

lemma dotted_ends:
  "\<exists>x xs y ys. dotted a b c d = x # xs \<and> dotted a b c d = ys @ [y] \<and> is_digit x \<and> is_digit y"
proof -
  obtain x xs where x: "show_nat a = x # xs" by (cases "show_nat a") auto
  obtain y ys where y: "show_nat d = ys @ [y]" by (cases "show_nat d" rule: rev_cases) auto
  have "is_digit x" using show_nat_digit [of x a] x by simp
  moreover have "is_digit y" using show_nat_digit [of y d] y by simp
  moreover have "dotted a b c d = x # (xs @ js ''.'' @ show_nat b @ js ''.'' @ show_nat c @ js ''.'' @ show_nat d)"
    by (simp add: dotted_def x)
  moreover have "dotted a b c d =
      (show_nat a @ js ''.'' @ show_nat b @ js ''.'' @ show_nat c @ js ''.'' @ ys) @ [y]"
    by (simp add: dotted_def y)
  ultimately show ?thesis by blast
qed

lemma ends_with_last: "ends_with [c] s \<longleftrightarrow> s \<noteq> [] \<and> last s = c"
  by (cases s rule: rev_cases) (auto simp: ends_with_def)

lemma starts_with_hd: "starts_with [c] s \<longleftrightarrow> s \<noteq> [] \<and> hd s = c"
  by (cases s) (auto simp: starts_with_def)

lemma strip_brackets_around:
  assumes "s \<noteq> []" "last s \<noteq> ch CHR '']''" "hd s \<noteq> ch CHR ''[''"
  shows "strip_brackets s = s" and "strip_brackets (js ''['' @ s @ js '']'') = s"
  using assms by (simp_all add: strip_brackets_def Let_def ends_with_last starts_with_hd butlast_append)

lemma private_dotted:
  assumes "a \<le> 255" and "b \<le> 255" and "c \<le> 255" and "d \<le> 255"
  shows "private_literal (dotted a b c d) = private_octets (int a) (int b)"
proof -
  obtain x xs where x: "dotted a b c d = x # xs" "is_digit x"
    using dotted_ends [of a b c d] by blast
  have "lower_unit x \<noteq> ch CHR ''f''" using digit_facts(10) [OF x(2)] by blast
  then have "\<not> private_ipv6_prefix (dotted a b c d)"
    by (auto simp: private_ipv6_prefix_def x(1) to_lower_def split: list.splits)
  moreover have "dotted a b c d \<noteq> js ''::''" "dotted a b c d \<noteq> js ''::1''"
    using digit_facts(6) [OF x(2)] by (auto simp: x(1))
  ultimately show ?thesis
    using assms by (simp add: private_literal_def Let_def split_dotted [simplified] number_of_show_nat)
qed

lemma ipv4_forms:
  assumes "a \<le> 255" and "b \<le> 255" and "c \<le> 255" and "d \<le> 255"
  defines "s \<equiv> dotted a b c d"
  shows "isPrivateLiteralAddress s = private_octets (int a) (int b)"
    and "isPrivateLiteralAddress (js ''::ffff:'' @ s) = private_octets (int a) (int b)"
    and "isPrivateLiteralAddress (js ''[::ffff:'' @ s @ js '']'') = private_octets (int a) (int b)"
proof -
  obtain x xs y ys where x: "s = x # xs" "s = ys @ [y]" "is_digit x" "is_digit y"
    unfolding s_def using dotted_ends [of a b c d] by blast
  have s: "s \<noteq> []" "last s \<noteq> ch CHR '']''" "hd s \<noteq> ch CHR ''[''"
    using digit_facts(7) [OF x(3)] digit_facts(8) [OF x(4)] x(1) by (simp, subst x(2), simp, simp)
  have "mapped_ipv4 s = None"
    using x(1) digit_facts(10) [OF x(3)] by (auto simp: mapped_ipv4_def Let_def to_lower_def)
  then show 1: "isPrivateLiteralAddress s = private_octets (int a) (int b)"
    using private_dotted [OF assms(1-4)] strip_brackets_around(1) [OF s]
    by (subst isPrivateLiteralAddress.simps) (simp add: s_def)
  let ?m = "js ''::ffff:'' @ s"
  have m: "?m \<noteq> []" "last ?m \<noteq> ch CHR '']''" "hd ?m \<noteq> ch CHR ''[''" using s by simp_all
  have "mapped_ipv4 ?m = Some s"
    using all_digits_show_nat split_dotted [of a b c d, simplified]
    by (simp add: mapped_ipv4_def Let_def to_lower_def lower_unit_def is_upper_def s_def)
  then show "isPrivateLiteralAddress ?m = private_octets (int a) (int b)"
      "isPrivateLiteralAddress (js ''[::ffff:'' @ s @ js '']'') = private_octets (int a) (int b)"
    using 1 strip_brackets_around [OF m] by (subst isPrivateLiteralAddress.simps, simp)+
qed

text \<open>C16: A literal IPv4 address, also in IPv4-mapped form with or without brackets, is refused exactly when
  it lies in one of the blocks 0/8, 10/8, 127/8, 169.254/16, 172.16/12, 192.168/16, 224/4 and 240/4.\<close>

theorem ipv4_literals_classified:
  assumes "a \<le> 255" and "b \<le> 255" and "c \<le> 255" and "d \<le> 255"
  shows "isPrivateLiteralAddress (dotted a b c d) =
      list_ex (\<lambda>blk. in_block blk (address_of a b c d)) special_blocks \<and>
    isPrivateLiteralAddress (js ''::ffff:'' @ dotted a b c d) =
      list_ex (\<lambda>blk. in_block blk (address_of a b c d)) special_blocks \<and>
    isPrivateLiteralAddress (js ''[::ffff:'' @ dotted a b c d @ js '']'') =
      list_ex (\<lambda>blk. in_block blk (address_of a b c d)) special_blocks"
  using ipv4_forms [OF assms] by (simp only: special_blocks_octets [OF assms])

theorem ipv4_literals_classified_witness:
  "isPrivateLiteralAddress (dotted 172 31 0 1) \<and> \<not> isPrivateLiteralAddress (dotted 172 32 0 1)"
proof
  show "isPrivateLiteralAddress (dotted 172 31 0 1)"
    by (subst conjunct1 [OF ipv4_literals_classified])
      (simp_all add: special_blocks_def in_block_def address_of_def)
  show "\<not> isPrivateLiteralAddress (dotted 172 32 0 1)"
    by (subst conjunct1 [OF ipv4_literals_classified])
      (simp_all add: special_blocks_def in_block_def address_of_def)
qed

lemma lookup_hands_out_public:
  assumes "safeMCPLookup all answer = Resolved xs"
  shows "xs \<noteq> [] \<and> list_all (\<lambda>(address, family). \<not> isPrivateLiteralAddress address) xs"
proof -
  obtain as allowed where p: "publicMCPAddresses as = Some allowed"
    and xs: "xs = (if all then allowed else [hd allowed])"
    using assms by (auto simp: safeMCPLookup_def split: option.splits)
  let ?ok = "\<lambda>(address, family). \<not> isPrivateLiteralAddress address"
  have a: "allowed = filter ?ok as" "allowed \<noteq> []"
    using p by (simp_all add: publicMCPAddresses_def Let_def split: if_splits)
  have "list_all ?ok allowed" by (simp add: a(1) list_all_iff)
  then show ?thesis using hd_in_set [OF a(2)] a(2) xs by (auto simp: list_all_iff)
qed

section \<open>Unique local IPv6 addresses\<close>

lemma number_of_f: "number_of_string (ch CHR ''f'' # s) = None"
proof -
  let ?f = "ch CHR ''f''"
  have f: "\<not> is_space ?f" "\<not> is_e ?f" "\<not> is_digit ?f" "lower_unit ?f = ?f"
    by (simp_all add: is_space_def is_e_def is_digit_def lower_unit_def is_upper_def)
  have "\<exists>r. js_trim (?f # s) = ?f # r"
  proof -
    have drop: "\<exists>w. dropWhile is_space (u @ [?f]) = w @ [?f]" for u
      using f(1) by (induction u) auto
    have "js_trim (?f # s) = rev (dropWhile is_space (rev s @ [?f]))"
      using f(1) by (simp add: js_trim_def)
    moreover obtain w where "dropWhile is_space (rev s @ [?f]) = w @ [?f]" using drop by blast
    ultimately have "js_trim (?f # s) = ?f # rev w" by simp
    then show ?thesis by blast
  qed
  then obtain r where r: "js_trim (?f # s) = ?f # r" by blast
  have "decimal_literal (?f # r) = None"
    using f by (simp add: decimal_literal_def decimal_digits_def)
  then show ?thesis
    using f(4) by (cases r) (simp_all add: number_of_string_def r [simplified] Let_def to_lower_def)
qed

lemma split_on_first: "c \<noteq> d \<Longrightarrow> \<exists>p ps. split_on d (c # s) = (c # p) # ps"
  by (cases "split_on d s") auto

text \<open>No address of the unique local block fc00::/7 is refused: its first group has four digits, and
  the pattern for it wants the colon after three.\<close>

theorem unique_local_ipv6_accepted:
  assumes "c = ch CHR ''c'' \<or> c = ch CHR ''d''" and "is_hex x" and "is_hex y"
  shows "\<not> isPrivateLiteralAddress (ch CHR ''f'' # c # x # y # ch CHR '':'' # rest)"
proof -
  let ?s = "\<lambda>r. ch CHR ''f'' # c # x # y # ch CHR '':'' # r"
  have "\<exists>r. strip_brackets (?s rest) = ?s r"
    by (cases rest) (auto simp: strip_brackets_def Let_def ends_with_last starts_with_hd)
  then obtain r where r: "strip_brackets (?s rest) = ?s r" by blast
  have "mapped_ipv4 (?s r) = None"
    by (simp add: mapped_ipv4_def Let_def to_lower_def lower_unit_def is_upper_def)
  moreover have "\<not> private_ipv6_prefix (?s r)"
  proof -
    have "lower_unit y \<noteq> ch CHR '':''"
      using assms(3) by (auto simp: is_hex_def is_digit_def lower_unit_def is_upper_def word_le_nat_alt
        unat_arith_simps split: if_splits)
    then show ?thesis
      using assms(1) by (auto simp: private_ipv6_prefix_def to_lower_def lower_unit_def is_upper_def)
  qed
  moreover have "\<not> list_all in_octet (map number_of_string (split_on (ch CHR ''.'') (?s r)))"
    using split_on_first [of "ch CHR ''f''" "ch CHR ''.''" "c # x # y # ch CHR '':'' # r"] number_of_f
    by auto
  ultimately have "\<not> private_literal (?s r)" "mapped_ipv4 (?s r) = None"
    by (simp_all only: private_literal_def Let_def) simp
  then show ?thesis
    by (subst isPrivateLiteralAddress.simps) (simp only: r Let_def option.case not_False_eq_True)
qed

theorem unique_local_ipv6_accepted_witness: "\<not> isPrivateLiteralAddress (js ''fd12:3456::1'')"
  using unique_local_ipv6_accepted [of "ch CHR ''d''" "ch CHR ''1''" "ch CHR ''2''" "js ''3456::1''"]
  by (simp add: is_hex_def is_digit_def)

end
