(* ===== verification/Mcp.thy ===== *)
theory Mcp
  imports Mcp_Address Providers
begin

text \<open>
  The MCP client and the resolution of an agent's MCP tools, \<open>apps/agent-runtime/src/mcp.ts\<close>. A client's
  state is threaded together with the log of all HTTP requests sent so far; the environment says how
  the request with a given position in the log is answered. \<open>JSON.parse\<close> and \<open>new URL\<close> are functions of
  the environment. A thrown \<open>MCPError\<close> is \<open>Inl\<close> with its code.

  The lemmas show that requests only go to the endpoint of the configuration after it has passed the
  check, that a tool is called only if it is allowed and the session is initialised, and what holds of
  the tools a run is given.
\<close>

section \<open>Data\<close>

record mcp_server =
  ms_id :: jstring
  ms_name :: jstring
  ms_endpoint :: jstring
  ms_headers :: "(jstring \<times> jstring) list"
  ms_allowed :: "jstring list"
  ms_confirm :: bool
  ms_max_output :: nat

text \<open>How the exchange broke off: whether the timeout had fired, and whether the caller had aborted.\<close>

datatype broken = Broken bool bool

record mcp_reply =
  mr_status :: nat
  mr_session :: "jstring option"
  mr_length :: "jstring option"
  mr_type :: "jstring option"
  mr_body :: "broken + nat list"

record mcp_request =
  mq_url :: jstring
  mq_headers :: "(jstring \<times> jstring) list"
  mq_body :: json

record mcp_env =
  me_parse :: parse
  me_url :: "jstring \<Rightarrow> url option"
  me_net :: "nat \<Rightarrow> broken + mcp_reply"

record mcp_state =
  cl_session :: "jstring option"
  cl_initialized :: bool
  cl_request_id :: nat
  cl_log :: "mcp_request list"

definition new_client :: "mcp_request list \<Rightarrow> mcp_state" where
  "new_client log = \<lparr>cl_session = None, cl_initialized = False, cl_request_id = 0, cl_log = log\<rparr>"

type_synonym 'a mcp_result = "(jstring + 'a) \<times> mcp_state"

section \<open>Reading a response\<close>

fun isObject :: "json \<Rightarrow> bool" where
  "isObject (JObj kvs) = True"
| "isObject _ = False"

definition responseValue :: "json \<Rightarrow> jstring + json" where
  "responseValue v = (if isObject v then Inr v else Inl (js ''mcp_invalid_response''))"

definition parseJSON :: "mcp_env \<Rightarrow> jstring \<Rightarrow> jstring + json" where
  "parseJSON e body = (case me_parse e body of Some v \<Rightarrow> Inr v | None \<Rightarrow> Inl (js ''mcp_invalid_response''))"

fun first_event :: "mcp_env \<Rightarrow> jstring list \<Rightarrow> jstring + json" where
  "first_event e [] = Inl (js ''mcp_invalid_response'')"
| "first_event e (event # events) =
     (if event_data event \<noteq> [] then parseJSON e (event_data event) else first_event e events)"

definition parseEventStream :: "mcp_env \<Rightarrow> jstring \<Rightarrow> jstring + json" where
  "parseEventStream e body = first_event e (split_events body)"

text \<open>\<open>includes\<close>.\<close>

fun contains :: "'c list \<Rightarrow> 'c list \<Rightarrow> bool" where
  "contains p [] = (p = [])"
| "contains p (c # cs) = (starts_with p (c # cs) \<or> contains p cs)"

text \<open>The catch block; an \<open>MCPError\<close> thrown inside the block passes through it unchanged.\<close>

fun broken_code :: "broken \<Rightarrow> jstring" where
  "broken_code (Broken timed_out aborted) =
     (if timed_out then js ''mcp_timeout'' else if aborted then js ''mcp_aborted''
      else js ''mcp_transport_error'')"

text \<open>A \<open>Content-Length\<close> that is no number compares as false.\<close>

definition declared_too_large :: "mcp_server \<Rightarrow> mcp_reply \<Rightarrow> bool" where
  "declared_too_large s r =
     (case number_of_string (default_to (js ''0'') (mr_length r)) of
        Some n \<Rightarrow> n > int (ms_max_output s) | None \<Rightarrow> False)"

definition read_reply :: "mcp_env \<Rightarrow> mcp_server \<Rightarrow> bool \<Rightarrow> mcp_reply \<Rightarrow> jstring + json option" where
  "read_reply e s notification r =
     (if notification \<and> (mr_status r = 202 \<or> mr_status r = 204) then Inr None
      else if \<not> (200 \<le> mr_status r \<and> mr_status r \<le> 299) then Inl (js ''mcp_http_error'')
      else if declared_too_large s r then Inl (js ''mcp_output_too_large'')
      else
        (case mr_body r of
           Inl b \<Rightarrow> Inl (broken_code b)
         | Inr bytes \<Rightarrow>
             if length bytes > ms_max_output s then Inl (js ''mcp_output_too_large'')
             else if bytes = [] \<and> notification then Inr None
             else
               (let body = decode_all bytes in
                map_sum id Some (bind_result
                  (case mr_type r of
                     Some ct \<Rightarrow> if contains (js ''text/event-stream'') ct then parseEventStream e body
                                else parseJSON e body
                   | None \<Rightarrow> parseJSON e body)
                  responseValue))))"

section \<open>The client\<close>

text \<open>Object spread over the configured headers: an equal key is overwritten in place.\<close>

definition set_header :: "(jstring \<times> jstring) list \<Rightarrow> jstring \<times> jstring \<Rightarrow> (jstring \<times> jstring) list" where
  "set_header hs kv = upsert (fst kv) (\<lambda>_. snd kv) hs"

definition request_headers :: "mcp_server \<Rightarrow> jstring option \<Rightarrow> (jstring \<times> jstring) list" where
  "request_headers s session =
     foldl set_header (ms_headers s)
       ([(js ''Accept'', js ''application/json, text/event-stream''),
         (js ''Content-Type'', js ''application/json''),
         (js ''MCP-Protocol-Version'', js ''2025-03-26'')] @
        (case session of
           Some i \<Rightarrow> if i = [] then [] else [(js ''Mcp-Session-Id'', i)]
         | None \<Rightarrow> []))"

definition send :: "mcp_env \<Rightarrow> mcp_server \<Rightarrow> json \<Rightarrow> bool \<Rightarrow> mcp_state \<Rightarrow> json option mcp_result" where
  "send e s payload notification c =
     (if \<not> assertSafeMCPEndpoint (me_url e (ms_endpoint s))
      then (Inl (js ''mcp_endpoint_forbidden''), c)
      else
        (let reply = me_net e (length (cl_log c));
             c1 = c\<lparr>cl_log := cl_log c @
                      [\<lparr>mq_url = ms_endpoint s, mq_headers = request_headers s (cl_session c),
                        mq_body = payload\<rparr>]\<rparr>
         in case reply of
              Inl b \<Rightarrow> (Inl (broken_code b), c1)
            | Inr r \<Rightarrow>
                (read_reply e s notification r,
                 (case mr_session r of
                    Some i \<Rightarrow> if i = [] then c1 else c1\<lparr>cl_session := Some i\<rparr>
                  | None \<Rightarrow> c1))))"

definition rpc :: "nat \<Rightarrow> jstring \<Rightarrow> json \<Rightarrow> json" where
  "rpc i method params =
     JObj [(js ''jsonrpc'', JStr (js ''2.0'')), (js ''id'', JNum (int i)), (js ''method'', JStr method),
           (js ''params'', params)]"

definition rpc_result :: "nat \<Rightarrow> json option \<Rightarrow> jstring + json option" where
  "rpc_result i response =
     (case response of
        None \<Rightarrow> Inl (js ''mcp_invalid_response'')
      | Some v \<Rightarrow>
          if get (js ''id'') v \<noteq> Some (JNum (int i)) then Inl (js ''mcp_invalid_response'')
          else if json_truthy (get (js ''error'') v) then Inl (js ''mcp_rpc_error'')
          else Inr (get (js ''result'') v))"

definition request :: "mcp_env \<Rightarrow> mcp_server \<Rightarrow> jstring \<Rightarrow> json \<Rightarrow> mcp_state \<Rightarrow> json option mcp_result" where
  "request e s method params c =
     (let i = cl_request_id c + 1;
          (r, c1) = send e s (rpc i method params) False (c\<lparr>cl_request_id := i\<rparr>)
      in (bind_result r (rpc_result i), c1))"

definition notify :: "mcp_env \<Rightarrow> mcp_server \<Rightarrow> jstring \<Rightarrow> mcp_state \<Rightarrow> unit mcp_result" where
  "notify e s method c =
     (let (r, c1) = send e s (JObj [(js ''jsonrpc'', JStr (js ''2.0'')), (js ''method'', JStr method)]) True c
      in (map_sum id (\<lambda>_. ()) r, c1))"

definition initialize_params :: json where
  "initialize_params =
     JObj [(js ''protocolVersion'', JStr (js ''2025-03-26'')), (js ''capabilities'', JObj []),
           (js ''clientInfo'', JObj [(js ''name'', JStr (js ''comamessenger-agent-runtime'')),
                                     (js ''version'', JStr (js ''0.1.0''))])]"

definition initialize :: "mcp_env \<Rightarrow> mcp_server \<Rightarrow> mcp_state \<Rightarrow> unit mcp_result" where
  "initialize e s c =
     (if cl_initialized c then (Inr (), c)
      else
        (case request e s (js ''initialize'') initialize_params c of
           (Inl x, c1) \<Rightarrow> (Inl x, c1)
         | (Inr _, c1) \<Rightarrow>
             (case notify e s (js ''notifications/initialized'') c1 of
                (Inl x, c2) \<Rightarrow> (Inl x, c2)
              | (Inr _, c2) \<Rightarrow> (Inr (), c2\<lparr>cl_initialized := True\<rparr>))))"

fun tool_objects :: "json option \<Rightarrow> json list" where
  "tool_objects (Some (JArr vs)) = filter isObject vs"
| "tool_objects _ = []"

definition listTools :: "mcp_env \<Rightarrow> mcp_server \<Rightarrow> mcp_state \<Rightarrow> json list mcp_result" where
  "listTools e s c =
     (case initialize e s c of
        (Inl x, c1) \<Rightarrow> (Inl x, c1)
      | (Inr _, c1) \<Rightarrow>
          (let (r, c2) = request e s (js ''tools/list'') (JObj []) c1
           in (map_sum id (\<lambda>v. tool_objects (get (js ''tools'') (objectValue v))) r, c2)))"

definition callTool :: "mcp_env \<Rightarrow> mcp_server \<Rightarrow> jstring \<Rightarrow> json \<Rightarrow> mcp_state \<Rightarrow> json option mcp_result" where
  "callTool e s name arguments c =
     (if name \<notin> set (ms_allowed s) then (Inl (js ''mcp_tool_not_allowed''), c)
      else
        (case initialize e s c of
           (Inl x, c1) \<Rightarrow> (Inl x, c1)
         | (Inr _, c1) \<Rightarrow>
             request e s (js ''tools/call'')
               (JObj [(js ''name'', JStr name), (js ''arguments'', arguments)]) c1))"

section \<open>Tool names\<close>

text \<open>\<open>/^[A-Za-z0-9][A-Za-z0-9_-]{0,63}$/\<close>.\<close>

definition tool_name_char :: "cunit \<Rightarrow> bool" where
  "tool_name_char c \<longleftrightarrow> is_alnum c \<or> c = ch CHR ''_'' \<or> c = ch CHR ''-''"

definition is_tool_name :: "jstring \<Rightarrow> bool" where
  "is_tool_name s \<longleftrightarrow>
     (case s of [] \<Rightarrow> False | c # cs \<Rightarrow> is_alnum c \<and> length cs \<le> 63 \<and> list_all tool_name_char cs)"

definition isCompatibleTool :: "json \<Rightarrow> jstring option" where
  "isCompatibleTool tool =
     (case get (js ''name'') tool of
        Some (JStr name) \<Rightarrow> if is_tool_name name then Some name else None
      | _ \<Rightarrow> None)"

unbundle bit_operations_syntax

text \<open>The loop works on signed 32-bit integers with the same bits.\<close>

definition fnv1a_step :: "32 word \<Rightarrow> cunit \<Rightarrow> 32 word" where
  "fnv1a_step hash c = (hash XOR ucast c) * 0x01000193"

fun show_hex :: "nat \<Rightarrow> jstring" where
  "show_hex n = (if n < 16 then [lower_hex n] else show_hex (n div 16) @ [lower_hex (n mod 16)])"

declare show_hex.simps [simp del]

definition padStart :: "nat \<Rightarrow> cunit \<Rightarrow> jstring \<Rightarrow> jstring" where
  "padStart n c s = replicate (n - length s) c @ s"

definition fnv1a :: "jstring \<Rightarrow> jstring" where
  "fnv1a value = padStart 8 (ch CHR ''0'') (show_hex (unat (foldl fnv1a_step 0x811c9dc5 value)))"

definition namespacedToolName :: "jstring \<Rightarrow> jstring \<Rightarrow> jstring" where
  "namespacedToolName server tool =
     (let plain = js ''mcp__'' @ server @ js ''__'' @ tool in
      if length plain \<le> 64 then plain
      else js ''mcp__'' @ js_slice server 0 18 @ js ''__'' @ js_slice tool 0 25 @ js ''__'' @ fnv1a plain)"

section \<open>Resolution\<close>

record resolved_tool =
  rt_definition :: provider_tool
  rt_server :: jstring
  rt_tool :: jstring
  rt_write :: bool
  rt_config :: mcp_server

definition read_only :: "json \<Rightarrow> bool" where
  "read_only tool \<longleftrightarrow>
     (case get (js ''annotations'') tool of
        Some a \<Rightarrow> get (js ''readOnlyHint'') a = Some (JBool True) | None \<Rightarrow> False)"

definition tool_description :: "mcp_server \<Rightarrow> json \<Rightarrow> jstring \<Rightarrow> jstring" where
  "tool_description s tool name =
     js ''[MCP:'' @ ms_name s @ js ''] '' @
     (case get (js ''description'') tool of Some (JStr d) \<Rightarrow> d | _ \<Rightarrow> name)"

definition tool_schema :: "json \<Rightarrow> json" where
  "tool_schema tool =
     (case get (js ''inputSchema'') tool of
        Some (JObj kvs) \<Rightarrow> JObj kvs
      | _ \<Rightarrow> JObj [(js ''type'', JStr (js ''object'')), (js ''additionalProperties'', JBool True)])"

definition resolve_one :: "mcp_server \<Rightarrow> json \<Rightarrow> (jstring \<times> resolved_tool) option" where
  "resolve_one s tool =
     (case isCompatibleTool tool of
        None \<Rightarrow> None
      | Some name \<Rightarrow>
          if name \<notin> set (ms_allowed s) then None
          else if ms_confirm s \<and> \<not> read_only tool then None
          else
            (let exposed = namespacedToolName (ms_name s) name in
             Some (exposed,
               \<lparr>rt_definition = \<lparr>pt_name = exposed, pt_description = tool_description s tool name,
                                 pt_schema = tool_schema tool\<rparr>,
                rt_server = ms_id s, rt_tool = name, rt_write = (\<not> read_only tool), rt_config = s\<rparr>)))"

type_synonym tool_map = "(jstring \<times> resolved_tool) list"

fun resolve_tools :: "mcp_server \<Rightarrow> json list \<Rightarrow> tool_map \<Rightarrow> jstring + tool_map" where
  "resolve_tools s [] resolved = Inr resolved"
| "resolve_tools s (tool # tools) resolved =
     (case resolve_one s tool of
        None \<Rightarrow> resolve_tools s tools resolved
      | Some (exposed, t) \<Rightarrow>
          if exposed \<in> set (map fst resolved) then Inl (js ''mcp_tool_name_collision'')
          else resolve_tools s tools (resolved @ [(exposed, t)]))"

fun resolve_servers ::
  "mcp_env \<Rightarrow> mcp_server list \<Rightarrow> tool_map \<Rightarrow> mcp_request list \<Rightarrow> (jstring + tool_map) \<times> mcp_request list" where
  "resolve_servers e [] resolved log = (Inr resolved, log)"
| "resolve_servers e (s # ss) resolved log =
     (case listTools e s (new_client log) of
        (Inl x, c) \<Rightarrow> (Inl x, cl_log c)
      | (Inr tools, c) \<Rightarrow>
          (case resolve_tools s tools resolved of
             Inl x \<Rightarrow> (Inl x, cl_log c)
           | Inr resolved' \<Rightarrow> resolve_servers e ss resolved' (cl_log c)))"

definition resolveMCPTools :: "mcp_env \<Rightarrow> mcp_server list \<Rightarrow> (jstring + tool_map) \<times> mcp_request list" where
  "resolveMCPTools e configurations = resolve_servers e configurations [] []"

section \<open>Requests\<close>

definition safe_request :: "mcp_env \<Rightarrow> mcp_server \<Rightarrow> mcp_request \<Rightarrow> bool" where
  "safe_request e s q \<longleftrightarrow> mq_url q = ms_endpoint s \<and> assertSafeMCPEndpoint (me_url e (ms_endpoint s))"

definition methods :: "mcp_request list \<Rightarrow> json option list" where
  "methods qs = map (\<lambda>q. get (js ''method'') (mq_body q)) qs"

text \<open>\<open>sends e s ms c c'\<close>: from \<open>c\<close> to \<open>c'\<close> the client has sent requests with these methods, all to its
  checked endpoint.\<close>

definition sends :: "mcp_env \<Rightarrow> mcp_server \<Rightarrow> jstring list \<Rightarrow> mcp_state \<Rightarrow> mcp_state \<Rightarrow> bool" where
  "sends e s ms c c' \<longleftrightarrow>
     (\<exists>qs. cl_log c' = cl_log c @ qs \<and> methods qs = map (Some \<circ> JStr) ms \<and> list_all (safe_request e s) qs)"

lemma sends_refl: "cl_log c' = cl_log c \<Longrightarrow> sends e s [] c c'"
  by (simp add: sends_def methods_def)

lemma sends_trans: "sends e s ms c c' \<Longrightarrow> sends e s ns c' c'' \<Longrightarrow> sends e s (ms @ ns) c c''"
  unfolding sends_def
proof (elim exE conjE)
  fix qs rs
  assume "cl_log c' = cl_log c @ qs" "cl_log c'' = cl_log c' @ rs"
    "methods qs = map (Some \<circ> JStr) ms" "methods rs = map (Some \<circ> JStr) ns"
    "list_all (safe_request e s) qs" "list_all (safe_request e s) rs"
  then show "\<exists>qs. cl_log c'' = cl_log c @ qs \<and> methods qs = map (Some \<circ> JStr) (ms @ ns) \<and>
      list_all (safe_request e s) qs"
    by (intro exI [of _ "qs @ rs"]) (simp add: methods_def)
qed

lemma send_sends:
  assumes "send e s payload b c = (r, c')" and "get (js ''method'') payload = Some (JStr m)"
  shows "cl_initialized c' = cl_initialized c \<and>
    (sends e s [m] c c' \<or> sends e s [] c c' \<and> r = Inl (js ''mcp_endpoint_forbidden''))"
proof (cases "assertSafeMCPEndpoint (me_url e (ms_endpoint s))")
  case False
  with assms(1) show ?thesis by (simp add: send_def sends_refl)
next
  case True
  define q where "q = \<lparr>mq_url = ms_endpoint s, mq_headers = request_headers s (cl_session c), mq_body = payload\<rparr>"
  have "cl_log c' = cl_log c @ [q] \<and> cl_initialized c' = cl_initialized c"
    using assms(1) True unfolding send_def q_def [symmetric]
    by (cases "me_net e (length (cl_log c))") (auto simp: Let_def split: option.splits if_splits)
  moreover have "methods [q] = map (Some \<circ> JStr) [m]" "list_all (safe_request e s) [q]"
    using True assms(2) by (simp_all add: q_def methods_def safe_request_def)
  ultimately show ?thesis unfolding sends_def by blast
qed

lemma request_sends:
  assumes "request e s m params c = (r, c')"
  shows "cl_initialized c' = cl_initialized c \<and>
    (sends e s [m] c c' \<or> sends e s [] c c' \<and> r = Inl (js ''mcp_endpoint_forbidden''))"
proof -
  let ?i = "cl_request_id c + 1"
  obtain r1 where r1: "send e s (rpc ?i m params) False (c\<lparr>cl_request_id := ?i\<rparr>) = (r1, c')"
      "r = bind_result r1 (rpc_result ?i)"
    using assms by (auto simp: request_def Let_def split: prod.splits)
  have "get (js ''method'') (rpc ?i m params) = Some (JStr m)" by (simp add: rpc_def)
  from send_sends [OF r1(1) this] r1(2) show ?thesis by (auto simp: sends_def)
qed

lemma notify_sends:
  assumes "notify e s m c = (r, c')"
  shows "cl_initialized c' = cl_initialized c \<and>
    (sends e s [m] c c' \<or> sends e s [] c c' \<and> r = Inl (js ''mcp_endpoint_forbidden''))"
proof -
  let ?p = "JObj [(js ''jsonrpc'', JStr (js ''2.0'')), (js ''method'', JStr m)]"
  obtain r1 where r1: "send e s ?p True c = (r1, c')" "r = map_sum id (\<lambda>_. ()) r1"
    using assms by (auto simp: notify_def split: prod.splits)
  from send_sends [OF r1(1), of m] r1(2) show ?thesis by auto
qed

definition handshake :: "mcp_state \<Rightarrow> jstring list" where
  "handshake c = (if cl_initialized c then [] else [js ''initialize'', js ''notifications/initialized''])"

lemma prefix_of_two:
  assumes "P [] \<or> P [a] \<or> P [a, b]"
  shows "\<exists>ms. P ms \<and> (\<exists>k. ms = take k [a, b])"
proof -
  have "take 0 [a, b] = []" "take 1 [a, b] = [a]" "take 2 [a, b] = [a, b]" by simp_all
  with assms show ?thesis by metis
qed

lemma initialize_sends:
  assumes "initialize e s c = (r, c')"
  shows "\<exists>ms. sends e s ms c c' \<and>
    (case r of Inl x \<Rightarrow> (\<exists>k. ms = take k (handshake c)) | Inr _ \<Rightarrow> ms = handshake c \<and> cl_initialized c')"
proof (cases "cl_initialized c")
  case True
  with assms show ?thesis by (auto simp: initialize_def handshake_def sends_refl)
next
  case False
  define i n where "i = js ''initialize''" and "n = js ''notifications/initialized''"
  obtain r1 c1 where r1: "request e s i initialize_params c = (r1, c1)" by fastforce
  obtain r2 c2 where r2: "notify e s n c1 = (r2, c2)" by fastforce
  note s1 = request_sends [OF r1]
  note s2 = notify_sends [OF r2]
  have hs: "handshake c = [i, n]" using False by (simp add: handshake_def i_def n_def)
  have res: "(r, c') = (case r1 of Inl x \<Rightarrow> (Inl x, c1) | Inr _ \<Rightarrow>
      (case r2 of Inl x \<Rightarrow> (Inl x, c2) | Inr _ \<Rightarrow> (Inr (), c2\<lparr>cl_initialized := True\<rparr>)))"
    using assms False r1 r2 unfolding initialize_def i_def [symmetric] n_def [symmetric]
    by (cases r1; cases r2) auto
  show ?thesis
  proof (cases r1)
    case (Inl x)
    then have "\<exists>ms. sends e s ms c c1 \<and> (\<exists>k. ms = take k [i, n])"
      using s1 by (intro prefix_of_two) blast
    then show ?thesis using res Inl by (simp add: hs)
  next
    case (Inr v)
    then have i1: "sends e s [i] c c1" using s1 by simp
    show ?thesis
    proof (cases r2)
      case (Inl x)
      have "sends e s ([i] @ [n]) c c2 \<or> sends e s ([i] @ []) c c2"
        using s2 sends_trans [OF i1] by blast
      then have "\<exists>ms. sends e s ms c c2 \<and> (\<exists>k. ms = take k [i, n])"
        by (intro prefix_of_two) auto
      then show ?thesis using res Inl \<open>r1 = Inr v\<close> by (simp add: hs)
    next
      case (Inr u)
      then have "sends e s ([i] @ [n]) c c2" using s2 sends_trans [OF i1] by simp
      then have "sends e s [i, n] c (c2\<lparr>cl_initialized := True\<rparr>)" by (simp add: sends_def)
      then show ?thesis using res Inr \<open>r1 = Inr v\<close> by (simp add: hs)
    qed
  qed
qed

text \<open>C17: A tool call sends its requests only to the checked endpoint of the server and in the order of the
  protocol: the handshake if the session has none yet, then the call, each at most once; a tool that
  is not allowed sends nothing; and a result means that the whole sequence was sent.\<close>

theorem tool_call_follows_the_protocol:
  assumes "callTool e s name args c = (r, c')"
  shows "\<exists>k. sends e s (take k (handshake c @ [js ''tools/call''])) c c' \<and>
    (name \<notin> set (ms_allowed s) \<longrightarrow> k = 0 \<and> r = Inl (js ''mcp_tool_not_allowed'')) \<and>
    (isl r \<or> length (handshake c) < k)"
proof (cases "name \<in> set (ms_allowed s)")
  case False
  with assms have "r = Inl (js ''mcp_tool_not_allowed'')" "c' = c" by (auto simp: callTool_def)
  then show ?thesis by (intro exI [of _ 0]) (simp add: sends_refl)
next
  case True
  define t where "t = js ''tools/call''"
  obtain i c1 where i: "initialize e s c = (i, c1)" by fastforce
  obtain ms where ms: "sends e s ms c c1"
      "case i of Inl x \<Rightarrow> \<exists>k. ms = take k (handshake c) | Inr _ \<Rightarrow> ms = handshake c \<and> cl_initialized c1"
    using initialize_sends [OF i] by blast
  have "\<exists>k. sends e s (take k (handshake c @ [t])) c c' \<and> (isl r \<or> length (handshake c) < k)"
  proof (cases i)
    case (Inl x)
    then obtain k where k: "ms = take k (handshake c)" using ms(2) by auto
    then have "ms = take (min k (length (handshake c))) (handshake c @ [t])"
      by (cases "k \<le> length (handshake c)") (simp_all add: min_def)
    moreover have "r = Inl x" "c' = c1" using assms i Inl True by (auto simp: callTool_def)
    ultimately show ?thesis using ms(1) by (metis sum.disc(1))
  next
    case (Inr u)
    have req: "request e s t (JObj [(js ''name'', JStr name), (js ''arguments'', args)]) c1 = (r, c')"
      using assms i Inr True by (simp add: callTool_def t_def)
    have hs: "ms = handshake c" using ms(2) Inr by simp
    show ?thesis
    proof (cases "sends e s [t] c1 c'")
      case True
      with sends_trans [OF ms(1)] hs have "sends e s (handshake c @ [t]) c c'" by blast
      then show ?thesis by (intro exI [of _ "length (handshake c) + 1"]) simp
    next
      case False
      then have "sends e s [] c1 c'" "isl r" using request_sends [OF req] by auto
      with sends_trans [OF ms(1)] hs have "sends e s (handshake c @ []) c c'" by blast
      then show ?thesis using \<open>isl r\<close> by (intro exI [of _ "length (handshake c)"]) simp
    qed
  qed
  with True show ?thesis by (simp add: t_def)
qed

text \<open>A server and a session for the examples.\<close>

definition example_server :: mcp_server where
  "example_server = \<lparr>ms_id = js ''1'', ms_name = js ''docs'', ms_endpoint = js ''https://mcp.example'',
     ms_headers = [], ms_allowed = [js ''find''], ms_confirm = True, ms_max_output = 1000\<rparr>"

definition example_env :: mcp_env where
  "example_env = \<lparr>me_parse = (\<lambda>_. Some (JObj [(js ''id'', JNum 1), (js ''result'', JBool True)])),
     me_url = (\<lambda>_. Some \<lparr>ur_protocol = js ''https:'', ur_username = [], ur_password = [],
       ur_hostname = js ''mcp.example''\<rparr>),
     me_net = (\<lambda>_. Inr \<lparr>mr_status = 200, mr_session = None, mr_length = None, mr_type = None,
       mr_body = Inr [123, 125]\<rparr>)\<rparr>"

theorem tool_call_follows_the_protocol_witness:
  "\<exists>k. sends example_env example_server (take k [js ''initialize'', js ''notifications/initialized'', js ''tools/call''])
     (new_client []) (snd (callTool example_env example_server (js ''find'') (JObj []) (new_client [])))"
  using tool_call_follows_the_protocol [of example_env example_server "js ''find''" "JObj []" "new_client []"
      "fst (callTool example_env example_server (js ''find'') (JObj []) (new_client []))"
      "snd (callTool example_env example_server (js ''find'') (JObj []) (new_client []))"]
  by (auto simp: handshake_def new_client_def)

section \<open>The tools of a run\<close>

lemma length_show_hex: "0 < k \<Longrightarrow> n < 16 ^ k \<Longrightarrow> length (show_hex n) \<le> k"
proof (induction k arbitrary: n)
  case (Suc k)
  show ?case
  proof (cases "n < 16")
    case False
    with Suc.prems have "0 < k" by (cases k) auto
    moreover have "n div 16 < 16 ^ k" using Suc.prems by (simp add: less_mult_imp_div_less mult.commute)
    ultimately show ?thesis using Suc.IH False by (subst show_hex.simps) simp
  qed (subst show_hex.simps, simp)
qed simp

lemma length_fnv1a: "length (fnv1a v) = 8"
proof -
  have "unat (w :: 32 word) < 16 ^ 8" for w using unsigned_less [of w] by simp
  then have "length (show_hex (unat (w :: 32 word))) \<le> 8" for w by (intro length_show_hex) auto
  then show ?thesis by (simp add: fnv1a_def padStart_def)
qed

lemma tool_char_hex: "n < 16 \<Longrightarrow> tool_name_char (lower_hex n)"
  by (auto simp: lower_hex_def tool_name_char_def is_alnum_def is_digit_def is_lower_def
      word_le_nat_alt unat_of_nat simp del: of_nat_add)

lemma tool_chars_show_hex: "list_all tool_name_char (show_hex n)"
proof (induction n rule: show_hex.induct)
  case (1 n)
  then show ?case by (subst show_hex.simps) (simp add: tool_char_hex)
qed

lemma tool_chars_fnv1a: "list_all tool_name_char (fnv1a v)"
  using tool_chars_show_hex
  by (auto simp: fnv1a_def padStart_def list_all_iff) (simp add: tool_name_char_def is_alnum_def is_digit_def)

lemma list_all_js_slice: "list_all P s \<Longrightarrow> list_all P (js_slice s i j)"
  by (auto simp: js_slice_def list_all_iff dest: in_set_takeD in_set_dropD)

lemma namespaced_name:
  "length (namespacedToolName server tool) \<le> 64"
  "list_all tool_name_char server \<Longrightarrow> list_all tool_name_char tool \<Longrightarrow>
     list_all tool_name_char (namespacedToolName server tool)"
proof -
  have "length (js_slice s 0 n) \<le> nat n" if "0 \<le> n" for s :: jstring and n
    using that by (simp add: js_slice_def js_clamp_def)
  from this [of 18 server] this [of 25 tool] show "length (namespacedToolName server tool) \<le> 64"
    by (simp add: namespacedToolName_def Let_def length_fnv1a)
  have lits: "list_all tool_name_char (js ''mcp__'')" "list_all tool_name_char (js ''__'')"
    by (simp_all add: tool_name_char_def is_alnum_def is_lower_def)
  assume "list_all tool_name_char server" "list_all tool_name_char tool"
  then show "list_all tool_name_char (namespacedToolName server tool)"
    using lits by (simp only: namespacedToolName_def Let_def list_all_append list_all_js_slice
        tool_chars_fnv1a if_split) simp
qed

text \<open>What a run may rely on for one of its tools, given the servers of the agent.\<close>

definition tool_ok :: "mcp_server list \<Rightarrow> jstring \<times> resolved_tool \<Rightarrow> bool" where
  "tool_ok servers nt \<longleftrightarrow>
     (let t = snd nt; s = rt_config t in
      s \<in> set servers \<and> rt_server t = ms_id s \<and> rt_tool t \<in> set (ms_allowed s) \<and>
      (ms_confirm s \<longrightarrow> \<not> rt_write t) \<and>
      fst nt = pt_name (rt_definition t) \<and> length (fst nt) \<le> 64 \<and>
      (list_all tool_name_char (ms_name s) \<longrightarrow> list_all tool_name_char (fst nt)))"

lemma tool_name_chars: "is_tool_name s \<Longrightarrow> list_all tool_name_char s"
  by (cases s) (auto simp: is_tool_name_def tool_name_char_def)

lemma resolve_one_ok:
  assumes "resolve_one s tool = Some nt" and "s \<in> set servers"
  shows "tool_ok servers nt"
  using assms namespaced_name tool_name_chars
  by (auto simp: resolve_one_def isCompatibleTool_def tool_ok_def Let_def
      split: option.splits json.splits if_splits)

lemma resolve_tools_ok:
  assumes "resolve_tools s tools resolved = Inr resolved'" and "s \<in> set servers"
    and "distinct (map fst resolved)" and "list_all (tool_ok servers) resolved"
  shows "distinct (map fst resolved') \<and> list_all (tool_ok servers) resolved'"
  using assms(1,3,4)
proof (induction tools arbitrary: resolved)
  case (Cons tool tools)
  show ?case
  proof (cases "resolve_one s tool")
    case (Some nt)
    obtain n t where nt: "nt = (n, t)" by fastforce
    then have "n \<notin> set (map fst resolved)" "resolve_tools s tools (resolved @ [(n, t)]) = Inr resolved'"
      using Cons.prems(1) Some by (simp_all split: if_splits)
    moreover have "tool_ok servers (n, t)" using resolve_one_ok [OF Some assms(2)] nt by simp
    ultimately show ?thesis using Cons.IH Cons.prems by simp
  qed (use Cons in simp)
qed simp

definition log_safe :: "mcp_env \<Rightarrow> mcp_server list \<Rightarrow> mcp_request list \<Rightarrow> bool" where
  "log_safe e servers log \<longleftrightarrow> list_all (\<lambda>q. list_ex (\<lambda>s. safe_request e s q) servers) log"

lemma sends_log_safe:
  "sends e s ms c c' \<Longrightarrow> s \<in> set servers \<Longrightarrow> log_safe e servers (cl_log c) \<Longrightarrow> log_safe e servers (cl_log c')"
  by (auto simp: sends_def log_safe_def list_all_iff list_ex_iff)

lemma listTools_log_safe:
  assumes "listTools e s c = (r, c')" and "s \<in> set servers" and "log_safe e servers (cl_log c)"
  shows "log_safe e servers (cl_log c')"
proof -
  obtain i c1 where i: "initialize e s c = (i, c1)" by fastforce
  have c1: "log_safe e servers (cl_log c1)"
    using initialize_sends [OF i] sends_log_safe [OF _ assms(2,3)] by blast
  show ?thesis
  proof (cases i)
    case (Inl x)
    then show ?thesis using assms(1) i c1 by (simp add: listTools_def)
  next
    case (Inr u)
    obtain q c2 where q: "request e s (js ''tools/list'') (JObj []) c1 = (q, c2)" by fastforce
    then have "c' = c2" using assms(1) i Inr by (simp add: listTools_def)
    then show ?thesis using request_sends [OF q] sends_log_safe [OF _ assms(2) c1] by blast
  qed
qed

lemma resolve_servers_ok:
  assumes "resolve_servers e ss resolved log = (r, log')" and "set ss \<subseteq> set servers"
    and "distinct (map fst resolved)" and "list_all (tool_ok servers) resolved" and "log_safe e servers log"
  shows "log_safe e servers log' \<and>
    (case r of Inl x \<Rightarrow> True | Inr tools \<Rightarrow> distinct (map fst tools) \<and> list_all (tool_ok servers) tools)"
  using assms
proof (induction ss arbitrary: resolved log)
  case (Cons s ss)
  have s: "s \<in> set servers" using Cons.prems(2) by simp
  obtain l c where l: "listTools e s (new_client log) = (l, c)" by fastforce
  have c: "log_safe e servers (cl_log c)"
    using listTools_log_safe [OF l s] Cons.prems(5) by (simp add: new_client_def)
  show ?case
  proof (cases l)
    case (Inl x)
    then show ?thesis using Cons.prems(1) l c by auto
  next
    case (Inr tools)
    show ?thesis
    proof (cases "resolve_tools s tools resolved")
      case (Inl x)
      then have "r = Inl x" "log' = cl_log c" using Cons.prems(1) l \<open>l = Inr tools\<close> by simp_all
      then show ?thesis using c by simp
    next
      case (Inr resolved')
      then have "distinct (map fst resolved') \<and> list_all (tool_ok servers) resolved'"
        using resolve_tools_ok [OF _ s] Cons.prems(3,4) by blast
      then show ?thesis
        using Cons.IH [of resolved' "cl_log c"] Cons.prems(1,2) l c Inr \<open>l = Inr tools\<close> by simp
    qed
  qed
qed auto

fun resolution_ok :: "mcp_server list \<Rightarrow> jstring + tool_map \<Rightarrow> bool" where
  "resolution_ok servers (Inl x) \<longleftrightarrow> True"
| "resolution_ok servers (Inr tools) \<longleftrightarrow> distinct (map fst tools) \<and> list_all (tool_ok servers) tools"

text \<open>C18: Whatever the MCP servers answer, a run gets tools with different names of at most 64 characters,
  each allowed by the configuration of its server, and none that writes where the server demands
  confirmation; and all requests go to checked endpoints of configured servers.\<close>

theorem resolved_tools_are_allowed:
  "resolution_ok servers (fst (resolveMCPTools e servers)) \<and>
   log_safe e servers (snd (resolveMCPTools e servers))"
proof -
  obtain r log where r: "resolve_servers e servers [] [] = (r, log)" by fastforce
  from resolve_servers_ok [OF this subset_refl] show ?thesis
    by (cases r) (simp_all add: resolveMCPTools_def r log_safe_def)
qed

end
