(* ===== verification/Connection.thy ===== *)
theory Connection
  imports Types Mcp_Address
begin

text \<open>
  The agent runtime's event connection to the core, \<open>AgentConnectionManager\<close> of
  \<open>apps/agent-runtime/src/connection.ts\<close>, and the environment and provider names that \<open>index.ts\<close> of the
  same directory starts it with.

  As in \<open>Realtime\<close>, a method or callback runs without interruption up to its next \<open>await\<close>; the rest is a
  task that \<open>Resolve\<close> resumes with the outcome of its promise, and a pending reconnect timer is a task
  too. Sockets are numbered. A rejection that nothing catches is the effect \<open>Unhandled\<close>.

  The lemmas show which sequence numbers are acknowledged and that a running connection always has a
  socket, an attempt or a timer.
\<close>

section \<open>State\<close>

datatype socket_state = SConnecting | SOpen | SClosing | SClosed

text \<open>Incoming frames by their \<open>op\<close>; the numbers are the results of \<open>Number\<close>, the texts of \<open>ErrorF\<close> are
  \<open>None\<close> where the frame has no string.\<close>

datatype core_frame =
    InvalidF
  | HelloF
  | EventF jsnum
  | ResyncF jsnum
  | ErrorF "jstring option" "jstring option" bool
  | OtherF

datatype agent_effect =
    AgentAuth nat int
  | AgentFrame nat json
  | AgentAck nat jsnum
  | SocketOpened nat int
  | EventStored jsnum
  | ResyncStored jsnum
  | ProtocolError jstring jstring bool
  | DelaySet int
  | Unhandled

datatype agent_task =
    GetCheckpoint
  | Timer
  | RunHandler jsnum
  | StoreEvent jsnum
  | StoreResync jsnum

record connection =
  co_stopped :: bool
  co_attempt :: nat
  co_lastAck :: jsnum
  co_socket :: "nat option"
  co_sockets :: "(socket_state \<times> int) list"
  co_tasks :: "agent_task list"
  co_log :: "agent_effect list"

definition connection_manager :: connection where
  "connection_manager =
     \<lparr>co_stopped = True, co_attempt = 0, co_lastAck = Num 0, co_socket = None, co_sockets = [],
      co_tasks = [], co_log = []\<rparr>"

definition did :: "agent_effect \<Rightarrow> connection \<Rightarrow> connection" where
  "did e c = c\<lparr>co_log := co_log c @ [e]\<rparr>"

definition later :: "agent_task \<Rightarrow> connection \<Rightarrow> connection" where
  "later t c = c\<lparr>co_tasks := co_tasks c @ [t]\<rparr>"

definition socket_state :: "nat \<Rightarrow> connection \<Rightarrow> socket_state" where
  "socket_state i c = (if i < length (co_sockets c) then fst (co_sockets c ! i) else SClosed)"

definition set_socket :: "nat \<Rightarrow> socket_state \<Rightarrow> connection \<Rightarrow> connection" where
  "set_socket i x c = c\<lparr>co_sockets := (co_sockets c)[i := (x, snd (co_sockets c ! i))]\<rparr>"

text \<open>\<open>this.socket?.close()\<close>.\<close>

definition close_current :: "connection \<Rightarrow> connection" where
  "close_current c =
     (case co_socket c of
        Some i \<Rightarrow> if socket_state i c = SConnecting \<or> socket_state i c = SOpen then set_socket i SClosing c else c
      | None \<Rightarrow> c)"

text \<open>\<open>this.socket?.send(\<dots>)\<close> without a look at the state: sending over a connecting socket throws, over a
  closing or closed one does nothing.\<close>

definition send_ack :: "connection \<Rightarrow> connection" where
  "send_ack c =
     (case co_socket c of
        Some i \<Rightarrow>
          (case socket_state i c of
             SConnecting \<Rightarrow> did Unhandled c
           | SOpen \<Rightarrow> did (AgentAck i (co_lastAck c)) c
           | _ \<Rightarrow> c)
      | None \<Rightarrow> c)"

definition send_frame :: "json \<Rightarrow> connection \<Rightarrow> connection" where
  "send_frame f c =
     (case co_socket c of
        Some i \<Rightarrow> if socket_state i c = SOpen then did (AgentFrame i f) c else c
      | None \<Rightarrow> c)"

section \<open>Frames of a run\<close>

record run_ref =
  rf_run :: jstring
  rf_lease :: jstring
  rf_chat :: jstring
  rf_thread :: "jstring option"

definition null_or :: "jstring option \<Rightarrow> json" where
  "null_or v = (case v of None \<Rightarrow> JNull | Some s \<Rightarrow> JStr s)"

definition agentStatus :: "run_ref \<Rightarrow> jstring \<Rightarrow> connection \<Rightarrow> connection" where
  "agentStatus r state c =
     send_frame (JObj [(js ''op'', JStr (js ''agent.status'')), (js ''run_id'', JStr (rf_run r)),
       (js ''lease_token'', JStr (rf_lease r)), (js ''chat_id'', JStr (rf_chat r)),
       (js ''thread_root_id'', null_or (rf_thread r)), (js ''state'', JStr state)]) c"

definition messageStreaming ::
  "run_ref \<Rightarrow> jstring \<Rightarrow> nat \<Rightarrow> jstring \<Rightarrow> bool \<Rightarrow> bool \<Rightarrow> connection \<Rightarrow> connection" where
  "messageStreaming r stream index delta reset finished c =
     send_frame (JObj [(js ''op'', JStr (js ''message.streaming'')), (js ''run_id'', JStr (rf_run r)),
       (js ''lease_token'', JStr (rf_lease r)), (js ''chat_id'', JStr (rf_chat r)),
       (js ''thread_root_id'', null_or (rf_thread r)), (js ''stream_id'', JStr stream),
       (js ''index'', JNum (int index)), (js ''delta'', JStr delta), (js ''reset'', JBool reset),
       (js ''done'', JBool finished)]) c"

section \<open>Connecting\<close>

definition connect :: "connection \<Rightarrow> connection" where
  "connect c = (if co_stopped c then c else later GetCheckpoint c)"

definition start :: "connection \<Rightarrow> connection" where
  "start c = (if \<not> co_stopped c then c else connect (c\<lparr>co_stopped := False\<rparr>))"

definition stop :: "connection \<Rightarrow> connection" where
  "stop c = (close_current (c\<lparr>co_stopped := True\<rparr>))\<lparr>co_socket := None\<rparr>"

text \<open>\<open>jitter\<close> is the random part of the delay, in whole milliseconds.\<close>

definition reconnect :: "nat \<Rightarrow> connection \<Rightarrow> connection" where
  "reconnect jitter c =
     (if co_stopped c then c
      else later Timer (did (DelaySet (min 30000 (500 * 2 ^ co_attempt c) + int jitter))
             (c\<lparr>co_socket := None, co_attempt := co_attempt c + 1\<rparr>)))"

definition open_socket :: "int \<Rightarrow> connection \<Rightarrow> connection" where
  "open_socket checkpoint c =
     did (SocketOpened (length (co_sockets c)) checkpoint)
       (c\<lparr>co_sockets := co_sockets c @ [(SConnecting, checkpoint)],
          co_socket := Some (length (co_sockets c))\<rparr>)"

definition on_open :: "nat \<Rightarrow> connection \<Rightarrow> connection" where
  "on_open i c =
     (if i < length (co_sockets c) \<and> socket_state i c = SConnecting
      then did (AgentAuth i (snd (co_sockets c ! i))) (set_socket i SOpen c) else c)"

definition on_close :: "nat \<Rightarrow> nat \<Rightarrow> connection \<Rightarrow> connection" where
  "on_close i jitter c =
     (if i < length (co_sockets c) \<and> socket_state i c \<noteq> SClosed
      then reconnect jitter (set_socket i SClosed c) else c)"

section \<open>Receiving\<close>

text \<open>\<open>Math.max\<close>.\<close>

fun num_max :: "jsnum \<Rightarrow> jsnum \<Rightarrow> jsnum" where
  "num_max (Num m) (Num n) = Num (max m n)"
| "num_max _ _ = NaN"

fun receive :: "core_frame \<Rightarrow> connection \<Rightarrow> connection" where
  "receive InvalidF c =
     close_current (did (ProtocolError (js ''invalid_server_frame'')
       (js ''Core sent an invalid WebSocket frame'') True) c)"
| "receive HelloF c = c\<lparr>co_attempt := 0\<rparr>"
| "receive (EventF seq) c = later (RunHandler seq) c"
| "receive (ResyncF seq) c = later (StoreResync seq) c"
| "receive (ErrorF code message fatal) c =
     (let c1 = did (ProtocolError
            (case code of Some s \<Rightarrow> s | None \<Rightarrow> js ''websocket_protocol_error'')
            (case message of Some s \<Rightarrow> s | None \<Rightarrow> js ''Core rejected a WebSocket operation'') fatal) c
      in if fatal then close_current c1 else c1)"
| "receive OtherF c = c"

section \<open>Steps\<close>

text \<open>How a promise settles: with the checkpoint read, where there is one; or it is rejected, with the
  jitter for a reconnect.\<close>

datatype settlement = Done int | Failed nat

fun resume :: "agent_task \<Rightarrow> settlement \<Rightarrow> connection \<Rightarrow> connection" where
  "resume GetCheckpoint (Done checkpoint) c = open_socket checkpoint c"
| "resume GetCheckpoint (Failed jitter) c = reconnect jitter c"
| "resume Timer _ c = connect c"
| "resume (RunHandler seq) (Done _) c = later (StoreEvent seq) c"
| "resume (StoreEvent seq) (Done _) c =
     (let c1 = did (EventStored seq) c in send_ack (c1\<lparr>co_lastAck := num_max (co_lastAck c1) seq\<rparr>))"
| "resume (StoreResync seq) (Done _) c = close_current (did (ResyncStored seq) c)"
| "resume _ (Failed _) c = did Unhandled c"

datatype agent_event =
    Start
  | Stop
  | StatusSent run_ref jstring
  | StreamSent run_ref jstring nat jstring bool bool
  | Opens nat
  | Receives nat core_frame
  | Closes nat nat
  | Resolve nat settlement

definition without :: "nat \<Rightarrow> 'a list \<Rightarrow> 'a list" where
  "without n xs = take n xs @ drop (Suc n) xs"

fun step :: "agent_event \<Rightarrow> connection \<Rightarrow> connection" where
  "step Start c = start c"
| "step Stop c = stop c"
| "step (StatusSent r s) c = agentStatus r s c"
| "step (StreamSent r s i d b f) c = messageStreaming r s i d b f c"
| "step (Opens i) c = on_open i c"
| "step (Receives i f) c =
     (if i < length (co_sockets c) \<and> socket_state i c = SOpen then receive f c else c)"
| "step (Closes i jitter) c = on_close i jitter c"
| "step (Resolve n x) c =
     (if n < length (co_tasks c)
      then resume (co_tasks c ! n) x (c\<lparr>co_tasks := without n (co_tasks c)\<rparr>) else c)"

definition run_connection :: "agent_event list \<Rightarrow> connection" where
  "run_connection es = fold step es connection_manager"

section \<open>Starting the process\<close>

definition requiredEnvironment :: "jstring option \<Rightarrow> jstring option" where
  "requiredEnvironment v =
     (case v of None \<Rightarrow> None | Some s \<Rightarrow> if js_trim s = [] then None else Some (js_trim s))"

definition numberEnvironment :: "jstring option \<Rightarrow> int \<Rightarrow> int" where
  "numberEnvironment v fallback =
     (case v of
        None \<Rightarrow> fallback
      | Some s \<Rightarrow> (case number_of_string s of
                    Some n \<Rightarrow> if n > 0 then n else fallback
                  | None \<Rightarrow> fallback))"

datatype adapter = OpenAIAdapter jstring | AnthropicAdapter

definition providerResolver :: "jstring \<Rightarrow> adapter option" where
  "providerResolver rawName =
     (let name = to_lower (js_trim rawName) in
      if name = js ''openai'' then Some (OpenAIAdapter (js ''openai''))
      else if name = js ''anthropic'' then Some AnthropicAdapter
      else if name = js ''openai-compatible'' \<or> name = js ''openai_compatible'' \<or> name = js ''ollama'' \<or>
              name = js ''vllm''
      then Some (OpenAIAdapter (js ''openai-compatible''))
      else None)"

text \<open>The request to the core that stands for a request to a provider.\<close>

definition proxied_request :: "jstring \<Rightarrow> jstring \<Rightarrow> jstring \<Rightarrow> json \<Rightarrow> json" where
  "proxied_request call run lease body =
     JObj [(js ''call_id'', JStr call), (js ''run_id'', JStr run), (js ''lease_token'', JStr lease),
           (js ''request'', body)]"

section \<open>Acknowledgements\<close>

text \<open>The highest number whose checkpoint has been stored by the effects of a log; the log acknowledges
  nothing else.\<close>

fun stored_max :: "jsnum \<Rightarrow> agent_effect list \<Rightarrow> jsnum" where
  "stored_max m [] = m"
| "stored_max m (EventStored n # es) = stored_max (num_max m n) es"
| "stored_max m (_ # es) = stored_max m es"

fun acks_follow :: "jsnum \<Rightarrow> agent_effect list \<Rightarrow> bool" where
  "acks_follow m [] = True"
| "acks_follow m (EventStored n # es) = acks_follow (num_max m n) es"
| "acks_follow m (AgentAck i v # es) = (v = m \<and> acks_follow m es)"
| "acks_follow m (_ # es) = acks_follow m es"

fun quiet :: "agent_effect \<Rightarrow> bool" where
  "quiet (EventStored n) = False"
| "quiet (AgentAck i v) = False"
| "quiet _ = True"

lemma stored_max_append: "stored_max m (xs @ ys) = stored_max (stored_max m xs) ys"
  by (induction m xs rule: stored_max.induct) auto

lemma acks_follow_append:
  "acks_follow m (xs @ ys) \<longleftrightarrow> acks_follow m xs \<and> acks_follow (stored_max m xs) ys"
  by (induction m xs rule: acks_follow.induct) auto

definition acks_inv :: "connection \<Rightarrow> bool" where
  "acks_inv c \<longleftrightarrow> acks_follow (Num 0) (co_log c) \<and> co_lastAck c = stored_max (Num 0) (co_log c)"

lemma acks_did [simp]: "quiet e \<Longrightarrow> acks_inv (did e c) = acks_inv c"
  by (cases e) (auto simp: acks_inv_def did_def acks_follow_append stored_max_append)

lemma acks_cong: "co_log c' = co_log c \<Longrightarrow> co_lastAck c' = co_lastAck c \<Longrightarrow> acks_inv c' = acks_inv c"
  by (simp add: acks_inv_def)

lemma acks_updates [simp]:
  "acks_inv (c\<lparr>co_tasks := ts\<rparr>) = acks_inv c" "acks_inv (c\<lparr>co_stopped := b\<rparr>) = acks_inv c"
  "acks_inv (c\<lparr>co_attempt := n\<rparr>) = acks_inv c" "acks_inv (c\<lparr>co_socket := i\<rparr>) = acks_inv c"
  "acks_inv (c\<lparr>co_sockets := ss\<rparr>) = acks_inv c" "acks_inv (later t c) = acks_inv c"
  "acks_inv (set_socket k x c) = acks_inv c"
  by (simp_all add: acks_inv_def later_def set_socket_def)

lemma acks_operations [simp]:
  "acks_inv (close_current c) = acks_inv c" "acks_inv (connect c) = acks_inv c"
  "acks_inv (reconnect j c) = acks_inv c" "acks_inv (open_socket p c) = acks_inv c"
  "acks_inv (send_frame f c) = acks_inv c" "acks_inv (start c) = acks_inv c" "acks_inv (stop c) = acks_inv c"
  "acks_inv (on_open i c) = acks_inv c" "acks_inv (on_close i j c) = acks_inv c"
  by (simp_all add: close_current_def connect_def reconnect_def open_socket_def send_frame_def start_def
      stop_def on_open_def on_close_def split: option.splits)

lemma acks_receive [simp]: "acks_inv (receive f c) = acks_inv c"
  by (cases f) (simp_all add: Let_def)




lemma fold_invariant: "(\<And>e c. P c \<Longrightarrow> P (step e c)) \<Longrightarrow> P c \<Longrightarrow> P (fold step es c)"
  by (induction es arbitrary: c) auto


section \<open>Staying connected\<close>

fun connects :: "agent_task \<Rightarrow> bool" where
  "connects GetCheckpoint = True"
| "connects Timer = True"
| "connects _ = False"

definition alive :: "connection \<Rightarrow> bool" where
  "alive c \<longleftrightarrow> co_stopped c \<or> list_ex connects (co_tasks c) \<or> list_ex (\<lambda>s. fst s \<noteq> SClosed) (co_sockets c)"

lemma alive_simps [simp]:
  "alive (did e c) = alive c" "alive (c\<lparr>co_attempt := n\<rparr>) = alive c" "alive (c\<lparr>co_lastAck := v\<rparr>) = alive c"
  "alive (c\<lparr>co_socket := i\<rparr>) = alive c"
  by (simp_all add: alive_def did_def)

lemma alive_later: "alive c \<Longrightarrow> alive (later t c)"
  by (auto simp: alive_def later_def)

lemma alive_connecting: "connects t \<Longrightarrow> alive (later t c)"
  by (auto simp: alive_def later_def)

lemma alive_connects: "alive (connect c)"
  by (simp add: connect_def alive_connecting) (simp add: alive_def)

lemma alive_reconnect: "alive (reconnect j c)"
  by (simp add: reconnect_def alive_connecting) (simp add: alive_def)

lemma alive_open_socket: "alive (open_socket p c)"
  by (simp add: open_socket_def) (simp add: alive_def)

lemma list_ex_update: "list_ex P xs \<Longrightarrow> P y \<Longrightarrow> list_ex P (xs[i := y])"
proof (cases "i < length xs")
  case True
  moreover assume "P y"
  ultimately show ?thesis by (auto simp: list_ex_iff dest!: set_update_memI [of i xs y])
qed (simp add: not_less list_update_beyond)

lemma alive_set_socket: "x \<noteq> SClosed \<Longrightarrow> alive c \<Longrightarrow> alive (set_socket i x c)"
  by (auto simp: alive_def set_socket_def intro: list_ex_update)

lemma alive_close_current: "alive c \<Longrightarrow> alive (close_current c)"
  by (simp add: close_current_def alive_set_socket split: option.splits)

lemma alive_send_ack: "alive c \<Longrightarrow> alive (send_ack c)"
  by (simp add: send_ack_def split: option.splits socket_state.splits)

lemma alive_receive: "alive c \<Longrightarrow> alive (receive f c)"
  by (cases f) (simp_all add: Let_def alive_close_current alive_later)

lemma list_ex_without: "list_ex P xs \<Longrightarrow> \<not> P (xs ! n) \<Longrightarrow> list_ex P (without n xs)"
proof (cases "n < length xs")
  case True
  assume "list_ex P xs" "\<not> P (xs ! n)"
  moreover have "set xs \<subseteq> insert (xs ! n) (set (without n xs))"
    using True by (subst id_take_nth_drop [OF True]) (auto simp: without_def)
  ultimately show ?thesis by (auto simp: list_ex_iff)
qed (simp add: without_def)

lemma alive_without:
  "alive c \<Longrightarrow> \<not> connects (co_tasks c ! n) \<Longrightarrow> alive (c\<lparr>co_tasks := without n (co_tasks c)\<rparr>)"
  by (auto simp: alive_def intro: list_ex_without)

lemma alive_resume:
  assumes "connects t \<or> alive c"
  shows "alive (resume t x c)"
  using assms
  by (cases t; cases x)
    (simp_all add: Let_def alive_connects alive_reconnect alive_open_socket alive_later alive_send_ack
      alive_close_current)

lemma alive_step: "alive c \<Longrightarrow> alive (step e c)"
proof (cases e)
  case Stop
  have "co_stopped (close_current (c\<lparr>co_stopped := True\<rparr>))"
    by (simp add: close_current_def set_socket_def split: option.splits)
  then show ?thesis using Stop by (simp add: stop_def) (simp add: alive_def)
next
  case (Resolve n x)
  assume "alive c"
  then have "connects (co_tasks c ! n) \<or> alive (c\<lparr>co_tasks := without n (co_tasks c)\<rparr>)"
    using alive_without by blast
  then show ?thesis using Resolve \<open>alive c\<close> by (simp add: alive_resume)
qed (simp_all add: start_def alive_connects agentStatus_def messageStreaming_def send_frame_def on_open_def
    on_close_def alive_set_socket alive_receive alive_reconnect split: option.splits)

text \<open>A started connection that nobody stops never gives up: at any time it has a socket that is not
  closed, a connection attempt under way, or a reconnect timer.\<close>

theorem agent_connection_never_gives_up:
  assumes "\<not> co_stopped (run_connection es)"
  shows "list_ex connects (co_tasks (run_connection es)) \<or>
    list_ex (\<lambda>s. fst s \<noteq> SClosed) (co_sockets (run_connection es))"
proof -
  have "alive connection_manager" by (simp add: alive_def connection_manager_def)
  then have "alive (run_connection es)"
    unfolding run_connection_def by (rule fold_invariant [where P = alive, rotated]) (rule alive_step)
  with assms show ?thesis by (simp add: alive_def)
qed

theorem agent_connection_never_gives_up_witness:
  "list_ex connects (co_tasks (run_connection [Start, Resolve 0 (Done 7), Opens 0, Closes 0 10])) \<or>
   list_ex (\<lambda>s. fst s \<noteq> SClosed) (co_sockets (run_connection [Start, Resolve 0 (Done 7), Opens 0, Closes 0 10]))"
  by (rule agent_connection_never_gives_up)
    (simp add: run_connection_def connection_manager_def start_def connect_def later_def without_def
      open_socket_def did_def on_open_def socket_state_def set_socket_def on_close_def reconnect_def)

text \<open>An event whose handler fails is passed over by a later acknowledgement, and a failure to store a
  checkpoint is not caught.\<close>

lemma failed_handler_is_passed_over:
  "co_log (run_connection [Start, Resolve 0 (Done 0), Opens 0, Receives 0 (EventF (Num 1)),
      Receives 0 (EventF (Num 2)), Resolve 0 (Failed 0), Resolve 0 (Done 0), Resolve 0 (Done 0)]) =
   [SocketOpened 0 0, AgentAuth 0 0, Unhandled, EventStored (Num 2), AgentAck 0 (Num 2)]"
  by (simp add: run_connection_def connection_manager_def start_def connect_def later_def without_def
      open_socket_def did_def on_open_def socket_state_def set_socket_def send_ack_def Let_def)

end
