(* ===== verification/Shown_Text.thy ===== *)
theory Shown_Text
  imports Runtime_Props Providers Store
begin

text \<open>
  From the provider to the reader: what a run publishes as a message is what its stream frames have
  shown since their last reset. The chain goes over the provider's answer (\<open>Providers\<close>), the coalescer
  and the frames (\<open>Streaming\<close>), the run (\<open>Runtime\<close>) and the client's store (\<open>Store\<close>).
\<close>

section \<open>Providers with timers\<close>

definition untimed :: "stream_item list \<times> cause option \<Rightarrow> stream_item list \<times> cause option" where
  "untimed s = (filter (\<lambda>i. i \<noteq> TimerFires) (fst s), snd s)"

text \<open>Every model call is answered by a provider that keeps the contract, with the timer of the
  coalescer firing anywhere.\<close>

definition provider_like :: "env \<Rightarrow> bool" where
  "provider_like e \<longleftrightarrow> (\<forall>k. answer_ok (untimed (en_model e k)))"

lemma provider_like_providers:
  "(\<And>k. untimed (en_model e k) = openai_stream p (fetched k)) \<Longrightarrow> provider_like e"
  "(\<And>k. untimed (en_model e k) = anthropic_stream p (fetched k)) \<Longrightarrow> provider_like e"
  by (simp_all add: provider_like_def openai_stream_def openai.answers anthropic_stream_def anthropic.answers)

section \<open>The coalescer\<close>

lemma consume_text:
  "fold consume items (b, f) = (b', f') \<Longrightarrow>
     concat (co_emitted b') @ co_pending b' = concat (co_emitted b) @ co_pending b @ concat (deltas items)"
proof (induction items arbitrary: b f)
  case (Cons i items)
  show ?case
  proof (cases i)
    case (Delta t)
    with Cons.IH [of "runtime_push t b" f] Cons.prems runtime_coalescer.push_text [of t b]
    show ?thesis by simp
  next
    case (Finish g)
    with Cons.IH [of b "Some g"] Cons.prems show ?thesis by simp
  next
    case TimerFires
    have "concat (co_emitted (co_flush b)) @ co_pending (co_flush b) = concat (co_emitted b) @ co_pending b"
      by (simp add: runtime_coalescer.flush_text runtime_coalescer.flush_pending)
    then show ?thesis
      using TimerFires Cons.IH [of b f] Cons.IH [of "co_flush b" f] Cons.prems
      by (simp split: if_splits)
  qed
qed simp

fun last_finish :: "stream_item list \<Rightarrow> finish option \<Rightarrow> finish option" where
  "last_finish [] f = f"
| "last_finish (Finish g # xs) f = last_finish xs (Some g)"
| "last_finish (_ # xs) f = last_finish xs f"

lemma consume_finish: "snd (fold consume items (b, f)) = last_finish items f"
proof (induction items arbitrary: b f)
  case (Cons i items)
  then show ?case by (cases i) simp_all
qed simp

lemma last_finish_untimed: "last_finish (filter (\<lambda>i. i \<noteq> TimerFires) items) f = last_finish items f"
  by (induction items f rule: last_finish.induct) simp_all

lemma last_finish_answer: "last_finish (map Delta ds @ [Finish g]) f = Some g"
  by (induction ds) simp_all

lemma deltas_untimed: "deltas (filter (\<lambda>i. i \<noteq> TimerFires) items) = deltas items"
  by (induction items) (auto simp: deltas_def)

lemma consume_answer:
  assumes "answer_ok (untimed (items, None))" and "fold consume items (new_coalescer, None) = (b, f)"
  shows "\<exists>g. f = Some g \<and> fi_content g = concat (co_emitted (co_flush b))"
proof -
  obtain g where g: "filter (\<lambda>i. i \<noteq> TimerFires) items = map Delta (deltas items) @ [Finish g]"
      "fi_content g = concat (deltas items)"
    using assms(1) by (auto simp: untimed_def deltas_untimed)
  have "f = last_finish items None"
    using consume_finish [of items new_coalescer None] assms(2) by simp
  also have "\<dots> = Some g"
    using last_finish_untimed [of items None] by (simp add: g(1) last_finish_answer)
  finally have "f = Some g" .
  moreover have "concat (co_emitted (co_flush b)) = concat (deltas items)"
    using consume_text [OF assms(2)] by (simp add: runtime_coalescer.flush_text new_coalescer_def)
  ultimately show ?thesis using g(2) by simp
qed

section \<open>What the frames of a log show\<close>

fun text_shown :: "jstring \<Rightarrow> effect list \<Rightarrow> jstring" where
  "text_shown t [] = t"
| "text_shown t (Stream i d b f # es) = text_shown (if b then d else t @ d) es"
| "text_shown t (_ # es) = text_shown t es"

fun published_ok :: "jstring \<Rightarrow> effect list \<Rightarrow> bool" where
  "published_ok t [] = True"
| "published_ok t (Stream i d b f # es) = published_ok (if b then d else t @ d) es"
| "published_ok t (Publish body # es) = (body = t \<and> body \<noteq> [] \<and> published_ok t es)"
| "published_ok t (_ # es) = published_ok t es"

lemma shown_append [simp]: "text_shown t (xs @ ys) = text_shown (text_shown t xs) ys"
  by (induction t xs rule: text_shown.induct) simp_all

lemma published_ok_append [simp]:
  "published_ok t (xs @ ys) \<longleftrightarrow> published_ok t xs \<and> published_ok (text_shown t xs) ys"
  by (induction t xs rule: published_ok.induct) auto

lemma published_ok_loop: "list_all loop_effect es \<Longrightarrow> published_ok t es"
  by (induction t es rule: published_ok.induct) auto

lemma shown_emit:
  assumes "in_chat r"
  shows "text_shown t (rs_log (emitStreaming r d b f s)) = (if b then d else text_shown t (rs_log s) @ d)"
    and "text_shown t (rs_log (emitStatus r st s)) = text_shown t (rs_log s)"
  using assms by (simp_all add: emitStreaming_def emitStatus_def noted_def Let_def)

lemma shown_noted: "stream_index x = [] \<Longrightarrow> text_shown t (rs_log (noted x s)) = text_shown t (rs_log s)"
  by (cases x) (simp_all add: noted_def)

lemma shown_emit_parts:
  "in_chat r \<Longrightarrow> text_shown t (rs_log (emit_parts r parts s)) = text_shown t (rs_log s) @ concat parts"
proof (induction parts arbitrary: s)
  case (Cons p parts)
  have "emit_parts r (p # parts) s = emit_parts r parts (emitStreaming r p False False s)"
    by (simp add: emit_parts_def)
  with Cons show ?case by (simp add: shown_emit)
qed (simp add: emit_parts_def)

lemma model_call_shown:
  assumes "provider_like e" and "in_chat r" and "model_call e r s = (Inr g, s')"
  shows "text_shown t (rs_log s') = fi_content g"
proof -
  define s1 where "s1 = noted (ModelCall (rs_messages s)) (emitStatus r Streams (emitStreaming r [] True False s))"
  obtain items err where m: "en_model e (rs_iteration s) = (items, err)" by fastforce
  obtain b f where c: "fold consume items (new_coalescer, None) = (b, f)" by fastforce
  define s2 where "s2 = emit_parts r (concat (map splitStreamingDelta (co_emitted (co_flush b)))) s1"
  have "err = None" and f: "f = Some g" and s': "rs_log s' = rs_log s2"
    using assms(3) by (auto simp: model_call_def Let_def m c s1_def s2_def split: option.splits if_splits)
  have "answer_ok (untimed (items, None))"
    using assms(1) m \<open>err = None\<close> unfolding provider_like_def by metis
  from consume_answer [OF this c] f have "fi_content g = concat (co_emitted (co_flush b))" by simp
  moreover have "text_shown t (rs_log s1) = []"
    by (simp add: s1_def shown_noted shown_emit [OF assms(2)])
  ultimately show ?thesis
    by (simp add: s' s2_def shown_emit_parts [OF assms(2)] concat_concat_map split_concat)
qed

lemma provider_loop_shown:
  assumes "provider_like e" and "in_chat r"
  shows "provider_loop e r mcp n s = (Inr lr, s') \<Longrightarrow> text_shown t (rs_log s') = lr_content lr"
proof (induction n arbitrary: s)
  case (Suc n)
  obtain x s1 where m: "model_call e r s = (x, s1)" by fastforce
  then obtain g where g: "x = Inr g" using Suc.prems by (cases x) simp_all
  show ?case
  proof (cases "fi_calls g = []")
    case True
    then have "s' = s1" "lr_content lr = fi_content g" using Suc.prems m g by auto
    then show ?thesis using model_call_shown [OF assms] m g by simp
  next
    case False
    then show ?thesis using Suc m g by (auto simp: Let_def split: if_splits prod.splits option.splits)
  qed
qed simp

lemma prepare_and_loop_shown:
  assumes "provider_like e" and "in_chat r" and "prepare_and_loop e r s = (Inr lr, s')"
  shows "text_shown t (rs_log s') = lr_content lr"
  using assms(3) provider_loop_shown [OF assms(1,2)]
  by (auto simp: prepare_and_loop_def runProviderLoop_def split: sum.splits option.splits if_splits)

lemma published_ok_emit:
  "published_ok [] (rs_log (emitStreaming r d b f s)) = published_ok [] (rs_log s)"
  "published_ok [] (rs_log (emitStatus r st s)) = published_ok [] (rs_log s)"
  by (simp_all add: emitStreaming_def emitStatus_def noted_def Let_def)

lemma published_ok_noted:
  "\<forall>b. x \<noteq> Publish b \<Longrightarrow> published_ok [] (rs_log (noted x s)) = published_ok [] (rs_log s)"
  by (cases x) (simp_all add: noted_def)

lemma report_failure_published:
  "published_ok [] (rs_log (snd (report_failure e r c s))) = published_ok [] (rs_log s)"
  by (simp add: report_failure_def Let_def published_ok_emit published_ok_noted)

lemma publish_published:
  assumes "published_ok [] (rs_log s)" and "text_shown [] (rs_log s) = lr_content res"
  shows "published_ok [] (rs_log (snd (publish_and_complete e r res s)))"
proof -
  have "js_trim (lr_content res) \<noteq> [] \<Longrightarrow> published_ok [] (rs_log (noted (Publish (lr_content res)) s))"
    using assms by (auto simp: noted_def js_trim_def)
  then show ?thesis
    using assms(1)
    by (auto simp: publish_and_complete_def Let_def published_ok_emit published_ok_noted
        split: sum.splits)
qed

lemma execute_published:
  assumes "provider_like e" and "in_chat r"
  shows "published_ok [] (final_log e r)"
proof -
  obtain x s where p: "prepare_and_loop e r (emitStatus r Runtime.Thinking initial) = (x, s)" by fastforce
  then obtain k where "extends r k (emitStatus r Runtime.Thinking initial) s"
    using extends_prepare_and_loop by blast
  then have "extends r k initial s" using extends_zero [OF extends_emitStatus] by blast
  then have s: "published_ok [] (rs_log s)"
    by (auto simp: extends_def initial_def published_ok_loop)
  show ?thesis
  proof (cases x)
    case (Inl c)
    then show ?thesis using s p report_failure_published by (simp add: final_log_def execute_def)
  next
    case (Inr res)
    obtain y s1 where c: "publish_and_complete e r res s = (y, s1)" by fastforce
    have "published_ok [] (rs_log s1)"
      using publish_published [OF s, of res e r] prepare_and_loop_shown [OF assms] p Inr c by simp
    then show ?thesis
      using p Inr c report_failure_published by (cases y) (simp_all add: final_log_def execute_def)
  qed
qed

section \<open>The frames in the store\<close>

text \<open>A stream effect as the frame that reaches the clients of the chat; \<open>proto\<close> has its other fields.\<close>

fun client_frame :: "stream_frame \<Rightarrow> effect \<Rightarrow> stream_frame list" where
  "client_frame proto (Stream i d b f) =
     [proto\<lparr>sf_index := int i, sf_delta := d, sf_reset := b, sf_done := f\<rparr>]"
| "client_frame proto _ = []"

definition client_frames :: "stream_frame \<Rightarrow> effect list \<Rightarrow> stream_frame list" where
  "client_frames proto es = concat (map (client_frame proto) es)"

lemma stream_text_client_frames: "stream_text t (client_frames proto es) = text_shown t es"
  by (induction t es rule: text_shown.induct) (auto simp: client_frames_def)

section \<open>An example\<close>

definition hello_agent :: agent_config where
  "hello_agent = \<lparr>ag_id = js ''a'', ag_handle = js ''helper'', ag_description = [], ag_approved = True,
     ag_max_tool_iterations = 0\<rparr>"

definition hello_answer :: finish where
  "hello_answer = \<lparr>fi_content = js ''Hi'', fi_calls = [], fi_stop = js ''stop'', fi_usage = initial_usage\<rparr>"

definition hello_env :: env where
  "hello_env =
     \<lparr>en_agent = Inr hello_agent, en_tools = None, en_mcp = Inr Map.empty, en_history = Inr [],
      en_provider = None, en_model = (\<lambda>_. ([Delta (js ''H''), TimerFires, Delta (js ''i''), Finish hello_answer], None)),
      en_tool = (\<lambda>_. Inr None), en_mcp_start = (\<lambda>_. Inr True), en_mcp_call = (\<lambda>_. Inr None),
      en_mcp_finish = (\<lambda>_. None), en_publish = Inr (js ''m''), en_complete = None, en_fail = None,
      en_abort = None, en_add_decimal = (\<lambda>a b. a)\<rparr>"

definition hello_run :: run where
  "hello_run = \<lparr>rn_agent_id = js ''a'', rn_chat_id = Some (js ''c''), rn_thread_root_id = None,
     rn_dry_run = None, rn_input = JObj []\<rparr>"

definition hello_frame :: "nat \<Rightarrow> jstring \<Rightarrow> bool \<Rightarrow> stream_frame" where
  "hello_frame i d b =
     \<lparr>sf_streamID = js ''s'', sf_runID = js ''r'', sf_actorID = js ''a'', sf_chatID = js ''c'',
      sf_threadRootID = None, sf_index = int i, sf_expiresAt = [], sf_delta = d, sf_reset = b,
      sf_done = False\<rparr>"

lemma hello_like: "provider_like hello_env"
  by (simp add: provider_like_def hello_env_def hello_answer_def untimed_def)

lemma split_short: "length s \<le> 2048 \<Longrightarrow> splitStreamingDelta s = [s]"
  using byte_size_length [of s] by (simp add: splitStreamingDelta_def)

lemma runtime_push_short:
  assumes "d \<noteq> []" and "length (co_pending b) + length d \<le> 2000"
  shows "runtime_push d b = b\<lparr>co_pending := co_pending b @ d, co_timer := True\<rparr>"
  using assms byte_size_length [of "co_pending b @ d"] by (simp add: runtime_push_def Let_def)

lemma hello_log:
  "\<exists>pre post. final_log hello_env hello_run = pre @ Publish (js ''Hi'') # post \<and>
     client_frames (hello_frame 0 [] False) pre =
       [hello_frame 1 [] True, hello_frame 2 (js ''H'') False, hello_frame 3 (js ''i'') False]"
proof -
  have chat: "in_chat hello_run" by (simp add: in_chat_def hello_run_def)
  obtain t where t: "safeJSON (Some (rn_input hello_run)) = Some t" by (simp add: safeJSON_def)
  then obtain ms where ms: "assembleContext hello_env hello_run hello_agent = Inr ms"
    using chat by (simp add: assembleContext_def hello_env_def)
  have env: "en_model hello_env k = ([Delta (js ''H''), TimerFires, Delta (js ''i''), Finish hello_answer], None)"
      "en_agent hello_env = Inr hello_agent" "en_tools hello_env = None" "en_mcp hello_env = Inr Map.empty"
      "en_provider hello_env = None" "en_publish hello_env = Inr (js ''m'')" "en_complete hello_env = None"
    for k by (simp_all add: hello_env_def)
  have run: "rn_dry_run hello_run = None" "sandboxed hello_run = False"
    by (simp_all add: hello_run_def sandboxed_def)
  have agent: "ag_approved hello_agent" "nat (ag_max_tool_iterations hello_agent + 1) = Suc 0"
    by (simp_all add: hello_agent_def)
  have answer: "fi_content hello_answer = js ''Hi''" "fi_calls hello_answer = []" "fi_stop hello_answer = js ''stop''"
      "fi_usage hello_answer = initial_usage"
    by (simp_all add: hello_answer_def)
  let ?u = "add_usage hello_env initial_usage initial_usage"
  have "final_log hello_env hello_run =
      [Status Runtime.Thinking, Stream 1 [] True False, Status Streams, ModelCall ms,
       Stream 2 (js ''H'') False False, Stream 3 (js ''i'') False False] @ Publish (js ''Hi'') #
      [Stream 4 [] False True, Status Runtime.Completed,
       Complete ?u (summary (Some (js ''m'')) False \<lparr>lr_content = js ''Hi'', lr_usage = ?u, lr_calls = 0\<rparr>)]"
    by (simp add: final_log_def execute_def prepare_and_loop_def ms env run agent answer chat runProviderLoop_def
        model_call_def runtime_push_short new_coalescer_def co_flush_def split_short emit_parts_def emitStatus_def emitStreaming_def noted_def
        initial_def Let_def publish_and_complete_def js_trim_def is_space_def)
  then show ?thesis
    by (intro exI conjI) (assumption, simp add: client_frames_def hello_frame_def)
qed

end
