(* ===== verification/Markup.thy ===== *)
theory Markup
  imports Mentions Types
begin

text \<open>
  The presentation helpers of \<open>packages/core\<close> that every client shares: the Markdown subset of
  \<open>markdown.ts\<close> and the layout facts of a message feed of \<open>feed.ts\<close>.

  Each alternative of the inline pattern is deterministic at a position, since the text inside the
  delimiters excludes the closing one, so the match at a position is a function and \<open>matchAll\<close> scans
  for the leftmost one. The lemmas show that links are only ever to \<open>http\<close> and \<open>https\<close> addresses, and
  that inline parsing loses nothing but the case of \<open>@all\<close> and \<open>@here\<close>.
\<close>

datatype node =
    TextN jstring
  | StrongN "node list"
  | EmphasisN "node list"
  | UnderlineN "node list"
  | StrikeN "node list"
  | CodeN "node list"
  | CodeblockN jstring
  | LinkN jstring "node list"
  | MentionN jstring jstring
  | ContextMentionN jstring
  | HeadingN nat "node list"
  | ListN bool "node list list"
  | BreakN

section \<open>The inline pattern\<close>

text \<open>A non-empty run of characters other than \<open>c\<close> between two copies of \<open>d\<close>, which starts with \<open>c\<close>; the
  result is the length of the match.\<close>

definition delimited :: "jstring \<Rightarrow> jstring \<Rightarrow> nat option" where
  "delimited d s =
     (let body = takeWhile (\<lambda>x. x \<noteq> hd d) (drop (length d) s) in
      if starts_with d s \<and> body \<noteq> [] \<and> starts_with d (drop (length d + length body) s)
      then Some (2 * length d + length body) else None)"

definition http_scheme :: "jstring \<Rightarrow> nat option" where
  "http_scheme s =
     (if to_lower (take 8 s) = js ''https://'' then Some 8
      else if to_lower (take 7 s) = js ''http://'' then Some 7 else None)"

definition link_at :: "jstring \<Rightarrow> nat option" where
  "link_at s =
     (let label = takeWhile (\<lambda>c. c \<noteq> ch CHR '']'') (drop 1 s);
          rest = drop (1 + length label) s
      in if starts_with (js ''['') s \<and> label \<noteq> [] \<and> starts_with (js '']('') rest
         then (case http_scheme (drop 2 rest) of
                 None \<Rightarrow> None
               | Some n \<Rightarrow>
                   let path = takeWhile (\<lambda>c. \<not> is_space c \<and> c \<noteq> ch CHR '')'') (drop (2 + n) rest) in
                   if path \<noteq> [] \<and> starts_with (js '')'') (drop (2 + n + length path) rest)
                   then Some (length label + n + length path + 4) else None)
         else None)"

definition is_word :: "cunit \<Rightarrow> bool" where
  "is_word c \<longleftrightarrow> is_alnum c \<or> c = ch CHR ''_''"

definition word_ends :: "jstring \<Rightarrow> bool" where
  "word_ends rest \<longleftrightarrow> (case rest of [] \<Rightarrow> True | c # _ \<Rightarrow> \<not> is_word c)"

definition context_at :: "jstring \<Rightarrow> nat option" where
  "context_at s =
     (if to_lower (take 4 s) = js ''@all'' \<and> word_ends (drop 4 s) then Some 4
      else if to_lower (take 5 s) = js ''@here'' \<and> word_ends (drop 5 s) then Some 5 else None)"

fun first_some :: "'a option list \<Rightarrow> 'a option" where
  "first_some [] = None"
| "first_some (None # xs) = first_some xs"
| "first_some (Some x # xs) = Some x"

definition pattern_at :: "jstring \<Rightarrow> nat option" where
  "pattern_at s =
     first_some [delimited (js ''**'') s, delimited (js ''~~'') s, delimited (js ''++'') s,
       delimited (js ''_'') s, delimited [96] s, link_at s,
       map_option (\<lambda>(label, actor, n). n) (mention_at s), context_at s]"

section \<open>Inline nodes\<close>

text \<open>\<open>/^\[([^\]]+)\]\(([^)]+)\)$/\<close> on a matched link.\<close>

definition link_node :: "jstring \<Rightarrow> node" where
  "link_node value =
     (let label = takeWhile (\<lambda>c. c \<noteq> ch CHR '']'') (drop 1 value)
      in LinkN (js_slice value (int (length label) + 3) (- 1)) [TextN label])"

definition node_of :: "jstring \<Rightarrow> node" where
  "node_of value =
     (if starts_with (js ''**'') value then StrongN [TextN (js_slice value 2 (- 2))]
      else if starts_with (js ''_'') value then EmphasisN [TextN (js_slice value 1 (- 1))]
      else if starts_with (js ''~~'') value then StrikeN [TextN (js_slice value 2 (- 2))]
      else if starts_with (js ''++'') value then UnderlineN [TextN (js_slice value 2 (- 2))]
      else if starts_with [96] value then CodeN [TextN (js_slice value 1 (- 1))]
      else if starts_with (js ''@['') value
      then (case mention_at value of
              Some (label, actor, n) \<Rightarrow> MentionN actor label
            | None \<Rightarrow> MentionN [] [])
      else if to_lower value = js ''@all'' \<or> to_lower value = js ''@here''
      then ContextMentionN (to_lower (drop 1 value))
      else link_node value)"

definition text_node :: "jstring \<Rightarrow> node list" where
  "text_node t = (if t = [] then [] else [TextN t])"

text \<open>The scan for matches; \<open>t\<close> is the text since the last one.\<close>

function inline_from :: "jstring \<Rightarrow> jstring \<Rightarrow> node list" where
  "inline_from t [] = text_node t"
| "inline_from t (c # cs) =
     (case pattern_at (c # cs) of
        None \<Rightarrow> inline_from (t @ [c]) cs
      | Some n \<Rightarrow> text_node t @ node_of (take n (c # cs)) # inline_from [] (drop (n - 1) cs))"
  by pat_completeness auto

termination
  by (relation "measure (\<lambda>(t, s). length s)") (auto simp: less_Suc_eq_le)

definition parseInline :: "jstring \<Rightarrow> node list" where
  "parseInline source = inline_from [] source"

section \<open>Blocks\<close>

text \<open>\<open>replace(/\r\n?/g, "\n")\<close>.\<close>

fun newlines :: "jstring \<Rightarrow> jstring" where
  "newlines [] = []"
| "newlines [c] = [if c = 13 then 10 else c]"
| "newlines (c # d # s) =
     (if c = 13 then 10 # (if d = 10 then newlines s else newlines (d # s)) else c # newlines (d # s))"

text \<open>\<open>.\<close> excludes line terminators.\<close>

definition dot :: "cunit \<Rightarrow> bool" where
  "dot c \<longleftrightarrow> c \<notin> {10, 13, 0x2028, 0x2029}"

text \<open>\<open>\s+(.+)$\<close>: where nothing but white space is left, the last of it is the text.\<close>

definition spaced_text :: "jstring \<Rightarrow> jstring option" where
  "spaced_text s =
     (let w = takeWhile is_space s; rest = dropWhile is_space s in
      if w = [] then None
      else if rest \<noteq> [] then (if list_all dot rest then Some rest else None)
      else if length w \<ge> 2 \<and> dot (last w) then Some [last w] else None)"

definition heading_match :: "jstring \<Rightarrow> (nat \<times> jstring) option" where
  "heading_match line =
     (let n = length (takeWhile (\<lambda>c. c = ch CHR ''#'') line) in
      if 1 \<le> n \<and> n \<le> 3 then map_option (Pair n) (spaced_text (drop n line)) else None)"

definition list_match :: "jstring \<Rightarrow> (bool \<times> jstring) option" where
  "list_match line =
     (case line of
        [] \<Rightarrow> None
      | c # rest \<Rightarrow>
          if c \<in> set (js ''-+*'') then map_option (Pair False) (spaced_text rest)
          else
            (let n = length (takeWhile is_digit line) in
             if n \<ge> 1 \<and> starts_with (js ''.'') (drop n line)
             then map_option (Pair True) (spaced_text (drop (n + 1) line)) else None))"

definition with_break :: "node list \<Rightarrow> node list" where
  "with_break result = (if result = [] then [] else result @ [BreakN])"

fun add_item :: "bool \<Rightarrow> node list \<Rightarrow> node option \<Rightarrow> node list \<Rightarrow> node list" where
  "add_item ordered children (Some (ListN o' items)) result =
     (if o' = ordered then butlast result @ [ListN o' (items @ [children])]
      else with_break result @ [ListN ordered [children]])"
| "add_item ordered children previous result = with_break result @ [ListN ordered [children]]"

definition last_node :: "node list \<Rightarrow> node option" where
  "last_node result = (if result = [] then None else Some (last result))"

definition line_step :: "jstring \<Rightarrow> node list \<times> jstring list option \<Rightarrow> node list \<times> jstring list option" where
  "line_step line st =
     (case st of (result, fence) \<Rightarrow>
        if starts_with [96, 96, 96] line
        then (case fence of
                Some ls \<Rightarrow> (result @ [CodeblockN (join_with [10] ls)], None)
              | None \<Rightarrow> (result, Some []))
        else
          (case fence of
             Some ls \<Rightarrow> (result, Some (ls @ [line]))
           | None \<Rightarrow>
               (case heading_match line of
                  Some (level, t) \<Rightarrow> (with_break result @ [HeadingN level (parseInline t)], None)
                | None \<Rightarrow>
                    (case list_match line of
                       Some (ordered, t) \<Rightarrow> (add_item ordered (parseInline t) (last_node result) result, None)
                     | None \<Rightarrow> (with_break result @ parseInline line, None)))))"

definition parseMarkdown :: "jstring \<Rightarrow> node list" where
  "parseMarkdown source =
     (case fold line_step (split_on 10 (newlines source)) ([], None) of
        (result, Some ls) \<Rightarrow> result @ [CodeblockN (join_with [10] ls)]
      | (result, None) \<Rightarrow> result)"

section \<open>Feed rows\<close>

record feed_row =
  fr_message :: client_message
  fr_newDay :: bool
  fr_firstUnread :: bool
  fr_grouped :: bool

definition group_window :: int where
  "group_window = 5 * 60000"

text \<open>\<open>a.getTime() - b.getTime() < w\<close>, false where a date is invalid.\<close>

fun closer_than :: "int \<Rightarrow> int option \<Rightarrow> int option \<Rightarrow> bool" where
  "closer_than w (Some a) (Some b) \<longleftrightarrow> a - b < w"
| "closer_than w _ _ \<longleftrightarrow> False"

definition feed_row :: "(int \<Rightarrow> int) \<Rightarrow> int \<Rightarrow> client_message option \<Rightarrow> client_message \<Rightarrow> feed_row" where
  "feed_row zone anchor previous message =
     (let newDay = (case previous of
            None \<Rightarrow> True
          | Some p \<Rightarrow> \<not> same_day zone (date_parse (m_created_at p)) (date_parse (m_created_at message)));
          firstUnread = (anchor > 0 \<and> m_created_seq message > anchor \<and>
            (case previous of None \<Rightarrow> True | Some p \<Rightarrow> m_created_seq p \<le> anchor));
          grouped = (\<not> newDay \<and> \<not> firstUnread \<and>
            (case previous of
               None \<Rightarrow> False
             | Some p \<Rightarrow> m_actor_id p = m_actor_id message \<and>
                 closer_than group_window (date_parse (m_created_at message)) (date_parse (m_created_at p))))
      in \<lparr>fr_message = message, fr_newDay = newDay, fr_firstUnread = firstUnread, fr_grouped = grouped\<rparr>)"

fun feed_from :: "(int \<Rightarrow> int) \<Rightarrow> int \<Rightarrow> client_message option \<Rightarrow> client_message list \<Rightarrow> feed_row list" where
  "feed_from zone anchor previous [] = []"
| "feed_from zone anchor previous (m # ms) =
     feed_row zone anchor previous m # feed_from zone anchor (Some m) ms"

definition feedRows :: "(int \<Rightarrow> int) \<Rightarrow> client_message list \<Rightarrow> int \<Rightarrow> feed_row list" where
  "feedRows zone messages anchor = feed_from zone anchor None messages"

section \<open>What the inline pattern matches\<close>

text \<open>The source text of an inline node, and the addresses of its links.\<close>

fun source_of :: "node \<Rightarrow> jstring" where
  "source_of (TextN t) = t"
| "source_of (StrongN ns) = js ''**'' @ concat (map source_of ns) @ js ''**''"
| "source_of (EmphasisN ns) = js ''_'' @ concat (map source_of ns) @ js ''_''"
| "source_of (UnderlineN ns) = js ''++'' @ concat (map source_of ns) @ js ''++''"
| "source_of (StrikeN ns) = js ''~~'' @ concat (map source_of ns) @ js ''~~''"
| "source_of (CodeN ns) = [96] @ concat (map source_of ns) @ [96]"
| "source_of (LinkN href ns) = js ''['' @ concat (map source_of ns) @ js '']('' @ href @ js '')''"
| "source_of (MentionN actor label) = js ''@['' @ label @ js '']('' @ actor @ js '')''"
| "source_of (ContextMentionN v) = js ''@'' @ v"
| "source_of n = []"

fun links :: "node \<Rightarrow> jstring list" where
  "links (LinkN href ns) = href # concat (map links ns)"
| "links (StrongN ns) = concat (map links ns)"
| "links (EmphasisN ns) = concat (map links ns)"
| "links (UnderlineN ns) = concat (map links ns)"
| "links (StrikeN ns) = concat (map links ns)"
| "links (CodeN ns) = concat (map links ns)"
| "links (HeadingN k ns) = concat (map links ns)"
| "links (ListN b items) = concat (map (\<lambda>ns. concat (map links ns)) items)"
| "links n = []"

definition web_link :: "jstring \<Rightarrow> bool" where
  "web_link href \<longleftrightarrow>
     (to_lower (take 8 href) = js ''https://'' \<or> to_lower (take 7 href) = js ''http://'') \<and>
     list_all (\<lambda>c. \<not> is_space c) href"

lemma first_some_in: "first_some xs = Some x \<Longrightarrow> Some x \<in> set xs"
  by (induction xs rule: first_some.induct) auto

lemma starts_with_split: "starts_with p s \<Longrightarrow> s = p @ drop (length p) s"
  by (metis append_take_drop_id starts_with_def)

lemma takeWhile_rest: "s = takeWhile P s @ drop (length (takeWhile P s)) s"
  by (metis dropWhile_eq_drop takeWhile_dropWhile_id)

lemma delimited_form:
  assumes "delimited d s = Some n"
  shows "\<exists>body. take n s = d @ body @ d \<and> n = length (d @ body @ d) \<and> n \<le> length s \<and> body \<noteq> [] \<and> hd d \<notin> set body"
proof -
  define body where "body = takeWhile (\<lambda>x. x \<noteq> hd d) (drop (length d) s)"
  have d: "starts_with d s" "body \<noteq> []" "starts_with d (drop (length d + length body) s)"
      "n = 2 * length d + length body"
    using assms by (auto simp: delimited_def Let_def body_def split: if_splits)
  have s: "s = d @ body @ d @ drop (length d) (drop (length d + length body) s)"
  proof -
    have "drop (length d) s = body @ drop (length body) (drop (length d) s)"
      unfolding body_def by (rule takeWhile_rest)
    then show ?thesis
      using starts_with_split [OF d(1)] starts_with_split [OF d(3)] by (metis drop_drop add.commute)
  qed
  have "hd d \<notin> set body" unfolding body_def by (auto dest: set_takeWhileD)
  moreover have "take n s = d @ body @ d" "n \<le> length s"
    by (subst s, simp add: d(4), subst s, simp add: d(4))
  ultimately show ?thesis using d(2,4) by (intro exI [of _ body]) simp
qed

lemma lower_prefix_le: "to_lower (take n s) = js w \<Longrightarrow> length w = n \<Longrightarrow> n \<le> length s"
  by (drule arg_cong [where f = length]) (simp add: to_lower_def min_def split: if_splits)

lemma http_scheme_le: "http_scheme s = Some n \<Longrightarrow> n \<le> length s"
  using lower_prefix_le [of 8 s "''https://''"] lower_prefix_le [of 7 s "''http://''"]
  by (auto simp: http_scheme_def split: if_splits)

lemma scheme_chars:
  assumes "http_scheme s = Some n"
  shows "list_all (\<lambda>c. \<not> is_space c \<and> c \<noteq> ch CHR '')'') (take n s)"
proof -
  have lower: "\<not> is_space c \<and> c \<noteq> ch CHR '')''" if "lower_unit c \<in> set (js ''https://'')" for c
  proof -
    have "lower_unit (ch CHR '')'') \<notin> set (js ''https://'')" by (simp add: lower_unit_def is_upper_def)
    moreover have "is_space c \<Longrightarrow> lower_unit c = c"
      by (auto simp: is_space_def lower_unit_def is_upper_def word_le_nat_alt)
    moreover have "c \<in> set (js ''https://'') \<Longrightarrow> \<not> is_space c" by (auto simp: is_space_def)
    ultimately show ?thesis using that by metis
  qed
  have "set (to_lower (take n s)) \<subseteq> set (js ''https://'')"
    using assms by (auto simp: http_scheme_def split: if_splits)
  then show ?thesis using lower by (auto simp: list_all_iff to_lower_def)
qed

lemma link_form:
  assumes "link_at s = Some n"
  shows "\<exists>label url. take n s = js ''['' @ label @ js '']('' @ url @ js '')'' \<and>
    n = length label + length url + 4 \<and> n \<le> length s \<and> label \<noteq> [] \<and> ch CHR '']'' \<notin> set label \<and> web_link url"
proof -
  define label where "label = takeWhile (\<lambda>c. c \<noteq> ch CHR '']'') (drop 1 s)"
  define rest where "rest = drop (1 + length label) s"
  define path where "path = (\<lambda>k. takeWhile (\<lambda>c. \<not> is_space c \<and> c \<noteq> ch CHR '')'') (drop (2 + k) rest))"
  have "link_at s =
     (if starts_with (js ''['') s \<and> label \<noteq> [] \<and> starts_with (js '']('') rest
      then (case http_scheme (drop 2 rest) of
              None \<Rightarrow> None
            | Some n \<Rightarrow>
                if path n \<noteq> [] \<and> starts_with (js '')'') (drop (2 + n + length (path n)) rest)
                then Some (length label + n + length (path n) + 4) else None)
      else None)"
    by (simp only: link_at_def Let_def label_def rest_def path_def)
  with assms obtain k where k: "http_scheme (drop 2 rest) = Some k"
    and open1: "starts_with (js ''['') s" "label \<noteq> []" "starts_with (js '']('') rest"
    and close: "starts_with (js '')'') (drop (2 + k + length (path k)) rest)"
    and n: "n = length label + k + length (path k) + 4"
    by (simp only: split: if_splits option.splits) auto
  define url where "url = take k (drop 2 rest) @ path k"
  have "drop 1 s = label @ rest" unfolding label_def rest_def by (subst takeWhile_rest) simp
  then have s: "s = js ''['' @ label @ rest" using starts_with_split [OF open1(1)] by simp
  define tail where "tail = drop (2 + k + length (path k)) rest"
  have t: "tail = js '')'' @ drop 1 tail"
    using starts_with_split [OF close] unfolding tail_def [symmetric] by simp
  have "drop 2 rest = take k (drop 2 rest) @ drop (2 + k) rest"
    by (metis append_take_drop_id drop_drop add.commute)
  moreover have "drop (2 + k) rest = path k @ tail"
    unfolding path_def tail_def by (subst takeWhile_rest) (simp add: ac_simps)
  ultimately have "drop 2 rest = url @ tail" by (simp add: url_def)
  then have r: "rest = js '']('' @ url @ js '')'' @ drop 1 tail"
    using starts_with_split [OF open1(3)] t by (simp add: numeral_2_eq_2)
  have len: "length url = k + length (path k)"
    using http_scheme_le [OF k] by (simp add: url_def)
  have "take n s = js ''['' @ label @ js '']('' @ url @ js '')''" "n \<le> length s"
  proof -
    have "s = js ''['' @ label @ js '']('' @ url @ js '')'' @ drop 1 tail" using s r by metis
    then obtain u where u: "s = (js ''['' @ label @ js '']('' @ url @ js '')'') @ u"
      by (metis append_assoc)
    have nl: "n = length (js ''['' @ label @ js '']('' @ url @ js '')'')" by (simp add: n len)
    show "take n s = js ''['' @ label @ js '']('' @ url @ js '')''" "n \<le> length s"
      by (simp_all only: u nl append_eq_conv_conj [symmetric] take_append length_append) simp_all
  qed
  moreover have "ch CHR '']'' \<notin> set label" unfolding label_def by (auto dest: set_takeWhileD)
  moreover have "list_all (\<lambda>c. \<not> is_space c) url"
    using scheme_chars [OF k] by (auto simp: url_def path_def list_all_iff dest: set_takeWhileD)
  moreover have "to_lower (take 8 url) = js ''https://'' \<or> to_lower (take 7 url) = js ''http://''"
    using k http_scheme_le [OF k] by (auto simp: http_scheme_def url_def split: if_splits)
  ultimately have "web_link url" "n = length label + length url + 4" using n len by (simp_all add: web_link_def)
  with \<open>take n s = _\<close> \<open>n \<le> length s\<close> open1(2) \<open>ch CHR '']'' \<notin> set label\<close> show ?thesis by blast
qed

section \<open>Inline nodes and their source\<close>

definition faithful :: "jstring \<Rightarrow> node \<Rightarrow> bool" where
  "faithful value node \<longleftrightarrow> to_lower (source_of node) = to_lower value \<and> list_all web_link (links node)"

lemma slice_mid: "js_slice (p @ body @ [c]) (int (length p)) (- 1) = body"
  by (cases body) (simp_all add: js_slice_def js_clamp_def min_def max_def nat_add_distrib)

lemma lower_unit_idem [simp]: "lower_unit (lower_unit c) = lower_unit c"
proof -
  have "unat (c + 32) = unat c + 32" if "unat c \<le> 90"
    using that unat_add_lem [of c 32] by simp
  then show ?thesis by (auto simp: lower_unit_def is_upper_def word_le_nat_alt)
qed

lemma slice_inner_1: "js_slice (a # body @ [b]) 1 (- 1) = body"
  by (simp add: js_slice_def js_clamp_def min_def max_def)

lemma slice_inner_2: "js_slice (a # b # body @ [c, e]) 2 (- 2) = body"
  by (simp add: js_slice_def js_clamp_def min_def max_def)

lemma faithful_delimited:
  assumes "d \<in> {js ''**'', js ''~~'', js ''++'', js ''_'', [96]}"
  shows "faithful (d @ body @ d) (node_of (d @ body @ d))"
  using assms
  by (auto simp: node_of_def starts_with_def faithful_def slice_inner_1 slice_inner_2)

lemma faithful_link:
  assumes "label \<noteq> []" and "ch CHR '']'' \<notin> set label" and "web_link url"
  shows "faithful (js ''['' @ label @ js '']('' @ url @ js '')'') (node_of (js ''['' @ label @ js '']('' @ url @ js '')''))"
proof -
  let ?v = "js ''['' @ label @ js '']('' @ url @ js '')''"
  have "takeWhile (\<lambda>c. c \<noteq> ch CHR '']'') (drop 1 ?v) = label"
    using assms(2) by (auto simp: takeWhile_append)
  moreover have "js_slice ?v (int (length label) + 3) (- 1) = url"
    using slice_mid [of "js ''['' @ label @ js '']('' " url "ch CHR '')''"] by (simp add: ac_simps)
  ultimately have "link_node ?v = LinkN url [TextN label]" by (simp add: link_node_def)
  moreover have "node_of ?v = link_node ?v"
    by (simp add: node_of_def starts_with_def to_lower_def lower_unit_def is_upper_def)
  ultimately show ?thesis using assms(3) by (simp add: faithful_def)
qed

lemma faithful_context:
  assumes "to_lower value = js ''@all'' \<or> to_lower value = js ''@here''"
  shows "faithful value (node_of value)"
proof -
  obtain c cs where v: "value = c # cs" using assms by (cases "value") (auto simp: to_lower_def)
  have c: "lower_unit c = ch CHR ''@''" using assms by (auto simp: v to_lower_def)
  then have "c = ch CHR ''@''" by (auto simp: lower_unit_def is_upper_def word_le_nat_alt unat_arith_simps split: if_splits)
  moreover have "\<not> starts_with (js ''@['') value"
    using assms by (auto simp: v to_lower_def starts_with_def lower_unit_def is_upper_def split: list.splits)
  ultimately have "node_of value = ContextMentionN (to_lower (drop 1 value))"
    using assms by (simp add: node_of_def v starts_with_def)
  then show ?thesis
    by (simp add: faithful_def v \<open>c = ch CHR ''@''\<close> to_lower_def comp_def)
qed

lemma mention_at_parts:
  assumes "mention_at s = Some (label, actor, n)"
  shows "label \<noteq> []" "ch CHR '']'' \<notin> set label" "length actor = 36" "list_all is_uuid_char actor"
    "n = length label + 41"
  using assms by (auto simp: mention_at_def Let_def split: if_splits dest: set_takeWhileD)

lemma mention_at_take:
  assumes "mention_at s = Some (label, actor, n)"
  shows "mention_at (take n s) = Some (label, actor, n)"
proof -
  note m = mention_at_parts [OF assms]
  have "takeWhile (\<lambda>c. c \<noteq> 93) (label @ 93 # r) = label" for r using m(2) by (auto simp: takeWhile_append)
  then show ?thesis
    unfolding mention_at_prefix(3) [OF assms]
    using m by (simp add: mention_at_def Let_def starts_with_def)
qed

lemma faithful_mention:
  assumes "mention_at s = Some (label, actor, n)"
  shows "faithful (take n s) (node_of (take n s))"
proof -
  have "node_of (take n s) = MentionN actor label"
    using mention_at_take [OF assms] mention_at_prefix(3) [OF assms]
    by (simp add: node_of_def starts_with_def)
  then show ?thesis using mention_at_prefix(3) [OF assms] by (simp add: faithful_def)
qed

lemma pattern_cases:
  assumes "pattern_at s = Some n"
  shows "(\<exists>d \<in> {js ''**'', js ''~~'', js ''++'', js ''_'', [96]}. delimited d s = Some n) \<or>
    link_at s = Some n \<or> (\<exists>label actor. mention_at s = Some (label, actor, n)) \<or> context_at s = Some n"
proof -
  define ds where "ds = [js ''**'', js ''~~'', js ''++'', js ''_'', [96]]"
  have "pattern_at s = first_some (map (\<lambda>d. delimited d s) ds @
      [link_at s, map_option (\<lambda>(label, actor, n). n) (mention_at s), context_at s])"
    by (simp only: pattern_at_def ds_def list.map append.simps)
  with assms have "Some n \<in> set (map (\<lambda>d. delimited d s) ds @
      [link_at s, map_option (\<lambda>(label, actor, n). n) (mention_at s), context_at s])"
    by (intro first_some_in) simp
  then consider "Some n \<in> (\<lambda>d. delimited d s) ` set ds" | "Some n = link_at s"
    | "Some n = map_option (\<lambda>(label, actor, n). n) (mention_at s)" | "Some n = context_at s"
    by (simp only: set_append set_map list.set Un_iff insert_iff empty_iff) blast
  then show ?thesis
  proof cases
    case 1
    moreover have "set ds = {js ''**'', js ''~~'', js ''++'', js ''_'', [96]}" by (simp only: ds_def list.set)
    ultimately show ?thesis by (metis imageE)
  next
    case 3
    then show ?thesis by (cases "mention_at s") auto
  qed simp_all
qed

lemma pattern_at_faithful:
  assumes "pattern_at s = Some n"
  shows "0 < n \<and> n \<le> length s \<and> faithful (take n s) (node_of (take n s))"
proof -
  consider d where "d \<in> {js ''**'', js ''~~'', js ''++'', js ''_'', [96]}" "delimited d s = Some n"
    | "link_at s = Some n" | label actor where "mention_at s = Some (label, actor, n)" | "context_at s = Some n"
    using pattern_cases [OF assms] by blast
  then show ?thesis
  proof cases
    case (1 d)
    from delimited_form [OF 1(2)] obtain body where b: "take n s = d @ body @ d"
        "n = length (d @ body @ d)" "n \<le> length s" "body \<noteq> []" by blast
    then show ?thesis using faithful_delimited [OF 1(1), of body] by simp
  next
    case 2
    from link_form [OF 2] obtain label url where l: "take n s = js ''['' @ label @ js '']('' @ url @ js '')''"
        "n = length label + length url + 4" "n \<le> length s" "label \<noteq> []" "ch CHR '']'' \<notin> set label" "web_link url"
      by blast
    then show ?thesis using faithful_link [OF l(4-6)] by simp
  next
    case 3
    then show ?thesis using faithful_mention mention_at_prefix(1,2) by blast
  next
    case 4
    then have v: "to_lower (take n s) = js ''@all'' \<and> n = 4 \<or> to_lower (take n s) = js ''@here'' \<and> n = 5"
      by (auto simp: context_at_def split: if_splits)
    then have "n \<le> length s"
      using lower_prefix_le [of 4 s "''@all''"] lower_prefix_le [of 5 s "''@here''"] by auto
    with v show ?thesis using faithful_context [of "take n s"] by auto
  qed
qed

lemma text_node_props [simp]:
  "concat (map source_of (text_node t)) = t" "concat (map links (text_node t)) = []"
  by (simp_all add: text_node_def)

lemma to_lower_append: "to_lower (s @ t) = to_lower s @ to_lower t"
  by (simp add: to_lower_def)

lemma inline_from_faithful:
  "to_lower (concat (map source_of (inline_from t s))) = to_lower (t @ s) \<and>
   list_all web_link (concat (map links (inline_from t s)))"
proof (induction t s rule: inline_from.induct)
  case (2 t c cs)
  show ?case
  proof (cases "pattern_at (c # cs)")
    case None
    then show ?thesis using 2(1) by simp
  next
    case (Some n)
    note f = pattern_at_faithful [OF Some]
    have "c # cs = take n (c # cs) @ drop (n - 1) cs"
      using f by (cases n) simp_all
    then have "to_lower (t @ c # cs) = to_lower t @ to_lower (take n (c # cs)) @ to_lower (drop (n - 1) cs)"
      by (metis to_lower_append)
    then show ?thesis
      using 2(2) [OF Some] f Some by (simp add: to_lower_append faithful_def)
  qed
qed simp

text \<open>Inline parsing loses nothing: the source of the nodes is the source that was parsed, up to the case
  of @all and @here.\<close>

theorem inline_parsing_loses_nothing:
  "to_lower (concat (map source_of (parseInline source))) = to_lower source"
  using inline_from_faithful [of "[]" source] by (simp add: parseInline_def)

definition links_ok :: "node list \<Rightarrow> bool" where
  "links_ok ns \<longleftrightarrow> list_all web_link (concat (map links ns))"

lemma links_ok_simps [simp]:
  "links_ok []" "links_ok (xs @ ys) \<longleftrightarrow> links_ok xs \<and> links_ok ys"
  "links_ok (n # ns) \<longleftrightarrow> list_all web_link (links n) \<and> links_ok ns"
  by (simp_all add: links_ok_def)

lemma links_ok_inline: "links_ok (parseInline s)"
  using inline_from_faithful [of "[]" s] by (simp add: links_ok_def parseInline_def)

lemma links_ok_break: "links_ok ns \<Longrightarrow> links_ok (with_break ns)"
  by (simp add: with_break_def)

lemma links_ok_add_item:
  assumes "links_ok result" and "links_ok children"
  shows "links_ok (add_item b children (last_node result) result)"
proof (cases "last_node result")
  case None
  then show ?thesis using assms by (simp add: links_ok_break) (simp add: links_ok_def)
next
  case (Some n)
  then have r: "result = butlast result @ [n]" by (auto simp: last_node_def split: if_splits)
  then have n: "links_ok (butlast result)" "list_all web_link (links n)"
    using assms(1) by (metis links_ok_simps(2), metis links_ok_simps(2,3))
  have c: "list_all web_link (concat (map links children))" using assms(2) by (simp add: links_ok_def)
  then show ?thesis
    using n Some links_ok_break [OF assms(1)] by (cases n) auto
qed

lemma links_ok_line:
  "links_ok (fst st) \<Longrightarrow> links_ok (fst (line_step line st))"
  using links_ok_inline
  by (auto simp: line_step_def links_ok_break links_ok_add_item
      split: prod.splits option.splits) (simp_all add: links_ok_def)

text \<open>C21: Whatever a message contains, every link of its rendering, at any depth, is an address without white
  space that starts with https:// or http://.\<close>

theorem markdown_links_are_web_links: "list_all web_link (concat (map links (parseMarkdown source)))"
proof -
  have "links_ok (fst (fold line_step ls st))" if "links_ok (fst st)" for ls st
    using that by (induction ls arbitrary: st) (simp_all add: links_ok_line)
  from this [of "([], None)" "split_on 10 (newlines source)"]
  have "links_ok (parseMarkdown source)"
    by (auto simp: parseMarkdown_def split: prod.splits option.splits)
  then show ?thesis by (simp add: links_ok_def)
qed

section \<open>Feed rows\<close>

lemma feed_from_read:
  "list_all (\<lambda>m. m_created_seq m > anchor) ms \<Longrightarrow> m_created_seq p > anchor \<Longrightarrow>
     filter fr_firstUnread (feed_from zone anchor (Some p) ms) = []"
  by (induction ms arbitrary: p) (simp_all add: feed_row_def Let_def)

lemma feed_from_unread:
  assumes "anchor > 0"
  shows "sorted (map m_created_seq ms) \<Longrightarrow>
    (case previous of None \<Rightarrow> True | Some p \<Rightarrow> m_created_seq p \<le> anchor) \<Longrightarrow>
    map fr_message (filter fr_firstUnread (feed_from zone anchor previous ms)) =
      take 1 (filter (\<lambda>m. m_created_seq m > anchor) ms)"
proof (induction ms arbitrary: previous)
  case (Cons m ms)
  show ?case
  proof (cases "m_created_seq m > anchor")
    case True
    then have "list_all (\<lambda>m. m_created_seq m > anchor) ms" using Cons.prems(1) by (auto simp: list_all_iff)
    then show ?thesis
      using True Cons.prems(2) assms feed_from_read [of anchor ms m zone]
      by (auto simp: feed_row_def Let_def split: option.splits)
  next
    case False
    then show ?thesis using Cons by (simp add: feed_row_def Let_def)
  qed
qed simp

lemma messages_feed_from: "map fr_message (feed_from zone anchor previous ms) = ms"
  by (induction ms arbitrary: previous) (simp_all add: feed_row_def Let_def)

text \<open>A feed in sequence order has one row for each message, and the mark for the first unread message
  is on the first message after the read boundary and on no other row.\<close>

theorem feed_marks_first_unread:
  assumes "sorted (map m_created_seq ms)" and "anchor > 0"
  shows "map fr_message (feedRows zone ms anchor) = ms \<and>
    map fr_message (filter fr_firstUnread (feedRows zone ms anchor)) =
      take 1 (filter (\<lambda>m. m_created_seq m > anchor) ms)"
  using feed_from_unread [OF assms(2,1), of None] messages_feed_from by (simp add: feedRows_def)

end
