(* ===== verification/Session.thy ===== *)
theory Session
  imports Prelude
begin

text \<open>
  The token refresh of several browser tabs, \<open>BrowserSessionCoordinator\<close> of \<open>apps/web/src/session.ts\<close>.
  Each tab has a coordinator; the tabs share a broadcast channel, which delivers a message to every
  other tab some time after it was posted and in order, and, where the browser has it, a lock
  manager, which grants a lock to its requests one after the other.

  A refresh call runs up to its next \<open>await\<close>; its phase says what it waits for. The lemmas show that
  with the lock manager no two tabs have a refresh request in flight, and that no tab rotates the
  cookie again after another tab has done so while it was waiting.
\<close>

type_synonym token = jstring

datatype message = Tokens token | Logout

record tab =
  tb_latest :: "token option"
  tb_revision :: nat
  tb_listeners :: "nat list"
  tb_inbox :: "message list"
  tb_closed :: bool

definition new_tab :: tab where
  "new_tab = \<lparr>tb_latest = None, tb_revision = 0, tb_listeners = [], tb_inbox = [], tb_closed = False\<rparr>"

text \<open>\<open>Queued\<close> for the lock, \<open>Pausing\<close> for the timeout of 0, \<open>Requesting\<close> for the request.\<close>

datatype phase = Queued | Pausing | Requesting | Returned token | Rejected

record call =
  ca_tab :: nat
  ca_observed :: nat
  ca_phase :: phase

datatype effect =
    Began nat
  | Requested nat
  | Published message
  | Heard nat nat message

record sessions =
  ss_tabs :: "tab list"
  ss_calls :: "call list"
  ss_queue :: "nat list"
  ss_log :: "effect list"

definition open_tabs :: "nat \<Rightarrow> sessions" where
  "open_tabs n = \<lparr>ss_tabs = replicate n new_tab, ss_calls = [], ss_queue = [], ss_log = []\<rparr>"

definition add_log :: "effect list \<Rightarrow> sessions \<Rightarrow> sessions" where
  "add_log es s = s\<lparr>ss_log := ss_log s @ es\<rparr>"

definition set_tab :: "nat \<Rightarrow> tab \<Rightarrow> sessions \<Rightarrow> sessions" where
  "set_tab t x s = s\<lparr>ss_tabs := (ss_tabs s)[t := x]\<rparr>"

definition set_phase :: "nat \<Rightarrow> phase \<Rightarrow> sessions \<Rightarrow> sessions" where
  "set_phase k p s = s\<lparr>ss_calls := (ss_calls s)[k := (ss_calls s ! k)\<lparr>ca_phase := p\<rparr>]\<rparr>"

section \<open>Messages\<close>

fun received :: "message \<Rightarrow> tab \<Rightarrow> tab" where
  "received (Tokens tok) x = x\<lparr>tb_latest := Some tok, tb_revision := tb_revision x + 1\<rparr>"
| "received Logout x = x\<lparr>tb_latest := None\<rparr>"

definition receive :: "nat \<Rightarrow> message \<Rightarrow> sessions \<Rightarrow> sessions" where
  "receive t m s =
     add_log (map (\<lambda>l. Heard t l m) (tb_listeners (ss_tabs s ! t))) (set_tab t (received m (ss_tabs s ! t)) s)"

text \<open>\<open>postMessage\<close>; on a closed channel it throws, which the second function says.\<close>

definition deliver_to :: "message \<Rightarrow> tab \<Rightarrow> tab" where
  "deliver_to m x = (if tb_closed x then x else x\<lparr>tb_inbox := tb_inbox x @ [m]\<rparr>)"

definition post :: "nat \<Rightarrow> message \<Rightarrow> sessions \<Rightarrow> sessions" where
  "post t m s =
     (if tb_closed (ss_tabs s ! t) then s
      else s\<lparr>ss_tabs := (map (deliver_to m) (ss_tabs s))[t := ss_tabs s ! t]\<rparr>)"

definition post_throws :: "nat \<Rightarrow> sessions \<Rightarrow> bool" where
  "post_throws t s \<longleftrightarrow> tb_closed (ss_tabs s ! t)"

definition publish :: "nat \<Rightarrow> message \<Rightarrow> sessions \<Rightarrow> sessions" where
  "publish t m s = post t m (receive t m (add_log [Published m] s))"

section \<open>Refreshing\<close>

text \<open>The lock manager: the head of the queue holds the lock.\<close>

definition grant :: "sessions \<Rightarrow> sessions" where
  "grant s =
     (case ss_queue s of
        [] \<Rightarrow> s
      | k # _ \<Rightarrow> if ca_phase (ss_calls s ! k) = Queued then set_phase k Pausing s else s)"

definition release :: "nat \<Rightarrow> sessions \<Rightarrow> sessions" where
  "release k s = grant (s\<lparr>ss_queue := filter (\<lambda>j. j \<noteq> k) (ss_queue s)\<rparr>)"

definition refresh :: "bool \<Rightarrow> nat \<Rightarrow> sessions \<Rightarrow> sessions" where
  "refresh locks t s =
     (let k = length (ss_calls s);
          c = \<lparr>ca_tab = t, ca_observed = tb_revision (ss_tabs s ! t),
               ca_phase = (if locks then Queued else Pausing)\<rparr>;
          s1 = add_log [Began k] (s\<lparr>ss_calls := ss_calls s @ [c]\<rparr>)
      in if locks then grant (s1\<lparr>ss_queue := ss_queue s1 @ [k]\<rparr>) else s1)"

text \<open>\<open>guardedRefresh\<close> after the pause.\<close>

definition pause_over :: "nat \<Rightarrow> sessions \<Rightarrow> sessions" where
  "pause_over k s =
     (let c = ss_calls s ! k; x = ss_tabs s ! ca_tab c in
      case (if tb_revision x > ca_observed c then tb_latest x else None) of
        Some tok \<Rightarrow> release k (set_phase k (Returned tok) s)
      | None \<Rightarrow> add_log [Requested k] (set_phase k Requesting s))"

text \<open>\<open>guardedRefresh\<close> after the request.\<close>

definition request_over :: "nat \<Rightarrow> token option \<Rightarrow> sessions \<Rightarrow> sessions" where
  "request_over k outcome s =
     (let t = ca_tab (ss_calls s ! k) in
      case outcome of
        None \<Rightarrow> release k (set_phase k Rejected s)
      | Some tok \<Rightarrow>
          release k (set_phase k (if post_throws t s then Rejected else Returned tok) (publish t (Tokens tok) s)))"

datatype event =
    Refresh nat
  | PauseOver nat
  | RequestOver nat "token option"
  | Deliver nat
  | PublishTokens nat token
  | PublishLogout nat
  | Subscribe nat nat
  | Unsubscribe nat nat
  | Close nat

definition has_phase :: "nat \<Rightarrow> phase \<Rightarrow> sessions \<Rightarrow> bool" where
  "has_phase k p s \<longleftrightarrow> k < length (ss_calls s) \<and> ca_phase (ss_calls s ! k) = p"

definition deliver :: "nat \<Rightarrow> sessions \<Rightarrow> sessions" where
  "deliver t s =
     (case tb_inbox (ss_tabs s ! t) of
        [] \<Rightarrow> s
      | m # ms \<Rightarrow> receive t m (set_tab t ((ss_tabs s ! t)\<lparr>tb_inbox := ms\<rparr>) s))"

definition on_tab :: "nat \<Rightarrow> sessions \<Rightarrow> (sessions \<Rightarrow> sessions) \<Rightarrow> sessions" where
  "on_tab t s f = (if t < length (ss_tabs s) then f s else s)"

fun step :: "bool \<Rightarrow> event \<Rightarrow> sessions \<Rightarrow> sessions" where
  "step locks (Refresh t) s = on_tab t s (refresh locks t)"
| "step locks (PauseOver k) s = (if has_phase k Pausing s then pause_over k s else s)"
| "step locks (RequestOver k outcome) s = (if has_phase k Requesting s then request_over k outcome s else s)"
| "step locks (Deliver t) s = on_tab t s (deliver t)"
| "step locks (PublishTokens t tok) s = on_tab t s (publish t (Tokens tok))"
| "step locks (PublishLogout t) s = on_tab t s (publish t Logout)"
| "step locks (Subscribe t l) s = on_tab t s (\<lambda>s. set_tab t ((ss_tabs s ! t)\<lparr>tb_listeners :=
     js_set [] (tb_listeners (ss_tabs s ! t) @ [l])\<rparr>) s)"
| "step locks (Unsubscribe t l) s = on_tab t s (\<lambda>s. set_tab t ((ss_tabs s ! t)\<lparr>tb_listeners :=
     filter (\<lambda>j. j \<noteq> l) (tb_listeners (ss_tabs s ! t))\<rparr>) s)"
| "step locks (Close t) s = on_tab t s (\<lambda>s. set_tab t ((ss_tabs s ! t)\<lparr>tb_listeners := [], tb_inbox := [],
     tb_closed := True\<rparr>) s)"

definition run :: "bool \<Rightarrow> nat \<Rightarrow> event list \<Rightarrow> sessions" where
  "run locks n es = fold (step locks) es (open_tabs n)"

section \<open>One request at a time\<close>

fun active :: "phase \<Rightarrow> bool" where
  "active Pausing = True"
| "active Requesting = True"
| "active _ = False"

definition lock_ok :: "sessions \<Rightarrow> bool" where
  "lock_ok s \<longleftrightarrow> distinct (ss_queue s) \<and> (\<forall>k \<in> set (ss_queue s). k < length (ss_calls s)) \<and>
     (\<forall>k < length (ss_calls s). active (ca_phase (ss_calls s ! k)) \<longrightarrow> (\<exists>ks. ss_queue s = k # ks))"

lemma calls_messages [simp]:
  "ss_calls (add_log es s) = ss_calls s" "ss_queue (add_log es s) = ss_queue s"
  "ss_calls (set_tab t x s) = ss_calls s" "ss_queue (set_tab t x s) = ss_queue s"
  "ss_calls (receive t m s) = ss_calls s" "ss_queue (receive t m s) = ss_queue s"
  "ss_calls (publish t m s) = ss_calls s" "ss_queue (publish t m s) = ss_queue s"
  "ss_calls (deliver t s) = ss_calls s" "ss_queue (deliver t s) = ss_queue s"
  by (simp_all add: add_log_def set_tab_def receive_def publish_def post_def deliver_def split: list.split)

lemma calls_set_phase [simp]:
  "ss_queue (set_phase k p s) = ss_queue s" "length (ss_calls (set_phase k p s)) = length (ss_calls s)"
  by (simp_all add: set_phase_def)

lemma phase_set_phase:
  "j < length (ss_calls s) \<Longrightarrow>
     ca_phase (ss_calls (set_phase k p s) ! j) = (if j = k then p else ca_phase (ss_calls s ! j))"
  by (auto simp: set_phase_def nth_list_update)

lemma lock_ok_grant:
  assumes "distinct (ss_queue s)" and "\<forall>k \<in> set (ss_queue s). k < length (ss_calls s)"
    and "\<forall>k < length (ss_calls s). active (ca_phase (ss_calls s ! k)) \<longrightarrow> (\<exists>ks. ss_queue s = k # ks)"
  shows "lock_ok (grant s)"
  using assms by (cases "ss_queue s") (auto simp: grant_def lock_ok_def phase_set_phase split: if_splits)

lemma lock_ok_release:
  assumes "lock_ok s" and "active (ca_phase (ss_calls s ! k))" and "k < length (ss_calls s)" and "\<not> active p"
  shows "lock_ok (release k (set_phase k p s))"
proof -
  obtain ks where ks: "ss_queue s = k # ks" using assms unfolding lock_ok_def by blast
  have q: "filter (\<lambda>j. j \<noteq> k) (ss_queue s) = ks"
    using assms(1) ks by (auto simp: lock_ok_def filter_id_conv)
  have none: "\<not> active (ca_phase (ss_calls (set_phase k p s) ! j))" if "j < length (ss_calls s)" for j
    using that assms(1,4) ks by (auto simp: lock_ok_def phase_set_phase)
  show ?thesis
    unfolding release_def
    by (rule lock_ok_grant) (use assms(1) ks q none in \<open>auto simp: lock_ok_def\<close>)
qed

lemma lock_ok_step:
  assumes "lock_ok s"
  shows "lock_ok (step True e s)"
proof (cases e)
  case (Refresh t)
  then show ?thesis
    using assms
    by (auto simp: on_tab_def refresh_def Let_def intro!: lock_ok_grant)
      (auto simp: lock_ok_def nth_append split: if_splits)
next
  case (PauseOver k)
  show ?thesis
  proof (cases "has_phase k Pausing s")
    case True
    then have k: "active (ca_phase (ss_calls s ! k))" "k < length (ss_calls s)" by (auto simp: has_phase_def)
    have "lock_ok (set_phase k Requesting s)"
      using assms k by (auto simp: lock_ok_def phase_set_phase split: if_splits)
    then have "lock_ok (add_log [Requested k] (set_phase k Requesting s))"
      by (simp add: lock_ok_def)
    then show ?thesis
      using PauseOver True lock_ok_release [OF assms k]
      by (auto simp: pause_over_def Let_def split: option.splits if_splits)
  qed (use PauseOver assms in simp)
next
  case (RequestOver k outcome)
  show ?thesis
  proof (cases "has_phase k Requesting s")
    case True
    then have k: "active (ca_phase (ss_calls s ! k))" "k < length (ss_calls s)" by (auto simp: has_phase_def)
    have "lock_ok (publish t m s)" for t m using assms by (simp add: lock_ok_def)
    then show ?thesis
      using RequestOver True lock_ok_release [OF assms k] lock_ok_release [of "publish t m s" k for t m] k
      by (auto simp: request_over_def Let_def split: option.splits)
  qed (use RequestOver assms in simp)
qed (use assms in \<open>simp_all add: on_tab_def lock_ok_def\<close>)

lemma lock_ok_run: "lock_ok (run True n es)"
proof -
  have "lock_ok s \<Longrightarrow> lock_ok (fold (step True) es s)" for s
    by (induction es arbitrary: s) (simp_all add: lock_ok_step)
  then show ?thesis by (simp add: run_def lock_ok_def open_tabs_def)
qed

definition requesting :: "sessions \<Rightarrow> nat list" where
  "requesting s = filter (\<lambda>k. ca_phase (ss_calls s ! k) = Requesting) [0..<length (ss_calls s)]"

text \<open>C22: With the browser's lock manager at most one refresh request of all tabs is in flight at any time,
  so the refresh cookie is never rotated by two tabs at once.\<close>

theorem one_refresh_request_over_all_tabs: "length (requesting (run True n es)) \<le> 1"
proof -
  let ?s = "run True n es"
  have head: "\<exists>ks. ss_queue ?s = k # ks" if "k \<in> set (requesting ?s)" for k
    using that lock_ok_run [of n es] by (simp add: requesting_def lock_ok_def)
  have same: "j = k" if "j \<in> set (requesting ?s)" "k \<in> set (requesting ?s)" for j k
    using head [OF that(1)] head [OF that(2)] by auto
  have "card (set (requesting ?s)) \<le> 1"
    by (rule card_le_Suc0_iff_eq [THEN iffD2, simplified One_nat_def [symmetric]]) (simp, blast intro: same)
  moreover have "distinct (requesting ?s)" by (simp add: requesting_def)
  ultimately show ?thesis by (simp add: distinct_card)
qed

section \<open>No rotation after another tab's\<close>

text \<open>
  The comment in \<open>guardedRefresh\<close> gives the reason of the timeout: the tab must get a chance to receive
  the token published by the previous holder of the lock. \<open>prompt\<close> says that it does: a pause is over only
  when no message waits for the tab. Logouts and closed tabs are left out, since a logout forgets the token.
\<close>

fun prompt_step :: "event \<Rightarrow> sessions \<Rightarrow> bool" where
  "prompt_step (PauseOver k) s \<longleftrightarrow> (has_phase k Pausing s \<longrightarrow> tb_inbox (ss_tabs s ! ca_tab (ss_calls s ! k)) = [])"
| "prompt_step (PublishLogout t) s \<longleftrightarrow> False"
| "prompt_step (Close t) s \<longleftrightarrow> False"
| "prompt_step _ s \<longleftrightarrow> True"

fun prompt :: "bool \<Rightarrow> sessions \<Rightarrow> event list \<Rightarrow> bool" where
  "prompt locks s [] \<longleftrightarrow> True"
| "prompt locks s (e # es) \<longleftrightarrow> prompt_step e s \<and> prompt locks (step locks e s) es"

fun is_token_publication :: "effect \<Rightarrow> bool" where
  "is_token_publication (Published (Tokens _)) = True"
| "is_token_publication _ = False"

definition publications :: "effect list \<Rightarrow> nat" where
  "publications es = length (filter is_token_publication es)"

lemma publications_simps [simp]:
  "publications [] = 0"
  "publications (e # es) = (if is_token_publication e then 1 else 0) + publications es"
  "publications (es @ fs) = publications es + publications fs"
  "publications (map (\<lambda>l. Heard t l m) ls) = 0"
  by (simp_all add: publications_def filter_empty_conv)

definition tab_ok :: "nat \<Rightarrow> tab \<Rightarrow> bool" where
  "tab_ok n x \<longleftrightarrow> tb_revision x + length (tb_inbox x) = n \<and> (\<forall>m \<in> set (tb_inbox x). m \<noteq> Logout) \<and>
     (tb_revision x > 0 \<longrightarrow> tb_latest x \<noteq> None) \<and> \<not> tb_closed x"

definition tabs_ok :: "sessions \<Rightarrow> bool" where
  "tabs_ok s \<longleftrightarrow> (\<forall>x \<in> set (ss_tabs s). tab_ok (publications (ss_log s)) x)"

definition calls_ok :: "sessions \<Rightarrow> bool" where
  "calls_ok s \<longleftrightarrow> (\<forall>k < length (ss_calls s). ca_tab (ss_calls s ! k) < length (ss_tabs s) \<and>
     ca_observed (ss_calls s ! k) \<le> tb_revision (ss_tabs s ! ca_tab (ss_calls s ! k)))"

definition logged_ok :: "call list \<Rightarrow> effect list \<Rightarrow> bool" where
  "logged_ok cs log \<longleftrightarrow>
     (\<forall>i < length log. \<forall>k.
        (log ! i = Began k \<longrightarrow> k < length cs \<and> ca_observed (cs ! k) \<le> publications (take i log)) \<and>
        (log ! i = Requested k \<longrightarrow> k < length cs \<and> publications (take i log) \<le> ca_observed (cs ! k)))"

lemma logged_ok_snoc:
  assumes "logged_ok cs log"
    and "\<And>k. e = Began k \<Longrightarrow> k < length cs \<and> ca_observed (cs ! k) \<le> publications log"
    and "\<And>k. e = Requested k \<Longrightarrow> k < length cs \<and> publications log \<le> ca_observed (cs ! k)"
  shows "logged_ok cs (log @ [e])"
  using assms by (auto simp: logged_ok_def nth_append less_Suc_eq)

fun marks_call :: "effect \<Rightarrow> bool" where
  "marks_call (Began _) = True"
| "marks_call (Requested _) = True"
| "marks_call _ = False"

lemma logged_ok_append:
  "logged_ok cs log \<Longrightarrow> list_all (\<lambda>e. \<not> marks_call e) es \<Longrightarrow> logged_ok cs (log @ es)"
proof (induction es arbitrary: log)
  case (Cons e es)
  then have "logged_ok cs (log @ [e])" by (intro logged_ok_snoc) auto
  with Cons show ?case 
    by simp (metis append.assoc append_Cons append_Nil)
qed simp

lemma logged_ok_calls:
  assumes "logged_ok cs log" and "length cs \<le> length cs'"
    and "\<And>k. k < length cs \<Longrightarrow> ca_observed (cs' ! k) = ca_observed (cs ! k)"
  shows "logged_ok cs' log"
  using assms unfolding logged_ok_def by (metis order_less_le_trans)

lemma no_publication_between:
  assumes "logged_ok cs (a @ Began k # b @ Requested k # c)"
  shows "publications b = 0"
proof -
  have "ca_observed (cs ! k) \<le> publications a"
    using assms [unfolded logged_ok_def, rule_format, of "length a" k] by (simp add: nth_append)
  moreover have "publications (a @ Began k # b) \<le> ca_observed (cs ! k)"
    using assms [unfolded logged_ok_def, rule_format, of "length (a @ Began k # b)" k] by (simp add: nth_append)
  ultimately show ?thesis by simp
qed

definition fresh_ok :: "sessions \<Rightarrow> bool" where
  "fresh_ok s \<longleftrightarrow> tabs_ok s \<and> calls_ok s \<and> logged_ok (ss_calls s) (ss_log s)"

lemma observed_set_phase [simp]:
  "ca_observed (ss_calls (set_phase k p s) ! j) = ca_observed (ss_calls s ! j)" (is ?A)
  "ca_tab (ss_calls (set_phase k p s) ! j) = ca_tab (ss_calls s ! j)" (is ?B)
proof -
  have "?A \<and> ?B"
  proof (cases "k < length (ss_calls s)")
    case True
    then show ?thesis by (cases "j = k") (simp_all add: set_phase_def)
  next
    case False
    then have "ss_calls (set_phase k p s) = ss_calls s"
      by (simp add: set_phase_def list_update_beyond)
    then show ?thesis by simp
  qed
  then show ?A and ?B by blast+
qed

lemma other_set_phase [simp]:
  "ss_tabs (set_phase k p s) = ss_tabs s" "ss_log (set_phase k p s) = ss_log s"
  by (simp_all add: set_phase_def)

lemma fresh_ok_phase:
  assumes "fresh_ok s"
  shows "fresh_ok (set_phase k p s)"
proof -
  have "logged_ok (ss_calls (set_phase k p s)) (ss_log s)"
    by (rule logged_ok_calls [of "ss_calls s"]) (use assms in \<open>simp_all add: fresh_ok_def\<close>)
  then show ?thesis
    using assms by (simp add: fresh_ok_def tabs_ok_def calls_ok_def)
qed

lemma fresh_ok_queue [simp]: "fresh_ok (s\<lparr>ss_queue := q\<rparr>) = fresh_ok s"
  by (simp add: fresh_ok_def tabs_ok_def calls_ok_def)

lemma fresh_ok_grant:
  "fresh_ok s \<Longrightarrow> fresh_ok (grant s)"
  by (auto simp: grant_def fresh_ok_phase split: list.split)

lemma fresh_ok_release: "fresh_ok s \<Longrightarrow> fresh_ok (release k s)"
  by (simp add: release_def fresh_ok_grant)

lemma fresh_ok_publish:
  assumes "fresh_ok s" and "t < length (ss_tabs s)"
  shows "fresh_ok (publish t (Tokens tok) s)"
proof -
  let ?s = "publish t (Tokens tok) s"
  let ?n = "publications (ss_log s)"
  have ok: "tab_ok ?n (ss_tabs s ! j)" if "j < length (ss_tabs s)" for j
    using assms(1) that by (simp add: fresh_ok_def tabs_ok_def)
  have log: "ss_log ?s = ss_log s @ Published (Tokens tok) # map (\<lambda>l. Heard t l (Tokens tok)) (tb_listeners (ss_tabs s ! t))"
    using ok [OF assms(2)] assms(2)
    by (simp add: publish_def post_def receive_def add_log_def set_tab_def)
  have tabs: "ss_tabs ?s = (map (deliver_to (Tokens tok)) (ss_tabs s))[t := received (Tokens tok) (ss_tabs s ! t)]"
    using ok [OF assms(2)] assms(2)
    by (simp add: publish_def post_def receive_def add_log_def set_tab_def tab_ok_def map_update)
  have tab: "tab_ok (Suc ?n) (ss_tabs ?s ! j)" if "j < length (ss_tabs s)" for j
    using ok [OF that] assms(2) that by (auto simp: tabs tab_ok_def deliver_to_def nth_list_update)
  have "tabs_ok ?s"
    using tab by (auto simp: tabs_ok_def log in_set_conv_nth) (simp add: tabs)
  moreover have "calls_ok ?s"
    using assms ok by (auto simp: fresh_ok_def calls_ok_def tabs nth_list_update deliver_to_def le_Suc_eq)
  moreover have "logged_ok (ss_calls ?s) (ss_log ?s)"
    using assms(1) by (auto simp: fresh_ok_def log intro!: logged_ok_append simp: list_all_iff)
  ultimately show ?thesis by (simp add: fresh_ok_def)
qed

lemma fresh_ok_deliver:
  assumes "fresh_ok s" and "t < length (ss_tabs s)"
  shows "fresh_ok (deliver t s)"
proof (cases "tb_inbox (ss_tabs s ! t)")
  case Nil
  then show ?thesis using assms by (simp add: deliver_def)
next
  case (Cons m ms)
  let ?s = "deliver t s"
  let ?n = "publications (ss_log s)"
  have ok: "tab_ok ?n (ss_tabs s ! j)" if "j < length (ss_tabs s)" for j
    using assms(1) that by (simp add: fresh_ok_def tabs_ok_def)
  obtain tok where m: "m = Tokens tok"
    using ok [OF assms(2)] Cons by (cases m) (auto simp: tab_ok_def)
  have log: "ss_log ?s = ss_log s @ map (\<lambda>l. Heard t l m) (tb_listeners (ss_tabs s ! t))"
    and tabs: "ss_tabs ?s = (ss_tabs s)[t := received m ((ss_tabs s ! t)\<lparr>tb_inbox := ms\<rparr>)]"
    using assms(2) Cons by (simp_all add: deliver_def receive_def add_log_def set_tab_def)
  have tab: "tab_ok ?n (ss_tabs ?s ! j)" if "j < length (ss_tabs s)" for j
    using ok [OF that] assms(2) Cons m by (auto simp: tabs tab_ok_def nth_list_update)
  have "tabs_ok ?s"
    using tab by (auto simp: tabs_ok_def log in_set_conv_nth) (simp add: tabs)
  moreover have "calls_ok ?s"
    using assms m by (auto simp: fresh_ok_def calls_ok_def tabs nth_list_update le_Suc_eq)
  moreover have "logged_ok (ss_calls ?s) (ss_log ?s)"
    using assms(1) by (auto simp: fresh_ok_def log intro!: logged_ok_append simp: list_all_iff)
  ultimately show ?thesis by (simp add: fresh_ok_def)
qed

lemma fresh_ok_refresh:
  assumes "fresh_ok s" and "t < length (ss_tabs s)"
  shows "fresh_ok (refresh locks t s)"
proof -
  let ?c = "\<lparr>ca_tab = t, ca_observed = tb_revision (ss_tabs s ! t), ca_phase = (if locks then Queued else Pausing)\<rparr>"
  let ?s = "add_log [Began (length (ss_calls s))] (s\<lparr>ss_calls := ss_calls s @ [?c]\<rparr>)"
  have "tab_ok (publications (ss_log s)) (ss_tabs s ! t)"
    using assms by (simp add: fresh_ok_def tabs_ok_def)
  then have seen: "tb_revision (ss_tabs s ! t) \<le> publications (ss_log s)"
    by (simp add: tab_ok_def)
  have "logged_ok (ss_calls s @ [?c]) (ss_log s)"
    by (rule logged_ok_calls [of "ss_calls s"]) (use assms in \<open>simp_all add: fresh_ok_def nth_append\<close>)
  then have "logged_ok (ss_calls ?s) (ss_log ?s)"
    using seen by (auto simp: add_log_def intro!: logged_ok_snoc)
  moreover have "tabs_ok ?s" using assms by (simp add: fresh_ok_def tabs_ok_def add_log_def)
  moreover have "calls_ok ?s"
    using assms by (auto simp: fresh_ok_def calls_ok_def add_log_def nth_append less_Suc_eq)
  ultimately have "fresh_ok ?s" by (simp add: fresh_ok_def)
  then show ?thesis by (cases locks) (simp_all add: refresh_def Let_def fresh_ok_grant)
qed

lemma fresh_ok_pause_over:
  assumes "fresh_ok s" and "has_phase k Pausing s" and "tb_inbox (ss_tabs s ! ca_tab (ss_calls s ! k)) = []"
  shows "fresh_ok (pause_over k s)"
proof -
  let ?c = "ss_calls s ! k"
  let ?x = "ss_tabs s ! ca_tab ?c"
  have k: "k < length (ss_calls s)" using assms(2) by (simp add: has_phase_def)
  then have "ca_tab ?c < length (ss_tabs s)" using assms(1) by (simp add: fresh_ok_def calls_ok_def)
  then have x: "tab_ok (publications (ss_log s)) ?x" using assms(1) by (simp add: fresh_ok_def tabs_ok_def)
  have p: "fresh_ok (set_phase k Requesting s)" by (rule fresh_ok_phase [OF assms(1)])
  have "fresh_ok (add_log [Requested k] (set_phase k Requesting s))"
    if "\<not> tb_revision ?x > ca_observed ?c"
  proof -
    have "publications (ss_log s) \<le> ca_observed ?c" using that x assms(3) by (simp add: tab_ok_def)
    then have "logged_ok (ss_calls (set_phase k Requesting s)) (ss_log s @ [Requested k])"
      using p k by (intro logged_ok_snoc) (auto simp: fresh_ok_def)
    then show ?thesis using p by (simp add: fresh_ok_def tabs_ok_def calls_ok_def add_log_def)
  qed
  moreover have "tb_revision ?x > ca_observed ?c \<Longrightarrow> tb_latest ?x \<noteq> None" using x by (auto simp: tab_ok_def)
  ultimately show ?thesis
    using fresh_ok_release [OF fresh_ok_phase [OF assms(1)]]
    by (auto simp: pause_over_def Let_def)
qed

lemma fresh_ok_set_tab:
  assumes "fresh_ok s" and "t < length (ss_tabs s)"
  shows "fresh_ok (set_tab t ((ss_tabs s ! t)\<lparr>tb_listeners := ls\<rparr>) s)"
proof -
  have "tab_ok (publications (ss_log s)) x" if "x \<in> set ((ss_tabs s)[t := (ss_tabs s ! t)\<lparr>tb_listeners := ls\<rparr>])" for x
  proof (cases "x \<in> set (ss_tabs s)")
    case False
    then have "x = (ss_tabs s ! t)\<lparr>tb_listeners := ls\<rparr>"
      using set_update_subset_insert [THEN subsetD, OF that] by simp
    moreover have "tab_ok (publications (ss_log s)) (ss_tabs s ! t)"
      using assms by (simp add: fresh_ok_def tabs_ok_def)
    ultimately show ?thesis by (simp add: tab_ok_def)
  qed (use assms in \<open>simp add: fresh_ok_def tabs_ok_def\<close>)
  then show ?thesis
    using assms by (simp add: fresh_ok_def tabs_ok_def calls_ok_def set_tab_def nth_list_update)
qed

lemma fresh_ok_step:
  assumes "fresh_ok s" and "prompt_step e s"
  shows "fresh_ok (step locks e s)"
proof (cases e)
  case (RequestOver k outcome)
  show ?thesis
  proof (cases "has_phase k Requesting s")
    case True
    then have "ca_tab (ss_calls s ! k) < length (ss_tabs s)"
      using assms(1) by (simp add: has_phase_def fresh_ok_def calls_ok_def)
    then show ?thesis
      using RequestOver True assms(1)
      by (simp add: request_over_def Let_def fresh_ok_release fresh_ok_phase fresh_ok_publish split: option.split)
  qed (use RequestOver assms in simp)
qed (use assms in \<open>simp_all add: on_tab_def fresh_ok_refresh fresh_ok_pause_over fresh_ok_deliver
    fresh_ok_publish fresh_ok_set_tab\<close>)

lemma fresh_ok_run:
  assumes "prompt locks (open_tabs n) es"
  shows "fresh_ok (run locks n es)"
proof -
  have "fresh_ok s \<Longrightarrow> prompt locks s es \<Longrightarrow> fresh_ok (fold (step locks) es s)" for s
    by (induction es arbitrary: s) (simp_all add: fresh_ok_step)
  moreover have "fresh_ok (open_tabs n)"
    by (simp add: fresh_ok_def tabs_ok_def calls_ok_def logged_ok_def open_tabs_def tab_ok_def new_tab_def)
  ultimately show ?thesis using assms by (simp add: run_def)
qed

text \<open>A refresh call asks the server only when no tab has published tokens since the call began: a tab
  that waited while another one refreshed takes over that one's tokens.\<close>

theorem no_request_after_another_refresh:
  assumes "prompt locks (open_tabs n) es" and "ss_log (run locks n es) = before @ Began k # between @ Requested k # later"
  shows "Published (Tokens tok) \<notin> set between"
proof
  assume "Published (Tokens tok) \<in> set between"
  then obtain a b where "between = a @ Published (Tokens tok) # b" by (auto simp: in_set_conv_decomp)
  then have "publications between > 0" by simp
  with no_publication_between fresh_ok_run [OF assms(1)] assms(2) show False
    by (metis fresh_ok_def less_nat_zero_code)
qed

definition two_refreshes :: "event list" where
  "two_refreshes = [Refresh 0, Refresh 1, PauseOver 0, RequestOver 0 (Some (js ''b'')), Deliver 1, PauseOver 1,
     Refresh 0, PauseOver 2]"

lemma two_refreshes_log:
  "ss_log (run True 2 two_refreshes) =
     [] @ Began 0 # [Began 1] @ Requested 0 # [Published (Tokens (js ''b'')), Began 2, Requested 2]"
  by code_simp

lemma no_request_after_another_refresh_witness:
  "prompt True (open_tabs 2) two_refreshes \<and> Published (Tokens (js ''b'')) \<notin> set [Began 1]"
proof -
  have "prompt True (open_tabs 2) two_refreshes" by code_simp
  then show ?thesis by (intro conjI) (assumption, rule no_request_after_another_refresh [OF _ two_refreshes_log])
qed

end
