(* ===== verification/Sdk.thy ===== *)
theory Sdk
  imports Streaming
begin

text \<open>
  The agent SDK, \<open>packages/agent-sdk/src/index.ts\<close>: the requests of \<open>AgentClient\<close> and the reading of
  their answers, \<open>RuntimeSocket\<close>, \<open>defineAgent\<close> and the context a recipe's handler gets. The worker
  loop is in \<open>Sdk_Worker\<close>, the provisioning client in \<open>Sdk_Admin\<close>, the coalescer in \<open>Streaming\<close>.

  The lemmas show that the socket acknowledges the highest event its handler has returned from, that
  the streams of a run, also concurrent ones, are numbered in one sequence, and that each stream's
  frames are the text of its chunks.
\<close>

section \<open>Data\<close>

record agent_run =
  ar_id :: jstring
  ar_agent_id :: jstring
  ar_chat_id :: "jstring field"
  ar_thread_root_id :: "jstring field"
  ar_correlation_id :: jstring
  ar_provider :: jstring
  ar_model :: jstring
  ar_input :: json
  ar_status :: jstring
  ar_lease_token :: jstring

text \<open>\<open>AgentSDKError\<close> with its code, status and message; the code and the message may come from a
  response and are then any JSON. \<open>Thrown\<close> is what a handler, the network or the platform throws.\<close>

datatype sdk_error = AgentSDKError json nat json | Thrown jstring

record http_request =
  hr_method :: jstring
  hr_url :: jstring
  hr_headers :: "(jstring \<times> jstring) list"
  hr_body :: "json option"

text \<open>A body: one \<open>response.json()\<close> rejects, or JSON.\<close>

record http_response =
  hs_status :: nat
  hs_body :: "json option"

section \<open>Requests\<close>

record agent_client =
  ac_base :: jstring
  ac_key :: jstring

text \<open>\<open>replace(/\/$/, "")\<close>\<close>

definition strip_slash :: "jstring \<Rightarrow> jstring" where
  "strip_slash url = (if ends_with (js ''/'') url then butlast url else url)"

definition agent_client_of :: "jstring \<Rightarrow> jstring \<Rightarrow> agent_client" where
  "agent_client_of url key = \<lparr>ac_base = strip_slash url, ac_key = key\<rparr>"

definition raw :: "jstring \<Rightarrow> jstring \<Rightarrow> json option \<Rightarrow> agent_client \<Rightarrow> http_request" where
  "raw path verb body c =
     \<lparr>hr_method = verb, hr_url = ac_base c @ path,
      hr_headers = [(js ''Authorization'', js ''Bearer '' @ ac_key c), (js ''Content-Type'', js ''application/json'')],
      hr_body = body\<rparr>"

definition claim :: "jstring \<Rightarrow> int option \<Rightarrow> int option \<Rightarrow> agent_client \<Rightarrow> http_request" where
  "claim workerID leaseSeconds waitSeconds =
     raw (js ''/api/v1/agent-runtime/runs/claim'') (js ''POST'')
       (Some (JObj [(js ''worker_id'', JStr workerID), (js ''lease_seconds'', JNum (default_to 90 leaseSeconds)),
         (js ''wait_seconds'', JNum (default_to 25 waitSeconds))]))"

definition heartbeat :: "agent_run \<Rightarrow> int \<Rightarrow> agent_client \<Rightarrow> http_request" where
  "heartbeat run leaseSeconds =
     raw (js ''/api/v1/agent-runtime/runs/'' @ ar_id run @ js ''/heartbeat'') (js ''POST'')
       (Some (JObj [(js ''lease_token'', JStr (ar_lease_token run)), (js ''lease_seconds'', JNum leaseSeconds)]))"

definition complete :: "agent_run \<Rightarrow> json \<Rightarrow> agent_client \<Rightarrow> http_request" where
  "complete run resultSummary =
     raw (js ''/api/v1/agent-runtime/runs/'' @ ar_id run @ js ''/complete'') (js ''POST'')
       (Some (JObj [(js ''lease_token'', JStr (ar_lease_token run)), (js ''input_tokens'', JNum 0),
         (js ''output_tokens'', JNum 0), (js ''cost'', JStr (js ''0'')), (js ''currency'', JStr (js ''USD'')),
         (js ''price_source'', JStr (js ''unknown'')), (js ''result_summary'', resultSummary)]))"

definition fail :: "agent_run \<Rightarrow> json \<Rightarrow> agent_client \<Rightarrow> http_request" where
  "fail run errorCode =
     raw (js ''/api/v1/agent-runtime/runs/'' @ ar_id run @ js ''/fail'') (js ''POST'')
       (Some (JObj [(js ''lease_token'', JStr (ar_lease_token run)), (js ''error_code'', errorCode)]))"

definition tools :: "agent_client \<Rightarrow> http_request" where
  "tools = raw (js ''/api/v1/agent-tools'') (js ''GET'') None"

text \<open>\<open>None\<close> is the URIError on a lone surrogate; \<open>uuid\<close> is the result of \<open>crypto.randomUUID\<close>.\<close>

definition invokeTool ::
  "jstring \<Rightarrow> agent_run \<Rightarrow> jstring \<Rightarrow> json \<Rightarrow> agent_client \<Rightarrow> http_request option" where
  "invokeTool uuid run name arguments c =
     map_option (\<lambda>n. raw (js ''/api/v1/agent-tools/'' @ n) (js ''POST'')
       (Some (JObj [(js ''run_id'', JStr (ar_id run)), (js ''lease_token'', JStr (ar_lease_token run)),
         (js ''correlation_id'', JStr (ar_correlation_id run)), (js ''tool_call_id'', JStr uuid),
         (js ''arguments'', arguments)])) c) (encodeURIComponent name)"

section \<open>Answers\<close>

text \<open>\<open>payload.k ?? d\<close>\<close>

definition member_or :: "jstring \<Rightarrow> jstring \<Rightarrow> json \<Rightarrow> json" where
  "member_or k d v = (case get k v of None \<Rightarrow> JStr d | Some JNull \<Rightarrow> JStr d | Some x \<Rightarrow> x)"

definition error_payload :: "http_response \<Rightarrow> json" where
  "error_payload r = default_to (JObj []) (hs_body r)"

text \<open>A body of \<open>null\<close> makes \<open>payload.code\<close> throw.\<close>

definition decode :: "http_response \<Rightarrow> (sdk_error, json) result" where
  "decode r =
     (if \<not> (200 \<le> hs_status r \<and> hs_status r \<le> 299)
      then (if error_payload r = JNull then Inl (Thrown (js ''TypeError''))
            else Inl (AgentSDKError (member_or (js ''code'') (js ''request_failed'') (error_payload r)) (hs_status r)
                   (member_or (js ''message'') (js ''Core returned HTTP '' @ show_nat (hs_status r)) (error_payload r))))
      else (case hs_body r of
              None \<Rightarrow> Inl (Thrown (js ''SyntaxError''))
            | Some v \<Rightarrow> Inr v))"

text \<open>\<open>claim\<close>: the answer 204 means that there is no run.\<close>

definition claim_answer :: "http_response \<Rightarrow> (sdk_error, json option) result" where
  "claim_answer r =
     (if hs_status r = 204 then Inr None
      else (case decode r of Inl e \<Rightarrow> Inl e | Inr v \<Rightarrow> Inr (Some v)))"

fun errorCodeOf :: "sdk_error \<Rightarrow> json" where
  "errorCodeOf (AgentSDKError code status message) = code"
| "errorCodeOf (Thrown x) = JStr (js ''external_agent_failed'')"

section \<open>Recipes\<close>

text \<open>\<open>onRun\<close> is code of the user: only its presence is modelled.\<close>

record recipe =
  rc_name :: jstring
  rc_version :: int
  rc_instructions :: jstring
  rc_triggers :: "jstring list"
  rc_tools :: "jstring list"
  rc_onRun :: bool

definition defineAgent :: "recipe \<Rightarrow> (sdk_error, recipe) result" where
  "defineAgent r =
     (if js_trim (rc_name r) = [] \<or> rc_version r < 1 \<or> js_trim (rc_instructions r) = []
      then Inl (AgentSDKError (JStr (js ''invalid_agent_recipe'')) 0 (JStr (js ''Invalid agent recipe'')))
      else Inr r)"

section \<open>The runtime socket\<close>

datatype socket_state = Connecting | Open | Closed

datatype frame =
    AuthFrame int
  | AckFrame int
  | StatusFrame agent_run jstring
  | StreamFrame agent_run jstring nat jstring bool bool

datatype runtime_event =
    HelloEvent int
  | DurableEvent int jstring json
  | ResyncRequired int
  | ErrorEvent jstring jstring bool

record runtime_socket =
  sk_current :: "nat option"
  sk_lastAck :: int
  sk_sockets :: "socket_state list"
  sk_lastSeq :: "int list"
  sk_log :: "(nat \<times> frame) list"
  sk_handled :: "runtime_event list"

definition new_runtime_socket :: runtime_socket where
  "new_runtime_socket =
     \<lparr>sk_current = None, sk_lastAck = 0, sk_sockets = [], sk_lastSeq = [], sk_log = [], sk_handled = []\<rparr>"

definition is_open :: "nat \<Rightarrow> runtime_socket \<Rightarrow> bool" where
  "is_open i s \<longleftrightarrow> i < length (sk_sockets s) \<and> sk_sockets s ! i = Open"

text \<open>\<open>socket.send\<close> on an open or closed socket; on a closed one it discards the data.\<close>

definition socket_send :: "nat \<Rightarrow> frame \<Rightarrow> runtime_socket \<Rightarrow> runtime_socket" where
  "socket_send i f s = (if is_open i s then s\<lparr>sk_log := sk_log s @ [(i, f)]\<rparr> else s)"

definition socket_close :: "nat \<Rightarrow> runtime_socket \<Rightarrow> runtime_socket" where
  "socket_close i s = s\<lparr>sk_sockets := (sk_sockets s)[i := Closed]\<rparr>"

definition connect :: "int \<Rightarrow> runtime_socket \<Rightarrow> runtime_socket" where
  "connect lastSeq s =
     s\<lparr>sk_current := Some (length (sk_sockets s)), sk_sockets := sk_sockets s @ [Connecting],
       sk_lastSeq := sk_lastSeq s @ [lastSeq]\<rparr>"

definition on_open :: "nat \<Rightarrow> runtime_socket \<Rightarrow> runtime_socket" where
  "on_open i s =
     (if i < length (sk_sockets s) \<and> sk_sockets s ! i = Connecting
      then socket_send i (AuthFrame (sk_lastSeq s ! i)) (s\<lparr>sk_sockets := (sk_sockets s)[i := Open]\<rparr>)
      else s)"

text \<open>The message listener; \<open>returns\<close> is whether the handler returns rather than throws.\<close>

definition on_message :: "nat \<Rightarrow> bool \<Rightarrow> runtime_event \<Rightarrow> runtime_socket \<Rightarrow> runtime_socket" where
  "on_message i returns e s =
     (if \<not> is_open i s \<or> \<not> returns then s
      else
        let s1 = s\<lparr>sk_handled := sk_handled s @ [e]\<rparr> in
        (case e of
           DurableEvent seq type data \<Rightarrow>
             (let s2 = s1\<lparr>sk_lastAck := max (sk_lastAck s1) seq\<rparr>
              in socket_send i (AckFrame (sk_lastAck s2)) s2)
         | ErrorEvent code message fatal \<Rightarrow> (if fatal then socket_close i s1 else s1)
         | _ \<Rightarrow> s1))"

definition send_frame :: "frame \<Rightarrow> runtime_socket \<Rightarrow> runtime_socket" where
  "send_frame f s =
     (case sk_current s of
        None \<Rightarrow> s
      | Some i \<Rightarrow> if is_open i s then socket_send i f s else s)"

definition status :: "agent_run \<Rightarrow> jstring \<Rightarrow> runtime_socket \<Rightarrow> runtime_socket" where
  "status run state = send_frame (StatusFrame run state)"

definition stream :: "agent_run \<Rightarrow> jstring \<Rightarrow> nat \<Rightarrow> jstring \<Rightarrow> bool option \<Rightarrow> bool option \<Rightarrow>
    runtime_socket \<Rightarrow> runtime_socket" where
  "stream run streamID index delta reset fin =
     send_frame (StreamFrame run streamID index delta (default_to False reset) (default_to False fin))"

definition close :: "runtime_socket \<Rightarrow> runtime_socket" where
  "close s =
     (case sk_current s of
        None \<Rightarrow> s
      | Some i \<Rightarrow> (socket_close i s)\<lparr>sk_current := None\<rparr>)"

text \<open>The JSON of a frame; \<open>JSON.stringify\<close> leaves out the keys that are undefined.\<close>

fun optional_key :: "jstring \<Rightarrow> jstring field \<Rightarrow> (jstring \<times> json) list" where
  "optional_key k Undefined = []"
| "optional_key k Null = [(k, JNull)]"
| "optional_key k (Val s) = [(k, JStr s)]"

fun or_null :: "jstring field \<Rightarrow> json" where
  "or_null (Val s) = JStr s"
| "or_null _ = JNull"

definition run_keys :: "agent_run \<Rightarrow> (jstring \<times> json) list" where
  "run_keys run =
     [(js ''run_id'', JStr (ar_id run)), (js ''lease_token'', JStr (ar_lease_token run))]
     @ optional_key (js ''chat_id'') (ar_chat_id run) @ [(js ''thread_root_id'', or_null (ar_thread_root_id run))]"

fun frame_json :: "jstring \<Rightarrow> jstring \<Rightarrow> frame \<Rightarrow> json" where
  "frame_json token uuid (AuthFrame lastSeq) =
     JObj [(js ''op'', JStr (js ''auth'')), (js ''request_id'', JStr uuid),
           (js ''access_token'', JStr token), (js ''last_seq'', JNum lastSeq)]"
| "frame_json token uuid (AckFrame seq) = JObj [(js ''op'', JStr (js ''ack'')), (js ''seq'', JNum seq)]"
| "frame_json token uuid (StatusFrame run state) =
     JObj ((js ''op'', JStr (js ''agent.status'')) # run_keys run @ [(js ''state'', JStr state)])"
| "frame_json token uuid (StreamFrame run streamID index delta reset fin) =
     JObj ((js ''op'', JStr (js ''message.streaming'')) # run_keys run @
       [(js ''stream_id'', JStr streamID), (js ''index'', JNum (int index)), (js ''delta'', JStr delta),
        (js ''reset'', JBool reset), (js ''done'', JBool fin)])"

section \<open>The context of a run\<close>

definition thread_call :: "agent_run \<Rightarrow> (sdk_error, jstring \<times> json) result" where
  "thread_call run =
     (case (ar_chat_id run, ar_thread_root_id run) of
        (Val (c # cs), Val (d # ds)) \<Rightarrow>
          Inr (js ''get_thread'', JObj [(js ''chat_id'', JStr (c # cs)), (js ''thread_root_id'', JStr (d # ds))])
      | _ \<Rightarrow> Inl (AgentSDKError (JStr (js ''thread_context_missing'')) 0
                (JStr (js ''Run is not attached to a thread''))))"

definition commandFromInput :: "json \<Rightarrow> (jstring \<times> jstring) option" where
  "commandFromInput inp =
     (case get (js ''trigger'') inp of
        Some (JObj kvs) \<Rightarrow>
          (case (get (js ''type'') (JObj kvs), get (js ''command'') (JObj kvs)) of
             (Some (JStr t), Some (JStr name)) \<Rightarrow>
               if t = js ''command''
               then Some (name, (case get (js ''arguments'') (JObj kvs) of Some (JStr a) \<Rightarrow> a | _ \<Rightarrow> []))
               else None
           | _ \<Rightarrow> None)
      | _ \<Rightarrow> None)"

definition sinceLastRun :: "json \<Rightarrow> json" where
  "sinceLastRun inp = default_to JNull (get (js ''since_last_run'') inp)"

text \<open>The streams of one run share \<open>streamIndex\<close>. A stream reads its chunks; a chunk, the timer of its
  coalescer and the end of its chunks, or their failure, come in any order with those of the others.
  \<open>cx_sent\<close> are the calls of \<open>socket.stream\<close>.\<close>

datatype stream_end = Reading | Returned jstring | Failed

record run_stream =
  st_id :: jstring
  st_buffer :: coalescer
  st_end :: stream_end

record stream_call =
  sc_id :: jstring
  sc_index :: nat
  sc_delta :: jstring
  sc_done :: bool

record run_context =
  cx_index :: nat
  cx_streams :: "run_stream list"
  cx_sent :: "stream_call list"

definition createRunContext :: run_context where
  "createRunContext = \<lparr>cx_index = 0, cx_streams = [], cx_sent = []\<rparr>"

definition send_delta :: "jstring \<Rightarrow> bool \<Rightarrow> jstring \<Rightarrow> run_context \<Rightarrow> run_context" where
  "send_delta sid fin delta c =
     c\<lparr>cx_index := cx_index c + 1,
       cx_sent := cx_sent c @ [\<lparr>sc_id = sid, sc_index = cx_index c, sc_delta = delta, sc_done = fin\<rparr>]\<rparr>"

definition set_stream :: "nat \<Rightarrow> run_stream \<Rightarrow> run_context \<Rightarrow> run_context" where
  "set_stream i x c = c\<lparr>cx_streams := (cx_streams c)[i := x]\<rparr>"

text \<open>What the coalescer emits goes to the socket.\<close>

definition emitted_since :: "coalescer \<Rightarrow> coalescer \<Rightarrow> jstring list" where
  "emitted_since b b' = drop (length (co_emitted b)) (co_emitted b')"

definition on_buffer :: "nat \<Rightarrow> (coalescer \<Rightarrow> coalescer) \<Rightarrow> run_context \<Rightarrow> run_context" where
  "on_buffer i f c =
     (let x = cx_streams c ! i; b = f (st_buffer x) in
      set_stream i (x\<lparr>st_buffer := b\<rparr>) (fold (send_delta (st_id x) False) (emitted_since (st_buffer x) b) c))"

datatype stream_event =
    StreamCalled jstring
  | Chunk nat jstring
  | TimerFires nat
  | ChunksEnd nat
  | ChunksFail nat

definition reading :: "nat \<Rightarrow> run_context \<Rightarrow> bool" where
  "reading i c \<longleftrightarrow> i < length (cx_streams c) \<and> st_end (cx_streams c ! i) = Reading"

definition stream_called :: "jstring \<Rightarrow> run_context \<Rightarrow> run_context" where
  "stream_called sid c =
     c\<lparr>cx_streams := cx_streams c @ [\<lparr>st_id = sid, st_buffer = new_coalescer, st_end = Reading\<rparr>]\<rparr>"

definition end_stream :: "nat \<Rightarrow> stream_end \<Rightarrow> run_context \<Rightarrow> run_context" where
  "end_stream i e c = set_stream i ((cx_streams c ! i)\<lparr>st_end := e\<rparr>) c"

definition chunks_end :: "nat \<Rightarrow> run_context \<Rightarrow> run_context" where
  "chunks_end i c =
     (let c1 = on_buffer i co_flush c;
          c2 = send_delta (st_id (cx_streams c1 ! i)) True [] c1
      in end_stream i (Returned (concat (co_emitted (st_buffer (cx_streams c2 ! i))))) c2)"

text \<open>Where the chunks fail the coalescer is not closed: its timer, if set, still fires.\<close>

fun stream_step :: "stream_event \<Rightarrow> run_context \<Rightarrow> run_context" where
  "stream_step (StreamCalled sid) c = stream_called sid c"
| "stream_step (Chunk i d) c = (if reading i c then on_buffer i (sdk_push 8192 d) c else c)"
| "stream_step (TimerFires i) c =
     (if i < length (cx_streams c) \<and> co_timer (st_buffer (cx_streams c ! i)) then on_buffer i co_flush c else c)"
| "stream_step (ChunksEnd i) c = (if reading i c then chunks_end i c else c)"
| "stream_step (ChunksFail i) c = (if reading i c then end_stream i Failed c else c)"

definition run_streams :: "stream_event list \<Rightarrow> run_context" where
  "run_streams es = fold stream_step es createRunContext"

section \<open>Streams arrive in order and complete\<close>

definition sent_text :: "jstring \<Rightarrow> run_context \<Rightarrow> jstring list" where
  "sent_text sid c = map sc_delta (filter (\<lambda>f. sc_id f = sid \<and> \<not> sc_done f) (cx_sent c))"

definition stream_ok :: "run_context \<Rightarrow> run_stream \<Rightarrow> bool" where
  "stream_ok c x \<longleftrightarrow>
     sent_text (st_id x) c = co_emitted (st_buffer x) \<and> sdk_inv 8192 (st_buffer x) \<and>
     (\<forall>t. st_end x = Returned t \<longrightarrow> co_pending (st_buffer x) = [] \<and> t = concat (co_emitted (st_buffer x)))"

definition context_ok :: "run_context \<Rightarrow> bool" where
  "context_ok c \<longleftrightarrow> map sc_index (cx_sent c) = [0..<cx_index c] \<and> distinct (map st_id (cx_streams c)) \<and>
     set (map sc_id (cx_sent c)) \<subseteq> set (map st_id (cx_streams c)) \<and>
     (\<forall>x \<in> set (cx_streams c). stream_ok c x)"

lemma sent_text_send [simp]:
  "sent_text s (send_delta sid fin d c) = sent_text s c @ (if s = sid \<and> \<not> fin then [d] else [])"
  by (simp add: sent_text_def send_delta_def)

lemma send_delta_simps [simp]:
  "cx_streams (send_delta sid fin d c) = cx_streams c"
  "cx_index (send_delta sid fin d c) = Suc (cx_index c)"
  "map sc_index (cx_sent (send_delta sid fin d c)) = map sc_index (cx_sent c) @ [cx_index c]"
  "sc_id ` set (cx_sent (send_delta sid fin d c)) = insert sid (sc_id ` set (cx_sent c))"
  by (simp_all add: send_delta_def)

lemma send_deltas:
  "cx_streams (fold (send_delta sid fin) ds c) = cx_streams c"
  "cx_index (fold (send_delta sid fin) ds c) = cx_index c + length ds"
  "sent_text s (fold (send_delta sid False) ds c) = sent_text s c @ (if s = sid then ds else [])"
  "map sc_index (cx_sent c) = [0..<cx_index c] \<Longrightarrow>
     map sc_index (cx_sent (fold (send_delta sid fin) ds c)) = [0..<cx_index c + length ds]"
  "sc_id ` set (cx_sent (fold (send_delta sid fin) ds c)) \<subseteq> insert sid (sc_id ` set (cx_sent c))"
proof (induction ds arbitrary: c)
  case (Cons d ds)
  {
    case 1 show ?case using Cons.IH(1) by simp
  next
    case 2 show ?case using Cons.IH(2) by simp
  next
    case 3 show ?case using Cons.IH(3) by simp
  next
    case 4 then show ?case using Cons.IH(4) [of "send_delta sid fin d c"] by simp
  next
    case 5 show ?case using Cons.IH(5) [of "send_delta sid fin d c"] by simp
  }
qed (simp_all, blast)

definition buffer_op :: "(coalescer \<Rightarrow> coalescer) \<Rightarrow> bool" where
  "buffer_op f \<longleftrightarrow> (\<forall>b. (\<exists>es. co_emitted (f b) = co_emitted b @ es) \<and> (sdk_inv 8192 b \<longrightarrow> sdk_inv 8192 (f b)))"

lemma buffer_op_push: "buffer_op (sdk_push 8192 d)"
  by (auto simp: buffer_op_def sdk_inv_push intro: sdk_coalescer.push_keeps)

lemma buffer_op_flush: "buffer_op co_flush"
  unfolding buffer_op_def using sdk_coalescer.flush_keeps sdk_inv_flush by blast

lemma emitted_since: "buffer_op f \<Longrightarrow> co_emitted (f b) = co_emitted b @ emitted_since b (f b)"
  by (auto simp: buffer_op_def emitted_since_def) (metis append_eq_conv_conj)

lemma stream_ok_other:
  "stream_ok c x \<Longrightarrow> sent_text (st_id x) c' = sent_text (st_id x) c \<Longrightarrow> stream_ok c' x"
  by (simp add: stream_ok_def)

lemma streams_other:
  assumes "context_ok c" and "i < length (cx_streams c)" and "j < length (cx_streams c)" and "j \<noteq> i"
  shows "st_id (cx_streams c ! j) \<noteq> st_id (cx_streams c ! i)"
  using assms by (auto simp: context_ok_def distinct_conv_nth)

lemma context_ok_nth: "context_ok c \<Longrightarrow> i < length (cx_streams c) \<Longrightarrow> stream_ok c (cx_streams c ! i)"
  by (simp add: context_ok_def)

text \<open>The update of one stream together with frames of that stream.\<close>

lemma context_ok_update:
  assumes c: "context_ok c" and i: "i < length (cx_streams c)"
    and x: "st_id x = st_id (cx_streams c ! i)" and streams: "cx_streams c' = (cx_streams c)[i := x]"
    and others: "\<And>s. s \<noteq> st_id x \<Longrightarrow> sent_text s c' = sent_text s c"
    and ok: "stream_ok c' x" and index: "map sc_index (cx_sent c') = [0..<cx_index c']"
    and ids: "set (map sc_id (cx_sent c')) \<subseteq> insert (st_id x) (set (map sc_id (cx_sent c)))"
  shows "context_ok c'"
proof -
  have same: "map st_id (cx_streams c') = map st_id (cx_streams c)"
    using i x by (simp add: streams map_update) (metis list_update_id nth_map)
  have "stream_ok c' (cx_streams c' ! j)" if "j < length (cx_streams c)" for j
  proof (cases "j = i")
    case True
    then show ?thesis using ok i by (simp add: streams)
  next
    case False
    then have "st_id (cx_streams c ! j) \<noteq> st_id x" using streams_other [OF c i that] x by simp
    then show ?thesis
      using False stream_ok_other [OF context_ok_nth [OF c that]] others by (simp add: streams)
  qed
  moreover have "set (map sc_id (cx_sent c')) \<subseteq> set (map st_id (cx_streams c'))"
    using ids c i x nth_mem [OF i] unfolding same context_ok_def by (auto simp del: nth_mem)
  moreover have "length (cx_streams c') = length (cx_streams c)" by (simp add: streams)
  ultimately show ?thesis
    using c same index unfolding context_ok_def by (metis in_set_conv_nth)
qed

lemma on_buffer_simps:
  assumes "i < length (cx_streams c)"
  shows "cx_streams (on_buffer i f c) =
      (cx_streams c)[i := (cx_streams c ! i)\<lparr>st_buffer := f (st_buffer (cx_streams c ! i))\<rparr>]"
  by (simp add: on_buffer_def Let_def set_stream_def send_deltas)

lemma context_ok_on_buffer:
  assumes "context_ok c" and "i < length (cx_streams c)" and "buffer_op f"
    and "st_end (cx_streams c ! i) \<in> {Reading, Failed} \<or> f = co_flush"
  shows "context_ok (on_buffer i f c)"
proof (rule context_ok_update [OF assms(1,2) _ on_buffer_simps [OF assms(2)]])
  let ?x = "cx_streams c ! i"
  let ?c = "fold (send_delta (st_id ?x) False) (emitted_since (st_buffer ?x) (f (st_buffer ?x))) c"
  have sent: "cx_sent (on_buffer i f c) = cx_sent ?c" "cx_index (on_buffer i f c) = cx_index ?c"
    by (simp_all add: on_buffer_def Let_def set_stream_def)
  have dt: "sent_text s (on_buffer i f c) = sent_text s ?c" for s by (simp add: sent_text_def sent)
  show "sent_text s (on_buffer i f c) = sent_text s c"
    if "s \<noteq> st_id (?x\<lparr>st_buffer := f (st_buffer ?x)\<rparr>)" for s
    using that by (simp add: dt send_deltas)
  show "stream_ok (on_buffer i f c) (?x\<lparr>st_buffer := f (st_buffer ?x)\<rparr>)"
    using context_ok_nth [OF assms(1,2)] emitted_since [OF assms(3), of "st_buffer ?x"] assms(3,4)
    by (auto simp: stream_ok_def dt send_deltas buffer_op_def, simp_all add: co_flush_def)
  show "map sc_index (cx_sent (on_buffer i f c)) = [0..<cx_index (on_buffer i f c)]"
    using assms(1) by (simp add: sent send_deltas context_ok_def)
  show "set (map sc_id (cx_sent (on_buffer i f c))) \<subseteq>
      insert (st_id (?x\<lparr>st_buffer := f (st_buffer ?x)\<rparr>)) (set (map sc_id (cx_sent c)))"
    using send_deltas(5) [of "st_id ?x" False "emitted_since (st_buffer ?x) (f (st_buffer ?x))" c]
    by (simp add: sent)
qed simp

lemma context_ok_end:
  assumes "context_ok c" and "i < length (cx_streams c)"
    and "\<And>t. e = Returned t \<Longrightarrow> co_pending (st_buffer (cx_streams c ! i)) = [] \<and>
      t = concat (co_emitted (st_buffer (cx_streams c ! i)))"
  shows "context_ok (end_stream i e c)"
proof -
  have sent: "sent_text s (end_stream i e c) = sent_text s c" for s
    by (simp add: end_stream_def set_stream_def sent_text_def)
  have "stream_ok (end_stream i e c) ((cx_streams c ! i)\<lparr>st_end := e\<rparr>)"
    using context_ok_nth [OF assms(1,2)] assms(3) by (auto simp: stream_ok_def sent)
  then show ?thesis
    using assms(1,2) sent
    by (intro context_ok_update [OF assms(1,2), of "(cx_streams c ! i)\<lparr>st_end := e\<rparr>"])
      (auto simp: end_stream_def set_stream_def context_ok_def)
qed

lemma context_ok_done:
  assumes "context_ok c" and "i < length (cx_streams c)"
  shows "context_ok (send_delta (st_id (cx_streams c ! i)) True [] c)"
proof -
  have "sent_text s (send_delta (st_id (cx_streams c ! i)) True [] c) = sent_text s c" for s by simp
  moreover from this have "stream_ok (send_delta (st_id (cx_streams c ! i)) True [] c) (cx_streams c ! i)"
    using context_ok_nth [OF assms] by (simp add: stream_ok_def)
  moreover have "map sc_index (cx_sent c) = [0..<cx_index c]" using assms(1) by (simp add: context_ok_def)
  ultimately show ?thesis
    by (intro context_ok_update [OF assms, of "cx_streams c ! i"]) (simp_all del: sent_text_send)
qed

lemma context_ok_chunks_end:
  assumes "context_ok c" and "reading i c"
  shows "context_ok (chunks_end i c)"
proof -
  have i: "i < length (cx_streams c)" using assms(2) by (simp add: reading_def)
  define c1 where "c1 = on_buffer i co_flush c"
  have c1: "context_ok c1" unfolding c1_def by (rule context_ok_on_buffer [OF assms(1) i buffer_op_flush]) simp
  have x: "cx_streams c1 ! i = (cx_streams c ! i)\<lparr>st_buffer := co_flush (st_buffer (cx_streams c ! i))\<rparr>"
      "i < length (cx_streams c1)"
    using i by (simp_all add: c1_def on_buffer_simps)
  let ?c2 = "send_delta (st_id (cx_streams c1 ! i)) True [] c1"
  have "context_ok (end_stream i (Returned (concat (co_emitted (st_buffer (cx_streams ?c2 ! i))))) ?c2)"
    by (rule context_ok_end [OF context_ok_done [OF c1 x(2)]])
      (use x in \<open>simp_all add: sdk_coalescer.flush_pending\<close>)
  then show ?thesis by (simp add: chunks_end_def Let_def c1_def)
qed

lemma context_ok_called:
  assumes "context_ok c" and "sid \<notin> set (map st_id (cx_streams c))"
  shows "context_ok (stream_called sid c)"
proof -
  have none: "sent_text sid c = []"
  proof -
    have "sc_id f \<noteq> sid" if "f \<in> set (cx_sent c)" for f
      using that assms by (force simp: context_ok_def)
    then show ?thesis by (simp add: sent_text_def filter_empty_conv)
  qed
  have sent: "sent_text s (stream_called sid c) = sent_text s c" for s
    by (simp add: stream_called_def sent_text_def)
  have "stream_ok (stream_called sid c) \<lparr>st_id = sid, st_buffer = new_coalescer, st_end = Reading\<rparr>"
    by (simp add: stream_ok_def sent none new_coalescer_def sdk_inv_def)
  moreover have "stream_ok (stream_called sid c) x" if "x \<in> set (cx_streams c)" for x
    using that assms(1) by (auto simp: context_ok_def intro: stream_ok_other [of c] sent)
  ultimately show ?thesis
    using assms by (auto simp: context_ok_def stream_called_def)
qed

fun called_id :: "stream_event \<Rightarrow> jstring list" where
  "called_id (StreamCalled sid) = [sid]"
| "called_id _ = []"

definition uuids_distinct :: "stream_event list \<Rightarrow> bool" where
  "uuids_distinct es \<longleftrightarrow> distinct (concat (map called_id es))"

lemma ids_step: "map st_id (cx_streams (stream_step e c)) = map st_id (cx_streams c) @ called_id e"
proof -
  have same: "map st_id ((cx_streams c)[i := x]) = map st_id (cx_streams c)"
    if "i < length (cx_streams c)" "st_id x = st_id (cx_streams c ! i)" for i x
    using that by (simp add: map_update) (metis list_update_id nth_map)
  have buf: "map st_id (cx_streams (on_buffer i f c)) = map st_id (cx_streams c)"
    if "i < length (cx_streams c)" for i f
    using that by (simp add: on_buffer_simps same)
  show ?thesis
    by (cases e)
      (auto simp: stream_called_def buf reading_def end_stream_def set_stream_def same chunks_end_def Let_def
        on_buffer_simps)
qed

lemma context_ok_step:
  assumes "context_ok c" and "\<forall>sid. e = StreamCalled sid \<longrightarrow> sid \<notin> set (map st_id (cx_streams c))"
  shows "context_ok (stream_step e c)"
proof (cases e)
  case (Chunk i d)
  then show ?thesis
    using assms(1) context_ok_on_buffer [OF assms(1) _ buffer_op_push] by (auto simp: reading_def)
next
  case (TimerFires i)
  then show ?thesis using assms(1) context_ok_on_buffer [OF assms(1) _ buffer_op_flush] by auto
next
  case (ChunksFail i)
  then show ?thesis using assms(1) context_ok_end [OF assms(1)] by (auto simp: reading_def)
qed (use assms context_ok_called context_ok_chunks_end in auto)

lemma context_ok_run:
  assumes "uuids_distinct es"
  shows "context_ok (run_streams es)"
proof -
  have "context_ok (fold stream_step es c)"
    if "context_ok c" "distinct (map st_id (cx_streams c) @ concat (map called_id es))" for c
    using that
  proof (induction es arbitrary: c)
    case (Cons e es)
    have "context_ok (stream_step e c)"
      by (rule context_ok_step [OF Cons.prems(1)]) (use Cons.prems(2) in auto)
    then show ?case using Cons.prems(2) by (simp add: Cons.IH ids_step)
  qed simp
  from this [of createRunContext] show ?thesis
    using assms by (simp add: run_streams_def createRunContext_def context_ok_def uuids_distinct_def)
qed

section \<open>Streams are the text of their chunks\<close>

text \<open>The text the stream \<open>i\<close> reads from its chunks.\<close>

fun chunk_text :: "nat \<Rightarrow> run_context \<Rightarrow> stream_event \<Rightarrow> jstring" where
  "chunk_text i c (Chunk j d) = (if j = i \<and> reading i c then d else [])"
| "chunk_text i c _ = []"

fun read_text :: "nat \<Rightarrow> run_context \<Rightarrow> stream_event list \<Rightarrow> jstring" where
  "read_text i c [] = []"
| "read_text i c (e # es) = chunk_text i c e @ read_text i (stream_step e c) es"

definition buffer_text :: "nat \<Rightarrow> run_context \<Rightarrow> jstring" where
  "buffer_text i c =
     (if i < length (cx_streams c)
      then concat (co_emitted (st_buffer (cx_streams c ! i))) @ co_pending (st_buffer (cx_streams c ! i)) else [])"

lemma flush_all: "concat (co_emitted (co_flush b)) @ co_pending (co_flush b) = concat (co_emitted b) @ co_pending b"
  by (simp add: sdk_coalescer.flush_text sdk_coalescer.flush_pending)

lemma buffer_text_on_buffer:
  assumes "j < length (cx_streams c)"
  shows "buffer_text i (on_buffer j f c) =
    (if i = j then concat (co_emitted (f (st_buffer (cx_streams c ! j)))) @ co_pending (f (st_buffer (cx_streams c ! j)))
     else buffer_text i c)"
  using assms by (simp add: buffer_text_def on_buffer_simps)

lemma buffer_text_end: "buffer_text i (end_stream j e c) = buffer_text i c"
  by (cases "j < length (cx_streams c)")
    (simp_all add: buffer_text_def end_stream_def set_stream_def nth_list_update list_update_beyond)

lemma buffer_text_send: "buffer_text i (send_delta sid fin d c) = buffer_text i c"
  by (simp add: buffer_text_def)

lemma buffer_text_step: "buffer_text i (stream_step e c) = buffer_text i c @ chunk_text i c e"
proof (cases e)
  case (StreamCalled sid)
  then show ?thesis
    by (auto simp: buffer_text_def stream_called_def nth_append new_coalescer_def less_Suc_eq)
next
  case (Chunk j d)
  then show ?thesis
    using sdk_coalescer.push_text [of 8192 d] 
    by (auto simp: buffer_text_on_buffer reading_def) (auto simp: buffer_text_def)
next
  case (TimerFires j)
  then show ?thesis by (simp add: buffer_text_on_buffer flush_all) (simp add: buffer_text_def)
next
  case (ChunksEnd j)
  show ?thesis
  proof (cases "reading j c")
    case True
    then have "j < length (cx_streams c)" by (simp add: reading_def)
    then show ?thesis
      using ChunksEnd True
      by (simp add: chunks_end_def Let_def buffer_text_end buffer_text_send buffer_text_on_buffer flush_all)
        (simp add: buffer_text_def)
  qed (use ChunksEnd in simp)
qed (simp add: buffer_text_end)

lemma buffer_text_run: "buffer_text i (fold stream_step es c) = buffer_text i c @ read_text i c es"
  by (induction es arbitrary: c) (simp_all add: buffer_text_step)

text \<open>Every stream of a run, also of several at once whose chunks, timers and failures interleave, hands
  out its text in frames of at most 8192 bytes which the run numbers 0, 1, 2 without gap over all its
  streams; a stream that ends returns exactly the text of its chunks, and its frames are that text.\<close>

theorem run_streams_hand_out_their_text:
  assumes "uuids_distinct es" and "i < length (cx_streams (run_streams es))"
    and "st_end (cx_streams (run_streams es) ! i) = Returned t"
  shows "t = read_text i createRunContext es \<and>
    concat (sent_text (st_id (cx_streams (run_streams es) ! i)) (run_streams es)) = t \<and>
    list_all (\<lambda>d. byte_size d \<le> 8192) (sent_text (st_id (cx_streams (run_streams es) ! i)) (run_streams es)) \<and>
    map sc_index (cx_sent (run_streams es)) = [0..<length (cx_sent (run_streams es))]"
proof -
  let ?c = "run_streams es"
  let ?x = "cx_streams ?c ! i"
  have c: "context_ok ?c" by (rule context_ok_run [OF assms(1)])
  have x: "stream_ok ?c ?x" by (rule context_ok_nth [OF c assms(2)])
  have "buffer_text i ?c = read_text i createRunContext es"
    by (simp add: run_streams_def buffer_text_run) (simp add: buffer_text_def createRunContext_def)
  moreover have "buffer_text i ?c = t" using x assms(2,3) by (simp add: buffer_text_def stream_ok_def)
  moreover have "concat (sent_text (st_id ?x) ?c) = t" using x assms(3) by (simp add: stream_ok_def)
  moreover have "list_all (\<lambda>d. byte_size d \<le> 8192) (sent_text (st_id ?x) ?c)"
    using x by (simp add: stream_ok_def sdk_inv_def)
  moreover have "map sc_index (cx_sent ?c) = [0..<length (cx_sent ?c)]"
    using c by (simp add: context_ok_def) (metis diff_zero length_map length_upt)
  ultimately show ?thesis by simp
qed

text \<open>A chunk of one unit on a short buffer, for the example.\<close>

lemma sdk_push_unit:
  assumes "length (co_pending b) \<le> 100"
  shows "sdk_push 8192 [u] b = b\<lparr>co_pending := co_pending b @ [u], co_timer := True\<rparr>"
proof -
  have "byte_size (co_pending b @ [u]) \<le> 8192"
    using byte_size_length [of "co_pending b @ [u]"] assms by simp
  moreover have "characters [u] = [[u]]"
    using concat_characters [of "[u]"] by (simp add: characters_def)
  ultimately show ?thesis by (simp add: sdk_push_def sdk_push_character_def Let_def)
qed

definition two_streams :: "stream_event list" where
  "two_streams = [StreamCalled (js ''s''), StreamCalled (js ''t''), Chunk 0 (js ''a''), Chunk 1 (js ''b''),
     TimerFires 0, Chunk 0 (js ''c''), ChunksFail 1, ChunksEnd 0]"

lemma two_streams_run:
  "cx_streams (run_streams two_streams) =
     [\<lparr>st_id = js ''s'', st_buffer = \<lparr>co_pending = [], co_timer = False, co_emitted = [js ''a'', js ''c'']\<rparr>,
        st_end = Returned (js ''ac'')\<rparr>,
      \<lparr>st_id = js ''t'', st_buffer = \<lparr>co_pending = js ''b'', co_timer = True, co_emitted = []\<rparr>, st_end = Failed\<rparr>]"
  by (simp add: run_streams_def two_streams_def createRunContext_def stream_called_def new_coalescer_def
      reading_def on_buffer_def Let_def set_stream_def sdk_push_unit emitted_since_def co_flush_def
      chunks_end_def end_stream_def send_delta_def)

lemma run_streams_hand_out_their_text_witness:
  "concat (sent_text (js ''s'') (run_streams two_streams)) = js ''ac''"
proof -
  have ids: "uuids_distinct two_streams" by code_simp
  have i: "0 < length (cx_streams (run_streams two_streams))"
    and ended: "st_end (cx_streams (run_streams two_streams) ! 0) = Returned (js ''ac'')"
    and sid: "st_id (cx_streams (run_streams two_streams) ! 0) = js ''s''"
    by (simp_all add: two_streams_run)
  show ?thesis
    using run_streams_hand_out_their_text [OF ids i ended, THEN conjunct2, THEN conjunct1]
    unfolding sid .
qed

section \<open>Acknowledgements\<close>

datatype socket_event =
    ConnectCalled int
  | Opens nat
  | Message nat bool runtime_event
  | StatusCalled agent_run jstring
  | StreamCall agent_run jstring nat jstring "bool option" "bool option"
  | CloseCalled
  | Closes nat

fun socket_step :: "socket_event \<Rightarrow> runtime_socket \<Rightarrow> runtime_socket" where
  "socket_step (ConnectCalled lastSeq) s = connect lastSeq s"
| "socket_step (Opens i) s = on_open i s"
| "socket_step (Message i returns e) s = on_message i returns e s"
| "socket_step (StatusCalled run state) s = status run state s"
| "socket_step (StreamCall run sid i d reset fin) s = stream run sid i d reset fin s"
| "socket_step CloseCalled s = close s"
| "socket_step (Closes i) s = socket_close i s"

definition run_socket :: "socket_event list \<Rightarrow> runtime_socket" where
  "run_socket es = fold socket_step es new_runtime_socket"

fun ack_seq :: "nat \<times> frame \<Rightarrow> int list" where
  "ack_seq (i, AckFrame seq) = [seq]"
| "ack_seq _ = []"

fun handled_seq :: "runtime_event \<Rightarrow> int list" where
  "handled_seq (DurableEvent seq type data) = [seq]"
| "handled_seq _ = []"

definition acks :: "runtime_socket \<Rightarrow> int list" where
  "acks s = concat (map ack_seq (sk_log s))"

fun running_max :: "int \<Rightarrow> int list \<Rightarrow> int list" where
  "running_max m [] = []"
| "running_max m (x # xs) = max m x # running_max (max m x) xs"

lemma running_max_snoc:
  "running_max m (xs @ [x]) = running_max m xs @ [max (fold max xs m) x]"
  by (induction xs arbitrary: m) (simp_all add: max.commute)

definition socket_ok :: "runtime_socket \<Rightarrow> bool" where
  "socket_ok s \<longleftrightarrow>
     acks s = running_max 0 (concat (map handled_seq (sk_handled s))) \<and>
     sk_lastAck s = fold max (concat (map handled_seq (sk_handled s))) 0"

lemma socket_ok_message:
  assumes "socket_ok s"
  shows "socket_ok (on_message i returns e s)"
proof (cases "is_open i s \<and> returns")
  case True
  then show ?thesis
    using assms
    by (cases e) (auto simp: on_message_def socket_ok_def socket_send_def socket_close_def acks_def Let_def
        running_max_snoc is_open_def max.commute)
qed (use assms in \<open>auto simp: on_message_def\<close>)

lemma quiet_ops:
  "ack_seq (i, f) = [] \<Longrightarrow> socket_ok (socket_send i f s) = socket_ok s"
  "ack_seq (0, f) = [] \<Longrightarrow> socket_ok (send_frame f s) = socket_ok s"
  "socket_ok (socket_close i s) = socket_ok s"
  "socket_ok (connect n s) = socket_ok s"
  "socket_ok (close s) = socket_ok s"
  "socket_ok (s\<lparr>sk_sockets := xs\<rparr>) = socket_ok s"
proof -
  show send: "ack_seq (i, f) = [] \<Longrightarrow> socket_ok (socket_send i f s) = socket_ok s" for i f
    by (simp add: socket_ok_def socket_send_def acks_def)
  have "ack_seq (0, f) = [] \<Longrightarrow> ack_seq (i, f) = []" for i by (cases f) simp_all
  with send show "ack_seq (0, f) = [] \<Longrightarrow> socket_ok (send_frame f s) = socket_ok s"
    by (simp add: send_frame_def split: option.split)
qed (simp_all add: socket_ok_def socket_close_def connect_def close_def acks_def split: option.split)

lemma socket_ok_step: "socket_ok s \<Longrightarrow> socket_ok (socket_step e s)"
proof (cases e)
  case (Opens i)
  assume "socket_ok s"
  then have "socket_ok (on_open i s)" unfolding on_open_def by (simp add: quiet_ops(1,6))
  then show ?thesis using Opens by simp
qed (simp_all add: socket_ok_message status_def stream_def quiet_ops(2-5))

text \<open>Over all connections of a socket, every handled event is acknowledged once, right after its handler
  has returned, with the highest sequence number handled so far.\<close>

lemma acks_follow_handlers:
  "acks (run_socket es) = running_max 0 (concat (map handled_seq (sk_handled (run_socket es))))"
proof -
  have "socket_ok (fold socket_step es s)" if "socket_ok s" for s
    using that by (induction es arbitrary: s) (simp_all add: socket_ok_step)
  moreover have "socket_ok new_runtime_socket" by (simp add: socket_ok_def new_runtime_socket_def acks_def)
  ultimately show ?thesis by (simp add: run_socket_def socket_ok_def)
qed

end
