(* ===== verification/Autosave.thy ===== *)
theory Autosave
  imports Prelude
begin

text \<open>
  \<open>useAutosave\<close> of \<open>apps/web/src/settings/hooks/useAutosave.ts\<close>, the debounced saving of the settings pages.
  The hook's refs and states are a record; an event is a render with a value, the firing of a timer, the
  outcome of a save, a retry or the unmounting. An effect runs where its dependency, the signature of the
  value, has changed, after the cleanup of its previous run, if that returned one.

  The lemmas show that no edit is lost while the hook is mounted, that saves never overlap, and what
  happens to an edit that is undone or still waiting at the unmount.
\<close>

datatype autosave_phase = Idle | Dirty | Saving | Saved | Error

datatype 'v effect = SaveCalled 'v | SaveReturned 'v | SaveFailed

text \<open>\<open>as_timer\<close> is the value the pending timer will persist; \<open>as_seen\<close> is the dependency of the last run of
  the effect, \<open>as_cleanup\<close> whether that run returned a cleanup; \<open>as_marks\<close> counts the pending timers of 50 ms.\<close>

record 'v autosave =
  as_phase :: autosave_phase
  as_error :: jstring
  as_initialized :: bool
  as_committed :: jstring
  as_timer :: "'v option"
  as_inFlight :: "'v option"
  as_latest :: "'v option"
  as_seen :: "jstring option option"
  as_cleanup :: bool
  as_marks :: nat
  as_log :: "'v effect list"

definition useAutosave :: "'v autosave" where
  "useAutosave =
     \<lparr>as_phase = Idle, as_error = [], as_initialized = False, as_committed = [], as_timer = None,
      as_inFlight = None, as_latest = None, as_seen = None, as_cleanup = False, as_marks = 0, as_log = []\<rparr>"

definition persist :: "'v \<Rightarrow> 'v autosave \<Rightarrow> 'v autosave" where
  "persist snapshot s =
     (if as_inFlight s \<noteq> None then s
      else s\<lparr>as_inFlight := Some snapshot, as_phase := Saving, as_error := [],
             as_log := as_log s @ [SaveCalled snapshot]\<rparr>)"

text \<open>The rest of \<open>persist\<close> once \<open>save\<close> settles, with the \<open>finally\<close>.\<close>

definition persisted :: "('v \<Rightarrow> jstring) \<Rightarrow> 'v \<Rightarrow> 'v autosave \<Rightarrow> 'v autosave" where
  "persisted fp result s =
     (let s1 = s\<lparr>as_committed := fp result, as_marks := as_marks s + 1, as_inFlight := None,
                 as_log := as_log s @ [SaveReturned result]\<rparr> in
      case as_latest s1 of
        None \<Rightarrow> s1
      | Some current \<Rightarrow>
          if fp current \<noteq> as_committed s1
          then s1\<lparr>as_timer := Some current, as_phase := (if as_phase s1 = Error then Error else Dirty)\<rparr>
          else s1)"

definition not_persisted :: "jstring \<Rightarrow> 'v autosave \<Rightarrow> 'v autosave" where
  "not_persisted message s =
     s\<lparr>as_error := message, as_phase := Error, as_inFlight := None, as_log := as_log s @ [SaveFailed]\<rparr>"

text \<open>The effect on the signature, and its cleanup.\<close>

definition cleanup :: "'v autosave \<Rightarrow> 'v autosave" where
  "cleanup s = (if as_cleanup s then s\<lparr>as_timer := None, as_cleanup := False\<rparr> else s)"

definition run_effect :: "('v \<Rightarrow> jstring) \<Rightarrow> 'v option \<Rightarrow> 'v autosave \<Rightarrow> 'v autosave" where
  "run_effect fp v s =
     (case v of
        None \<Rightarrow> s
      | Some x \<Rightarrow>
          if \<not> as_initialized s then s\<lparr>as_initialized := True, as_committed := fp x\<rparr>
          else if fp x = as_committed s then s
          else s\<lparr>as_phase := Dirty, as_timer := Some x, as_cleanup := True\<rparr>)"

definition render :: "('v \<Rightarrow> jstring) \<Rightarrow> 'v option \<Rightarrow> 'v autosave \<Rightarrow> 'v autosave" where
  "render fp v s =
     (let s1 = s\<lparr>as_latest := v\<rparr>; signature = map_option fp v in
      if as_seen s1 = Some signature then s1
      else (run_effect fp v (cleanup s1))\<lparr>as_seen := Some signature\<rparr>)"

definition timer_fires :: "'v autosave \<Rightarrow> 'v autosave" where
  "timer_fires s =
     (case as_timer s of None \<Rightarrow> s | Some v \<Rightarrow> persist v (s\<lparr>as_timer := None\<rparr>))"

definition mark_saved :: "'v autosave \<Rightarrow> 'v autosave" where
  "mark_saved s =
     (if as_marks s = 0 then s
      else let s1 = s\<lparr>as_marks := as_marks s - 1\<rparr> in
           if as_inFlight s1 = None \<and> as_timer s1 = None then s1\<lparr>as_phase := Saved\<rparr> else s1)"

definition retry :: "'v autosave \<Rightarrow> 'v autosave" where
  "retry s = (case as_latest s of None \<Rightarrow> s | Some v \<Rightarrow> persist v s)"

text \<open>Unmounting runs the cleanups; the second one clears the timer in any case.\<close>

definition unmount :: "'v autosave \<Rightarrow> 'v autosave" where
  "unmount s = (cleanup s)\<lparr>as_timer := None\<rparr>"

datatype 'v event =
    Render "'v option"
  | TimerFires
  | SaveSettles "(jstring, 'v) result"
  | MarkFires
  | Retry
  | Unmount

fun step :: "('v \<Rightarrow> jstring) \<Rightarrow> 'v event \<Rightarrow> 'v autosave \<Rightarrow> 'v autosave" where
  "step fp (Render v) s = render fp v s"
| "step fp TimerFires s = timer_fires s"
| "step fp (SaveSettles r) s =
     (if as_inFlight s = None then s
      else (case r of Inl message \<Rightarrow> not_persisted message s | Inr result \<Rightarrow> persisted fp result s))"
| "step fp MarkFires s = mark_saved s"
| "step fp Retry s = retry s"
| "step fp Unmount s = unmount s"

definition run :: "('v \<Rightarrow> jstring) \<Rightarrow> 'v event list \<Rightarrow> 'v autosave" where
  "run fp es = fold (step fp) es useAutosave"

section \<open>No edit is lost\<close>

text \<open>The outcome of the last save.\<close>

fun last_failed :: "bool \<Rightarrow> 'v effect list \<Rightarrow> bool" where
  "last_failed b [] = b"
| "last_failed b (SaveFailed # es) = last_failed True es"
| "last_failed b (SaveReturned v # es) = last_failed False es"
| "last_failed b (SaveCalled v # es) = last_failed b es"

text \<open>Saves that do not overlap: each call is answered before the next.\<close>

fun serial :: "bool \<Rightarrow> 'v effect list \<Rightarrow> bool" where
  "serial busy [] = True"
| "serial busy (SaveCalled v # es) \<longleftrightarrow> \<not> busy \<and> serial True es"
| "serial busy (SaveReturned v # es) \<longleftrightarrow> busy \<and> serial False es"
| "serial busy (SaveFailed # es) \<longleftrightarrow> busy \<and> serial False es"

fun busy_after :: "bool \<Rightarrow> 'v effect list \<Rightarrow> bool" where
  "busy_after busy [] = busy"
| "busy_after busy (SaveCalled v # es) = busy_after True es"
| "busy_after busy (e # es) = busy_after False es"

lemma last_failed_append [simp]: "last_failed b (xs @ ys) = last_failed (last_failed b xs) ys"
  by (induction b xs rule: last_failed.induct) simp_all

lemma busy_append [simp]: "busy_after b (xs @ ys) = busy_after (busy_after b xs) ys"
  by (induction b xs rule: busy_after.induct) simp_all

lemma serial_append [simp]: "serial b (xs @ ys) \<longleftrightarrow> serial b xs \<and> serial (busy_after b xs) ys"
  by (induction b xs rule: serial.induct) auto

text \<open>What is committed, and whether something is on its way.\<close>

definition settled :: "'v autosave \<Rightarrow> bool" where
  "settled s \<longleftrightarrow> as_inFlight s = None \<and> as_timer s = None"

definition save_ok :: "('v \<Rightarrow> jstring) \<Rightarrow> 'v autosave \<Rightarrow> bool" where
  "save_ok fp s \<longleftrightarrow>
     serial False (as_log s) \<and> busy_after False (as_log s) = (as_inFlight s \<noteq> None) \<and>
     (as_seen s = None \<longrightarrow> as_latest s = None) \<and>
     (as_seen s \<noteq> None \<longrightarrow> as_seen s = Some (map_option fp (as_latest s))) \<and>
     (as_latest s \<noteq> None \<longrightarrow> as_initialized s) \<and>
     (\<forall>v. as_latest s = Some v \<and> settled s \<longrightarrow> fp v = as_committed s \<or> last_failed False (as_log s))"

lemma save_ok_persist:
  "save_ok fp s \<Longrightarrow> save_ok fp (persist v s)"
  by (auto simp: persist_def save_ok_def settled_def)

lemma save_ok_timer: "save_ok fp s \<Longrightarrow> save_ok fp (timer_fires s)"
  by (auto simp: timer_fires_def persist_def save_ok_def settled_def split: option.splits)

lemma save_ok_settles: "save_ok fp s \<Longrightarrow> save_ok fp (step fp (SaveSettles r) s)"
  by (auto simp: persisted_def not_persisted_def save_ok_def settled_def Let_def split: option.splits sum.splits)

lemma save_ok_mark: "save_ok fp s \<Longrightarrow> save_ok fp (mark_saved s)"
  by (auto simp: mark_saved_def save_ok_def settled_def Let_def)

lemma save_ok_render:
  assumes "save_ok fp s"
  shows "save_ok fp (render fp v s)"
proof (cases "as_seen s = Some (map_option fp v)")
  case True
  then have same: "map_option fp (as_latest s) = map_option fp v" using assms by (auto simp: save_ok_def)
  have "as_latest s = None \<longleftrightarrow> v = None" using same by (cases v; cases "as_latest s") auto
  moreover have "\<exists>w. as_latest s = Some w \<and> fp w = fp x" if "v = Some x" for x
    using same that by (cases "as_latest s") auto
  ultimately show ?thesis
    using assms True by (auto simp: render_def save_ok_def settled_def)
next
  case False
  have log: "as_log (run_effect fp v (cleanup s')) = as_log s'" "as_inFlight (run_effect fp v (cleanup s')) = as_inFlight s'"
    "as_latest (run_effect fp v (cleanup s')) = as_latest s'" for s'
    by (simp_all add: run_effect_def cleanup_def split: option.split)
  have committed: "fp x = as_committed (run_effect fp v (cleanup s'))"
    if "v = Some x" "as_timer (run_effect fp v (cleanup s')) = None" for x s'
    using that by (auto simp: run_effect_def split: if_splits)
  have init: "as_initialized (run_effect fp v (cleanup s'))" if "v \<noteq> None" for s'
    using that by (auto simp: run_effect_def)
  show ?thesis
    using assms False committed [of _ "s\<lparr>as_latest := v\<rparr>"] init [of "s\<lparr>as_latest := v\<rparr>"]
    by (auto simp: render_def save_ok_def settled_def Let_def log)
qed

lemma save_ok_step:
  assumes "save_ok fp s" and "e \<noteq> Unmount"
  shows "save_ok fp (step fp e s)"
proof (cases e)
  case (SaveSettles r)
  then show ?thesis using assms(1) save_ok_settles by blast
next
  case Retry
  then show ?thesis using assms(1) save_ok_persist by (auto simp: retry_def split: option.split)
qed (use assms save_ok_render save_ok_timer save_ok_settles save_ok_mark in auto)

lemma save_ok_run:
  assumes "Unmount \<notin> set es"
  shows "save_ok fp (run fp es)"
proof -
  have "save_ok fp s \<Longrightarrow> save_ok fp (fold (step fp) es s)" for s
    using assms by (induction es arbitrary: s) (auto simp: save_ok_step simp del: step.simps)
  moreover have "save_ok fp useAutosave" by (simp add: save_ok_def useAutosave_def settled_def)
  ultimately show ?thesis by (simp add: run_def)
qed

text \<open>C24: While the settings page is mounted no edit is lost and saves never overlap: whenever no save is in
  flight and no timer is pending, the value shown is the one the server has last returned, unless the last save
  failed.\<close>

theorem autosave_loses_no_edit:
  assumes "Unmount \<notin> set es" and "as_latest (run fp es) = Some v" and "settled (run fp es)"
  shows "(fp v = as_committed (run fp es) \<or> last_failed False (as_log (run fp es))) \<and>
    serial False (as_log (run fp es))"
  using save_ok_run [OF assms(1), of fp] assms(2,3) by (auto simp: save_ok_def)

lemma autosave_loses_no_edit_witness:
  "as_committed (run (\<lambda>s. s) [Render (Some (js ''a'')), Render (Some (js ''b'')), TimerFires,
      Render (Some (js ''c'')), SaveSettles (Inr (js ''b'')), TimerFires, SaveSettles (Inr (js ''c''))]) = js ''c''"
  (is "as_committed (run ?fp ?es) = ?c")
proof -
  have "Unmount \<notin> set ?es" and "as_latest (run ?fp ?es) = Some ?c" and "settled (run ?fp ?es)"
    and no: "\<not> last_failed False (as_log (run ?fp ?es))"
    by code_simp+
  from autosave_loses_no_edit [OF this(1-3)] no show ?thesis by simp
qed

section \<open>Undone edits and the unmount\<close>

text \<open>An edit that is undone before it was saved leaves the page in the phase dirty, shown as being saved,
  with nothing to be saved, for every two values with different fingerprints.\<close>

theorem undone_edit_stays_dirty:
  assumes "fp a \<noteq> fp b"
  shows "as_phase (run fp [Render (Some a), Render (Some b), Render (Some a)]) = Dirty \<and>
    settled (run fp [Render (Some a), Render (Some b), Render (Some a)]) \<and>
    as_committed (run fp [Render (Some a), Render (Some b), Render (Some a)]) = fp a"
  using assms
  by (simp add: run_def useAutosave_def render_def run_effect_def cleanup_def settled_def Let_def)

lemma undone_edit_stays_dirty_witness:
  "as_phase (run (\<lambda>s. s) [Render (Some (js ''a'')), Render (Some (js ''b'')), Render (Some (js ''a''))]) = Dirty"
  using undone_edit_stays_dirty [of "\<lambda>s. s" "js ''a''" "js ''b''"] by simp

text \<open>An edit whose timer is pending at the unmount is dropped.\<close>

lemma unmount_drops_pending_edit:
  assumes "fp a \<noteq> fp b"
  shows "settled (run fp [Render (Some a), Render (Some b), Unmount]) \<and>
    as_log (run fp [Render (Some a), Render (Some b), Unmount]) = []"
  using assms
  by (simp add: run_def useAutosave_def render_def run_effect_def cleanup_def settled_def unmount_def Let_def)

end
