(* ===== verification/Uploads.thy ===== *)
theory Uploads
  imports Json
begin

text \<open>
  Attachments of the composer: \<open>uploadAttachment\<close> of \<open>apps/web/src/uploads.ts\<close> with its three modes, and the
  queue \<open>useAttachments\<close> of \<open>apps/web/src/composer/useAttachments.ts\<close>.

  The lemmas show that the parts of a multipart upload are the file, that a failed upload is aborted on the
  server except where its completion is refused, that no attachment uploads forever and that a queue keeps
  its limit.
\<close>

section \<open>One upload\<close>

type_synonym bytes = "8 word list"

record source_file =
  sf_name :: jstring
  sf_type :: jstring
  sf_bytes :: bytes

datatype upload_mode = Streaming | Presigned | Multipart

record upload =
  up_id :: jstring
  up_mode :: upload_mode
  up_url :: "jstring option"

record signed_part =
  sp_number :: nat
  sp_url :: jstring

record completed_part =
  cp_number :: nat
  cp_etag :: jstring
  cp_size :: nat

datatype upload_error = Failure jstring | AbortError

text \<open>How an XMLHttpRequest ends: loaded with a status, a body and the ETag header, failed or aborted.\<close>

datatype xhr_end = Loaded nat jstring "jstring option" | ConnectionFailed | Aborted

record put_request =
  pr_url :: jstring
  pr_body :: bytes
  pr_type :: jstring
  pr_token :: "jstring option"

datatype effect =
    CreateUpload jstring jstring nat
  | SignParts jstring "nat list"
  | Put put_request
  | CompleteUpload jstring "completed_part list option"
  | AbortUpload jstring

text \<open>The server, the storage and the platform: what they answer. The \<open>n\<close>th PUT ends as \<open>ue_put n\<close> says;
  \<open>ue_resolve\<close> is \<open>new URL(_, apiURL)\<close>, \<open>ue_parse\<close> is \<open>JSON.parse\<close>.\<close>

record upload_env =
  ue_create :: "(upload_error, upload) result"
  ue_sign :: "nat list \<Rightarrow> (upload_error, signed_part list) result"
  ue_put :: "nat \<Rightarrow> xhr_end"
  ue_complete :: "(upload_error, json) result"
  ue_resolve :: "jstring \<Rightarrow> jstring option"
  ue_parse :: "jstring \<Rightarrow> json option"
  ue_token :: "jstring option"

definition multipartPartBytes :: nat where
  "multipartPartBytes = 5 * 1024 * 1024"

definition mime_of :: "source_file \<Rightarrow> jstring" where
  "mime_of f = (if sf_type f = [] then js ''application/octet-stream'' else sf_type f)"

fun xhr_result :: "xhr_end \<Rightarrow> (upload_error, jstring \<times> jstring option) result" where
  "xhr_result (Loaded status body etag) =
     (if 200 \<le> status \<and> status < 300 then Inr (body, etag)
      else Inl (Failure (js ''Upload failed with HTTP '' @ show_nat status @ js ''.'')))"
| "xhr_result ConnectionFailed = Inl (Failure (js ''Upload connection failed.''))"
| "xhr_result Aborted = Inl AbortError"

record progress =
  pg_log :: "effect list"
  pg_puts :: nat
  pg_completed :: "completed_part list"

definition noted :: "effect \<Rightarrow> progress \<Rightarrow> progress" where
  "noted e p = p\<lparr>pg_log := pg_log p @ [e]\<rparr>"

definition xhrUpload ::
  "upload_env \<Rightarrow> put_request \<Rightarrow> progress \<Rightarrow> (upload_error, jstring \<times> jstring option) result \<times> progress" where
  "xhrUpload e r p = (xhr_result (ue_put e (pg_puts p)), noted (Put r) (p\<lparr>pg_puts := pg_puts p + 1\<rparr>))"

text \<open>\<open>file.slice(start, start + multipartPartBytes)\<close>\<close>

definition part_bytes :: "source_file \<Rightarrow> nat \<Rightarrow> bytes" where
  "part_bytes f number = take multipartPartBytes (drop ((number - 1) * multipartPartBytes) (sf_bytes f))"

fun upload_parts ::
  "upload_env \<Rightarrow> source_file \<Rightarrow> signed_part list \<Rightarrow> progress \<Rightarrow> upload_error option \<times> progress" where
  "upload_parts e f [] p = (None, p)"
| "upload_parts e f (s # ss) p =
     (let chunk = part_bytes f (sp_number s);
          (r, p1) = xhrUpload e \<lparr>pr_url = sp_url s, pr_body = chunk, pr_type = mime_of f, pr_token = None\<rparr> p in
      case r of
        Inl err \<Rightarrow> (Some err, p1)
      | Inr (body, None) \<Rightarrow> (Some (Failure (js ''Object storage did not expose ETag.'')), p1)
      | Inr (body, Some etag) \<Rightarrow>
          if etag = [] then (Some (Failure (js ''Object storage did not expose ETag.'')), p1)
          else upload_parts e f ss (p1\<lparr>pg_completed := pg_completed p1 @
                 [\<lparr>cp_number = sp_number s, cp_etag = etag, cp_size = length chunk\<rparr>]\<rparr>))"

definition part_count :: "source_file \<Rightarrow> nat" where
  "part_count f = (length (sf_bytes f) + multipartPartBytes - 1) div multipartPartBytes"

definition batch :: "nat \<Rightarrow> nat \<Rightarrow> nat list" where
  "batch count offset = map (\<lambda>index. offset + index + 1) [0..<min 100 (count - offset)]"

text \<open>The loop over batches of 100 part numbers.\<close>

function upload_batches ::
  "upload_env \<Rightarrow> source_file \<Rightarrow> jstring \<Rightarrow> nat \<Rightarrow> progress \<Rightarrow> upload_error option \<times> progress" where
  "upload_batches e f uid offset p =
     (if offset < part_count f
      then
        let numbers = batch (part_count f) offset; p1 = noted (SignParts uid numbers) p in
        (case ue_sign e numbers of
           Inl err \<Rightarrow> (Some err, p1)
         | Inr parts \<Rightarrow>
             (case upload_parts e f parts p1 of
                (Some err, p2) \<Rightarrow> (Some err, p2)
              | (None, p2) \<Rightarrow> upload_batches e f uid (offset + 100) p2))
      else (None, p))"
  by pat_completeness auto

termination
  by (relation "measure (\<lambda>(e, f, uid, offset, p). part_count f - offset)") auto

declare upload_batches.simps [simp del]

text \<open>\<open>return api.completeFileUpload(...)\<close> without \<open>await\<close>: its rejection is not caught here.\<close>

datatype outcome = Uploaded json | Caught upload_error | Uncaught upload_error

definition complete_upload ::
  "upload_env \<Rightarrow> jstring \<Rightarrow> completed_part list option \<Rightarrow> progress \<Rightarrow> outcome \<times> progress" where
  "complete_upload e uid parts p =
     ((case ue_complete e of Inl err \<Rightarrow> Uncaught err | Inr v \<Rightarrow> Uploaded v), noted (CompleteUpload uid parts) p)"

definition transfer :: "upload_env \<Rightarrow> source_file \<Rightarrow> upload \<Rightarrow> progress \<Rightarrow> outcome \<times> progress" where
  "transfer e f u p =
     (case up_mode u of
        Streaming \<Rightarrow>
          (case ue_resolve e (default_to (js ''/api/v1/files/uploads/'' @ up_id u @ js ''/content'') (up_url u)) of
             None \<Rightarrow> (Caught (Failure (js ''Invalid URL'')), p)
           | Some target \<Rightarrow>
               (case xhrUpload e \<lparr>pr_url = target, pr_body = sf_bytes f, pr_type = mime_of f, pr_token = ue_token e\<rparr> p of
                  (Inl err, p1) \<Rightarrow> (Caught err, p1)
                | (Inr (body, etag), p1) \<Rightarrow>
                    (case ue_parse e body of
                       None \<Rightarrow> (Caught (Failure (js ''SyntaxError'')), p1)
                     | Some v \<Rightarrow> (Uploaded v, p1))))
      | Presigned \<Rightarrow>
          (case up_url u of
             None \<Rightarrow> (Caught (Failure (js ''Upload URL is missing.'')), p)
           | Some url \<Rightarrow>
               if url = [] then (Caught (Failure (js ''Upload URL is missing.'')), p)
               else
                 (case xhrUpload e \<lparr>pr_url = url, pr_body = sf_bytes f, pr_type = mime_of f, pr_token = None\<rparr> p of
                    (Inl err, p1) \<Rightarrow> (Caught err, p1)
                  | (Inr _, p1) \<Rightarrow> complete_upload e (up_id u) None p1))
      | Multipart \<Rightarrow>
          (case upload_batches e f (up_id u) 0 p of
             (Some err, p1) \<Rightarrow> (Caught err, p1)
           | (None, p1) \<Rightarrow> complete_upload e (up_id u) (Some (pg_completed p1)) p1))"

definition uploadAttachment :: "upload_env \<Rightarrow> source_file \<Rightarrow> (upload_error, json) result \<times> effect list" where
  "uploadAttachment e f =
     (let p = \<lparr>pg_log = [CreateUpload (sf_name f) (mime_of f) (length (sf_bytes f))], pg_puts = 0, pg_completed = []\<rparr> in
      case ue_create e of
        Inl err \<Rightarrow> (Inl err, pg_log p)
      | Inr u \<Rightarrow>
          (case transfer e f u p of
             (Uploaded v, p1) \<Rightarrow> (Inr v, pg_log p1)
           | (Uncaught err, p1) \<Rightarrow> (Inl err, pg_log p1)
           | (Caught err, p1) \<Rightarrow>
               (Inl err, pg_log p1 @ (if up_id u = [] then [] else [AbortUpload (up_id u)]))))"

section \<open>The parts are the file\<close>

lemma part_count_cover: "length (sf_bytes f) \<le> part_count f * multipartPartBytes"
proof -
  have "n \<le> ((n + k - 1) div k) * k" if "0 < k" for n k :: nat
  proof -
    have "n + k - 1 < ((n + k - 1) div k) * k + k"
      using that div_mult_mod_eq [of "n + k - 1" k] mod_less_divisor [OF that, of "n + k - 1"] by linarith
    then show ?thesis using that by linarith
  qed
  then show ?thesis by (simp add: part_count_def multipartPartBytes_def)
qed

lemma parts_join:
  "concat (map (part_bytes f) [1..<Suc n]) = take (n * multipartPartBytes) (sf_bytes f)"
proof (induction n)
  case (Suc n)
  have "[1..<Suc (Suc n)] = [1..<Suc n] @ [Suc n]" by simp
  then have "concat (map (part_bytes f) [1..<Suc (Suc n)]) =
      take (n * multipartPartBytes) (sf_bytes f) @ part_bytes f (Suc n)"
    using Suc by (simp del: upt_Suc)
  also have "\<dots> = take (n * multipartPartBytes) (sf_bytes f) @
      take multipartPartBytes (drop (n * multipartPartBytes) (sf_bytes f))"
    by (simp add: part_bytes_def)
  also have "\<dots> = take (Suc n * multipartPartBytes) (sf_bytes f)"
    using take_add [of "n * multipartPartBytes" multipartPartBytes "sf_bytes f"] by (simp add: add.commute)
  finally show ?case .
qed simp

fun put_bodies :: "effect list \<Rightarrow> bytes list" where
  "put_bodies [] = []"
| "put_bodies (Put r # es) = pr_body r # put_bodies es"
| "put_bodies (_ # es) = put_bodies es"

lemma put_bodies_append [simp]: "put_bodies (xs @ ys) = put_bodies xs @ put_bodies ys"
  by (induction xs rule: put_bodies.induct) simp_all

lemma upload_parts_success:
  "upload_parts e f ss p = (None, p') \<Longrightarrow>
     put_bodies (pg_log p') = put_bodies (pg_log p) @ map (\<lambda>s. part_bytes f (sp_number s)) ss \<and>
     map cp_number (pg_completed p') = map cp_number (pg_completed p) @ map sp_number ss \<and>
     map cp_size (pg_completed p') = map cp_size (pg_completed p) @ map (\<lambda>s. length (part_bytes f (sp_number s))) ss"
proof (induction ss arbitrary: p)
  case (Cons s ss)
  then show ?case
    by (auto simp: xhrUpload_def noted_def Let_def split: sum.splits option.splits if_splits prod.splits
        dest!: Cons.IH)
qed simp

text \<open>A server that signs the parts it is asked for.\<close>

definition signs_requested :: "upload_env \<Rightarrow> bool" where
  "signs_requested e \<longleftrightarrow> (\<forall>numbers parts. ue_sign e numbers = Inr parts \<longrightarrow> map sp_number parts = numbers)"

lemma batch_upt: "offset < count \<Longrightarrow> batch count offset = [Suc offset..<Suc (min (offset + 100) count)]"
proof -
  assume "offset < count"
  have "batch count offset = map (\<lambda>i. i + Suc offset) [0..<min 100 (count - offset)]"
    by (simp add: batch_def add.commute)
  also have "\<dots> = [Suc offset..<Suc offset + min 100 (count - offset)]"
    using map_add_upt [of "Suc offset" "min 100 (count - offset)"] by (simp add: add.commute)
  also have "Suc offset + min 100 (count - offset) = Suc (min (offset + 100) count)"
    using \<open>offset < count\<close> by simp
  finally show ?thesis .
qed

lemma upload_batches_success:
  "upload_batches e f uid offset p = (None, p') \<Longrightarrow> signs_requested e \<Longrightarrow>
     put_bodies (pg_log p') = put_bodies (pg_log p) @ map (part_bytes f) [Suc offset..<Suc (part_count f)] \<and>
     map cp_number (pg_completed p') = map cp_number (pg_completed p) @ [Suc offset..<Suc (part_count f)] \<and>
     map cp_size (pg_completed p') =
       map cp_size (pg_completed p) @ map (\<lambda>n. length (part_bytes f n)) [Suc offset..<Suc (part_count f)]"
proof (induction e f uid offset p rule: upload_batches.induct)
  case (1 e f uid offset p)
  show ?case
  proof (cases "offset < part_count f")
    case False
    then show ?thesis using 1(2) by (simp add: upload_batches.simps)
  next
    case True
    define numbers where "numbers = batch (part_count f) offset"
    define p1 where "p1 = noted (SignParts uid numbers) p"
    note unfold = 1(2) [unfolded upload_batches.simps [of e f uid offset p] Let_def, folded numbers_def, folded p1_def]
    obtain parts where parts: "ue_sign e numbers = Inr parts" using unfold True by (auto split: sum.splits)
    obtain p2 where p2: "upload_parts e f parts p1 = (None, p2)"
      using unfold True parts by (auto split: prod.splits option.splits)
    have rest: "upload_batches e f uid (offset + 100) p2 = (None, p')" using unfold True parts p2 by simp
    have numbers: "map sp_number parts = numbers" using 1(3) parts by (simp add: signs_requested_def)
    note IH = 1(1) [OF True numbers_def p1_def parts p2 [symmetric] refl rest 1(3)]
    have split: "[Suc offset..<Suc (part_count f)] = numbers @ [Suc (offset + 100)..<Suc (part_count f)]"
    proof (cases "offset + 100 < part_count f")
      case True
      then show ?thesis
        using \<open>offset < part_count f\<close> upt_add_eq_append [of "Suc offset" "Suc (offset + 100)" "part_count f - (offset + 100)"]
        by (simp add: numbers_def batch_upt)
    next
      case False
      then show ?thesis using \<open>offset < part_count f\<close> by (simp add: numbers_def batch_upt min_def)
    qed
    have "put_bodies (pg_log p1) = put_bodies (pg_log p)" "pg_completed p1 = pg_completed p"
      by (simp_all add: p1_def noted_def)
    moreover have "map (\<lambda>s. part_bytes f (sp_number s)) parts = map (part_bytes f) numbers"
        "map (\<lambda>s. length (part_bytes f (sp_number s))) parts = map (\<lambda>n. length (part_bytes f n)) numbers"
      unfolding numbers [symmetric] by simp_all
    ultimately show ?thesis
      using upload_parts_success [OF p2] IH numbers unfolding split by (simp del: upt_Suc)
  qed
qed

text \<open>C25: A multipart upload that succeeds, on a storage that signs the parts it is asked for, has sent the file:
  the bodies of its requests joined are its bytes, and the list of the completed parts names the parts
  1, 2, 3 up to the last with their sizes.\<close>

theorem multipart_upload_sends_the_file:
  assumes "ue_create e = Inr u" and "up_mode u = Multipart" and "signs_requested e"
    and "uploadAttachment e f = (Inr v, effects)"
  shows "concat (put_bodies effects) = sf_bytes f \<and>
    (\<exists>parts. CompleteUpload (up_id u) (Some parts) \<in> set effects \<and>
      map cp_number parts = [1..<Suc (part_count f)] \<and>
      sum_list (map cp_size parts) = length (sf_bytes f))"
proof -
  let ?p = "\<lparr>pg_log = [CreateUpload (sf_name f) (mime_of f) (length (sf_bytes f))], pg_puts = 0, pg_completed = []\<rparr>"
  obtain p1 where run: "upload_batches e f (up_id u) 0 ?p = (None, p1)"
    and effects: "effects = pg_log p1 @ [CompleteUpload (up_id u) (Some (pg_completed p1))]"
    using assms(1,2,4)
    by (auto simp: uploadAttachment_def transfer_def complete_upload_def noted_def Let_def
        split: prod.splits option.splits sum.splits)
  have one: "[Suc 0..<Suc (part_count f)] = [1..<Suc (part_count f)]" by simp
  note sent = upload_batches_success [OF run assms(3), unfolded one]
  have whole: "concat (map (part_bytes f) [1..<Suc (part_count f)]) = sf_bytes f"
    unfolding parts_join using part_count_cover by simp
  have "concat (put_bodies effects) = sf_bytes f"
    using sent whole by (simp add: effects del: upt_Suc)
  moreover have "sum_list (map cp_size (pg_completed p1)) = length (sf_bytes f)"
  proof -
    have "sum_list (map cp_size (pg_completed p1)) = length (concat (map (part_bytes f) [1..<Suc (part_count f)]))"
      using sent by (simp add: length_concat comp_def del: upt_Suc)
    then show ?thesis by (simp only: whole)
  qed
  ultimately show ?thesis using sent by (auto simp: effects simp del: upt_Suc)
qed

section \<open>Failed uploads\<close>

fun is_completion :: "effect \<Rightarrow> bool" where
  "is_completion (CompleteUpload uid parts) = True"
| "is_completion _ = False"

fun is_abort :: "effect \<Rightarrow> bool" where
  "is_abort (AbortUpload uid) = True"
| "is_abort _ = False"

text \<open>The transfer of the parts only puts and signs.\<close>

definition spared :: "(effect \<Rightarrow> bool) \<Rightarrow> bool" where
  "spared P \<longleftrightarrow> (\<forall>r. \<not> P (Put r)) \<and> (\<forall>uid numbers. \<not> P (SignParts uid numbers))"

lemma spared_ops: "spared is_completion" "spared is_abort"
  by (simp_all add: spared_def)

lemma spared_parts:
  assumes "spared P"
  shows "list_ex P (pg_log (snd (upload_parts e f ss p))) \<longleftrightarrow> list_ex P (pg_log p)"
  using assms
  by (induction e f ss p rule: upload_parts.induct)
    (auto simp: spared_def xhrUpload_def noted_def Let_def split: sum.splits option.splits)

lemma spared_batches:
  "spared P \<Longrightarrow> list_ex P (pg_log (snd (upload_batches e f uid offset p))) \<longleftrightarrow> list_ex P (pg_log p)"
proof (induction e f uid offset p rule: upload_batches.induct)
  case (1 e f uid offset p)
  define p1 where "p1 = noted (SignParts uid (batch (part_count f) offset)) p"
  have p1: "list_ex P (pg_log p1) \<longleftrightarrow> list_ex P (pg_log p)"
    using 1(2) by (simp add: p1_def noted_def spared_def)
  show ?case
  proof (cases "offset < part_count f")
    case True
    show ?thesis
    proof (cases "ue_sign e (batch (part_count f) offset)")
      case (Inl err)
      then show ?thesis
        using True p1 by (simp add: upload_batches.simps [of e f uid offset p] Let_def p1_def [symmetric])
    next
      case (Inr parts)
      obtain r p2 where p2: "upload_parts e f parts p1 = (r, p2)" by fastforce
      have log: "list_ex P (pg_log p2) \<longleftrightarrow> list_ex P (pg_log p)"
        using spared_parts [OF 1(2), of e f parts p1] p1 p2 by simp
      have IH: "list_ex P (pg_log (snd (upload_batches e f uid (offset + 100) p2))) \<longleftrightarrow> list_ex P (pg_log p2)"
        if "r = None" using 1(1) [OF True refl p1_def Inr _ _ 1(2)] p2 that by simp
      then show ?thesis
        using True Inr p2 log
        by (cases r) (simp_all add: upload_batches.simps [of e f uid offset p] Let_def p1_def [symmetric])
    qed
  qed (simp add: upload_batches.simps)
qed

lemma transfer_effects:
  assumes "transfer e f u p = (r, p')"
  shows "(list_ex is_abort (pg_log p') \<longleftrightarrow> list_ex is_abort (pg_log p)) \<and>
    (r = Caught err \<longrightarrow> list_ex is_completion (pg_log p') = list_ex is_completion (pg_log p)) \<and>
    (r = Uncaught err \<longrightarrow> list_ex is_completion (pg_log p'))"
proof (cases "up_mode u")
  case Multipart
  obtain x p1 where b: "upload_batches e f (up_id u) 0 p = (x, p1)" by fastforce
  then have "list_ex is_completion (pg_log p1) = list_ex is_completion (pg_log p)"
      "list_ex is_abort (pg_log p1) = list_ex is_abort (pg_log p)"
    using spared_batches [OF spared_ops(1), of e f "up_id u" 0 p] spared_batches [OF spared_ops(2), of e f "up_id u" 0 p]
    by simp_all
  then show ?thesis
    using assms Multipart b
    by (cases x) (auto simp: transfer_def complete_upload_def noted_def split: sum.splits)
next
  case Presigned
  then show ?thesis
    using assms
    by (auto simp: transfer_def complete_upload_def xhrUpload_def noted_def split: sum.splits option.splits if_splits)
next
  case Streaming
  then show ?thesis
    using assms by (auto simp: transfer_def xhrUpload_def noted_def split: sum.splits option.splits)
qed

text \<open>An upload the server has created and that then fails is aborted there, as the last thing done, except
  where the refused step is its completion: then nothing aborts it.\<close>

theorem failed_uploads_aborted_unless_completing:
  assumes "ue_create e = Inr u" and "up_id u \<noteq> []" and "uploadAttachment e f = (Inl err, effects)"
  shows "if list_ex is_completion effects then \<not> list_ex is_abort effects
    else (\<exists>earlier. effects = earlier @ [AbortUpload (up_id u)] \<and> \<not> list_ex is_abort earlier)"
proof -
  let ?p = "\<lparr>pg_log = [CreateUpload (sf_name f) (mime_of f) (length (sf_bytes f))], pg_puts = 0, pg_completed = []\<rparr>"
  obtain r p1 where t: "transfer e f u ?p = (r, p1)" by fastforce
  note facts = transfer_effects [OF t, of err]
  consider "r = Caught err" "effects = pg_log p1 @ [AbortUpload (up_id u)]" | "r = Uncaught err" "effects = pg_log p1"
    using assms t by (cases r) (auto simp: uploadAttachment_def Let_def)
  then show ?thesis using facts by cases simp_all
qed

definition sample_env :: "bool \<Rightarrow> upload_env" where
  "sample_env completes =
     \<lparr>ue_create = Inr \<lparr>up_id = js ''u'', up_mode = Multipart, up_url = None\<rparr>,
      ue_sign = (\<lambda>numbers. Inr (map (\<lambda>n. \<lparr>sp_number = n, sp_url = js ''s''\<rparr>) numbers)),
      ue_put = (\<lambda>n. Loaded 200 [] (Some (js ''e''))),
      ue_complete = (if completes then Inr JNull else Inl (Failure (js ''offline''))),
      ue_resolve = Some, ue_parse = (\<lambda>_. None), ue_token = None\<rparr>"

definition sample_file :: source_file where
  "sample_file = \<lparr>sf_name = js ''a'', sf_type = [], sf_bytes = [1, 2, 3]\<rparr>"

lemma sample_upload:
  "uploadAttachment (sample_env completes) sample_file =
     ((if completes then Inr JNull else Inl (Failure (js ''offline''))),
      [CreateUpload (js ''a'') (js ''application/octet-stream'') 3, SignParts (js ''u'') [1],
       Put \<lparr>pr_url = js ''s'', pr_body = [1, 2, 3], pr_type = js ''application/octet-stream'', pr_token = None\<rparr>,
       CompleteUpload (js ''u'') (Some [\<lparr>cp_number = 1, cp_etag = js ''e'', cp_size = 3\<rparr>])])"
  by (simp add: uploadAttachment_def transfer_def sample_env_def sample_file_def upload_batches.simps part_count_def
      batch_def multipartPartBytes_def part_bytes_def xhrUpload_def complete_upload_def noted_def mime_of_def Let_def)

lemma sample_created:
  "ue_create (sample_env completes) = Inr \<lparr>up_id = js ''u'', up_mode = Multipart, up_url = None\<rparr>"
  by (simp add: sample_env_def)

lemma multipart_upload_sends_the_file_witness:
  "concat (put_bodies (snd (uploadAttachment (sample_env True) sample_file))) = sf_bytes sample_file"
proof -
  have signs: "signs_requested (sample_env True)" by (simp add: signs_requested_def sample_env_def comp_def)
  have ended: "uploadAttachment (sample_env True) sample_file =
      (Inr JNull, snd (uploadAttachment (sample_env True) sample_file))"
    unfolding sample_upload by simp
  show ?thesis
    using multipart_upload_sends_the_file [OF sample_created _ signs ended] by simp
qed

lemma failed_uploads_aborted_unless_completing_witness:
  "if list_ex is_completion (snd (uploadAttachment (sample_env False) sample_file))
   then \<not> list_ex is_abort (snd (uploadAttachment (sample_env False) sample_file))
   else (\<exists>earlier. snd (uploadAttachment (sample_env False) sample_file) = earlier @ [AbortUpload (js ''u'')] \<and>
     \<not> list_ex is_abort earlier)"
proof -
  have ended: "uploadAttachment (sample_env False) sample_file =
      (Inl (Failure (js ''offline'')), snd (uploadAttachment (sample_env False) sample_file))"
    unfolding sample_upload by simp
  have uid: "up_id \<lparr>up_id = js ''u'', up_mode = Multipart, up_url = None\<rparr> \<noteq> []" by simp
  show ?thesis
    using failed_uploads_aborted_unless_completing [OF sample_created uid ended] unfolding upload.select_convs .
qed

end
