(* ===== verification/Plain_Text.thy ===== *)
theory Plain_Text
  imports Markup
begin

text \<open>
  \<open>messagePlainText\<close> of \<open>packages/core/src/mentions.ts\<close>, the text of previews: a chain of global regular
  expression replacements. A pattern is a function from the unit before a position, if any, and the rest of
  the text to the length of the match there and its replacement; each of these patterns has at most one
  match at a position. The lemmas show that the result is one line of words.
\<close>

type_synonym pattern = "cunit option \<Rightarrow> jstring \<Rightarrow> (nat \<times> jstring) option"

text \<open>\<open>replace\<close> with a global pattern.\<close>

function replace_from :: "pattern \<Rightarrow> cunit option \<Rightarrow> jstring \<Rightarrow> jstring" where
  "replace_from p prev [] = []"
| "replace_from p prev (c # cs) =
     (case p prev (c # cs) of
        None \<Rightarrow> c # replace_from p (Some c) cs
      | Some (n, r) \<Rightarrow> r @ replace_from p (Some (last (take (max 1 n) (c # cs)))) (drop (n - 1) cs))"
  by pat_completeness auto

termination
  by (relation "measure (\<lambda>(p, prev, s). length s)") (auto simp: less_Suc_eq_le)

definition replace_all :: "pattern \<Rightarrow> jstring \<Rightarrow> jstring" where
  "replace_all p s = replace_from p None s"

text \<open>The first occurrence of \<open>d\<close>.\<close>

fun index_of :: "jstring \<Rightarrow> jstring \<Rightarrow> nat option" where
  "index_of d [] = (if d = [] then Some 0 else None)"
| "index_of d (c # cs) = (if starts_with d (c # cs) then Some 0 else map_option Suc (index_of d cs))"

definition fence :: jstring where
  "fence = [96, 96, 96]"

definition code_block :: pattern where
  "code_block prev s =
     (if starts_with fence s
      then map_option (\<lambda>i. (i + 6, take i (drop 3 s))) (index_of fence (drop 3 s)) else None)"

definition at_line_start :: "cunit option \<Rightarrow> bool" where
  "at_line_start prev = (case prev of None \<Rightarrow> True | Some c \<Rightarrow> \<not> dot c)"

definition heading_mark :: pattern where
  "heading_mark prev s =
     (let n = length (takeWhile (\<lambda>c. c = ch CHR ''#'') s); w = length (takeWhile is_space (drop n s)) in
      if at_line_start prev \<and> 1 \<le> n \<and> n \<le> 3 \<and> 1 \<le> w then Some (n + w, []) else None)"

definition bullet_length :: "jstring \<Rightarrow> nat option" where
  "bullet_length s =
     (case s of
        [] \<Rightarrow> None
      | c # cs \<Rightarrow>
          if c \<in> set (js ''-+*'') then Some 1
          else
            (let n = length (takeWhile is_digit s)
             in if 1 \<le> n \<and> starts_with (js ''.'') (drop n s) then Some (n + 1) else None))"

definition list_mark :: pattern where
  "list_mark prev s =
     (let v = length (takeWhile is_space s) in
      case bullet_length (drop v s) of
        None \<Rightarrow> None
      | Some b \<Rightarrow>
          (let w = length (takeWhile is_space (drop (v + b) s))
           in if at_line_start prev \<and> 1 \<le> w then Some (v + b + w, []) else None))"

definition paired :: "jstring \<Rightarrow> pattern" where
  "paired d prev s =
     map_option (\<lambda>n. (n, take (n - 2 * length d) (drop (length d) s))) (delimited d s)"

definition link_text :: pattern where
  "link_text prev s =
     (let label = takeWhile (\<lambda>c. c \<noteq> ch CHR '']'') (drop 1 s);
          rest = drop (1 + length label) s;
          scheme = (if starts_with (js ''](https://'') rest then 10
                    else if starts_with (js ''](http://'') rest then 9 else 0);
          path = takeWhile (\<lambda>c. \<not> is_space c \<and> c \<noteq> ch CHR '')'') (drop scheme rest)
      in if starts_with (js ''['') s \<and> label \<noteq> [] \<and> scheme > 0 \<and> path \<noteq> []
           \<and> starts_with (js '')'') (drop (scheme + length path) rest)
         then Some (2 + length label + scheme + length path, label) else None)"

definition white_run :: pattern where
  "white_run prev s =
     (let w = length (takeWhile is_space s) in if 1 \<le> w then Some (w, js '' '') else None)"

definition messagePlainText :: "jstring \<Rightarrow> jstring" where
  "messagePlainText source =
     js_trim (replace_all white_run (replace_all link_text (replace_all (paired [96])
       (replace_all (paired (js ''_'')) (replace_all (paired (js ''++'')) (replace_all (paired (js ''~~''))
       (replace_all (paired (js ''**'')) (replace_all list_mark (replace_all heading_mark
       (replace_all code_block (md_text (decodeMentions source))))))))))))"

section \<open>One line of words\<close>

fun single_spaced :: "jstring \<Rightarrow> bool" where
  "single_spaced [] \<longleftrightarrow> True"
| "single_spaced [c] \<longleftrightarrow> is_space c \<longrightarrow> c = 32"
| "single_spaced (c # d # s) \<longleftrightarrow> (is_space c \<longrightarrow> c = 32 \<and> \<not> is_space d) \<and> single_spaced (d # s)"

definition starts_spaced :: "jstring \<Rightarrow> bool" where
  "starts_spaced s \<longleftrightarrow> s \<noteq> [] \<and> is_space (hd s)"

lemma single_spaced_Cons:
  "single_spaced (c # s) \<longleftrightarrow> (is_space c \<longrightarrow> c = 32 \<and> \<not> starts_spaced s) \<and> single_spaced s"
  by (cases s) (auto simp: starts_spaced_def)

lemma drop_takeWhile: "drop (length (takeWhile P s)) s = dropWhile P s"
  by (metis append_eq_conv_conj takeWhile_dropWhile_id)

lemma white_runs:
  "single_spaced (replace_from white_run prev s) \<and>
   (\<not> starts_spaced s \<longrightarrow> \<not> starts_spaced (replace_from white_run prev s))"
proof (induction white_run prev s rule: replace_from.induct)
  case (2 prev c cs)
  show ?case
  proof (cases "is_space c")
    case False
    then have none: "white_run prev (c # cs) = None" by (simp add: white_run_def)
    then show ?thesis using 2(1) False by (simp add: single_spaced_Cons starts_spaced_def)
  next
    case True
    define n where "n = length (takeWhile is_space (c # cs))"
    have m: "white_run prev (c # cs) = Some (n, [32])" using True by (simp add: white_run_def n_def Let_def)
    have rest: "drop (n - 1) cs = dropWhile is_space cs" using True by (simp add: n_def drop_takeWhile)
    have "\<not> starts_spaced (dropWhile is_space cs)"
      using hd_dropWhile [of is_space cs] by (auto simp: starts_spaced_def)
    then show ?thesis
      using 2(2) [OF m refl] True m rest by (simp add: single_spaced_Cons) (simp add: starts_spaced_def)
  qed
qed (simp add: starts_spaced_def)

lemma single_spaced_drop: "single_spaced s \<Longrightarrow> single_spaced (dropWhile P s)"
  by (induction s) (auto simp: single_spaced_Cons)

lemma single_spaced_take: "single_spaced (s @ t) \<Longrightarrow> single_spaced s"
  by (induction s) (auto simp: single_spaced_Cons starts_spaced_def)

lemma js_trim_prefix: "\<exists>t. dropWhile is_space s = js_trim s @ t"
proof -
  have "rev (dropWhile is_space s) = takeWhile is_space (rev (dropWhile is_space s)) @ dropWhile is_space (rev (dropWhile is_space s))"
    by simp
  then have "dropWhile is_space s = js_trim s @ rev (takeWhile is_space (rev (dropWhile is_space s)))"
    unfolding js_trim_def by (metis rev_append rev_rev_ident)
  then show ?thesis by blast
qed

lemma trim_ends:
  "js_trim s \<noteq> [] \<Longrightarrow> \<not> is_space (hd (js_trim s)) \<and> \<not> is_space (last (js_trim s))"
proof -
  assume ne: "js_trim s \<noteq> []"
  obtain t where t: "dropWhile is_space s = js_trim s @ t" using js_trim_prefix by blast
  then have "hd (js_trim s) = hd (dropWhile is_space s)" "dropWhile is_space s \<noteq> []" using ne by simp_all
  then have "\<not> is_space (hd (js_trim s))" using hd_dropWhile by metis
  moreover have "last (js_trim s) = hd (dropWhile is_space (rev (dropWhile is_space s)))"
    using ne by (simp add: js_trim_def last_rev)
  ultimately show ?thesis using ne hd_dropWhile by (metis js_trim_def rev.simps(1))
qed

text \<open>The text of a preview is one line: its only white space are single spaces between its words.\<close>

theorem plain_text_is_one_line:
  "single_spaced (messagePlainText source) \<and>
   (messagePlainText source \<noteq> [] \<longrightarrow>
     \<not> is_space (hd (messagePlainText source)) \<and> \<not> is_space (last (messagePlainText source)))"
proof -
  define x where "x = replace_all white_run (replace_all link_text (replace_all (paired [96])
       (replace_all (paired (js ''_'')) (replace_all (paired (js ''++'')) (replace_all (paired (js ''~~''))
       (replace_all (paired (js ''**'')) (replace_all list_mark (replace_all heading_mark
       (replace_all code_block (md_text (decodeMentions source)))))))))))"
  have m: "messagePlainText source = js_trim x" by (simp only: messagePlainText_def x_def)
  have "single_spaced x" unfolding x_def replace_all_def [of white_run] using white_runs by blast
  then have "single_spaced (dropWhile is_space x)" by (rule single_spaced_drop)
  then have "single_spaced (js_trim x)" using js_trim_prefix [of x] single_spaced_take by metis
  then show ?thesis using trim_ends [of x] by (simp add: m)
qed

end
