(* ===== verification/Messenger_Session.thy ===== *)
theory Messenger_Session
  imports Store Notifications Plain_Text Links
begin

text \<open>
  The session of the signed-in user, \<open>useMessengerSession\<close> of \<open>apps/web/src/shell/useMessengerSession.ts\<close>: it
  owns the store, feeds it with the events of the coordinator, shows notifications, reloads the chat list
  and keeps the pinned chats. State updates of React are immediate; an \<open>await\<close> or a timer is an event of its
  own. The texts of the interface stand for themselves: a title is its key and its argument.

  The lemmas show that the notifications stay few and each goes away by itself, and when it does not, that
  every event that changes the chat list is followed by a reload, and that no list of pinned chats beyond
  the limit is sent.
\<close>

section \<open>Notifications\<close>

datatype title_key = NewMessage | NewReaction | ChatEvent

record notice =
  no_id :: jstring
  no_title :: title_key
  no_context :: jstring
  no_body :: "jstring option"
  no_url :: jstring
  no_avatarSeed :: jstring
  no_mention :: bool

text \<open>\<open>nt_timers\<close> are the keys of \<open>inAppNotificationTimers\<close>, each with a pending timeout of 7 s.\<close>

record notices =
  nt_shown :: "notice list"
  nt_timers :: "jstring list"

definition dismiss :: "jstring \<Rightarrow> notices \<Rightarrow> notices" where
  "dismiss i s = \<lparr>nt_shown = filter (\<lambda>n. no_id n \<noteq> i) (nt_shown s), nt_timers = filter (\<lambda>t. t \<noteq> i) (nt_timers s)\<rparr>"

text \<open>\<open>slice(-2)\<close>\<close>

definition last_two :: "'a list \<Rightarrow> 'a list" where
  "last_two xs = drop (length xs - 2) xs"

definition add_notice :: "notice \<Rightarrow> notices \<Rightarrow> notices" where
  "add_notice n s =
     \<lparr>nt_shown = last_two (filter (\<lambda>m. no_id m \<noteq> no_id n) (nt_shown s)) @ [n],
      nt_timers = filter (\<lambda>t. t \<noteq> no_id n) (nt_timers s) @ [no_id n]\<rparr>"

fun str_of :: "json option \<Rightarrow> jstring option" where
  "str_of (Some (JStr s)) = Some s"
| "str_of _ = None"

definition or_else :: "jstring \<Rightarrow> jstring \<Rightarrow> jstring" where
  "or_else a b = (if a = [] then b else a)"

fun field_text :: "jstring field \<Rightarrow> jstring" where
  "field_text (Val s) = s"
| "field_text _ = []"

definition notice_of :: "app_user \<Rightarrow> notified_event \<Rightarrow> chat option \<Rightarrow> notice" where
  "notice_of u e chat =
     (let body = js_trim (case str_of (get (js ''body'') (ne_data e)) of Some b \<Rightarrow> messagePlainText b | None \<Rightarrow> []);
          context = or_else (case chat of Some c \<Rightarrow> c_display_name c | None \<Rightarrow> []) (us_organization_name u);
          root = (case str_of (get (js ''thread_root_id'') (ne_data e)) of Some r \<Rightarrow> r | None \<Rightarrow> []);
          cid = field_text (ne_chat_id e)
      in \<lparr>no_id = show_int (ne_seq e) @ js '':'' @ ne_type e,
          no_title = (if ne_type e = js ''message.created'' then NewMessage
                      else if ne_type e = js ''reaction.added'' then NewReaction else ChatEvent),
          no_context = context,
          no_body = (if body = [] then None else Some body),
          no_url = (if cid \<noteq> [] \<and> root \<noteq> [] then js ''/chat/'' @ cid @ js ''/thread/'' @ root
                    else if cid \<noteq> [] then js ''/chat/'' @ cid else js ''/members''),
          no_avatarSeed = (case chat of Some c \<Rightarrow> or_else (or_else (c_avatar_seed c) (c_id c)) (us_org_id u)
                           | None \<Rightarrow> us_org_id u),
          no_mention = mentioned (us_id u) (ne_data e)\<rparr>)"

section \<open>The session\<close>

datatype effect =
    ReloadStarted nat
  | MeRequested
  | SoundPlayed
  | PinsSent "jstring list"
  | ContextRequested jstring
  | PinLimitShown
  | Navigated jstring

record session =
  se_store :: messenger
  se_notices :: notices
  se_preferences :: "user_preferences option"
  se_reload_timer :: bool
  se_reloads :: nat
  se_loading :: bool
  se_failed :: bool
  se_ready :: bool
  se_pinned :: "jstring list"
  se_log :: "effect list"

definition new_session :: session where
  "new_session =
     \<lparr>se_store = createMessengerStore 0, se_notices = \<lparr>nt_shown = [], nt_timers = []\<rparr>, se_preferences = None,
      se_reload_timer = False, se_reloads = 0, se_loading = True, se_failed = False, se_ready = False,
      se_pinned = [], se_log = []\<rparr>"

definition noted :: "effect list \<Rightarrow> session \<Rightarrow> session" where
  "noted es s = s\<lparr>se_log := se_log s @ es\<rparr>"

definition reload :: "session \<Rightarrow> session" where
  "reload s = noted [ReloadStarted (se_reloads s)] (s\<lparr>se_reloads := se_reloads s + 1\<rparr>)"

definition reload_settles :: "(chat list \<times> unread_snapshot) option \<Rightarrow> session \<Rightarrow> session" where
  "reload_settles r s =
     (let s1 = (case r of
                  Some (list, counts) \<Rightarrow>
                    s\<lparr>se_store := setUnread counts (replaceChats list (se_store s)), se_failed := False\<rparr>
                | None \<Rightarrow> s\<lparr>se_failed := True\<rparr>)
      in s1\<lparr>se_loading := False, se_ready := True\<rparr>)"

definition scheduleReload :: "session \<Rightarrow> session" where
  "scheduleReload s = s\<lparr>se_reload_timer := True\<rparr>"

definition reload_timer_fires :: "session \<Rightarrow> session" where
  "reload_timer_fires s = (if se_reload_timer s then reload (s\<lparr>se_reload_timer := False\<rparr>) else s)"

definition profile_event :: "jstring \<Rightarrow> bool" where
  "profile_event t \<longleftrightarrow> t = js ''actor.status.updated'' \<or> t = js ''actor.avatar.updated''"

definition list_event :: "jstring \<Rightarrow> bool" where
  "list_event t \<longleftrightarrow> starts_with (js ''chat.'') t \<or> starts_with (js ''member.'') t \<or> starts_with (js ''message.'') t"

text \<open>The client's view of an event's data as a message, for the store, and as JSON, for the policy.\<close>

definition notified :: "durable_event \<Rightarrow> json \<Rightarrow> notified_event" where
  "notified e data =
     \<lparr>ne_seq = e_seq e, ne_type = e_type e, ne_occurred_at = e_occurred_at e, ne_actor_id = e_actor_id e,
      ne_chat_id = e_chat_id e, ne_data = data\<rparr>"

fun is_active :: "jstring field \<Rightarrow> jstring option \<Rightarrow> bool" where
  "is_active Null None = True"
| "is_active (Val c) (Some d) = (c = d)"
| "is_active _ _ = False"

definition chat_of :: "durable_event \<Rightarrow> messenger \<Rightarrow> chat option" where
  "chat_of e st = (if field_text (e_chat_id e) = [] then None else chats st (field_text (e_chat_id e)))"

definition notify ::
  "(int \<Rightarrow> int) \<Rightarrow> bool \<Rightarrow> app_user \<Rightarrow> durable_event \<Rightarrow> json \<Rightarrow> session \<Rightarrow> session" where
  "notify zone tab_shown u e data s =
     (let n = notified e data; chat = chat_of e (se_store s) in
      if tab_shown \<and> \<not> is_active (e_chat_id e) (activeChatID (se_store s)) \<and>
         shouldShowInAppNotification zone n u (se_preferences s) chat
      then
        (let s1 = s\<lparr>se_notices := add_notice (notice_of u n chat) (se_notices s)\<rparr>
         in if shouldPlayNotificationSound zone n u (se_preferences s) chat then noted [SoundPlayed] s1 else s1)
      else s)"

text \<open>The \<open>event\<close> callback; its result tells the coordinator to store the checkpoint.\<close>

definition on_event ::
  "(int \<Rightarrow> int) \<Rightarrow> bool \<Rightarrow> app_user \<Rightarrow> durable_event \<Rightarrow> json \<Rightarrow> session \<Rightarrow> bool \<times> session" where
  "on_event zone tab_shown u e data s =
     (let (applied, st) = apply_event e (se_store s);
          s1 = notify zone tab_shown u e data (s\<lparr>se_store := st\<rparr>);
          profile = profile_event (e_type e);
          s2 = (if profile \<and> e_actor_id e = us_id u then noted [MeRequested] s1 else s1);
          s3 = (if applied \<and> list_event (e_type e) then scheduleReload s2 else s2);
          s4 = (if profile then scheduleReload s3 else s3)
      in (applied \<or> profile, s4))"

text \<open>\<open>resync\<close> up to its first \<open>await\<close>; the messages of the active chat are loaded after the reload.\<close>

definition resync :: "int \<Rightarrow> session \<Rightarrow> session" where
  "resync watermark s = reload (s\<lparr>se_store := resetDurable watermark (se_store s)\<rparr>)"

definition loadMessages :: "jstring \<Rightarrow> client_message list \<Rightarrow> session \<Rightarrow> session" where
  "loadMessages chatID page s = s\<lparr>se_store := replaceMessages chatID page (se_store s)\<rparr>"

definition pinnedChatLimit :: nat where
  "pinnedChatLimit = 10"

definition togglePinnedChat :: "jstring \<Rightarrow> session \<Rightarrow> session" where
  "togglePinnedChat chatID s =
     (if chatID \<in> set (se_pinned s) then noted [PinsSent (filter (\<lambda>i. i \<noteq> chatID) (se_pinned s))] s
      else if pinnedChatLimit \<le> length (se_pinned s) then noted [PinLimitShown] (s\<lparr>se_failed := True\<rparr>)
      else noted [PinsSent (se_pinned s @ [chatID])] s)"

text \<open>The effect that starts the coordinator: its cleanup, and where \<open>user\<close>, and with it the coordinator, has
  changed and the component stays mounted, the effect again.\<close>

definition effect_cleanup :: "session \<Rightarrow> session" where
  "effect_cleanup s = s\<lparr>se_reload_timer := False, se_notices := (se_notices s)\<lparr>nt_timers := []\<rparr>\<rparr>"

definition effect_restarts :: "session \<Rightarrow> session" where
  "effect_restarts s = reload (effect_cleanup s)"

section \<open>Paths\<close>

definition segment :: "jstring \<Rightarrow> jstring" where
  "segment s = takeWhile (\<lambda>c. c \<noteq> ch CHR ''/'') s"

definition non_empty :: "jstring \<Rightarrow> jstring option" where
  "non_empty s = (if s = [] then None else Some s)"

definition selectedID :: "jstring \<Rightarrow> jstring option" where
  "selectedID path =
     (if starts_with (js ''/chat/'') path then non_empty (segment (drop 6 path)) else None)"

fun threadID :: "jstring \<Rightarrow> jstring option" where
  "threadID [] = None"
| "threadID (c # cs) =
     (if starts_with (js ''/thread/'') (c # cs) \<and> segment (drop 8 (c # cs)) \<noteq> []
      then Some (segment (drop 8 (c # cs))) else threadID cs)"

definition message_key :: "jstring \<Rightarrow> jstring option" where
  "message_key path =
     (if starts_with (js ''/m/'') path \<and> drop 3 path \<noteq> [] \<and> ch CHR ''/'' \<notin> set (drop 3 path)
      then Some (drop 3 path) else None)"

text \<open>The effect on \<open>/m/:key\<close>: \<open>None\<close> where there is no key, otherwise the message asked for, or an error.\<close>

definition open_message_link :: "jstring \<Rightarrow> session \<Rightarrow> session" where
  "open_message_link path s =
     (case message_key path of
        None \<Rightarrow> s
      | Some key \<Rightarrow>
          (case expandUUID key of
             Some messageID \<Rightarrow> noted [ContextRequested messageID] s
           | None \<Rightarrow> s\<lparr>se_failed := True\<rparr>))"

definition message_path :: "jstring \<Rightarrow> jstring \<Rightarrow> jstring" where
  "message_path chatID messageID = js ''/chat/'' @ chatID @ js ''?message='' @ messageID"

definition context_settles :: "jstring \<Rightarrow> client_message list option \<Rightarrow> session \<Rightarrow> session" where
  "context_settles messageID r s =
     (case r of
        None \<Rightarrow> s\<lparr>se_failed := True\<rparr>
      | Some items \<Rightarrow>
          (case find (\<lambda>m. m_id m = messageID) items of
             None \<Rightarrow> s\<lparr>se_failed := True\<rparr>
           | Some m \<Rightarrow> noted [Navigated (message_path (field_text (m_chat_id m)) messageID)] s))"

section \<open>Runs\<close>

datatype event =
    Event bool durable_event json
  | ReloadTimer
  | ReloadSettles "(chat list \<times> unread_snapshot) option"
  | Resync int
  | MessagesLoaded jstring "client_message list"
  | NoticeTimer jstring
  | NoticeDismissed jstring
  | PreferencesLoaded user_preferences
  | PinToggled jstring
  | PinsSettle "jstring list"
  | PathChanged jstring
  | ContextSettles jstring "client_message list option"
  | EffectRestarts

fun step :: "(int \<Rightarrow> int) \<Rightarrow> app_user \<Rightarrow> event \<Rightarrow> session \<Rightarrow> session" where
  "step zone u (Event tab_shown e data) s = snd (on_event zone tab_shown u e data s)"
| "step zone u ReloadTimer s = reload_timer_fires s"
| "step zone u (ReloadSettles r) s = reload_settles r s"
| "step zone u (Resync w) s = resync w s"
| "step zone u (MessagesLoaded c page) s = loadMessages c page s"
| "step zone u (NoticeTimer i) s =
     (if i \<in> set (nt_timers (se_notices s)) then s\<lparr>se_notices := dismiss i (se_notices s)\<rparr> else s)"
| "step zone u (NoticeDismissed i) s = s\<lparr>se_notices := dismiss i (se_notices s)\<rparr>"
| "step zone u (PreferencesLoaded p) s = s\<lparr>se_preferences := Some p\<rparr>"
| "step zone u (PinToggled c) s = togglePinnedChat c s"
| "step zone u (PinsSettle ids) s = s\<lparr>se_pinned := ids\<rparr>"
| "step zone u (PathChanged path) s =
     open_message_link path (s\<lparr>se_store := setActive (selectedID path) (se_store s)\<rparr>)"
| "step zone u (ContextSettles i r) s = context_settles i r s"
| "step zone u EffectRestarts s = effect_restarts s"

definition run :: "(int \<Rightarrow> int) \<Rightarrow> app_user \<Rightarrow> event list \<Rightarrow> session" where
  "run zone u es = fold (step zone u) es (reload new_session)"

section \<open>Notifications stay few and go away\<close>

definition few_notices :: "notices \<Rightarrow> bool" where
  "few_notices n \<longleftrightarrow> length (nt_shown n) \<le> 3 \<and> distinct (map no_id (nt_shown n)) \<and> distinct (nt_timers n)"

definition all_timed :: "notices \<Rightarrow> bool" where
  "all_timed n \<longleftrightarrow> no_id ` set (nt_shown n) \<subseteq> set (nt_timers n)"

lemma last_two_facts:
  "length (last_two xs) \<le> 2" "set (last_two xs) \<subseteq> set xs" "map f (last_two xs) = last_two (map f xs)"
  "distinct xs \<Longrightarrow> distinct (last_two xs)"
  by (auto simp: last_two_def drop_map dest: in_set_dropD)

lemma few_add_notice: "few_notices s \<Longrightarrow> few_notices (add_notice n s)"
proof -
  assume few: "few_notices s"
  let ?rest = "filter (\<lambda>m. no_id m \<noteq> no_id n) (nt_shown s)"
  have "distinct (map no_id (last_two ?rest))"
    using few by (simp add: last_two_facts few_notices_def distinct_map_filter)
  moreover have "no_id n \<notin> no_id ` set (last_two ?rest)"
    using last_two_facts(2) [of ?rest] by auto
  moreover have "length (last_two ?rest) \<le> 2" by (rule last_two_facts(1))
  ultimately show ?thesis
    using few by (auto simp: few_notices_def add_notice_def)
qed

lemma timed_add_notice: "all_timed s \<Longrightarrow> all_timed (add_notice n s)"
proof -
  assume "all_timed s"
  moreover have "set (last_two (filter (\<lambda>m. no_id m \<noteq> no_id n) (nt_shown s))) \<subseteq> {m \<in> set (nt_shown s). no_id m \<noteq> no_id n}"
    using last_two_facts(2) by fastforce
  ultimately show ?thesis by (auto simp: all_timed_def add_notice_def)
qed

lemma few_dismiss: "few_notices s \<Longrightarrow> few_notices (dismiss i s)"
proof -
  assume few: "few_notices s"
  have "length (filter (\<lambda>n. no_id n \<noteq> i) (nt_shown s)) \<le> 3"
    using few by (intro order_trans [OF length_filter_le]) (simp add: few_notices_def)
  with few show ?thesis by (simp add: few_notices_def dismiss_def distinct_map_filter)
qed

lemma timed_dismiss: "all_timed s \<Longrightarrow> all_timed (dismiss i s)"
  by (auto simp: all_timed_def dismiss_def)

text \<open>What a step does to the notifications: nothing, one more, one less, or their timers are cleared.\<close>

lemma noted_other [simp]:
  "se_notices (noted l s) = se_notices s" "se_store (noted l s) = se_store s"
  "se_reload_timer (noted l s) = se_reload_timer s" "se_reloads (noted l s) = se_reloads s"
  "se_pinned (noted l s) = se_pinned s"
  by (simp_all add: noted_def)

lemma reload_other [simp]:
  "se_notices (reload s) = se_notices s" "se_reload_timer (reload s) = se_reload_timer s"
  "se_reloads (reload s) = se_reloads s + 1" "se_store (reload s) = se_store s"
  "se_pinned (reload s) = se_pinned s"
  by (simp_all add: reload_def)

lemma notify_other [simp]:
  "se_reload_timer (notify zone v u e d s) = se_reload_timer s"
  "se_reloads (notify zone v u e d s) = se_reloads s"
  "se_store (notify zone v u e d s) = se_store s"
  "se_pinned (notify zone v u e d s) = se_pinned s"
  by (simp_all add: notify_def Let_def)

lemma notify_notices:
  "se_notices (notify zone v u e d s) = se_notices s \<or>
   (\<exists>n. se_notices (notify zone v u e d s) = add_notice n (se_notices s))"
  by (auto simp: notify_def Let_def)

lemma on_event_notices:
  "se_notices (snd (on_event zone v u e d s)) = se_notices s \<or>
   (\<exists>n. se_notices (snd (on_event zone v u e d s)) = add_notice n (se_notices s))"
proof -
  obtain applied st where ap: "apply_event e (se_store s) = (applied, st)" by fastforce
  show ?thesis
    using notify_notices [of zone v u e d "s\<lparr>se_store := st\<rparr>"]
    by (auto simp: on_event_def ap Let_def scheduleReload_def)
qed

lemma step_notices:
  obtains (same) "se_notices (step zone u ev s) = se_notices s"
  | (more) n where "se_notices (step zone u ev s) = add_notice n (se_notices s)"
  | (less) i where "se_notices (step zone u ev s) = dismiss i (se_notices s)"
  | (cleared) "ev = EffectRestarts" "se_notices (step zone u ev s) = (se_notices s)\<lparr>nt_timers := []\<rparr>"
proof (cases ev)
  case (Event v e d)
  then show ?thesis using on_event_notices [of zone v u e d s] same more by auto
next
  case (ReloadSettles r)
  then show ?thesis using same by (auto simp: reload_settles_def Let_def split: option.splits)
next
  case (PathChanged p)
  then show ?thesis using same by (auto simp: open_message_link_def split: option.splits)
next
  case (NoticeTimer i)
  then show ?thesis using same less by (cases "i \<in> set (nt_timers (se_notices s))") simp_all
next
  case (ContextSettles i r)
  then show ?thesis using same by (simp add: context_settles_def split: option.splits)
qed (use same less cleared in \<open>auto simp: reload_timer_fires_def resync_def loadMessages_def togglePinnedChat_def
  effect_restarts_def effect_cleanup_def split: if_splits\<close>)

lemma few_step: "few_notices (se_notices s) \<Longrightarrow> few_notices (se_notices (step zone u ev s))"
proof (cases rule: step_notices [of zone u ev s])
  case cleared
  then show "few_notices (se_notices s) \<Longrightarrow> ?thesis" by (simp add: few_notices_def)
qed (simp_all add: few_add_notice few_dismiss)

lemma timed_step:
  "all_timed (se_notices s) \<Longrightarrow> ev \<noteq> EffectRestarts \<Longrightarrow> all_timed (se_notices (step zone u ev s))"
  by (cases rule: step_notices [of zone u ev s]) (simp_all add: timed_add_notice timed_dismiss)

lemma few_fold: "few_notices (se_notices s) \<Longrightarrow> few_notices (se_notices (fold (step zone u) es s))"
  by (induction es arbitrary: s) (simp_all add: few_step)

lemma timed_fold:
  "all_timed (se_notices s) \<Longrightarrow> EffectRestarts \<notin> set es \<Longrightarrow> all_timed (se_notices (fold (step zone u) es s))"
  by (induction es arbitrary: s) (simp_all add: timed_step [OF _ not_sym])

lemma new_notices [simp]: "few_notices (se_notices (reload new_session))" "all_timed (se_notices (reload new_session))"
  by (simp_all add: few_notices_def all_timed_def new_session_def)

text \<open>Whatever happens in the session, at most three notifications are on display, no two with the same
  id; and as long as the effect that runs the coordinator is not restarted, each of them has its own
  pending timer that will dismiss it.\<close>

theorem notices_are_few_and_timed:
  "length (nt_shown (se_notices (run zone u es))) \<le> 3 \<and>
   distinct (map no_id (nt_shown (se_notices (run zone u es)))) \<and>
   (EffectRestarts \<in> set es \<or>
    no_id ` set (nt_shown (se_notices (run zone u es))) \<subseteq> set (nt_timers (se_notices (run zone u es))))"
  using few_fold [OF new_notices(1), of zone u es] timed_fold [OF new_notices(2), of es zone u]
  unfolding run_def few_notices_def all_timed_def by blast

fun hand_dismissal :: "event \<Rightarrow> bool" where
  "hand_dismissal (NoticeDismissed i) = True"
| "hand_dismissal (Event v e d) = True"
| "hand_dismissal ev = False"

lemma untimed_stays:
  assumes "nt_timers (se_notices s) = []" and "\<not> hand_dismissal ev"
  shows "nt_timers (se_notices (step zone u ev s)) = [] \<and>
    nt_shown (se_notices (step zone u ev s)) = nt_shown (se_notices s)"
  using assms
  by (cases ev) (auto simp: reload_timer_fires_def resync_def loadMessages_def togglePinnedChat_def
      reload_settles_def Let_def open_message_link_def context_settles_def effect_restarts_def effect_cleanup_def
      split: if_splits option.splits)

text \<open>When the signed-in user changes (their own status or avatar is enough), the effect restarts and
  clears the timers of the notifications that are on display: no timer removes them any more, they stay
  until the reader dismisses them or new notifications push them out.\<close>

theorem restart_leaves_notices_on_display:
  assumes "\<forall>ev \<in> set ds. \<not> hand_dismissal ev"
  shows "nt_shown (se_notices (run zone u (es @ EffectRestarts # ds))) = nt_shown (se_notices (run zone u es))"
proof -
  let ?s = "step zone u EffectRestarts (run zone u es)"
  have "nt_timers (se_notices t) = [] \<Longrightarrow>
      nt_shown (se_notices (fold (step zone u) ds t)) = nt_shown (se_notices t)" for t
    using assms by (induction ds arbitrary: t) (auto simp: untimed_stays)
  moreover have "nt_timers (se_notices ?s) = []" by (simp add: effect_restarts_def effect_cleanup_def)
  ultimately have "nt_shown (se_notices (fold (step zone u) ds ?s)) = nt_shown (se_notices ?s)" by blast
  then show ?thesis by (simp add: run_def effect_restarts_def effect_cleanup_def)
qed

definition sample_user :: app_user where
  "sample_user = \<lparr>us_id = js ''a'', us_org_id = js ''o'', us_organization_name = js ''Org''\<rparr>"

theorem restart_leaves_notices_on_display_witness:
  "nt_shown (se_notices (run (\<lambda>_. 0) sample_user ([] @ [EffectRestarts, NoticeTimer (js ''1:x''), ReloadTimer]))) =
   nt_shown (se_notices (run (\<lambda>_. 0) sample_user []))"
  using restart_leaves_notices_on_display [of "[NoticeTimer (js ''1:x''), ReloadTimer]" "\<lambda>_. 0" sample_user "[]"]
  by simp

section \<open>The chat list is reloaded\<close>

lemma step_reloads:
  "se_reloads s \<le> se_reloads (step zone u ev s) \<and>
   (se_reload_timer s \<longrightarrow> se_reload_timer (step zone u ev s) \<or> se_reloads s < se_reloads (step zone u ev s))"
proof (cases ev)
  case (Event v e d)
  obtain applied st where "apply_event e (se_store s) = (applied, st)" by fastforce
  then show ?thesis using Event by (simp add: on_event_def Let_def scheduleReload_def)
next
  case (NoticeTimer i)
  then show ?thesis by (cases "i \<in> set (nt_timers (se_notices s))") simp_all
qed (auto simp: reload_timer_fires_def resync_def loadMessages_def togglePinnedChat_def reload_settles_def
      Let_def open_message_link_def context_settles_def effect_restarts_def effect_cleanup_def
      split: option.splits)

lemma fold_reloads:
  "se_reloads s \<le> se_reloads (fold (step zone u) es s) \<and>
   (se_reload_timer s \<longrightarrow> se_reload_timer (fold (step zone u) es s) \<or> se_reloads s < se_reloads (fold (step zone u) es s))"
proof (induction es arbitrary: s)
  case (Cons ev es)
  show ?case using Cons [of "step zone u ev s"] step_reloads [of s zone u ev] by fastforce
qed simp

definition list_changed :: "durable_event \<Rightarrow> messenger \<Rightarrow> bool" where
  "list_changed e st \<longleftrightarrow> checkpoint st < e_seq e \<and> list_event (e_type e) \<or> profile_event (e_type e)"

text \<open>C27: No change of the chat list is missed: after an event that changes it, new to the store, or a profile
  event, a reload is pending, or has started since, whatever else has happened in between, resyncs and
  restarts of the effect included; and the coordinator is told to store the event's checkpoint.\<close>

theorem list_changes_are_reloaded:
  assumes "list_changed e (se_store (run zone u es))"
  shows "fst (on_event zone tab_shown u e d (run zone u es)) \<and>
    (se_reload_timer (run zone u (es @ Event tab_shown e d # ds)) \<or>
     se_reloads (run zone u es) < se_reloads (run zone u (es @ Event tab_shown e d # ds)))"
proof -
  obtain applied st where ap: "apply_event e (se_store (run zone u es)) = (applied, st)" by fastforce
  then have "applied \<longleftrightarrow> checkpoint (se_store (run zone u es)) < e_seq e"
    by (auto simp: apply_event_def split: if_splits)
  then have "se_reload_timer (snd (on_event zone tab_shown u e d (run zone u es)))"
    and fst: "fst (on_event zone tab_shown u e d (run zone u es))"
    and same: "se_reloads (snd (on_event zone tab_shown u e d (run zone u es))) = se_reloads (run zone u es)"
    using assms by (auto simp: ap on_event_def Let_def scheduleReload_def list_changed_def)
  then show ?thesis
    using fold_reloads [of "snd (on_event zone tab_shown u e d (run zone u es))" zone u ds]
    by (simp add: run_def)
qed

theorem list_changes_are_reloaded_witness:
  "\<exists>e d. list_event (e_type e) \<and> fst (on_event (\<lambda>_. 0) True sample_user e d (run (\<lambda>_. 0) sample_user [])) \<and>
     (se_reload_timer (run (\<lambda>_. 0) sample_user [Event True e d, ReloadTimer]) \<or>
      1 < se_reloads (run (\<lambda>_. 0) sample_user [Event True e d, ReloadTimer]))"
proof -
  let ?e = "\<lparr>e_seq = 1, e_type = js ''chat.updated'', e_occurred_at = [], e_actor_id = [], e_chat_id = Undefined,
      e_subject_id = [], e_data = sample_message\<rparr>"
  have le: "list_event (js ''chat.updated'')" by code_simp
  have "list_changed ?e (se_store (run (\<lambda>_. 0) sample_user []))"
    by (simp add: list_changed_def le del: js_Cons) (simp add: run_def new_session_def createMessengerStore_def)
  from list_changes_are_reloaded [OF this, of True JNull "[ReloadTimer]"] le
  show ?thesis by (intro exI [of _ ?e] exI [of _ JNull]) (simp add: run_def new_session_def del: js_Cons)
qed

text \<open>Reloads are not ordered: a reload whose answer arrives late replaces the newer list of a reload that was
  started after it.\<close>

lemma late_reload_wins:
  "chats (se_store (fold (step zone u) [ReloadSettles (Some (fresh, a)), ReloadSettles (Some (stale, b))] s)) =
   map_of (rev (map (\<lambda>c. (c_id c, c)) stale)) \<and>
   unread (se_store (fold (step zone u) [ReloadSettles (Some (fresh, a)), ReloadSettles (Some (stale, b))] s)) = b"
  by (simp add: reload_settles_def replaceChats_def setUnread_def)

section \<open>Pinned chats and links\<close>

lemma pins_within_limit:
  assumes "length (se_pinned s) \<le> pinnedChatLimit" and "distinct (se_pinned s)"
    and "se_log (togglePinnedChat c s) = se_log s @ [PinsSent ids]"
  shows "length ids \<le> pinnedChatLimit \<and> distinct ids \<and> (c \<in> set ids \<longleftrightarrow> c \<notin> set (se_pinned s))"
proof (cases "c \<in> set (se_pinned s)")
  case True
  then have "ids = filter (\<lambda>i. i \<noteq> c) (se_pinned s)"
    using assms(3) by (simp add: togglePinnedChat_def noted_def)
  moreover have "length (filter (\<lambda>i. i \<noteq> c) (se_pinned s)) \<le> pinnedChatLimit"
    using assms(1) by (rule order_trans [OF length_filter_le])
  ultimately show ?thesis using assms(2) True by auto
next
  case False
  then have "ids = se_pinned s @ [c] \<and> length (se_pinned s) < pinnedChatLimit"
    using assms(3) by (cases "pinnedChatLimit \<le> length (se_pinned s)") (simp_all add: togglePinnedChat_def noted_def)
  then show ?thesis using assms(2) False by simp
qed

lemma key_has_no_slash: "list_all is_key_char key \<Longrightarrow> ch CHR ''/'' \<notin> set key"
proof
  assume "list_all is_key_char key" "ch CHR ''/'' \<in> set key"
  then have "is_key_char (ch CHR ''/'')" by (simp add: list_all_iff)
  moreover have "\<not> is_key_char (ch CHR ''/'')" by code_simp
  ultimately show False by simp
qed

text \<open>C28: A copied message link leads back to its message: the path of the link asks for exactly the message
  whose id was copied, and when the answer has that message, the session navigates to it in its chat.\<close>

theorem copied_link_opens_its_message:
  assumes "compactUUID messageID = Some key" and "format_uuid (undash messageID) = messageID"
  shows "open_message_link (js ''/m/'' @ key) s = noted [ContextRequested messageID] s \<and>
    (m_id m = messageID \<and> (\<forall>k \<in> set before. m_id k \<noteq> messageID) \<longrightarrow>
     context_settles messageID (Some (before @ m # after)) s =
     noted [Navigated (message_path (field_text (m_chat_id m)) messageID)] s)"
proof -
  have key: "expandUUID key = Some messageID" "length key = 22" "list_all is_key_char key"
    using expand_compact_roundtrip [OF assms(1)] assms(2) by simp_all
  have drop: "drop 3 (js ''/m/'' @ key) = key" by simp
  have starts: "starts_with (js ''/m/'') (js ''/m/'' @ key)" by (simp add: starts_with_def)
  have "key \<noteq> []" using key(2) by auto
  then have "message_key (js ''/m/'' @ key) = Some key"
    using key_has_no_slash [OF key(3)] starts by (simp only: message_key_def drop) simp
  then have "open_message_link (js ''/m/'' @ key) s = noted [ContextRequested messageID] s"
    by (simp only: open_message_link_def option.case key(1))
  moreover have "find (\<lambda>k. m_id k = messageID) (before @ m # after) = Some m"
    if "m_id m = messageID" "\<forall>k \<in> set before. m_id k \<noteq> messageID"
    using that by (induction before) auto
  ultimately show ?thesis by (simp add: context_settles_def)
qed

theorem copied_link_opens_its_message_witness:
  "open_message_link (js ''/m/'' @ js ''AAAAAAAAAAAAAAAAAAAAAA'') new_session =
   noted [ContextRequested (js ''00000000-0000-0000-0000-000000000000'')] new_session"
proof -
  have key: "compactUUID (js ''00000000-0000-0000-0000-000000000000'') = Some (js ''AAAAAAAAAAAAAAAAAAAAAA'')"
    by code_simp
  have same: "format_uuid (undash (js ''00000000-0000-0000-0000-000000000000'')) =
      js ''00000000-0000-0000-0000-000000000000''" by code_simp
  show ?thesis by (rule copied_link_opens_its_message [OF key same, THEN conjunct1])
qed

end
