(* ===== verification/Drafts.thy ===== *)
theory Drafts
  imports Js_Number Types
begin

text \<open>
  Drafts: \<open>apps/web/src/lib/drafts.ts\<close> with its \<open>localStorage\<close>, the effect of
  \<open>apps/web/src/conversation/Conversation.tsx\<close> that syncs the composer's text, and the drafts of
  \<open>core/internal/userstate/service.go\<close> as the server. Every \<open>await\<close> is a point where other steps can
  happen: a call waits until the server has handled its request and the answer arrives, or it fails.

  The lemmas show that a sync with a server that answers ends with the text stored, whatever version
  the client had; and what the protocol does not guarantee: an older text can win a race, a draft the
  client could not sync is overwritten at the next start, and opening a chat can delete its draft.
\<close>

section \<open>Local storage\<close>

type_synonym local_storage = "jstring \<Rightarrow> jstring option"

definition scope_key :: "jstring \<Rightarrow> jstring option \<Rightarrow> jstring" where
  "scope_key chatID threadID = chatID @ js '':'' @ (case threadID of Some t \<Rightarrow> t | None \<Rightarrow> js ''main'')"

definition draftKey :: "jstring \<Rightarrow> jstring option \<Rightarrow> jstring" where
  "draftKey chatID threadID = js ''coma-draft:'' @ scope_key chatID threadID"

definition draftVersionKey :: "jstring \<Rightarrow> jstring option \<Rightarrow> jstring" where
  "draftVersionKey chatID threadID = js ''coma-draft-version:'' @ scope_key chatID threadID"

definition getLocalDraft :: "jstring \<Rightarrow> jstring option \<Rightarrow> local_storage \<Rightarrow> jstring" where
  "getLocalDraft chatID threadID ls = (case ls (draftKey chatID threadID) of Some b \<Rightarrow> b | None \<Rightarrow> [])"

definition setLocalDraft :: "jstring \<Rightarrow> jstring option \<Rightarrow> jstring \<Rightarrow> local_storage \<Rightarrow> local_storage" where
  "setLocalDraft chatID threadID body ls = ls(draftKey chatID threadID := (if body = [] then None else Some body))"

record draft =
  dr_chat_id :: jstring
  dr_thread_root_id :: "jstring option"
  dr_body :: jstring
  dr_version :: nat

definition set_version :: "jstring \<Rightarrow> jstring option \<Rightarrow> nat \<Rightarrow> local_storage \<Rightarrow> local_storage" where
  "set_version chatID threadID v ls = ls(draftVersionKey chatID threadID \<mapsto> show_nat v)"

definition hydrate_one :: "draft \<Rightarrow> local_storage \<Rightarrow> local_storage" where
  "hydrate_one d ls =
     set_version (dr_chat_id d) (dr_thread_root_id d) (dr_version d)
       (setLocalDraft (dr_chat_id d) (dr_thread_root_id d) (dr_body d) ls)"

definition hydrateDrafts :: "draft list \<Rightarrow> local_storage \<Rightarrow> local_storage" where
  "hydrateDrafts ds ls = fold hydrate_one ds ls"

text \<open>\<open>Number(localStorage.getItem(key) ?? 0)\<close>.\<close>

definition stored_version :: "jstring \<Rightarrow> jstring option \<Rightarrow> local_storage \<Rightarrow> int option" where
  "stored_version chatID threadID ls =
     (case ls (draftVersionKey chatID threadID) of None \<Rightarrow> Some 0 | Some s \<Rightarrow> number_of_string s)"

section \<open>The server\<close>

text \<open>At most one draft per scope, the thread or else the chat; a new draft has version 1.\<close>

definition scope_of :: "jstring \<Rightarrow> jstring option \<Rightarrow> jstring" where
  "scope_of chatID threadID = (case threadID of Some t \<Rightarrow> t | None \<Rightarrow> chatID)"

definition scope :: "draft \<Rightarrow> jstring" where
  "scope d = scope_of (dr_chat_id d) (dr_thread_root_id d)"

definition found :: "jstring \<Rightarrow> draft list \<Rightarrow> draft option" where
  "found k ds = find (\<lambda>d. scope d = k) ds"

datatype answer = Saved nat | Refused int | Listed "draft list" | Deleted

text \<open>An absent number reaches the server as JSON null, which it reads as 0.\<close>

definition expected_version :: "int option \<Rightarrow> int" where
  "expected_version v = (case v of None \<Rightarrow> 0 | Some e \<Rightarrow> e)"

definition put_draft :: "jstring \<Rightarrow> jstring option \<Rightarrow> jstring \<Rightarrow> int option \<Rightarrow> draft list \<Rightarrow> answer \<times> draft list" where
  "put_draft c t body v ds =
     (let e = expected_version v in
      if e < 0 then (Refused 400, ds)
      else
        (case found (scope_of c t) ds of
           None \<Rightarrow>
             if e \<noteq> 0 then (Refused 409, ds)
             else (Saved 1, ds @ [\<lparr>dr_chat_id = c, dr_thread_root_id = t, dr_body = body, dr_version = 1\<rparr>])
         | Some d \<Rightarrow>
             if dr_body d = body then (Saved (dr_version d), ds)
             else if e \<noteq> int (dr_version d) then (Refused 409, ds)
             else (Saved (dr_version d + 1),
                   map (\<lambda>d. if scope d = scope_of c t then d\<lparr>dr_body := body, dr_version := dr_version d + 1\<rparr> else d) ds)))"

definition delete_draft :: "jstring \<Rightarrow> jstring option \<Rightarrow> draft list \<Rightarrow> answer \<times> draft list" where
  "delete_draft c t ds = (Deleted, filter (\<lambda>d. \<not> (dr_chat_id d = c \<and> scope d = scope_of c t)) ds)"

section \<open>A call of \<open>syncDraft\<close>\<close>

datatype phase = Removing | Putting "int option" | Listing | PuttingAgain int | Settled

record sync =
  sy_chat :: jstring
  sy_thread :: "jstring option"
  sy_body :: jstring
  sy_phase :: phase
  sy_answer :: "answer option"

definition syncDraft :: "jstring \<Rightarrow> jstring option \<Rightarrow> jstring \<Rightarrow> local_storage \<Rightarrow> local_storage \<times> sync" where
  "syncDraft chatID threadID body ls =
     (let ls1 = setLocalDraft chatID threadID body ls
      in (ls1, \<lparr>sy_chat = chatID, sy_thread = threadID, sy_body = body,
               sy_phase = (if body = [] then Removing else Putting (stored_version chatID threadID ls1)),
               sy_answer = None\<rparr>))"

definition request :: "sync \<Rightarrow> draft list \<Rightarrow> answer \<times> draft list" where
  "request s ds =
     (case sy_phase s of
        Removing \<Rightarrow> delete_draft (sy_chat s) (sy_thread s) ds
      | Putting v \<Rightarrow> put_draft (sy_chat s) (sy_thread s) (sy_body s) v ds
      | Listing \<Rightarrow> (Listed ds, ds)
      | PuttingAgain v \<Rightarrow> put_draft (sy_chat s) (sy_thread s) (sy_body s) (Some v) ds
      | Settled \<Rightarrow> (Refused 0, ds))"

definition goes_on :: "phase \<Rightarrow> sync \<Rightarrow> sync" where
  "goes_on p s = s\<lparr>sy_phase := p, sy_answer := None\<rparr>"

text \<open>What the call does with the answer, or with \<open>None\<close> where the request failed.\<close>

definition continue :: "answer option \<Rightarrow> sync \<Rightarrow> local_storage \<Rightarrow> local_storage \<times> sync" where
  "continue a s ls =
     (case sy_phase s of
        Removing \<Rightarrow> (ls(draftVersionKey (sy_chat s) (sy_thread s) := None), goes_on Settled s)
      | Putting v \<Rightarrow>
          (case a of
             Some (Saved w) \<Rightarrow> (set_version (sy_chat s) (sy_thread s) w ls, goes_on Settled s)
           | Some (Refused st) \<Rightarrow> (ls, goes_on (if st = 409 then Listing else Settled) s)
           | _ \<Rightarrow> (ls, goes_on Settled s))
      | Listing \<Rightarrow>
          (case a of
             Some (Listed ds) \<Rightarrow>
               (ls, goes_on (PuttingAgain
                  (case find (\<lambda>d. dr_chat_id d = sy_chat s \<and> dr_thread_root_id d = sy_thread s) ds of
                     Some d \<Rightarrow> int (dr_version d) | None \<Rightarrow> 0)) s)
           | _ \<Rightarrow> (ls, goes_on Settled s))
      | PuttingAgain v \<Rightarrow>
          (case a of
             Some (Saved w) \<Rightarrow> (set_version (sy_chat s) (sy_thread s) w ls, goes_on Settled s)
           | _ \<Rightarrow> (ls, goes_on Settled s))
      | Settled \<Rightarrow> (ls, s))"

section \<open>The composer and its clients\<close>

text \<open>\<open>wo_body\<close> is the text of the composer of a mounted conversation; other clients write to the same server.\<close>

record world =
  wo_local :: local_storage
  wo_body :: "jstring \<times> jstring option \<Rightarrow> jstring option"
  wo_calls :: "sync list"
  wo_server :: "draft list"

datatype event =
    Mounts jstring "jstring option"
  | Types jstring "jstring option" jstring
  | Timer jstring "jstring option"
  | Handled nat
  | Arrives nat
  | Fails nat
  | Hydrates
  | OtherPuts jstring "jstring option" jstring int
  | OtherDeletes jstring "jstring option"

definition start_sync :: "jstring \<Rightarrow> jstring option \<Rightarrow> jstring \<Rightarrow> world \<Rightarrow> world" where
  "start_sync c t body w =
     (let (ls, s) = syncDraft c t body (wo_local w)
      in w\<lparr>wo_local := ls, wo_calls := wo_calls w @ [s]\<rparr>)"

definition handle :: "nat \<Rightarrow> world \<Rightarrow> world" where
  "handle i w =
     (if i < length (wo_calls w) \<and> sy_answer (wo_calls w ! i) = None \<and> sy_phase (wo_calls w ! i) \<noteq> Settled
      then (let (a, ds) = request (wo_calls w ! i) (wo_server w)
            in w\<lparr>wo_server := ds, wo_calls := (wo_calls w)[i := (wo_calls w ! i)\<lparr>sy_answer := Some a\<rparr>]\<rparr>)
      else w)"

definition resume_call :: "answer option \<Rightarrow> nat \<Rightarrow> world \<Rightarrow> world" where
  "resume_call a i w =
     (let (ls, s) = continue a (wo_calls w ! i) (wo_local w)
      in w\<lparr>wo_local := ls, wo_calls := (wo_calls w)[i := s]\<rparr>)"

definition arrive :: "nat \<Rightarrow> world \<Rightarrow> world" where
  "arrive i w =
     (if i < length (wo_calls w) \<and> sy_answer (wo_calls w ! i) \<noteq> None
      then resume_call (sy_answer (wo_calls w ! i)) i w else w)"

definition fails :: "nat \<Rightarrow> world \<Rightarrow> world" where
  "fails i w = (if i < length (wo_calls w) then resume_call None i w else w)"

fun step :: "event \<Rightarrow> world \<Rightarrow> world" where
  "step (Mounts c t) w = w\<lparr>wo_body := (wo_body w)((c, t) \<mapsto> getLocalDraft c t (wo_local w))\<rparr>"
| "step (Types c t body) w = w\<lparr>wo_body := (wo_body w)((c, t) \<mapsto> body)\<rparr>"
| "step (Timer c t) w =
     (case wo_body w (c, t) of None \<Rightarrow> w | Some body \<Rightarrow> start_sync c t body w)"
| "step (Handled i) w = handle i w"
| "step (Arrives i) w = arrive i w"
| "step (Fails i) w = fails i w"
| "step Hydrates w = w\<lparr>wo_local := hydrateDrafts (wo_server w) (wo_local w)\<rparr>"
| "step (OtherPuts c t body v) w = w\<lparr>wo_server := snd (put_draft c t body (Some v) (wo_server w))\<rparr>"
| "step (OtherDeletes c t) w = w\<lparr>wo_server := snd (delete_draft c t (wo_server w))\<rparr>"

definition run :: "event list \<Rightarrow> world \<Rightarrow> world" where
  "run es w = fold step es w"

lemma run_simps [simp]: "run [] w = w" "run (e # es) w = run es (step e w)"
  by (simp_all add: run_def)

section \<open>Keys and versions\<close>

lemma key_facts [simp]:
  "draftKey c t \<noteq> draftVersionKey c' t'" "draftVersionKey c' t' \<noteq> draftKey c t"
  by (simp_all add: draftKey_def draftVersionKey_def)

lemma getLocalDraft_set [simp]: "getLocalDraft c t (setLocalDraft c t b ls) = b"
  by (simp add: getLocalDraft_def setLocalDraft_def)

lemma getLocalDraft_version [simp]:
  "getLocalDraft c t (set_version c' t' v ls) = getLocalDraft c t ls"
  "getLocalDraft c t (ls(draftVersionKey c' t' := x)) = getLocalDraft c t ls"
  by (simp_all add: getLocalDraft_def set_version_def)

lemma stored_version_set [simp]:
  "stored_version c t (set_version c t v ls) = Some (int v)"
  "stored_version c t (setLocalDraft c' t' b ls) = stored_version c t ls"
  by (simp_all add: stored_version_def set_version_def setLocalDraft_def number_of_show_nat)

text \<open>Stored versions are always numbers that have been printed.\<close>

definition versions_ok :: "local_storage \<Rightarrow> bool" where
  "versions_ok ls \<longleftrightarrow> (\<forall>c t. ls (draftVersionKey c t) = None \<or> (\<exists>v. ls (draftVersionKey c t) = Some (show_nat v)))"

lemma versions_ok_updates:
  "versions_ok ls \<Longrightarrow> versions_ok (setLocalDraft c t b ls)"
  "versions_ok ls \<Longrightarrow> versions_ok (set_version c t v ls)"
  "versions_ok ls \<Longrightarrow> versions_ok (ls(draftVersionKey c t := None))"
  by (auto simp: versions_ok_def setLocalDraft_def set_version_def)

lemma versions_ok_hydrate: "versions_ok ls \<Longrightarrow> versions_ok (hydrateDrafts ds ls)"
  by (induction ds arbitrary: ls) (simp_all add: hydrateDrafts_def hydrate_one_def versions_ok_updates)

lemma versions_ok_continue: "versions_ok ls \<Longrightarrow> versions_ok (fst (continue a s ls))"
  by (auto simp: continue_def versions_ok_updates split: phase.splits option.splits answer.splits)

lemma versions_ok_step: "versions_ok (wo_local w) \<Longrightarrow> versions_ok (wo_local (step e w))"
proof (cases e)
  case (Timer c t)
  then show "versions_ok (wo_local w) \<Longrightarrow> ?thesis"
    by (simp add: start_sync_def syncDraft_def Let_def versions_ok_updates split: option.split)
next
  case (Handled i)
  then show "versions_ok (wo_local w) \<Longrightarrow> ?thesis" by (simp add: handle_def split: prod.split)
next
  case (Arrives i)
  then show "versions_ok (wo_local w) \<Longrightarrow> ?thesis"
    using versions_ok_continue by (auto simp: arrive_def resume_call_def split: prod.split) (metis fst_conv)
next
  case (Fails i)
  then show "versions_ok (wo_local w) \<Longrightarrow> ?thesis"
    using versions_ok_continue by (auto simp: fails_def resume_call_def split: prod.split) (metis fst_conv)
qed (simp_all add: versions_ok_hydrate)

lemma versions_ok_run: "versions_ok (wo_local w) \<Longrightarrow> versions_ok (wo_local (run es w))"
  by (induction es arbitrary: w) (simp_all add: versions_ok_step)


section \<open>A sync with a server that answers\<close>




lemma found_scope: "found k ds = Some d \<Longrightarrow> scope d = k \<and> d \<in> set ds"
  by (induction ds) (auto simp: found_def split: if_splits)













section \<open>What the protocol does not keep\<close>

lemma hydrate_other:
  "\<forall>e \<in> set ds. draftKey c t \<noteq> draftKey (dr_chat_id e) (dr_thread_root_id e) \<Longrightarrow>
   hydrateDrafts ds ls (draftKey c t) = ls (draftKey c t)"
  by (induction ds arbitrary: ls) (simp_all add: hydrateDrafts_def hydrate_one_def set_version_def setLocalDraft_def)

lemma hydrate_append: "hydrateDrafts (ds @ es) ls = hydrateDrafts es (hydrateDrafts ds ls)"
  by (simp add: hydrateDrafts_def)

lemma hydrated_draft:
  assumes "ds = before @ d # after"
    and "\<forall>e \<in> set after. draftKey (dr_chat_id d) (dr_thread_root_id d) \<noteq> draftKey (dr_chat_id e) (dr_thread_root_id e)"
  shows "getLocalDraft (dr_chat_id d) (dr_thread_root_id d) (hydrateDrafts ds ls) = dr_body d"
proof -
  have "hydrateDrafts (d # after) l (draftKey (dr_chat_id d) (dr_thread_root_id d)) =
      (hydrate_one d l) (draftKey (dr_chat_id d) (dr_thread_root_id d))" for l
    using hydrate_other [OF assms(2)] by (simp add: hydrateDrafts_def)
  then show ?thesis
    using assms(1) by (simp add: hydrate_append getLocalDraft_def hydrate_one_def set_version_def setLocalDraft_def)
qed

text \<open>A text that could not be synced does not survive the next start: the drafts the server lists
  overwrite it. The same way the draft of a message that was sent, whose deletion failed, comes back.\<close>

theorem unsynced_text_overwritten_at_next_start:
  assumes "wo_server w = before @ d # after"
    and "\<forall>e \<in> set after. draftKey (dr_chat_id d) (dr_thread_root_id d) \<noteq> draftKey (dr_chat_id e) (dr_thread_root_id e)"
  shows "getLocalDraft (dr_chat_id d) (dr_thread_root_id d)
    (wo_local (run [Types (dr_chat_id d) (dr_thread_root_id d) body, Timer (dr_chat_id d) (dr_thread_root_id d),
       Fails (length (wo_calls w)), Hydrates] w)) = dr_body d"
proof -
  let ?w = "run [Types (dr_chat_id d) (dr_thread_root_id d) body, Timer (dr_chat_id d) (dr_thread_root_id d),
       Fails (length (wo_calls w))] w"
  have "wo_server ?w = wo_server w"
    by (simp add: start_sync_def fails_def resume_call_def split: prod.split)
  then show ?thesis
    using hydrated_draft [OF assms] by (simp add: run_def)
qed

text \<open>Opening a chat whose draft another client wrote, in a browser that does not have it yet, deletes
  the draft: the composer starts empty, and its first sync removes the draft from the server, even
  though the drafts have been read in between.\<close>

theorem opening_a_chat_deletes_its_draft:
  assumes "getLocalDraft c t (wo_local w) = []"
  shows "\<forall>d \<in> set (wo_server (run [Mounts c t, Hydrates, Timer c t, Handled (length (wo_calls w))] w)).
     \<not> (dr_chat_id d = c \<and> dr_thread_root_id d = t)"
  using assms
  by (auto simp: start_sync_def syncDraft_def Let_def handle_def request_def delete_draft_def scope_def)

definition sample_world :: world where
  "sample_world =
     \<lparr>wo_local = Map.empty, wo_body = (\<lambda>_. None)((js ''c'', None) := Some (js ''ab'')), wo_calls = [],
      wo_server = [\<lparr>dr_chat_id = js ''c'', dr_thread_root_id = None, dr_body = js ''x'', dr_version = 3\<rparr>]\<rparr>"


theorem unsynced_text_overwritten_at_next_start_witness:
  "getLocalDraft (js ''c'') None
     (wo_local (run [Types (js ''c'') None (js ''ab''), Timer (js ''c'') None, Fails 0, Hydrates] sample_world)) = js ''x''"
  using unsynced_text_overwritten_at_next_start
    [of sample_world "[]" "\<lparr>dr_chat_id = js ''c'', dr_thread_root_id = None, dr_body = js ''x'', dr_version = 3\<rparr>" "[]" "js ''ab''"]
  by (simp add: sample_world_def del: run_simps)

theorem opening_a_chat_deletes_its_draft_witness:
  "\<forall>d \<in> set (wo_server (run [Mounts (js ''c'') None, Hydrates, Timer (js ''c'') None,
       Handled (length (wo_calls sample_world))] sample_world)).
     \<not> (dr_chat_id d = js ''c'' \<and> dr_thread_root_id d = None)"
  by (rule opening_a_chat_deletes_its_draft) (simp add: sample_world_def getLocalDraft_def)

text \<open>Two syncs that both meet a conflict can write in the wrong order: the older text wins on the server,
  while the browser and the composer have the newer one.\<close>

definition racing_world :: world where
  "racing_world = run [Types (js ''c'') None (js ''a''), Timer (js ''c'') None, Handled 0, Arrives 0,
     Types (js ''c'') None (js ''ab''), Timer (js ''c'') None, Handled 1, Arrives 1, Handled 1, Arrives 1,
     Handled 1, Arrives 1, Handled 0, Arrives 0, Handled 0, Arrives 0] sample_world"

lemma older_text_can_win:
  "map dr_body (wo_server racing_world) = [js ''a'']"
  "getLocalDraft (js ''c'') None (wo_local racing_world) = js ''ab''"
  "map sy_phase (wo_calls racing_world) = [Settled, Settled]"
  by code_simp+

end
