(* ===== verification/Attachments.thy ===== *)
theory Attachments
  imports Prelude
begin

text \<open>
  The attachments of the composer: \<open>apps/web/src/composer/useAttachments.ts\<close>, with the guards of
  \<open>AttachmentItem.tsx\<close> and \<open>Composer.tsx\<close> and the files a message is sent with in
  \<open>apps/web/src/conversation/Conversation.tsx\<close>. The upload itself is \<open>Uploads\<close>; here it is in flight until
  it settles. \<open>crypto.randomUUID()\<close> and \<open>new AbortController()\<close> give numbers that count up. \<open>qu_latest\<close> is
  the ref that holds the list as it was last rendered.

  The lemmas show that what is on display and what is in flight correspond, and that nothing that was
  removed comes back or goes on uploading.
\<close>

section \<open>The queue\<close>

datatype status = Uploading | Ready | Failed

record ('f, 'm) attachment =
  at_id :: nat
  at_source :: 'f
  at_status :: status
  at_progress :: nat
  at_file :: "'m option"
  at_controller :: nat

text \<open>An upload in flight: the attachment it reports to and its abort controller.\<close>

record ('f, 'm) queue =
  qu_items :: "('f, 'm) attachment list"
  qu_latest :: "('f, 'm) attachment list"
  qu_uploads :: "(nat \<times> nat) list"
  qu_aborted :: "nat list"
  qu_ids :: nat
  qu_controllers :: nat

definition attachmentLimit :: nat where
  "attachmentLimit = 10"

definition new_queue :: "('f, 'm) queue" where
  "new_queue = \<lparr>qu_items = [], qu_latest = [], qu_uploads = [], qu_aborted = [], qu_ids = 0, qu_controllers = 0\<rparr>"

definition start :: "'f \<Rightarrow> nat \<Rightarrow> ('f, 'm) queue \<Rightarrow> ('f, 'm) queue" where
  "start source i q =
     (let initial = \<lparr>at_id = i, at_source = source, at_status = Uploading, at_progress = 0, at_file = None,
                     at_controller = qu_controllers q\<rparr>
      in q\<lparr>qu_items := filter (\<lambda>a. at_id a \<noteq> i) (qu_items q) @ [initial],
           qu_uploads := qu_uploads q @ [(i, qu_controllers q)], qu_controllers := qu_controllers q + 1\<rparr>)"

definition start_new :: "'f \<Rightarrow> ('f, 'm) queue \<Rightarrow> ('f, 'm) queue" where
  "start_new source q = start source (qu_ids q) (q\<lparr>qu_ids := qu_ids q + 1\<rparr>)"

definition add_files :: "'f list \<Rightarrow> ('f, 'm) queue \<Rightarrow> ('f, 'm) queue" where
  "add_files files q = fold start_new (take (attachmentLimit - length (qu_latest q)) files) q"

definition cancel :: "nat \<Rightarrow> ('f, 'm) queue \<Rightarrow> ('f, 'm) queue" where
  "cancel i q =
     (let aborted = (case find (\<lambda>a. at_id a = i) (qu_latest q) of
                       Some a \<Rightarrow> qu_aborted q @ [at_controller a] | None \<Rightarrow> qu_aborted q)
      in q\<lparr>qu_aborted := aborted, qu_items := filter (\<lambda>a. at_id a \<noteq> i) (qu_items q)\<rparr>)"

text \<open>The button that retries is there for failed attachments only.\<close>

definition retry :: "nat \<Rightarrow> ('f, 'm) queue \<Rightarrow> ('f, 'm) queue" where
  "retry i q =
     (case find (\<lambda>a. at_id a = i) (qu_latest q) of
        Some a \<Rightarrow> if at_status a = Failed then start (at_source a) i q else q
      | None \<Rightarrow> q)"

definition abort_all :: "('f, 'm) queue \<Rightarrow> ('f, 'm) queue" where
  "abort_all q = q\<lparr>qu_aborted := qu_aborted q @ map at_controller (qu_latest q)\<rparr>"

definition reset :: "('f, 'm) queue \<Rightarrow> ('f, 'm) queue" where
  "reset q = (abort_all q)\<lparr>qu_items := []\<rparr>"

definition change :: "nat \<Rightarrow> (('f, 'm) attachment \<Rightarrow> ('f, 'm) attachment) \<Rightarrow> ('f, 'm) queue \<Rightarrow> ('f, 'm) queue" where
  "change i f q = q\<lparr>qu_items := map (\<lambda>a. if at_id a = i then f a else a) (qu_items q)\<rparr>"

definition progress :: "nat \<Rightarrow> nat \<Rightarrow> nat \<Rightarrow> ('f, 'm) queue \<Rightarrow> ('f, 'm) queue" where
  "progress i k p q = (if (i, k) \<in> set (qu_uploads q) then change i (\<lambda>a. a\<lparr>at_progress := p\<rparr>) q else q)"

text \<open>An upload settles: with a file, also where it was aborted too late, or with an error.\<close>

definition uploaded :: "nat \<Rightarrow> nat \<Rightarrow> 'm \<Rightarrow> ('f, 'm) queue \<Rightarrow> ('f, 'm) queue" where
  "uploaded i k m q =
     (if (i, k) \<in> set (qu_uploads q)
      then change i (\<lambda>a. a\<lparr>at_file := Some m, at_status := Ready, at_progress := 1\<rparr>)
             (q\<lparr>qu_uploads := remove1 (i, k) (qu_uploads q)\<rparr>)
      else q)"

definition upload_failed :: "nat \<Rightarrow> nat \<Rightarrow> ('f, 'm) queue \<Rightarrow> ('f, 'm) queue" where
  "upload_failed i k q =
     (if (i, k) \<in> set (qu_uploads q)
      then (let q1 = q\<lparr>qu_uploads := remove1 (i, k) (qu_uploads q)\<rparr>
            in if k \<in> set (qu_aborted q) then q1 else change i (\<lambda>a. a\<lparr>at_status := Failed\<rparr>) q1)
      else q)"

datatype ('f, 'm) event =
    Adds "'f list"
  | Cancels nat
  | Retries nat
  | Resets
  | Progresses nat nat nat
  | Uploaded nat nat 'm
  | UploadFailed nat nat

fun handle :: "('f, 'm) event \<Rightarrow> ('f, 'm) queue \<Rightarrow> ('f, 'm) queue" where
  "handle (Adds files) q = add_files files q"
| "handle (Cancels i) q = cancel i q"
| "handle (Retries i) q = retry i q"
| "handle Resets q = reset q"
| "handle (Progresses i k p) q = progress i k p q"
| "handle (Uploaded i k m) q = uploaded i k m q"
| "handle (UploadFailed i k) q = upload_failed i k q"

definition rendered :: "('f, 'm) queue \<Rightarrow> ('f, 'm) queue" where
  "rendered q = q\<lparr>qu_latest := qu_items q\<rparr>"

text \<open>React renders between the events. The unmount of the composer is \<open>abort_all\<close>.\<close>

definition step :: "('f, 'm) event \<Rightarrow> ('f, 'm) queue \<Rightarrow> ('f, 'm) queue" where
  "step e q = rendered (handle e q)"

definition run :: "('f, 'm) event list \<Rightarrow> ('f, 'm) queue" where
  "run es = fold step es new_queue"

definition ready :: "('f, 'm) queue \<Rightarrow> ('f, 'm) attachment list" where
  "ready q = filter (\<lambda>a. at_status a = Ready \<and> at_file a \<noteq> None) (qu_items q)"

definition uploading :: "('f, 'm) queue \<Rightarrow> bool" where
  "uploading q = list_ex (\<lambda>a. at_status a = Uploading) (qu_items q)"

definition canSend :: "jstring \<Rightarrow> ('f, 'm) queue \<Rightarrow> bool" where
  "canSend body q \<longleftrightarrow> (js_trim body \<noteq> [] \<or> list_ex (\<lambda>a. at_status a = Ready) (qu_items q)) \<and> \<not> uploading q"

text \<open>\<open>send\<close>: the files of the message and the queue after it, where the message goes out.\<close>

definition send :: "bool \<Rightarrow> jstring \<Rightarrow> ('f, 'm) queue \<Rightarrow> ((jstring \<times> 'm list) \<times> ('f, 'm) queue) option" where
  "send readonly body q =
     (if js_trim body = [] \<and> ready q = [] \<or> uploading q \<or> readonly then None
      else Some ((js_trim body, map (\<lambda>a. the (at_file a)) (ready q)), reset q))"

section \<open>What is shown and what is in flight\<close>

text \<open>The bounds on numbers and the correspondence of the uploading attachments with the live uploads.\<close>

definition tidy :: "('f, 'm) queue \<Rightarrow> bool" where
  "tidy q \<longleftrightarrow>
     distinct (map at_id (qu_items q)) \<and> distinct (map at_controller (qu_items q)) \<and>
     distinct (map snd (qu_uploads q)) \<and>
     (\<forall>a \<in> set (qu_items q). at_id a < qu_ids q \<and> at_controller a < qu_controllers q) \<and>
     (\<forall>(i, k) \<in> set (qu_uploads q). i < qu_ids q \<and> k < qu_controllers q) \<and>
     (\<forall>k \<in> set (qu_aborted q). k < qu_controllers q)"

definition live :: "('f, 'm) queue \<Rightarrow> (nat \<times> nat) set" where
  "live q = {(i, k) \<in> set (qu_uploads q). k \<notin> set (qu_aborted q)}"

definition shown_uploads :: "('f, 'm) queue \<Rightarrow> (nat \<times> nat) set" where
  "shown_uploads q = (\<lambda>a. (at_id a, at_controller a)) ` {a \<in> set (qu_items q). at_status a = Uploading}"

definition matched :: "('f, 'm) queue \<Rightarrow> bool" where
  "matched q \<longleftrightarrow>
     live q = shown_uploads q \<and>
     (\<forall>(i, k) \<in> set (qu_uploads q). k \<in> set (qu_aborted q) \<longrightarrow> i \<notin> at_id ` set (qu_items q)) \<and>
     (\<forall>a \<in> set (qu_items q). at_controller a \<notin> set (qu_aborted q) \<and> (at_status a = Ready \<longrightarrow> at_file a \<noteq> None))"

lemma distinct_map_eq: "distinct (map f xs) \<Longrightarrow> a \<in> set xs \<Longrightarrow> b \<in> set xs \<Longrightarrow> f a = f b \<Longrightarrow> a = b"
  by (simp add: distinct_map inj_on_def)

lemma find_id:
  "distinct (map at_id items) \<Longrightarrow> find (\<lambda>a. at_id a = i) items = Some a \<longleftrightarrow> a \<in> set items \<and> at_id a = i"
proof (induction items)
  case (Cons b items)
  then show ?case by (auto simp: image_iff)
qed simp

lemma tidyD:
  assumes "tidy q"
  shows "distinct (map at_id (qu_items q))" "distinct (map at_controller (qu_items q))"
    "distinct (map snd (qu_uploads q))"
    "a \<in> set (qu_items q) \<Longrightarrow> at_id a < qu_ids q" "a \<in> set (qu_items q) \<Longrightarrow> at_controller a < qu_controllers q"
    "(i, k) \<in> set (qu_uploads q) \<Longrightarrow> i < qu_ids q" "(i, k) \<in> set (qu_uploads q) \<Longrightarrow> k < qu_controllers q"
    "k \<in> set (qu_aborted q) \<Longrightarrow> k < qu_controllers q"
  using assms by (auto simp: tidy_def)

lemma tidy_start:
  assumes "tidy q" and "i < qu_ids q"
  shows "tidy (start source i q)"
proof -
  have "qu_controllers q \<notin> at_controller ` set (qu_items q)" "qu_controllers q \<notin> snd ` set (qu_uploads q)"
    using tidyD(5,7) [OF assms(1)] by fastforce+
  then show ?thesis
    using assms tidyD [OF assms(1)]
    by (auto simp: tidy_def start_def Let_def distinct_map_filter less_SucI)
qed

lemma matched_start:
  assumes "tidy q" and "matched q" and "\<And>k. (i, k) \<notin> set (qu_uploads q)"
  shows "matched (start source i q)"
proof -
  let ?k = "qu_controllers q"
  have fresh: "?k \<notin> set (qu_aborted q)" using tidyD(8) [OF assms(1)] by blast
  have "live (start source i q) = insert (i, ?k) (live q)"
    using fresh by (auto simp: live_def start_def)
  moreover have "shown_uploads (start source i q) = insert (i, ?k) (shown_uploads q)"
  proof -
    have "a \<in> set (qu_items q) \<Longrightarrow> at_status a = Uploading \<Longrightarrow> at_id a \<noteq> i" for a
    proof
      assume a: "a \<in> set (qu_items q)" "at_status a = Uploading" "at_id a = i"
      then have "(i, at_controller a) \<in> shown_uploads q" by (auto simp: shown_uploads_def)
      then show False using assms(2,3) by (auto simp: matched_def live_def)
    qed
    then have "{a \<in> set (qu_items q). at_status a = Uploading \<and> at_id a \<noteq> i} =
        {a \<in> set (qu_items q). at_status a = Uploading}" by blast
    moreover have "shown_uploads (start source i q) =
        insert (i, ?k) ((\<lambda>a. (at_id a, at_controller a)) ` {a \<in> set (qu_items q). at_status a = Uploading \<and> at_id a \<noteq> i})"
      by (simp add: shown_uploads_def start_def Let_def set_eq_iff image_iff) fastforce
    ultimately show ?thesis by (simp add: shown_uploads_def)
  qed
  ultimately show ?thesis
    using assms(2,3) fresh by (auto simp: matched_def start_def)
qed

lemma good_start_new:
  assumes "tidy q" and "matched q"
  shows "tidy (start_new source q) \<and> matched (start_new source q) \<and>
    length (qu_items (start_new source q)) = Suc (length (qu_items q)) \<and> qu_latest (start_new source q) = qu_latest q"
proof -
  let ?q = "q\<lparr>qu_ids := qu_ids q + 1\<rparr>"
  have tidy: "tidy ?q" using assms(1) by (auto simp: tidy_def)
  have matched: "matched ?q" using assms(2) by (auto simp: matched_def live_def shown_uploads_def)
  have "tidy (start source (qu_ids q) ?q)" by (intro tidy_start [OF tidy]) simp
  moreover have "matched (start source (qu_ids q) ?q)"
    by (intro matched_start [OF tidy matched]) (use tidyD(6) [OF assms(1)] in auto)
  moreover have "filter (\<lambda>a. at_id a \<noteq> qu_ids q) (qu_items q) = qu_items q"
    using tidyD(4) [OF assms(1)] by (fastforce simp: filter_id_conv)
  then have "length (qu_items (start source (qu_ids q) ?q)) = Suc (length (qu_items q)) \<and>
      qu_latest (start source (qu_ids q) ?q) = qu_latest q"
    by (simp add: start_def Let_def)
  ultimately show ?thesis by (simp add: start_new_def)
qed

lemma good_start_all:
  "tidy q \<Longrightarrow> matched q \<Longrightarrow>
   tidy (fold start_new fs q) \<and> matched (fold start_new fs q) \<and>
   length (qu_items (fold start_new fs q)) = length fs + length (qu_items q)"
proof (induction fs arbitrary: q)
  case (Cons f fs)
  then show ?case using good_start_new [of q f] Cons.IH [of "start_new f q"] by simp
qed simp

definition good :: "('f, 'm) queue \<Rightarrow> bool" where
  "good q \<longleftrightarrow> tidy q \<and> matched q \<and> length (qu_items q) \<le> attachmentLimit"

lemma good_add: "good q \<Longrightarrow> qu_latest q = qu_items q \<Longrightarrow> good (add_files files q)"
  using good_start_all [of q "take (attachmentLimit - length (qu_items q)) files"]
  by (auto simp: good_def add_files_def)

lemma good_cancel:
  assumes "good q" and "qu_latest q = qu_items q"
  shows "good (cancel i q)"
proof (cases "find (\<lambda>a. at_id a = i) (qu_items q)")
  case None
  then have "filter (\<lambda>a. at_id a \<noteq> i) (qu_items q) = qu_items q"
    by (auto simp: find_None_iff filter_id_conv)
  then have "cancel i q = q" using None assms(2) by (simp add: cancel_def)
  then show ?thesis using assms(1) by simp
next
  case (Some a)
  have tidy: "tidy q" and matched: "matched q" using assms(1) by (auto simp: good_def)
  have a: "a \<in> set (qu_items q)" "at_id a = i" using Some find_id [OF tidyD(1) [OF tidy]] by auto
  have c: "cancel i q = q\<lparr>qu_aborted := qu_aborted q @ [at_controller a], qu_items := filter (\<lambda>a. at_id a \<noteq> i) (qu_items q)\<rparr>"
    using Some assms(2) by (simp add: cancel_def)
  have ids: "b = a" if "b \<in> set (qu_items q)" "at_id b = i \<or> at_controller b = at_controller a" for b
    using that a distinct_map_eq [OF tidyD(1) [OF tidy]] distinct_map_eq [OF tidyD(2) [OF tidy]] by metis
  have own: "j = i" if "(j, at_controller a) \<in> set (qu_uploads q)" for j
  proof -
    have "(j, at_controller a) \<in> shown_uploads q"
      using that matched a by (auto simp: matched_def live_def)
    then obtain b where "b \<in> set (qu_items q)" "at_id b = j" "at_controller b = at_controller a"
      by (auto simp: shown_uploads_def)
    then show ?thesis using ids [of b] a by simp
  qed
  have "tidy (cancel i q)"
    using tidy tidyD(5) [OF tidy a(1)] by (auto simp: c tidy_def distinct_map_filter)
  moreover have "live (cancel i q) = shown_uploads (cancel i q)"
  proof -
    have "live (cancel i q) = {(j, k) \<in> live q. k \<noteq> at_controller a}" by (auto simp: c live_def)
    also have "\<dots> = {(j, k) \<in> shown_uploads q. k \<noteq> at_controller a}" using matched by (simp add: matched_def)
    also have "\<dots> = shown_uploads (cancel i q)"
      using ids a by (auto simp: c shown_uploads_def)
    finally show ?thesis .
  qed
  moreover have "\<forall>(j, k) \<in> set (qu_uploads q). k \<in> set (qu_aborted q) \<or> k = at_controller a \<longrightarrow>
      j \<notin> at_id ` {b \<in> set (qu_items q). at_id b \<noteq> i}"
    using matched own by (fastforce simp: matched_def)
  moreover have "\<forall>b \<in> set (qu_items q). at_id b \<noteq> i \<longrightarrow> at_controller b \<noteq> at_controller a" using ids a by blast
  moreover have "length (filter (\<lambda>a. at_id a \<noteq> i) (qu_items q)) \<le> attachmentLimit"
    using assms(1) by (intro order_trans [OF length_filter_le]) (simp add: good_def)
  ultimately show ?thesis
    using matched by (auto simp: good_def matched_def c)
qed

lemma length_start:
  assumes "distinct (map at_id (qu_items q))" and "a \<in> set (qu_items q)" and "at_id a = i"
  shows "length (qu_items (start source i q)) = length (qu_items q)"
proof -
  have "filter (\<lambda>b. at_id b \<noteq> i) (qu_items q) = remove1 a (qu_items q)"
    using assms
  proof (induction "qu_items q" arbitrary: q)
    case (Cons b bs)
    show ?case
    proof (cases "b = a")
      case True
      then have "filter (\<lambda>b. at_id b \<noteq> i) bs = bs"
        using Cons.prems Cons.hyps(2) [symmetric] by (auto simp: filter_id_conv image_iff)
      then show ?thesis using True Cons.prems(3) Cons.hyps(2) [symmetric] by simp
    next
      case False
      have "filter (\<lambda>b. at_id b \<noteq> i) bs = remove1 a bs"
        using Cons.hyps(1) [of "q\<lparr>qu_items := bs\<rparr>"] Cons.prems Cons.hyps(2) [symmetric] False by auto
      then show ?thesis using Cons.prems False Cons.hyps(2) [symmetric] by (auto simp: image_iff)
    qed
  qed simp
  then show ?thesis
    using assms(2) length_pos_if_in_set [OF assms(2)] by (simp add: start_def Let_def length_remove1)
qed

lemma good_retry:
  assumes "good q" and "qu_latest q = qu_items q"
  shows "good (retry i q)"
proof (cases "find (\<lambda>a. at_id a = i) (qu_items q)")
  case (Some a)
  have tidy: "tidy q" and matched: "matched q" using assms(1) by (auto simp: good_def)
  have a: "a \<in> set (qu_items q)" "at_id a = i" using Some find_id [OF tidyD(1) [OF tidy]] by auto
  show ?thesis
  proof (cases "at_status a = Failed")
    case True
    have "(i, k) \<notin> set (qu_uploads q)" for k
    proof
      assume in_flight: "(i, k) \<in> set (qu_uploads q)"
      then have "k \<notin> set (qu_aborted q)" using matched a by (auto simp: matched_def)
      then have "(i, k) \<in> shown_uploads q" using in_flight matched by (auto simp: matched_def live_def)
      then obtain b where "b \<in> set (qu_items q)" "at_id b = i" "at_status b = Uploading" by (auto simp: shown_uploads_def)
      then show False using distinct_map_eq [OF tidyD(1) [OF tidy], of b a] a True by simp
    qed
    then have "matched (start (at_source a) i q)" by (intro matched_start [OF tidy matched])
    moreover have "tidy (start (at_source a) i q)" using tidy tidyD(4) [OF tidy a(1)] a(2) by (simp add: tidy_start)
    ultimately show ?thesis
      using Some True assms length_start [OF tidyD(1) [OF tidy] a] by (simp add: retry_def good_def)
  qed (use Some assms in \<open>simp add: retry_def\<close>)
qed (use assms in \<open>simp add: retry_def\<close>)

lemma good_reset: "good q \<Longrightarrow> qu_latest q = qu_items q \<Longrightarrow> good (reset q)"
proof -
  assume g: "good q" and latest: "qu_latest q = qu_items q"
  then have tidy: "tidy q" and matched: "matched q" by (auto simp: good_def)
  have "live (reset q) = {}"
  proof -
    have "k \<in> at_controller ` set (qu_items q)" if "(i, k) \<in> live q" for i k
      using that matched by (auto simp: matched_def shown_uploads_def)
    then show ?thesis using latest by (auto simp: live_def reset_def abort_all_def)
  qed
  then show ?thesis
    using tidy tidyD(5) [OF tidy] latest
    by (auto simp: good_def matched_def shown_uploads_def reset_def abort_all_def tidy_def)
qed

lemma change_items:
  assumes "\<And>a. at_id (f a) = at_id a" and "\<And>a. at_controller (f a) = at_controller a"
  shows "map at_id (qu_items (change i f q)) = map at_id (qu_items q)"
    "map at_controller (qu_items (change i f q)) = map at_controller (qu_items q)"
    "qu_uploads (change i f q) = qu_uploads q" "qu_aborted (change i f q) = qu_aborted q"
    "qu_ids (change i f q) = qu_ids q" "qu_controllers (change i f q) = qu_controllers q"
  using assms by (simp_all add: change_def)

lemma tidy_change:
  assumes "\<And>a. at_id (f a) = at_id a" and "\<And>a. at_controller (f a) = at_controller a" and "tidy q"
  shows "tidy (change i f q)"
proof -
  note same = change_items [of f, OF assms(1,2)]
  have "\<forall>a \<in> set (qu_items (change i f q)). at_id a < qu_ids q \<and> at_controller a < qu_controllers q"
    using assms(1,2) tidyD(4,5) [OF assms(3)] by (auto simp: change_def)
  then show ?thesis using assms(3) same unfolding tidy_def by simp
qed

lemma tidy_settled: "tidy q \<Longrightarrow> tidy (q\<lparr>qu_uploads := remove1 u (qu_uploads q)\<rparr>)"
  using set_remove1_subset [of u "qu_uploads q"]
  by (auto simp: tidy_def distinct_map distinct_remove1 intro: inj_on_subset)

text \<open>The upload at \<open>(i, k)\<close> settles, and its attachment, if it is still there, is uploading no more.\<close>

lemma good_settled:
  assumes "good q" and "(i, k) \<in> set (qu_uploads q)"
    and f: "\<And>a. at_id (f a) = at_id a" "\<And>a. at_controller (f a) = at_controller a"
      "\<And>a. at_status (f a) \<noteq> Uploading" "\<And>a. at_status (f a) = Ready \<longrightarrow> at_file (f a) \<noteq> None"
  shows "good (change i f (q\<lparr>qu_uploads := remove1 (i, k) (qu_uploads q)\<rparr>))"
    (is "good ?q")
proof -
  have tidy: "tidy q" and matched: "matched q" using assms(1) by (auto simp: good_def)
  have one: "distinct (qu_uploads q)" using tidyD(3) [OF tidy] by (simp add: distinct_map)
  have "tidy ?q" by (intro tidy_change f tidy_settled tidy)
  moreover have "live ?q = shown_uploads ?q"
  proof -
    have "live ?q = live q - {(i, k)}"
      using one by (auto simp: live_def change_def)
    also have "\<dots> = shown_uploads q - {(i, k)}" using matched by (simp add: matched_def)
    also have "\<dots> = {(j, l) \<in> shown_uploads q. j \<noteq> i}"
    proof -
      have "l = k" if "(i, l) \<in> shown_uploads q" for l
      proof -
        have "i \<in> at_id ` set (qu_items q)" using that by (auto simp: shown_uploads_def)
        then have "(i, k) \<in> shown_uploads q"
          using assms(2) matched by (auto simp: matched_def live_def)
        then obtain b where b: "b \<in> set (qu_items q)" "at_id b = i" "at_controller b = k"
          by (auto simp: shown_uploads_def)
        from that obtain a where "a \<in> set (qu_items q)" "at_id a = i" "at_controller a = l"
          by (auto simp: shown_uploads_def)
        then show ?thesis using b distinct_map_eq [OF tidyD(1) [OF tidy], of a b] by simp
      qed
      then show ?thesis by auto
    qed
    also have "\<dots> = shown_uploads ?q"
    proof -
      have "{a \<in> set (qu_items ?q). at_status a = Uploading} =
          {a \<in> set (qu_items q). at_status a = Uploading \<and> at_id a \<noteq> i}"
        using f(3) by (auto simp: change_def)
      then show ?thesis by (auto simp: shown_uploads_def)
    qed
    finally show ?thesis .
  qed
  moreover have "at_id ` set (qu_items ?q) = at_id ` set (qu_items q)"
    using change_items(1) [of f, OF f(1,2), of i "q\<lparr>qu_uploads := remove1 (i, k) (qu_uploads q)\<rparr>"]
    by (simp flip: set_map)
  moreover have "\<forall>a \<in> set (qu_items ?q). at_controller a \<notin> set (qu_aborted q) \<and> (at_status a = Ready \<longrightarrow> at_file a \<noteq> None)"
    using matched f by (auto simp: matched_def change_def)
  ultimately show ?thesis
    using assms(1) matched set_remove1_subset [of "(i, k)" "qu_uploads q"]
    by (auto simp: good_def matched_def change_def)
qed

lemma good_uploaded: "good q \<Longrightarrow> good (uploaded i k m q)"
  using good_settled [of q i k "\<lambda>a. a\<lparr>at_file := Some m, at_status := Ready, at_progress := 1\<rparr>"]
  by (simp add: uploaded_def)

lemma good_aborted:
  assumes "good q" and "(i, k) \<in> set (qu_uploads q)" and "k \<in> set (qu_aborted q)"
  shows "good (q\<lparr>qu_uploads := remove1 (i, k) (qu_uploads q)\<rparr>)"
proof -
  have "live (q\<lparr>qu_uploads := remove1 (i, k) (qu_uploads q)\<rparr>) = live q"
    using assms(1,3) by (auto simp: live_def good_def tidy_def distinct_map dest: notin_set_remove1 in_set_remove1 [THEN iffD2])
  then show ?thesis
    using assms(1) tidy_settled [of q "(i, k)"] set_remove1_subset [of "(i, k)" "qu_uploads q"]
    by (auto simp: good_def matched_def shown_uploads_def)
qed

lemma good_upload_failed: "good q \<Longrightarrow> good (upload_failed i k q)"
proof -
  assume g: "good q"
  have "at_status (a\<lparr>at_status := Failed\<rparr>) \<noteq> Uploading" for a :: "('a, 'b) attachment" by simp
  then show ?thesis
    using g good_aborted [OF g] good_settled [OF g, of i k "\<lambda>a. a\<lparr>at_status := Failed\<rparr>"]
    by (auto simp: upload_failed_def Let_def)
qed

lemma good_progress: "good q \<Longrightarrow> good (progress i k p q)"
proof (cases "(i, k) \<in> set (qu_uploads q)")
  case True
  let ?q = "change i (\<lambda>a. a\<lparr>at_progress := p\<rparr>) q"
  assume good: "good q"
  note same = change_items [of "\<lambda>a. a\<lparr>at_progress := p\<rparr>" i q, simplified]
  let ?g = "\<lambda>a. if at_id a = i then a\<lparr>at_progress := p\<rparr> else a"
  have g: "at_id (?g a) = at_id a" "at_controller (?g a) = at_controller a" "at_status (?g a) = at_status a" for a
    by simp_all
  have "shown_uploads ?q = (\<lambda>a. (at_id (?g a), at_controller (?g a))) ` {a \<in> set (qu_items q). at_status (?g a) = Uploading}"
    unfolding shown_uploads_def change_def by auto
  then have "shown_uploads ?q = shown_uploads q" by (simp only: g shown_uploads_def)
  moreover have "at_id ` set (qu_items ?q) = at_id ` set (qu_items q)"
    using same(1) by (simp flip: set_map)
  moreover have "\<forall>a \<in> set (qu_items ?q). at_controller a \<notin> set (qu_aborted q) \<and> (at_status a = Ready \<longrightarrow> at_file a \<noteq> None)"
    using good by (auto simp: good_def matched_def change_def)
  moreover have "live ?q = live q" using same by (simp add: live_def)
  moreover have "tidy ?q" using good by (intro tidy_change) (simp_all add: good_def)
  ultimately have "good ?q" using good same by (simp add: good_def matched_def change_def)
  then show ?thesis using True by (simp add: progress_def)
qed (simp add: progress_def)

lemma good_step: "good q \<Longrightarrow> qu_latest q = qu_items q \<Longrightarrow> good (step e q) \<and> qu_latest (step e q) = qu_items (step e q)"
proof -
  assume g: "good q" "qu_latest q = qu_items q"
  have "good (handle e q)"
    using g by (cases e)
      (simp_all add: good_add good_cancel good_retry good_reset good_uploaded good_upload_failed good_progress)
  moreover have "good (rendered q') = good q'" for q' :: "('a, 'b) queue"
    by (simp add: good_def rendered_def tidy_def matched_def live_def shown_uploads_def)
  ultimately show ?thesis by (simp add: step_def, simp add: rendered_def)
qed

lemma good_run: "good (run es) \<and> qu_latest (run es) = qu_items (run es)"
proof -
  have "good q \<Longrightarrow> qu_latest q = qu_items q \<Longrightarrow>
      good (fold step es q) \<and> qu_latest (fold step es q) = qu_items (fold step es q)" for q
    by (induction es arbitrary: q) (simp_all add: good_step)
  moreover have "good (new_queue :: ('a, 'b) queue)"
    by (simp add: good_def new_queue_def tidy_def matched_def live_def shown_uploads_def)
  ultimately show ?thesis by (simp add: run_def new_queue_def)
qed

text \<open>C30: The composer shows at most ten attachments; the ones it shows as uploading are exactly the uploads in
  flight that have not been aborted, each with its own controller; an upload that was aborted reports to
  no attachment that is still there; and leaving the composer aborts every upload in flight.\<close>

theorem attachments_match_their_uploads:
  "length (qu_items (run es)) \<le> attachmentLimit \<and> distinct (map at_id (qu_items (run es))) \<and>
   live (run es) = shown_uploads (run es) \<and>
   {(i, k) \<in> set (qu_uploads (run es)). k \<in> set (qu_aborted (run es)) \<and> i \<in> at_id ` set (qu_items (run es))} = {} \<and>
   live (abort_all (run es)) = {} \<and> live (reset (run es)) = {}"
proof -
  have g: "tidy (run es)" "matched (run es)" "length (qu_items (run es)) \<le> attachmentLimit"
    and latest: "qu_latest (run es) = qu_items (run es)"
    using good_run [of es] by (auto simp: good_def)
  have "k \<in> at_controller ` set (qu_items (run es))" if "(i, k) \<in> live (run es)" for i k
    using that g(2) by (auto simp: matched_def shown_uploads_def)
  then have "live (abort_all (run es)) = {}" "live (reset (run es)) = {}"
    using latest by (auto simp: live_def reset_def abort_all_def)
  then show ?thesis using g tidyD(1) [OF g(1)] by (auto simp: matched_def)
qed

text \<open>A message goes out exactly when the composer offers to send it, with the file of every attachment that is
  not failed, in the order they are shown; failed attachments are dropped with it.\<close>

lemma sent_files:
  "(send False body (run es) \<noteq> None) = canSend body (run es)"
  "send readonly body (run es) = Some ((text, files), q) \<Longrightarrow>
     map Some files = map at_file (filter (\<lambda>a. at_status a \<noteq> Failed) (qu_items (run es))) \<and> qu_items q = []"
proof -
  have file_there: "\<forall>a \<in> set (qu_items (run es)). at_status a = Ready \<longrightarrow> at_file a \<noteq> None"
    using good_run [of es] by (auto simp: good_def matched_def)
  then have "ready (run es) = [] \<longleftrightarrow> \<not> list_ex (\<lambda>a. at_status a = Ready) (qu_items (run es))"
    by (auto simp: ready_def filter_empty_conv list_ex_iff)
  then show "(send False body (run es) \<noteq> None) = canSend body (run es)"
    by (auto simp: send_def canSend_def)
  assume sent: "send readonly body (run es) = Some ((text, files), q)"
  then have files: "files = map (\<lambda>a. the (at_file a)) (ready (run es))" and idle: "\<not> uploading (run es)"
    and q: "q = reset (run es)"
    by (auto simp: send_def split: if_splits)
  have "at_status a \<noteq> Failed \<longleftrightarrow> at_status a = Ready \<and> at_file a \<noteq> None" if "a \<in> set (qu_items (run es))" for a
    using that idle file_there by (cases "at_status a") (auto simp: uploading_def list_ex_iff)
  then have "filter (\<lambda>a. at_status a \<noteq> Failed) (qu_items (run es)) = ready (run es)"
    unfolding ready_def by (intro filter_cong) auto
  moreover have "map Some files = map at_file (ready (run es))"
    by (auto simp: files ready_def)
  ultimately show "map Some files = map at_file (filter (\<lambda>a. at_status a \<noteq> Failed) (qu_items (run es))) \<and> qu_items q = []"
    by (simp add: q reset_def)
qed

end
