(* ===== verification/Message_Feed.thy ===== *)
theory Message_Feed
  imports Store
begin

text \<open>
  The feed of a chat, \<open>useMessageFeed\<close> of \<open>apps/web/src/conversation/useMessageFeed.ts\<close>: it loads the history
  into the store, keeps its position, counts what is new below and tells the server what was read. A frame
  callback keeps the \<open>markLatestRead\<close> of the rendering that requested it, so it carries that rendering's
  latest sequence number and anchor. Whether the scroller is near its bottom or its top is an argument;
  what scrolls without a consequence for the state is left out. \<open>Conversation\<close> is mounted once per chat.

  The lemmas show that a sequence number is reported as read at most once and never an optimistic one; and
  where the feed loses messages: a page that arrives late drops what came in since, and after a jump into
  the history the next message marks everything in between as read.
\<close>

section \<open>State\<close>

datatype frame = Finish int int | Follow int int

datatype request = Latest | Before int | MarkRead int int

record feed =
  fd_store :: messenger
  fd_loading :: bool
  fd_hasMore :: bool
  fd_loadingPrevious :: bool
  fd_loadError :: bool
  fd_newBelow :: nat
  fd_showScrollDown :: bool
  fd_ready :: bool
  fd_anchor :: int
  fd_atBottom :: bool
  fd_positioned :: bool
  fd_pending :: bool
  fd_previousLength :: nat
  fd_requested :: int
  fd_frames :: "frame list"
  fd_log :: "request list"

text \<open>The effect of the first rendering has asked for the latest messages.\<close>

definition mounted :: "messenger \<Rightarrow> feed" where
  "mounted st =
     \<lparr>fd_store = st, fd_loading = True, fd_hasMore = True, fd_loadingPrevious = False, fd_loadError = False,
      fd_newBelow = 0, fd_showScrollDown = False, fd_ready = False, fd_anchor = 0, fd_atBottom = True,
      fd_positioned = False, fd_pending = False, fd_previousLength = 0, fd_requested = 0,
      fd_frames = [], fd_log = [Latest]\<rparr>"

definition in_feed :: "client_message \<Rightarrow> bool" where
  "in_feed m \<longleftrightarrow> \<not> truthy (m_thread_root_id m)"

definition visible_messages :: "jstring \<Rightarrow> feed \<Rightarrow> client_message list" where
  "visible_messages c s = filter in_feed (items_of (messages (fd_store s)) c)"

definition latestSeq :: "jstring \<Rightarrow> feed \<Rightarrow> int" where
  "latestSeq c s = (case rev (visible_messages c s) of [] \<Rightarrow> 0 | m # _ \<Rightarrow> m_created_seq m)"

definition asked :: "request \<Rightarrow> feed \<Rightarrow> feed" where
  "asked r s = s\<lparr>fd_log := fd_log s @ [r]\<rparr>"

text \<open>\<open>markLatestRead\<close> of a rendering with the given latest number and anchor.\<close>

definition mark_read :: "int \<Rightarrow> int \<Rightarrow> feed \<Rightarrow> feed" where
  "mark_read latest anchor s =
     (if latest = 0 \<or> latest \<ge> max_safe_integer \<or> latest \<le> fd_requested s then s
      else asked (MarkRead latest anchor) (s\<lparr>fd_requested := latest\<rparr>))"

definition marked_chat :: "jstring \<Rightarrow> int \<Rightarrow> chat_unread \<Rightarrow> chat_unread" where
  "marked_chat c seq u =
     (if u_chat_id u = c then u\<lparr>u_unread_count := 0, u_mention_count := 0, u_last_read_seq := seq\<rparr> else u)"

definition mark_read_settles :: "jstring \<Rightarrow> int \<Rightarrow> int \<Rightarrow> bool \<Rightarrow> feed \<Rightarrow> feed" where
  "mark_read_settles c latest anchor ok s =
     (if ok then
        s\<lparr>fd_store := setUnread ((unread (fd_store s))\<lparr>un_chats := map (marked_chat c latest) (un_chats (unread (fd_store s)))\<rparr>)
            (fd_store s)\<rparr>
      else if fd_requested s = latest then s\<lparr>fd_requested := anchor\<rparr> else s)"

section \<open>Loading\<close>

text \<open>A page: its messages and whether there are older ones (\<open>next_before_seq\<close>).\<close>

type_synonym page = "client_message list \<times> bool"

definition last_read :: "jstring \<Rightarrow> messenger \<Rightarrow> int" where
  "last_read c st = (case find (\<lambda>u. u_chat_id u = c) (un_chats (unread st)) of Some u \<Rightarrow> u_last_read_seq u | None \<Rightarrow> 0)"

definition initial_settles :: "jstring \<Rightarrow> page option \<Rightarrow> feed \<Rightarrow> feed" where
  "initial_settles c r s =
     (if \<not> fd_loading s then s
      else (case r of
        Some (items, older) \<Rightarrow>
          let seen = last_read c (fd_store s);
              s1 = s\<lparr>fd_loading := False, fd_anchor := seen, fd_requested := seen, fd_pending := True,
                     fd_store := replaceMessages c items (fd_store s), fd_hasMore := older\<rparr>
          in if items = [] then s1\<lparr>fd_positioned := True, fd_ready := True\<rparr> else s1
      | None \<Rightarrow> s\<lparr>fd_loading := False, fd_loadError := True, fd_ready := True\<rparr>))"

definition retryInitial :: "feed \<Rightarrow> feed" where
  "retryInitial s = asked Latest (s\<lparr>fd_loadError := False, fd_ready := False\<rparr>)"

definition retry_settles :: "jstring \<Rightarrow> page option \<Rightarrow> feed \<Rightarrow> feed" where
  "retry_settles c r s =
     (case r of
        Some (items, older) \<Rightarrow>
          let s1 = s\<lparr>fd_pending := True, fd_store := replaceMessages c items (fd_store s), fd_hasMore := older\<rparr>
          in if items = [] then s1\<lparr>fd_ready := True\<rparr> else s1
      | None \<Rightarrow> s\<lparr>fd_loadError := True, fd_ready := True\<rparr>)"

definition loadPrevious :: "jstring \<Rightarrow> feed \<Rightarrow> feed" where
  "loadPrevious c s =
     (if fd_loadingPrevious s \<or> \<not> fd_hasMore s then s
      else (case find (\<lambda>m. m_created_seq m < max_safe_integer) (visible_messages c s) of
              None \<Rightarrow> s
            | Some m \<Rightarrow> asked (Before (m_created_seq m)) (s\<lparr>fd_loadingPrevious := True\<rparr>)))"

definition previous_settles :: "jstring \<Rightarrow> page option \<Rightarrow> feed \<Rightarrow> feed" where
  "previous_settles c r s =
     (let s1 = (case r of Some (items, older) \<Rightarrow> s\<lparr>fd_store := prependMessages c items (fd_store s), fd_hasMore := older\<rparr>
                        | None \<Rightarrow> s)
      in s1\<lparr>fd_loadingPrevious := False\<rparr>)"

text \<open>\<open>jump\<close> and the effect for \<open>?message=\<close> once the context of the message has arrived.\<close>

definition jumped :: "jstring \<Rightarrow> client_message list \<Rightarrow> feed \<Rightarrow> feed" where
  "jumped c items s = s\<lparr>fd_store := replaceMessages c items (fd_store s)\<rparr>"

section \<open>Rendering and scrolling\<close>

definition position_effect :: "jstring \<Rightarrow> feed \<Rightarrow> feed" where
  "position_effect c s =
     (if fd_pending s \<and> visible_messages c s \<noteq> []
      then s\<lparr>fd_pending := False, fd_frames := fd_frames s @ [Finish (latestSeq c s) (fd_anchor s)]\<rparr> else s)"

definition length_effect :: "jstring \<Rightarrow> feed \<Rightarrow> feed" where
  "length_effect c s =
     (let previous = fd_previousLength s; len = length (visible_messages c s); s1 = s\<lparr>fd_previousLength := len\<rparr> in
      if \<not> fd_positioned s1 \<or> len \<le> previous then s1
      else if fd_atBottom s1 then s1\<lparr>fd_frames := fd_frames s1 @ [Follow (latestSeq c s) (fd_anchor s)]\<rparr>
      else s1\<lparr>fd_newBelow := fd_newBelow s1 + (len - previous), fd_showScrollDown := True\<rparr>)"

definition renders :: "jstring \<Rightarrow> feed \<Rightarrow> feed" where
  "renders c s = length_effect c (position_effect c s)"

text \<open>The oldest frame callback runs; \<open>bottom\<close> is whether the scroller then is near its bottom.\<close>

definition frame_runs :: "bool \<Rightarrow> feed \<Rightarrow> feed" where
  "frame_runs bottom s =
     (case fd_frames s of
        [] \<Rightarrow> s
      | Finish latest anchor # fs \<Rightarrow>
          let s1 = s\<lparr>fd_frames := fs, fd_atBottom := bottom, fd_showScrollDown := \<not> bottom, fd_positioned := True,
                     fd_ready := True\<rparr>
          in if bottom then mark_read latest anchor s1 else s1
      | Follow latest anchor # fs \<Rightarrow> mark_read latest anchor (s\<lparr>fd_frames := fs\<rparr>))"

definition onScroll :: "jstring \<Rightarrow> bool \<Rightarrow> bool \<Rightarrow> feed \<Rightarrow> feed" where
  "onScroll c near_top bottom s =
     (let s1 = (if near_top then loadPrevious c s else s);
          s2 = s1\<lparr>fd_atBottom := bottom, fd_showScrollDown := \<not> bottom\<rparr>
      in if bottom then mark_read (latestSeq c s) (fd_anchor s) (s2\<lparr>fd_newBelow := 0\<rparr>) else s2)"

definition scrollToBottom :: "feed \<Rightarrow> feed" where
  "scrollToBottom s = s\<lparr>fd_newBelow := 0\<rparr>"

datatype event =
    StoreChanges "messenger \<Rightarrow> messenger"
  | InitialSettles "page option"
  | Retries
  | RetrySettles "page option"
  | PreviousSettles "page option"
  | Jumped "client_message list"
  | MarkReadSettles int int bool
  | FrameRuns bool
  | Scrolls bool bool
  | GoesDown

fun handle :: "jstring \<Rightarrow> event \<Rightarrow> feed \<Rightarrow> feed" where
  "handle c (StoreChanges f) s = s\<lparr>fd_store := f (fd_store s)\<rparr>"
| "handle c (InitialSettles r) s = initial_settles c r s"
| "handle c Retries s = retryInitial s"
| "handle c (RetrySettles r) s = retry_settles c r s"
| "handle c (PreviousSettles r) s = previous_settles c r s"
| "handle c (Jumped items) s = jumped c items s"
| "handle c (MarkReadSettles latest anchor ok) s = mark_read_settles c latest anchor ok s"
| "handle c (FrameRuns bottom) s = frame_runs bottom s"
| "handle c (Scrolls near_top bottom) s = onScroll c near_top bottom s"
| "handle c GoesDown s = scrollToBottom s"

text \<open>A rendering and its effects follow every event.\<close>

definition step :: "jstring \<Rightarrow> event \<Rightarrow> feed \<Rightarrow> feed" where
  "step c e s = renders c (handle c e s)"

definition run :: "jstring \<Rightarrow> event list \<Rightarrow> feed \<Rightarrow> feed" where
  "run c es s = fold (step c) es s"

lemma feed_run_simps [simp]: "run c [] s = s" "run c (e # es) s = run c es (step c e s)" "run c (es @ ds) s = run c ds (run c es s)"
  by (simp_all add: run_def)

section \<open>What is reported as read\<close>

fun marks :: "request list \<Rightarrow> int list" where
  "marks [] = []"
| "marks (MarkRead latest anchor # rs) = latest # marks rs"
| "marks (r # rs) = marks rs"

lemma marks_append [simp]: "marks (rs @ qs) = marks rs @ marks qs"
  by (induction rs rule: marks.induct) simp_all

lemma asked_simps [simp]:
  "fd_log (asked r s) = fd_log s @ [r]" "fd_requested (asked r s) = fd_requested s" "fd_store (asked r s) = fd_store s"
  by (simp_all add: asked_def)

text \<open>At most one new mark, above what was requested before.\<close>

definition marks_on :: "feed \<Rightarrow> feed \<Rightarrow> bool" where
  "marks_on s t \<longleftrightarrow>
     marks (fd_log t) = marks (fd_log s) \<and> fd_requested t = fd_requested s \<or>
     (\<exists>n. marks (fd_log t) = marks (fd_log s) @ [n] \<and> fd_requested s < n \<and> fd_requested t = n \<and>
          n \<noteq> 0 \<and> n < max_safe_integer)"

lemma marks_on_mark_read:
  "marks (fd_log t) = marks (fd_log s) \<Longrightarrow> fd_requested t = fd_requested s \<Longrightarrow> marks_on s (mark_read latest anchor t)"
  by (auto simp: marks_on_def mark_read_def)

lemma marks_on_same: "marks (fd_log t) = marks (fd_log s) \<Longrightarrow> fd_requested t = fd_requested s \<Longrightarrow> marks_on s t"
  by (simp add: marks_on_def)

lemma renders_frame [simp]:
  "fd_log (renders c s) = fd_log s" "fd_requested (renders c s) = fd_requested s" "fd_store (renders c s) = fd_store s"
  by (simp_all add: renders_def length_effect_def position_effect_def Let_def)

lemma loadPrevious_frame:
  "marks (fd_log (loadPrevious c s)) = marks (fd_log s)" "fd_requested (loadPrevious c s) = fd_requested s"
  "fd_store (loadPrevious c s) = fd_store s"
  by (simp_all add: loadPrevious_def split: option.split)

text \<open>Every event but the load and a refused mark.\<close>

fun keeps_marks :: "event \<Rightarrow> bool" where
  "keeps_marks (InitialSettles r) = False"
| "keeps_marks (MarkReadSettles latest anchor ok) = ok"
| "keeps_marks e = True"

lemma handle_marks: "keeps_marks e \<Longrightarrow> marks_on s (handle c e s)"
proof (cases e)
  case (FrameRuns bottom)
  have "marks_on s (frame_runs bottom s)"
  proof (cases "fd_frames s")
    case (Cons f fs)
    then show ?thesis
      by (cases f; cases bottom) (simp_all add: frame_runs_def Let_def marks_on_mark_read marks_on_same)
  qed (simp add: frame_runs_def marks_on_same)
  then show ?thesis using FrameRuns by simp
next
  case (Scrolls near_top bottom)
  then show ?thesis
    by (cases bottom; cases near_top)
      (simp_all add: onScroll_def Let_def loadPrevious_frame marks_on_mark_read marks_on_same)
next
  case Retries
  then show ?thesis by (simp add: retryInitial_def marks_on_def)
next
  case (RetrySettles r)
  then show ?thesis by (auto simp: retry_settles_def Let_def marks_on_def split: option.split)
next
  case (PreviousSettles r)
  then show ?thesis by (auto simp: previous_settles_def Let_def marks_on_def split: option.split)
next
  case (MarkReadSettles latest anchor ok)
  then show "keeps_marks e \<Longrightarrow> ?thesis" by (simp add: mark_read_settles_def marks_on_def)
qed (auto simp: marks_on_def jumped_def scrollToBottom_def)

lemma step_marks: "keeps_marks e \<Longrightarrow> marks_on s (step c e s)"
  using handle_marks [of e s c] by (simp add: step_def marks_on_def)

text \<open>After the history has loaded, and as long as the server accepts the marks, every sequence number that
  is reported as read is higher than all reported before, and never that of an optimistic message.\<close>

theorem reads_are_reported_once:
  assumes "\<forall>e \<in> set es. keeps_marks e"
  shows "\<exists>ns. marks (fd_log (run c es s)) = marks (fd_log s) @ ns \<and> sorted_wrt (<) (fd_requested s # ns) \<and>
    (\<forall>n \<in> set ns. n \<noteq> 0 \<and> n < max_safe_integer)"
  using assms
proof (induction es arbitrary: s)
  case Nil
  then show ?case by simp
next
  case (Cons e es)
  from Cons.IH [of "step c e s"] Cons.prems obtain ns where
    ns: "marks (fd_log (run c es (step c e s))) = marks (fd_log (step c e s)) @ ns"
      "sorted_wrt (<) (fd_requested (step c e s) # ns)" "\<forall>n \<in> set ns. n \<noteq> 0 \<and> n < max_safe_integer"
    by auto
  from Cons.prems have "marks_on s (step c e s)" by (simp add: step_marks)
  then show ?case
  proof (unfold marks_on_def, elim disjE exE conjE)
    fix n
    assume n: "marks (fd_log (step c e s)) = marks (fd_log s) @ [n]" "fd_requested s < n"
      "fd_requested (step c e s) = n" "n \<noteq> 0" "n < max_safe_integer"
    then have "sorted_wrt (<) (fd_requested s # n # ns)" using ns(2) by auto
    then show ?thesis using n ns by (intro exI [of _ "n # ns"]) simp
  qed (use ns in auto)
qed

section \<open>What the feed loses\<close>

definition of_chat :: "jstring \<Rightarrow> client_message \<Rightarrow> client_message list \<Rightarrow> bool" where
  "of_chat c d items \<longleftrightarrow>
     m_chat_id d = Val c \<and> c \<noteq> [] \<and> \<not> truthy (m_thread_root_id d) \<and> list_ok items \<and>
     (\<forall>m \<in> set items. \<not> same_message d m \<and> message_key m \<noteq> message_key d \<and> m_created_seq m < m_created_seq d)"

lemma fresh_index: "\<forall>m \<in> set items. \<not> P m \<Longrightarrow> find_index P items = None"
  by (induction items) simp_all

lemma event_after_page:
  assumes "of_chat c d items" and "checkpoint st < n" and "items_of (messages st) c = items"
  shows "items_of (messages (snd (apply_event (created_event d n) st))) c = items @ [d\<lparr>m_delivery := Val Sent\<rparr>]"
proof -
  have "deliver d items = items @ [d\<lparr>m_delivery := Val Sent\<rparr>]"
    using assms(1) by (simp add: deliver_def fresh_index of_chat_def Let_def)
  moreover have "list_ok (items @ [d\<lparr>m_delivery := Val Sent\<rparr>])"
    using assms(1) by (auto simp: of_chat_def list_ok_def sorted_append image_iff order.strict_implies_order)
  moreover have "count_thread (js ''message.created'') d xs = xs" for xs
    using assms(1) by (auto simp: count_thread_def of_chat_def split: field.split)
  moreover have "event_chat (created_event d n) = Some c"
    using assms(1) by (simp add: event_chat_def created_event_def of_chat_def)
  ultimately show ?thesis
    using assms(2,3)
    by (simp add: apply_event_def event_messages_def created_event_def is_message_event_def uniqueSorted_ok del: js_Cons)
qed

text \<open>A message that arrives while the latest messages are being loaded, and is not in the page yet, is lost
  from the feed when the page arrives: the page replaces the list, and the event, which the checkpoint
  covers, has no effect if it is delivered again.\<close>

theorem late_page_drops_newer_message:
  assumes "of_chat c d items" and "checkpoint (fd_store s) < n" and "fd_loading s"
  shows "items_of (messages (fd_store (run c [StoreChanges (\<lambda>st. snd (apply_event (created_event d n) st)),
      InitialSettles (Some (items, older)), StoreChanges (\<lambda>st. snd (apply_event (created_event d n) st))] s))) c = items \<and>
    (\<forall>m \<in> set items. m_id m \<noteq> m_id d)"
proof -
  let ?f = "\<lambda>st. snd (apply_event (created_event d n) st)"
  have loading: "fd_loading (step c (StoreChanges ?f) s)"
    using assms(3) by (simp add: step_def renders_def length_effect_def position_effect_def Let_def)
  have cp: "checkpoint (fd_store (step c (StoreChanges ?f) s)) = n"
    using assms(2) by (simp add: step_def checkpoint_apply_event) (simp add: created_event_def)
  have st: "fd_store (step c (InitialSettles (Some (items, older))) t) = replaceMessages c items (fd_store t)"
    if "fd_loading t" for t
    using that by (simp add: step_def initial_settles_def Let_def)
  have old: "fd_store (step c (StoreChanges ?f) t) = fd_store t" if "n \<le> checkpoint (fd_store t)" for t
    using that by (simp add: step_def apply_event_def created_event_def)
  have "items_of (messages (replaceMessages c items v)) c = items" for v
    using assms(1) by (simp add: replaceMessages_def of_chat_def uniqueSorted_ok)
  moreover have "checkpoint (replaceMessages c items v) = checkpoint v" for v
    by (simp add: replaceMessages_def)
  moreover have "\<forall>m \<in> set items. m_id m \<noteq> m_id d" using assms(1) by (auto simp: of_chat_def same_message_def)
  ultimately show ?thesis
    by (simp add: old st [OF loading] cp)
qed

lemma scroll_marks:
  assumes "latestSeq c t = n" and "n \<noteq> 0" and "n < max_safe_integer" and "fd_requested t < n"
  shows "fd_log (step c (Scrolls False True) t) = fd_log t @ [MarkRead n (fd_anchor t)]"
    "fd_store (step c (Scrolls False True) t) = fd_store t"
  using assms by (simp_all add: step_def onScroll_def Let_def mark_read_def)

text \<open>After a jump into the history, the feed has only the messages around the target; the next message that
  arrives is put right below them, and reaching the bottom reports it as read, and with it every message
  in between, which the feed has not loaded and offers no way to load.\<close>

theorem jump_then_message_marks_the_gap_read:
  assumes "of_chat c d items" and "checkpoint (fd_store s) < n"
    and "m_created_seq d < max_safe_integer" and "m_created_seq d \<noteq> 0" and "fd_requested s < m_created_seq d"
  shows "let t = run c [Jumped items, StoreChanges (\<lambda>st. snd (apply_event (created_event d n) st)), Scrolls False True] s in
    items_of (messages (fd_store t)) c = items @ [d\<lparr>m_delivery := Val Sent\<rparr>] \<and>
    fd_log t = fd_log s @ [MarkRead (m_created_seq d) (fd_anchor s)]"
proof -
  let ?s1 = "step c (Jumped items) s"
  let ?s2 = "step c (StoreChanges (\<lambda>st. snd (apply_event (created_event d n) st))) ?s1"
  have anchor: "fd_anchor (renders c t) = fd_anchor t" for t
    by (simp add: renders_def length_effect_def position_effect_def Let_def)
  have "uniqueSorted items = items" using assms(1) by (simp add: of_chat_def uniqueSorted_ok)
  then have "items_of (messages (fd_store ?s1)) c = items" "checkpoint (fd_store ?s1) = checkpoint (fd_store s)"
    by (simp_all add: step_def jumped_def replaceMessages_def)
  then have items: "items_of (messages (fd_store ?s2)) c = items @ [d\<lparr>m_delivery := Val Sent\<rparr>]"
    using event_after_page [OF assms(1)] assms(2) by (simp add: step_def)
  have same: "fd_log ?s2 = fd_log s" "fd_requested ?s2 = fd_requested s" "fd_anchor ?s2 = fd_anchor s"
    by (simp_all add: step_def jumped_def anchor)
  have "latestSeq c ?s2 = m_created_seq d"
    using assms(1) by (simp add: latestSeq_def visible_messages_def items in_feed_def of_chat_def)
  then have "fd_log (step c (Scrolls False True) ?s2) = fd_log s @ [MarkRead (m_created_seq d) (fd_anchor s)]"
    "fd_store (step c (Scrolls False True) ?s2) = fd_store ?s2"
    using scroll_marks [of c ?s2 "m_created_seq d"] assms(3-5) same by simp_all
  then show ?thesis by (simp only: feed_run_simps Let_def items simp_thms)
qed

definition older_message :: client_message where
  "older_message = sample_message\<lparr>m_id := js ''m0'', m_client_msg_id := js ''k0'', m_created_seq := 3\<rparr>"

lemma sample_in_chat: "of_chat (js ''chat'') sample_message [older_message]"
  by (simp add: of_chat_def list_ok_def older_message_def sample_message_def same_message_def message_key_def)

theorem reads_are_reported_once_witness:
  "\<exists>ns. marks (fd_log (run (js ''chat'') [Jumped [older_message], Scrolls False True, FrameRuns True]
      (mounted (createMessengerStore 0)))) = [] @ ns \<and> sorted_wrt (<) (0 # ns) \<and> (\<forall>n \<in> set ns. n \<noteq> 0 \<and> n < max_safe_integer)"
  using reads_are_reported_once [of "[Jumped [older_message], Scrolls False True, FrameRuns True]" "js ''chat''"
      "mounted (createMessengerStore 0)"]
  by (simp add: mounted_def del: feed_run_simps)

theorem late_page_drops_newer_message_witness:
  "items_of (messages (fd_store (run (js ''chat'') [StoreChanges (\<lambda>st. snd (apply_event (created_event sample_message 5) st)),
      InitialSettles (Some ([older_message], False)), StoreChanges (\<lambda>st. snd (apply_event (created_event sample_message 5) st))]
      (mounted (createMessengerStore 0))))) (js ''chat'') = [older_message]"
proof -
  have "checkpoint (fd_store (mounted (createMessengerStore 0))) < 5" "fd_loading (mounted (createMessengerStore 0))"
    by (simp_all add: mounted_def createMessengerStore_def)
  from late_page_drops_newer_message [OF sample_in_chat this, of False] show ?thesis by blast
qed

theorem jump_then_message_marks_the_gap_read_witness:
  "fd_log (run (js ''chat'') [Jumped [older_message], StoreChanges (\<lambda>st. snd (apply_event (created_event sample_message 5) st)),
      Scrolls False True] (mounted (createMessengerStore 0))) = [Latest, MarkRead 5 0]"
proof -
  have "checkpoint (fd_store (mounted (createMessengerStore 0))) < 5" "m_created_seq sample_message < max_safe_integer"
    "m_created_seq sample_message \<noteq> 0" "fd_requested (mounted (createMessengerStore 0)) < m_created_seq sample_message"
    by (simp_all add: mounted_def createMessengerStore_def sample_message_def max_safe_integer_def)
  from jump_then_message_marks_the_gap_read [OF sample_in_chat this, unfolded Let_def, THEN conjunct2]
  show ?thesis by (simp only:) (simp add: mounted_def sample_message_def)
qed

end
