(* ===== verification/Timezone.thy ===== *)
theory Timezone
  imports Clock
begin

text \<open>
  \<open>apps/web/src/lib/timezone.ts\<close>: the instant at which the clocks of a zone show a given local time. The
  zone is its offset at each instant, in milliseconds; the calendar of \<open>Intl.DateTimeFormat\<close> is the
  proleptic Gregorian one. Instants stand for their \<open>toISOString\<close>.

  The lemmas show that two corrections are enough around one change of the offset, whatever its sign, as
  long as the local time exists; and that tomorrow at nine is on the next local day.
\<close>

section \<open>The calendar\<close>

text \<open>A day in an era of 400 years that begin in March: the year of the era and the day of the year.\<close>

definition day_of_era :: "int \<Rightarrow> int \<times> int" where
  "day_of_era doe =
     (let c = min 3 (doe div 36524); r = doe - 36524 * c; q = r div 1461; s = r mod 1461; a = min 3 (s div 365)
      in (100 * c + 4 * q + a, s - 365 * a))"

text \<open>Year, month and day of a day since 1970-01-01.\<close>

definition civil_from_days :: "int \<Rightarrow> int \<times> int \<times> int" where
  "civil_from_days z =
     (let era = (z + 719468) div 146097; (yoe, doy) = day_of_era ((z + 719468) mod 146097);
          mp = (5 * doy + 2) div 153;
          month = (if mp < 10 then mp + 3 else mp - 9)
      in (400 * era + yoe + (if month \<le> 2 then 1 else 0), month, doy - (153 * mp + 2) div 5 + 1))"

record clock_parts =
  cp_year :: int
  cp_month :: int
  cp_day :: int
  cp_hour :: int
  cp_minute :: int
  cp_second :: int

definition zonedParts :: "(int \<Rightarrow> int) \<Rightarrow> int \<Rightarrow> clock_parts" where
  "zonedParts zone t =
     (let l = t + zone t; (y, m, d) = civil_from_days (l div day_ms); ms = l mod day_ms
      in \<lparr>cp_year = y, cp_month = m, cp_day = d, cp_hour = ms div 3600000, cp_minute = ms div 60000 mod 60,
          cp_second = ms div 1000 mod 60\<rparr>)"

text \<open>\<open>Date.UTC\<close> takes the years 0 to 99 for 1900 to 1999.\<close>

definition utc :: "int \<Rightarrow> int \<Rightarrow> int \<Rightarrow> int \<Rightarrow> int \<Rightarrow> int \<Rightarrow> int" where
  "utc y = date_utc (if 0 \<le> y \<and> y \<le> 99 then 1900 + y else y)"

section \<open>The conversion\<close>

definition correct :: "(int \<Rightarrow> int) \<Rightarrow> int \<Rightarrow> int \<Rightarrow> int" where
  "correct zone target instant =
     (let p = zonedParts zone instant
      in instant + (target - utc (cp_year p) (cp_month p - 1) (cp_day p) (cp_hour p) (cp_minute p) (cp_second p)))"

definition localPartsInZone :: "(int \<Rightarrow> int) \<Rightarrow> int \<Rightarrow> int \<Rightarrow> int \<Rightarrow> int \<Rightarrow> int \<Rightarrow> int" where
  "localPartsInZone zone year month day hour minute =
     (let target = utc year (month - 1) day hour minute 0
      in correct zone target (correct zone target target))"

definition local_pattern :: "jstring \<Rightarrow> (int \<times> int \<times> int \<times> int \<times> int) option" where
  "local_pattern s =
     (case take_digits 4 s of None \<Rightarrow> None | Some (y, s1) \<Rightarrow>
     (case parse_pair (ch CHR ''-'') s1 of None \<Rightarrow> None | Some (mo, s2) \<Rightarrow>
     (case parse_pair (ch CHR ''-'') s2 of None \<Rightarrow> None | Some (d, s3) \<Rightarrow>
     (case Option.bind (expect (ch CHR ''T'') s3) (take_digits 2) of None \<Rightarrow> None | Some (h, s4) \<Rightarrow>
     (case parse_pair (ch CHR '':'') s4 of None \<Rightarrow> None | Some (mi, s5) \<Rightarrow>
        if s5 = [] then Some (y, mo, d, h, mi) else None)))))"

text \<open>\<open>Inl\<close> the text itself where it is not a local time, else the instant.\<close>

definition localDateTimeInZone :: "(int \<Rightarrow> int) \<Rightarrow> jstring \<Rightarrow> jstring + int" where
  "localDateTimeInZone zone s =
     (case local_pattern s of
        None \<Rightarrow> Inl s
      | Some (y, mo, d, h, mi) \<Rightarrow> Inr (localPartsInZone zone y mo d h mi))"

definition tomorrowAtNine :: "(int \<Rightarrow> int) \<Rightarrow> int \<Rightarrow> int" where
  "tomorrowAtNine zone now =
     (let p = zonedParts zone now;
          (y, m, d) = civil_from_days (utc (cp_year p) (cp_month p - 1) (cp_day p + 1) 0 0 0 div day_ms)
      in localPartsInZone zone y m d 9 0)"

definition minutesFromNow :: "int \<Rightarrow> int \<Rightarrow> int" where
  "minutesFromNow now minutes = now + minutes * 60000"

section \<open>Days and dates\<close>

lemma day_of_era:
  assumes "day_of_era doe = (yoe, doy)" and "0 \<le> doe" and "doe < 146097"
  shows "0 \<le> yoe" "yoe < 400" "0 \<le> doy" "doy \<le> 365" "yoe * 365 + yoe div 4 - yoe div 100 + doy = doe"
    "36524 \<le> doe \<Longrightarrow> 100 \<le> yoe"
proof -
  define c where "c = min 3 (doe div 36524)"
  define r where "r = doe - 36524 * c"
  define q where "q = r div 1461"
  define s where "s = r mod 1461"
  define a where "a = min 3 (s div 365)"
  have yoe: "yoe = 100 * c + 4 * q + a" and doy: "doy = s - 365 * a"
    using assms(1) by (simp_all add: day_of_era_def Let_def c_def r_def q_def s_def a_def)
  have c: "0 \<le> c" "c \<le> 3" and c1: "36524 \<le> doe \<Longrightarrow> 1 \<le> c" using assms(2,3) by (auto simp: c_def)
  have r: "0 \<le> r" "r \<le> 36524" using assms(2,3) by (auto simp: c_def r_def)
  have q: "0 \<le> q" "q \<le> 24" using r by (auto simp: q_def)
  have s: "0 \<le> s" "s \<le> 1460" by (auto simp: s_def)
  have a: "0 \<le> a" "a \<le> 3" and day: "0 \<le> doy" "doy \<le> 365" using s by (auto simp: a_def doy)
  show "0 \<le> doy" "doy \<le> 365" "0 \<le> yoe" "yoe < 400" using c q a day by (auto simp: yoe)
  show "36524 \<le> doe \<Longrightarrow> 100 \<le> yoe" using c1 q a by (auto simp: yoe)
  have "yoe div 4 = 25 * c + q" "yoe div 100 = c" using c q a by (auto simp: yoe)
  moreover have "doe = 36524 * c + (1461 * q + s)" by (simp add: q_def s_def r_def)
  ultimately show "yoe * 365 + yoe div 4 - yoe div 100 + doy = doe" by (simp add: yoe doy)
qed

lemma days_of_civil:
  assumes "civil_from_days z = (y, m, d)"
  shows "days_from_civil y m d = z" "1 \<le> m" "m \<le> 12" "-682944 \<le> z \<Longrightarrow> 100 \<le> y"
proof -
  define era where "era = (z + 719468) div 146097"
  define doe where "doe = (z + 719468) mod 146097"
  obtain yoe doy where e: "day_of_era doe = (yoe, doy)" by fastforce
  have "0 \<le> doe" "doe < 146097" by (simp_all add: doe_def)
  note parts = day_of_era [OF e this]
  define mp where "mp = (5 * doy + 2) div 153"
  have mp: "0 \<le> mp" "mp \<le> 11" using parts(3,4) by (auto simp: mp_def)
  have y: "y = 400 * era + yoe + (if m \<le> 2 then 1 else 0)"
    and m: "m = (if mp < 10 then mp + 3 else mp - 9)" and d: "d = doy - (153 * mp + 2) div 5 + 1"
    using assms e by (auto simp: civil_from_days_def Let_def era_def doe_def mp_def)
  show bounds: "1 \<le> m" "m \<le> 12" using m mp by auto
  have march: "(if m \<le> 2 then y - 1 else y) = 400 * era + yoe" using y by simp
  have month: "(m + 9) mod 12 = mp"
  proof (cases "mp < 10")
    case True
    then have "m + 9 = mp + 12" by (simp add: m)
    then show ?thesis using mp by simp
  next
    case False
    then have "m + 9 = mp" by (simp add: m)
    then show ?thesis using mp by simp
  qed
  have whole: "z + 719468 = era * 146097 + doe" by (simp add: era_def doe_def)
  have "(400 * era + yoe) div 400 = era" "(400 * era + yoe) mod 400 = yoe" using parts(1,2) by simp_all
  then show "days_from_civil y m d = z"
    unfolding days_from_civil_def Let_def march month d using parts(5) whole by simp
  assume "-682944 \<le> z"
  then have "0 \<le> era \<and> (era = 0 \<longrightarrow> 36524 \<le> doe)" using whole by (auto simp: era_def)
  then show "100 \<le> y" using y parts(1,6) by (cases "era = 0") auto
qed

lemma clock_of_milliseconds:
  fixes r :: int
  assumes "r mod 1000 = 0"
  shows "r = r div 3600000 * 3600000 + r div 60000 mod 60 * 60000 + r div 1000 mod 60 * 1000"
proof -
  define s where "s = r div 1000"
  have r: "r = 1000 * s" using assms by (auto simp: s_def)
  have m: "r div 60000 = s div 60" using zdiv_zmult2_eq [of 60 r 1000] by (simp add: s_def)
  have "r div 3600000 = s div 3600" using zdiv_zmult2_eq [of 3600 r 1000] by (simp add: s_def)
  then have h: "r div 3600000 = s div 60 div 60" using zdiv_zmult2_eq [of 60 s 60] by simp
  have sum: "1000 * s = a * 3600000 + b * 60000 + c * 1000" if "k * 60 + c = s" "a * 60 + b = k" for a b c k
    using that(1) [symmetric] that(2) [symmetric] by (simp add: distrib_right distrib_left)
  show ?thesis
    unfolding m h s_def [symmetric] by (rule trans [OF r sum [OF div_mult_mod_eq div_mult_mod_eq]])
qed

lemma utc_of_civil:
  assumes "civil_from_days z = (y, m, d)" and "-682944 \<le> z"
  shows "utc y (m - 1) (d + k) h mi se = z * day_ms + k * day_ms + h * 3600000 + mi * 60000 + se * 1000"
proof -
  note days = days_of_civil [OF assms(1)]
  have "(m - 1) div 12 = 0" "(m - 1) mod 12 = m - 1" using days(2,3) by simp_all
  then show ?thesis
    using days(1,4) assms(2) date_utc_day_shift [of y "m - 1" d k h mi se] by (simp add: utc_def date_utc_def)
qed

text \<open>What the clocks show, in whole seconds.\<close>

lemma zonedParts_utc:
  assumes "zonedParts zone t = p" and "(t + zone t) mod 1000 = 0" and "-59006361600000 \<le> t + zone t"
  shows "utc (cp_year p) (cp_month p - 1) (cp_day p) (cp_hour p) (cp_minute p) (cp_second p) = t + zone t"
proof -
  let ?l = "t + zone t"
  obtain y m d where c: "civil_from_days (?l div day_ms) = (y, m, d)" by (metis prod_cases3)
  have p: "cp_year p = y" "cp_month p = m" "cp_day p = d" "cp_hour p = ?l mod day_ms div 3600000"
    "cp_minute p = ?l mod day_ms div 60000 mod 60" "cp_second p = ?l mod day_ms div 1000 mod 60"
    using assms(1) by (auto simp: zonedParts_def c Let_def)
  have shown: "utc y (m - 1) d h mi se = ?l div day_ms * day_ms + h * 3600000 + mi * 60000 + se * 1000" for h mi se
    using utc_of_civil [OF c, where k = 0] assms(3) by (simp add: day_ms_def)
  have "?l mod day_ms mod 1000 = 0" using assms(2) by (simp add: day_ms_def mod_mod_cancel)
  note ms = clock_of_milliseconds [OF this]
  have sum: "q + h + mi + se = l" if "m = h + mi + se" "q + m = l" for q h mi se l m :: int
    using that(1) [symmetric] that(2) [symmetric] by simp
  show ?thesis
    unfolding p shown by (rule sum [OF ms div_mult_mod_eq])
qed

section \<open>Local times that exist are found\<close>

text \<open>Offsets are whole seconds and at most 14 hours.\<close>

definition ordinary :: "(int \<Rightarrow> int) \<Rightarrow> bool" where
  "ordinary zone \<longleftrightarrow> (\<forall>u. zone u mod 1000 = 0 \<and> \<bar>zone u\<bar> \<le> 50400000)"

text \<open>Within a day around an instant the offset is \<open>a\<close> before \<open>T\<close> and \<open>b\<close> from then on.\<close>

definition one_change :: "(int \<Rightarrow> int) \<Rightarrow> int \<Rightarrow> int \<Rightarrow> int \<Rightarrow> int \<Rightarrow> bool" where
  "one_change zone target T a b \<longleftrightarrow> (\<forall>u. \<bar>u - target\<bar> \<le> day_ms \<longrightarrow> zone u = (if u < T then a else b))"

lemma correct_eq:
  assumes "ordinary zone" and "x mod 1000 = 0" and "-100800000 \<le> x"
  shows "correct zone target x = target - zone x"
proof -
  have "(x + zone x) mod 1000 = 0" using assms(1,2) by (simp add: ordinary_def mod_add_eq [symmetric])
  moreover have "\<bar>zone x\<bar> \<le> 50400000" using assms(1) by (simp add: ordinary_def)
  then have "-59006361600000 \<le> x + zone x" using assms(3) by linarith
  ultimately show ?thesis by (simp add: correct_def Let_def zonedParts_utc)
qed

lemma corrected_twice:
  assumes "ordinary zone" and "one_change zone target T a b" and "target mod 1000 = 0" and "0 \<le> target"
    and "t + zone t = target"
  shows "let r = correct zone target (correct zone target target) in r + zone r = target"
proof -
  have bounded: "\<bar>zone u\<bar> \<le> 50400000" for u using assms(1) by (simp add: ordinary_def)
  have near: "zone (target - zone u) = (if target - zone u < T then a else b)" for u
  proof -
    have "\<bar>target - zone u - target\<bar> \<le> day_ms" using bounded [of u] by (simp add: day_ms_def)
    then show ?thesis using assms(2) unfolding one_change_def by blast
  qed
  have here: "zone target = (if target < T then a else b)"
    using assms(2) unfolding one_change_def day_ms_def by simp
  have t: "t = target - zone t" using assms(5) by simp
  then have exists: "zone t = (if t < T then a else b)" using near [of t] by simp
  let ?x = "target - zone target"
  have "target mod 1000 = 0" "zone target mod 1000 = 0" using assms(1,3) by (simp_all add: ordinary_def)
  then have "?x mod 1000 = 0" by (simp add: mod_diff_eq [symmetric])
  moreover have "-100800000 \<le> ?x" using bounded [of target] assms(4) by linarith
  ultimately have "correct zone target ?x = target - zone ?x" by (intro correct_eq [OF assms(1)])
  moreover have "correct zone target target = ?x" using correct_eq [OF assms(1,3)] assms(4) by simp
  moreover have "target - zone ?x + zone (target - zone ?x) = target"
    using near [of target] near [of ?x] here exists t by (auto split: if_splits)
  ultimately show ?thesis by (simp add: Let_def)
qed

lemma utc_minutes: "utc y m d h mi 0 mod 1000 = 0"
  by (simp add: utc_def date_utc_def day_ms_def mod_add_eq [symmetric] mod_mult_eq [symmetric])

text \<open>C31: A local time that exists in the zone is converted to an instant at which the zone's clocks show it,
  also when the offset changes within a day of it, forwards or backwards.\<close>

theorem existing_local_times_are_found:
  assumes "ordinary zone" and "local_pattern s = Some (y, mo, d, h, mi)"
    and "one_change zone (utc y (mo - 1) d h mi 0) T a b" and "0 \<le> utc y (mo - 1) d h mi 0"
    and "t + zone t = utc y (mo - 1) d h mi 0"
  shows "\<exists>r. localDateTimeInZone zone s = Inr r \<and> r + zone r = utc y (mo - 1) d h mi 0"
  using corrected_twice [OF assms(1,3) utc_minutes assms(4,5)] assms(2)
  by (simp add: localDateTimeInZone_def localPartsInZone_def Let_def)

text \<open>Berlin in the spring of 2026: the offset goes from one to two hours at 01:00 UTC on 29 March.\<close>

definition berlin :: "int \<Rightarrow> int" where
  "berlin u = (if u < 1774746000000 then 3600000 else 7200000)"

lemma berlin_facts: "ordinary berlin" "one_change berlin target 1774746000000 3600000 7200000"
  by (simp_all add: ordinary_def one_change_def berlin_def)

theorem existing_local_times_are_found_witness:
  "\<exists>r. localDateTimeInZone berlin (js ''2026-03-29T03:30'') = Inr r \<and> r + berlin r = 1774755000000"
proof -
  have s: "local_pattern (js ''2026-03-29T03:30'') = Some (2026, 3, 29, 3, 30)" by code_simp
  have u: "utc 2026 (3 - 1) 29 3 30 0 = 1774755000000" by code_simp
  have "0 \<le> utc 2026 (3 - 1) 29 3 30 0" "1774747800000 + berlin 1774747800000 = utc 2026 (3 - 1) 29 3 30 0"
    unfolding u by (simp_all add: berlin_def)
  from existing_local_times_are_found [OF berlin_facts(1) s berlin_facts(2) this] show ?thesis unfolding u .
qed

text \<open>The hour that is skipped there does not exist; the conversion takes it for an hour later on the clocks.\<close>

lemma skipped_hour:
  "localDateTimeInZone berlin (js ''2026-03-29T02:30'') = Inr 1774747800000"
  "1774747800000 + berlin 1774747800000 = utc 2026 2 29 3 30 0"
proof -
  have s: "local_pattern (js ''2026-03-29T02:30'') = Some (2026, 3, 29, 2, 30)" by code_simp
  have u: "utc 2026 2 29 2 30 0 = 1774751400000" by code_simp
  show "localDateTimeInZone berlin (js ''2026-03-29T02:30'') = Inr 1774747800000"
    by (simp add: localDateTimeInZone_def s localPartsInZone_def Let_def u correct_eq [OF berlin_facts(1)] berlin_def
        del: js_Cons)
  have "utc 2026 2 29 3 30 0 = 1774755000000" by code_simp
  then show "1774747800000 + berlin 1774747800000 = utc 2026 2 29 3 30 0" by (simp only: berlin_def) simp
qed

text \<open>Tomorrow at nine is an instant of the next local day at which the clocks show nine, if they do so on
  that day.\<close>

theorem tomorrow_at_nine_is_tomorrow:
  assumes "ordinary zone" and "0 \<le> now"
    and "one_change zone ((local_day zone now + 1) * day_ms + 9 * 3600000) T a b"
    and "t + zone t = (local_day zone now + 1) * day_ms + 9 * 3600000"
  shows "tomorrowAtNine zone now + zone (tomorrowAtNine zone now) = (local_day zone now + 1) * day_ms + 9 * 3600000"
proof -
  let ?day = "local_day zone now + 1"
  obtain y m d where c: "civil_from_days (local_day zone now) = (y, m, d)" by (metis prod_cases3)
  obtain y' m' d' where c': "civil_from_days ?day = (y', m', d')" by (metis prod_cases3)
  have "\<bar>zone now\<bar> \<le> 50400000" using assms(1) by (simp add: ordinary_def)
  then have "-1 \<le> local_day zone now" using assms(2) by (simp add: local_day_def day_ms_def)
  then have "utc y (m - 1) (d + 1) 0 0 0 = ?day * day_ms" and u: "utc y' (m' - 1) d' 9 0 0 = ?day * day_ms + 9 * 3600000"
    and nonneg: "0 \<le> ?day * day_ms + 9 * 3600000"
    using utc_of_civil [OF c, of 1 0 0 0] utc_of_civil [OF c', of 0 9 0 0]
    by (simp_all add: distrib_right day_ms_def)
  moreover have "?day * day_ms div day_ms = ?day" by (simp add: day_ms_def)
  ultimately have "tomorrowAtNine zone now = localPartsInZone zone y' m' d' 9 0"
    using c c' by (simp add: tomorrowAtNine_def zonedParts_def Let_def local_day_def)
  moreover have "let r = localPartsInZone zone y' m' d' 9 0 in r + zone r = ?day * day_ms + 9 * 3600000"
    using corrected_twice [OF assms(1,3) _ nonneg assms(4)] utc_minutes [of y' "m' - 1" d' 9 0]
    by (simp add: localPartsInZone_def Let_def u)
  ultimately show ?thesis by (simp add: Let_def)
qed

theorem tomorrow_at_nine_is_tomorrow_witness:
  "tomorrowAtNine berlin 1774695600000 + berlin (tomorrowAtNine berlin 1774695600000) = 1774774800000"
proof -
  have day: "(local_day berlin 1774695600000 + 1) * day_ms + 9 * 3600000 = 1774774800000" by code_simp
  have "1774767600000 + berlin 1774767600000 = (local_day berlin 1774695600000 + 1) * day_ms + 9 * 3600000"
    by (simp only: day) (simp add: berlin_def)
  from tomorrow_at_nine_is_tomorrow [OF berlin_facts(1) _ berlin_facts(2) this] show ?thesis unfolding day by simp
qed

end
