(* ===== verification/Sdk_Admin.thy ===== *)
theory Sdk_Admin
  imports Sdk Js_Number "HOL-Library.List_Lexorder"
begin

text \<open>
  The provisioning side of the agent SDK: \<open>packages/agent-sdk/src/admin.ts\<close>, and what
  \<open>packages/agent-sdk/src/cli.ts\<close> does with it. The answers of the core are arguments, each a response or
  the rejection of \<open>fetch\<close>; \<open>lower\<close> is \<open>toLowerCase\<close> and \<open>uuid\<close> the result of \<open>crypto.randomUUID\<close>. The
  input the core gives a command run is that of \<open>core/internal/agenttrigger/service.go\<close>.

  The lemmas show that provisioning enables an agent only with a key and deletes it after every failure,
  that its scopes are those of its tools, and that handles fit the core's pattern; and that a handler sees
  the command of a simulated run but never that of a run a command has started.
\<close>

section \<open>Handles and scopes\<close>

definition handle_char :: "cunit \<Rightarrow> bool" where
  "handle_char c \<longleftrightarrow> is_lower c \<or> is_digit c \<or> c = ch CHR ''_'' \<or> c = ch CHR ''.'' \<or> c = ch CHR ''-''"

definition handle_edge :: "cunit \<Rightarrow> bool" where
  "handle_edge c \<longleftrightarrow> is_lower c \<or> is_digit c"

text \<open>Every run of other characters becomes one dash.\<close>

fun dashed :: "bool \<Rightarrow> jstring \<Rightarrow> jstring" where
  "dashed in_run [] = []"
| "dashed in_run (c # cs) =
     (if handle_char c then c # dashed False cs
      else if in_run then dashed True cs else ch CHR ''-'' # dashed True cs)"

definition trim_edges :: "jstring \<Rightarrow> jstring" where
  "trim_edges s = rev (dropWhile (\<lambda>c. \<not> handle_edge c) (rev (dropWhile (\<lambda>c. \<not> handle_edge c) s)))"

definition safeHandle :: "(jstring \<Rightarrow> jstring) \<Rightarrow> jstring \<Rightarrow> jstring \<Rightarrow> jstring" where
  "safeHandle lower uuid s =
     (let normalized = take 24 (trim_edges (dashed False (lower s)))
      in (if normalized = [] then js ''agent'' else normalized) @ js ''-'' @ take 7 uuid)"

text \<open>\<open>byTool\<close>; the names of \<open>Object.prototype\<close> are not tools.\<close>

definition byTool :: "(jstring \<times> jstring) list" where
  "byTool =
     [(js ''get_chat_messages'', js ''messages:read''), (js ''get_thread'', js ''messages:read''),
      (js ''search_messages'', js ''search:read''), (js ''post_message'', js ''messages:write''),
      (js ''reply_in_thread'', js ''messages:write''), (js ''add_reaction'', js ''reactions:write''),
      (js ''get_file_text'', js ''files:read''), (js ''list_members'', js ''members:read''),
      (js ''remember'', js ''memory:write''), (js ''recall'', js ''memory:read'')]"

definition scopes_of :: "jstring list \<Rightarrow> jstring list" where
  "scopes_of ts = List.map_filter (map_of byTool) ts"

definition scopesForRecipe :: "recipe \<Rightarrow> jstring list" where
  "scopesForRecipe r = sort (remdups (js ''runtime:execute'' # scopes_of (rc_tools r)))"

section \<open>Provisioning\<close>

type_synonym exchange = "(jstring, http_response) result"

text \<open>\<open>AgentAdminClient.request\<close>, for which an answer 204 is undefined.\<close>

definition admin_answer :: "exchange \<Rightarrow> (sdk_error, json option) result" where
  "admin_answer x =
     (case x of
        Inl e \<Rightarrow> Inl (Thrown e)
      | Inr r \<Rightarrow>
          if hs_status r = 204 then Inr None
          else (case decode r of Inl e \<Rightarrow> Inl e | Inr v \<Rightarrow> Inr (Some v)))"

record provision_input =
  pi_displayName :: "jstring option"
  pi_handle :: "jstring option"
  pi_chatIDs :: "jstring list"
  pi_endpointURL :: "jstring option"
  pi_rateLimitPerMinute :: "int option"

definition strings :: "jstring list \<Rightarrow> json" where
  "strings ss = JArr (map JStr ss)"

definition create_agent :: "jstring \<Rightarrow> recipe \<Rightarrow> provision_input \<Rightarrow> agent_client \<Rightarrow> http_request" where
  "create_agent handle r i =
     raw (js ''/api/v1/agents'') (js ''POST'')
       (Some (JObj
         [(js ''display_name'', JStr (default_to (rc_name r) (pi_displayName i))),
          (js ''handle'', JStr handle), (js ''kind'', JStr (js ''external'')), (js ''recipe'', JStr (js ''custom'')),
          (js ''description'', JStr (rc_instructions r)), (js ''enabled'', JBool False),
          (js ''allowed_scopes'', strings (scopesForRecipe r)),
          (js ''endpoint_url'', JStr (default_to (js ''http://127.0.0.1'') (pi_endpointURL i))),
          (js ''external_data_sharing_approved'', JBool False),
          (js ''rate_limit_per_minute'', JNum (default_to 300 (pi_rateLimitPerMinute i))),
          (js ''provider_rate_limit_per_minute'', JNum 300), (js ''execution_timeout_seconds'', JNum 600),
          (js ''max_output_tokens'', JNum 2048), (js ''max_tool_iterations'', JNum 8), (js ''max_chain_depth'', JNum 3),
          (js ''per_chat_concurrency'', JNum 1), (js ''chat_ids'', strings (pi_chatIDs i))]))"

definition create_key :: "jstring \<Rightarrow> recipe \<Rightarrow> provision_input \<Rightarrow> agent_client \<Rightarrow> http_request" where
  "create_key aid r i =
     raw (js ''/api/v1/agents/'' @ aid @ js ''/keys'') (js ''POST'')
       (Some (JObj [(js ''name'', JStr (js ''coma-agent-dev'')), (js ''scopes'', strings (scopesForRecipe r)),
         (js ''rate_limit_per_minute'', JNum (default_to 300 (pi_rateLimitPerMinute i)))]))"

definition enable_agent :: "jstring \<Rightarrow> agent_client \<Rightarrow> http_request" where
  "enable_agent aid = raw (js ''/api/v1/agents/'' @ aid) (js ''PATCH'') (Some (JObj [(js ''enabled'', JBool True)]))"

definition delete_agent :: "jstring \<Rightarrow> agent_client \<Rightarrow> http_request" where
  "delete_agent aid = raw (js ''/api/v1/agents/'' @ aid) (js ''DELETE'') None"

text \<open>\<open>encodeURIComponent(agent.id)\<close> of the created agent: \<open>Inl\<close> where the answer has no body or its id cannot
  be encoded.\<close>

definition agent_path :: "json option \<Rightarrow> (sdk_error, jstring) result" where
  "agent_path v =
     (case v of
        None \<Rightarrow> Inl (Thrown (js ''TypeError''))
      | Some JNull \<Rightarrow> Inl (Thrown (js ''TypeError''))
      | Some o' \<Rightarrow>
          (case encodeURIComponent (case get (js ''id'') o' of Some (JStr s) \<Rightarrow> s | Some x \<Rightarrow> stringify x | None \<Rightarrow> js ''undefined'') of
             None \<Rightarrow> Inl (Thrown (js ''URIError''))
           | Some p \<Rightarrow> Inr p))"

text \<open>\<open>key.secret\<close>\<close>

definition secret_of :: "json option \<Rightarrow> (sdk_error, json option) result" where
  "secret_of v =
     (case v of None \<Rightarrow> Inl (Thrown (js ''TypeError'')) | Some JNull \<Rightarrow> Inl (Thrown (js ''TypeError''))
      | Some o' \<Rightarrow> Inr (get (js ''secret'') o'))"

text \<open>The requests sent, and the agent with its key, or the error.\<close>

definition provisionExternalAgent ::
  "(jstring \<Rightarrow> jstring) \<Rightarrow> jstring \<Rightarrow> recipe \<Rightarrow> provision_input \<Rightarrow> exchange \<Rightarrow> exchange \<Rightarrow> exchange \<Rightarrow>
   agent_client \<Rightarrow> http_request list \<times> (sdk_error, json option \<times> json option) result" where
  "provisionExternalAgent lower uuid r i created key enabled c =
     (if pi_chatIDs i = [] then
        ([], Inl (AgentSDKError (JStr (js ''chat_required'')) 0 (JStr (js ''At least one chat is required''))))
      else
        let first = create_agent (case pi_handle i of Some h \<Rightarrow> h | None \<Rightarrow> safeHandle lower uuid (rc_name r)) r i c in
        case admin_answer created of
          Inl e \<Rightarrow> ([first], Inl e)
        | Inr agent \<Rightarrow>
            (case agent_path agent of
               Inl e \<Rightarrow> ([first], Inl e)
             | Inr aid \<Rightarrow>
                 (case admin_answer key of
                    Inl e \<Rightarrow> ([first, create_key aid r i c, delete_agent aid c], Inl e)
                  | Inr k \<Rightarrow>
                      (case admin_answer enabled of
                         Inl e \<Rightarrow> ([first, create_key aid r i c, enable_agent aid c, delete_agent aid c], Inl e)
                       | Inr _ \<Rightarrow>
                           (case secret_of k of
                              Inl e \<Rightarrow> ([first, create_key aid r i c, enable_agent aid c, delete_agent aid c], Inl e)
                            | Inr secret \<Rightarrow> ([first, create_key aid r i c, enable_agent aid c], Inr (agent, secret)))))))"

section \<open>Simulated runs\<close>

datatype simulation = Mention | Command | Schedule

text \<open>\<open>split(/\s+/)\<close>\<close>

function split_spaces :: "jstring \<Rightarrow> jstring list" where
  "split_spaces s =
     (let w = takeWhile (\<lambda>c. \<not> is_space c) s; r = dropWhile (\<lambda>c. \<not> is_space c) s
      in if r = [] then [w] else w # split_spaces (dropWhile is_space r))"
  by pat_completeness auto

termination
proof (relation "measure length")
  fix s w r :: jstring
  assume r: "r = dropWhile (\<lambda>c. \<not> is_space c) s" "r \<noteq> []"
  then obtain c cs where cs: "r = c # cs" by (metis list.exhaust)
  then have "is_space c" using r hd_dropWhile [of "\<lambda>c. \<not> is_space c" s] by auto
  then have "length (dropWhile is_space r) \<le> length cs" by (simp add: cs length_dropWhile_le)
  moreover have "length r \<le> length s" unfolding r by (rule length_dropWhile_le)
  ultimately show "(dropWhile is_space r, s) \<in> measure length" by (simp add: cs)
qed simp

declare split_spaces.simps [simp del]

definition command_text :: "jstring option \<Rightarrow> jstring option \<Rightarrow> jstring" where
  "command_text command t =
     js_trim (case command of Some u \<Rightarrow> u | None \<Rightarrow> (case t of Some u \<Rightarrow> u | None \<Rightarrow> js ''/test''))"

text \<open>\<open>replace(/^\//, "")\<close>\<close>

definition unslash :: "jstring \<Rightarrow> jstring" where
  "unslash s = (if starts_with (js ''/'') s then drop 1 s else s)"

definition simulationInput :: "jstring \<Rightarrow> simulation \<Rightarrow> jstring option \<Rightarrow> jstring option \<Rightarrow> json" where
  "simulationInput now kind t command =
     JObj [(js ''simulated'', JBool True),
       (js ''trigger'',
         (case kind of
            Command \<Rightarrow>
              (let ws = split_spaces (unslash (command_text command t))
               in JObj [(js ''type'', JStr (js ''command'')), (js ''command'', JStr (hd ws)),
                        (js ''arguments'', JStr (join_with (js '' '') (tl ws)))])
          | Schedule \<Rightarrow>
              JObj [(js ''type'', JStr (js ''schedule'')), (js ''scheduled_for'', JStr now), (js ''since_last_run'', JNull)]
          | Mention \<Rightarrow>
              JObj [(js ''type'', JStr (js ''mention'')),
                    (js ''text'', JStr (case t of Some u \<Rightarrow> u | None \<Rightarrow> js ''@agent test''))]))]"

definition simulate ::
  "jstring \<Rightarrow> jstring \<Rightarrow> jstring \<Rightarrow> jstring \<Rightarrow> simulation \<Rightarrow> jstring option \<Rightarrow> jstring option \<Rightarrow> agent_client \<Rightarrow>
   http_request option" where
  "simulate uuid now agentID chatID kind t command c =
     map_option (\<lambda>a. raw (js ''/api/v1/agents/'' @ a @ js ''/invoke'') (js ''POST'')
       (Some (JObj [(js ''chat_id'', JStr chatID), (js ''client_run_id'', JStr uuid), (js ''chain_depth'', JNum 0),
         (js ''timeout_seconds'', JNum 600), (js ''max_attempts'', JNum 1),
         (js ''input'', simulationInput now kind t command)])) c) (encodeURIComponent agentID)"

text \<open>What the core stores as the input of a run that a command or a schedule has started.\<close>

record trigger_facts =
  tf_event_seq :: int
  tf_event_type :: jstring
  tf_subject_id :: json
  tf_source_chat_id :: json
  tf_chat_id :: json
  tf_thread_root_id :: json
  tf_message_body :: jstring
  tf_trigger_id :: jstring

definition core_command_input :: "trigger_facts \<Rightarrow> jstring \<Rightarrow> jstring \<Rightarrow> json" where
  "core_command_input f command arguments =
     JObj [(js ''event_seq'', JNum (tf_event_seq f)), (js ''event_type'', JStr (tf_event_type f)),
       (js ''subject_id'', tf_subject_id f), (js ''source_chat_id'', tf_source_chat_id f),
       (js ''chat_id'', tf_chat_id f), (js ''thread_root_id'', tf_thread_root_id f),
       (js ''message_body'', JStr (tf_message_body f)), (js ''trigger_type'', JStr (js ''command'')),
       (js ''trigger_id'', JStr (tf_trigger_id f)), (js ''command'', JStr command),
       (js ''command_arguments'', JStr arguments)]"

definition core_schedule_input :: "jstring \<Rightarrow> json \<Rightarrow> jstring \<Rightarrow> jstring \<Rightarrow> jstring \<Rightarrow> json" where
  "core_schedule_input scheduled sinceLast chat tz trigger_id =
     JObj [(js ''scheduled_for'', JStr scheduled), (js ''since_last_run'', sinceLast), (js ''chat_id'', JStr chat),
       (js ''timezone'', JStr tz), (js ''trigger_type'', JStr (js ''schedule'')), (js ''trigger_id'', JStr trigger_id)]"

section \<open>The command line\<close>

text \<open>\<open>positiveInteger\<close> of \<open>Number(raw)\<close>, \<open>None\<close> where that is not a safe integer.\<close>

definition positiveInteger :: "int option \<Rightarrow> jstring \<Rightarrow> (sdk_error, int) result" where
  "positiveInteger n name =
     (case n of
        Some v \<Rightarrow> if 1 \<le> v \<and> v \<le> 32 then Inr v
                  else Inl (AgentSDKError (JStr (js ''invalid_argument'')) 0 (JStr (name @ js '' must be 1'' @ [0x2013] @ js ''32'')))
      | None \<Rightarrow> Inl (AgentSDKError (JStr (js ''invalid_argument'')) 0 (JStr (name @ js '' must be 1'' @ [0x2013] @ js ''32''))))"

text \<open>What a recipe module exports: nothing usable, or an object with the fields of a recipe.\<close>

datatype candidate = NoObject | RecipeObject recipe

definition loadRecipe :: "candidate option \<Rightarrow> candidate option \<Rightarrow> (sdk_error, recipe) result" where
  "loadRecipe default_export named =
     (case (case default_export of None \<Rightarrow> named | Some x \<Rightarrow> Some x) of
        Some (RecipeObject r) \<Rightarrow>
          if rc_name r = [] \<or> rc_instructions r = [] \<or> \<not> rc_onRun r
          then Inl (AgentSDKError (JStr (js ''invalid_agent_recipe'')) 0
                 (JStr (js ''Development recipes require name, instructions, and onRun'')))
          else Inr r
      | _ \<Rightarrow> Inl (AgentSDKError (JStr (js ''agent_recipe_missing'')) 0
               (JStr (js ''Recipe module must export default or recipe''))))"

record dev_options =
  do_entry :: "jstring option"
  do_url :: "jstring option"
  do_token :: "jstring option"
  do_key :: "jstring option"
  do_chats :: "jstring list"
  do_name :: "jstring option"
  do_handle :: "jstring option"
  do_endpoint :: "jstring option"
  do_concurrency :: "int option"

definition given :: "jstring option \<Rightarrow> bool" where
  "given v \<longleftrightarrow> v \<noteq> None \<and> v \<noteq> Some []"

definition dev_input :: "dev_options \<Rightarrow> provision_input" where
  "dev_input o' =
     \<lparr>pi_displayName = do_name o', pi_handle = do_handle o', pi_chatIDs = do_chats o',
      pi_endpointURL = do_endpoint o', pi_rateLimitPerMinute = None\<rparr>"

text \<open>How \<open>dev\<close> starts: with the usage, with an error, or with workers of a recipe and a key, which may be
  what an answer of the core lacked.\<close>

datatype dev_start = Usage | Rejected sdk_error | Running recipe int "json option"

definition run_workers :: "recipe \<Rightarrow> dev_options \<Rightarrow> json option \<Rightarrow> dev_start" where
  "run_workers r o' key =
     (case positiveInteger (do_concurrency o') (js ''concurrency'') of
        Inl e \<Rightarrow> Rejected e | Inr n \<Rightarrow> Running r n key)"

definition dev ::
  "dev_options \<Rightarrow> (sdk_error, recipe) result \<Rightarrow>
   (recipe \<Rightarrow> provision_input \<Rightarrow> http_request list \<times> (sdk_error, json option \<times> json option) result) \<Rightarrow>
   http_request list \<times> dev_start" where
  "dev o' loaded provision =
     (if \<not> given (do_entry o') \<or> \<not> given (do_url o') then ([], Usage)
      else
        case loaded of
          Inl e \<Rightarrow> ([], Rejected e)
        | Inr r \<Rightarrow>
            if given (do_key o') then ([], run_workers r o' (map_option JStr (do_key o')))
            else if \<not> given (do_token o') \<or> do_chats o' = [] then ([], Usage)
            else
              (let (requests, answer) = provision r (dev_input o')
               in (requests, case answer of Inl e \<Rightarrow> Rejected e | Inr (agent, key) \<Rightarrow> run_workers r o' key)))"

section \<open>Handles\<close>

text \<open>The core's pattern \<open>^[a-z0-9][a-z0-9_.-]{1,31}$\<close>.\<close>

definition handle_pattern :: "jstring \<Rightarrow> bool" where
  "handle_pattern s \<longleftrightarrow> s \<noteq> [] \<and> handle_edge (hd s) \<and> list_all handle_char s \<and> 2 \<le> length s \<and> length s \<le> 32"

lemma dash_is_handle_char [simp]: "handle_char 45"
  by (simp add: handle_char_def)

lemma dashed_chars: "list_all handle_char (dashed b s)"
  by (induction b s rule: dashed.induct) simp_all

lemma trim_edges_facts:
  "list_all P s \<Longrightarrow> list_all P (trim_edges s)"
  "trim_edges s \<noteq> [] \<Longrightarrow> handle_edge (hd (trim_edges s))"
proof -
  let ?t = "dropWhile (\<lambda>c. \<not> handle_edge c) s"
  have sub: "set (trim_edges s) \<subseteq> set s"
    by (auto simp: trim_edges_def dest!: set_dropWhileD)
  then show "list_all P s \<Longrightarrow> list_all P (trim_edges s)" by (auto simp: list_all_iff)
  assume ne: "trim_edges s \<noteq> []"
  let ?z = "takeWhile (\<lambda>c. \<not> handle_edge c) (rev ?t)"
  have "?z @ rev (trim_edges s) = rev ?t" unfolding trim_edges_def rev_rev_ident by (rule takeWhile_dropWhile_id)
  then have "rev (?z @ rev (trim_edges s)) = rev (rev ?t)" by (rule arg_cong)
  then have "?t = trim_edges s @ rev ?z" unfolding rev_append rev_rev_ident by (rule sym)
  then obtain z where t: "?t = trim_edges s @ z" by (rule that)
  have "?t \<noteq> []" unfolding t using ne by simp
  then have "handle_edge (hd ?t)" using hd_dropWhile [of "\<lambda>c. \<not> handle_edge c" s] by blast
  then have "handle_edge (hd (trim_edges s @ z))" unfolding t .
  then show "handle_edge (hd (trim_edges s))" using ne by simp
qed

text \<open>The handle made of a recipe's name fits the core's pattern, whatever the name is.\<close>

theorem safe_handles_fit_the_pattern:
  assumes "list_all handle_char uuid" and "7 \<le> length uuid"
  shows "handle_pattern (safeHandle lower uuid s)"
proof -
  let ?n = "take 24 (trim_edges (dashed False (lower s)))"
  have chars: "list_all handle_char ?n"
    using trim_edges_facts(1) [OF dashed_chars] by (auto simp: list_all_iff dest: in_set_takeD)
  have tail: "list_all handle_char (take 7 uuid)" "length (take 7 uuid) = 7"
    using assms by (auto simp: list_all_iff dest: in_set_takeD)
  show ?thesis
  proof (cases "?n = []")
    case True
    have "list_all handle_char (js ''agent'')" "handle_edge (hd (js ''agent''))" by code_simp+
    then show ?thesis using True tail by (simp add: safeHandle_def handle_pattern_def)
  next
    case False
    then have "handle_edge (hd ?n)" using trim_edges_facts(2) by (simp add: hd_take)
    then show ?thesis using False chars tail by (simp add: safeHandle_def handle_pattern_def Let_def)
  qed
qed

theorem safe_handles_fit_the_pattern_witness:
  "handle_pattern (safeHandle (\<lambda>s. s) (js ''0123456-89ab'') (js ''--Release Notes!''))"
  by (rule safe_handles_fit_the_pattern) code_simp+

section \<open>Scopes\<close>

lemma scopes_are_those_of_the_tools:
  "set (scopesForRecipe r) = insert (js ''runtime:execute'') {s. \<exists>t \<in> set (rc_tools r). map_of byTool t = Some s}"
  "distinct (scopesForRecipe r)" "sorted (scopesForRecipe r)"
proof -
  have "set (scopes_of ts) = {s. \<exists>t \<in> set ts. map_of byTool t = Some s}" for ts
    by (auto simp: scopes_of_def List.map_filter_def image_iff) force
  then show "set (scopesForRecipe r) = insert (js ''runtime:execute'') {s. \<exists>t \<in> set (rc_tools r). map_of byTool t = Some s}"
    unfolding scopesForRecipe_def set_sort set_remdups list.set by simp
qed (simp_all add: scopesForRecipe_def del: js_Cons)

section \<open>Provisioning\<close>

definition answered :: "exchange \<Rightarrow> bool" where
  "answered x \<longleftrightarrow> (\<exists>v. admin_answer x = Inr v)"

text \<open>C32: Provisioning returns a key only after the agent was created disabled, the key issued and then the
  agent enabled; it never asks to enable an agent without a key; and once the agent exists, every failure
  ends with the request that deletes it.\<close>

theorem provisioning_enables_or_deletes:
  assumes "provisionExternalAgent lower uuid r i created key enabled c = (requests, out)"
  shows "(\<forall>v. out = Inr v \<longrightarrow> answered created \<and> answered key \<and> answered enabled \<and>
      (\<exists>h aid. requests = [create_agent h r i c, create_key aid r i c, enable_agent aid c])) \<and>
    (\<forall>aid. enable_agent aid c \<in> set requests \<longrightarrow> answered key) \<and>
    (\<forall>e aid agent. out = Inl e \<and> pi_chatIDs i \<noteq> [] \<and> admin_answer created = Inr agent \<and> agent_path agent = Inr aid \<longrightarrow>
      last requests = delete_agent aid c)"
proof -
  have other: "enable_agent aid c \<noteq> create_agent h r i c" "enable_agent aid c \<noteq> create_key aid' r i c"
    "enable_agent aid c \<noteq> delete_agent aid' c" for aid aid' h
    by (simp_all add: enable_agent_def create_agent_def create_key_def delete_agent_def raw_def)
  show ?thesis
    using assms
    by (auto simp: provisionExternalAgent_def Let_def other answered_def
        split: if_splits sum.splits prod.splits simp del: js_Cons)
qed

definition sample_recipe :: recipe where
  "sample_recipe = \<lparr>rc_name = js ''notes'', rc_version = 1, rc_instructions = js ''Sum up'', rc_triggers = [],
     rc_tools = [js ''post_message''], rc_onRun = True\<rparr>"

definition sample_input :: provision_input where
  "sample_input = \<lparr>pi_displayName = None, pi_handle = Some (js ''notes''), pi_chatIDs = [js ''c''],
     pi_endpointURL = None, pi_rateLimitPerMinute = None\<rparr>"

definition ok_answer :: "json \<Rightarrow> exchange" where
  "ok_answer v = Inr \<lparr>hs_status = 201, hs_body = Some v\<rparr>"

definition sample_client :: agent_client where
  "sample_client = agent_client_of (js ''http://core/'') (js ''token'')"

text \<open>The key is refused: the agent is deleted.\<close>

theorem provisioning_enables_or_deletes_witness:
  "last (fst (provisionExternalAgent (\<lambda>s. s) [] sample_recipe sample_input (ok_answer (JObj [(js ''id'', JStr (js ''a1''))]))
     (Inl (js ''TypeError'')) (Inl []) sample_client)) = delete_agent (js ''a1'') sample_client"
proof -
  let ?created = "ok_answer (JObj [(js ''id'', JStr (js ''a1''))])"
  obtain requests out where p: "provisionExternalAgent (\<lambda>s. s) [] sample_recipe sample_input ?created
      (Inl (js ''TypeError'')) (Inl []) sample_client = (requests, out)" by fastforce
  have agent: "admin_answer ?created = Inr (Some (JObj [(js ''id'', JStr (js ''a1''))]))"
    by (simp add: admin_answer_def ok_answer_def decode_def del: js_Cons)
  have path: "agent_path (Some (JObj [(js ''id'', JStr (js ''a1''))])) = Inr (js ''a1'')"
  proof -
    have "list_all is_unreserved (js ''a1'')" by code_simp
    from encodeURIComponent_unreserved [OF this] show ?thesis by (simp add: agent_path_def)
  qed
  have chats: "pi_chatIDs sample_input \<noteq> []" by (simp add: sample_input_def)
  have refused: "admin_answer (Inl x) = Inl (Thrown x)" for x by (simp add: admin_answer_def)
  have "out = Inl (Thrown (js ''TypeError''))"
    using p unfolding provisionExternalAgent_def Let_def agent refused by (simp only: chats path if_False sum.case prod.inject)
  then show ?thesis
    using provisioning_enables_or_deletes [OF p, THEN conjunct2, THEN conjunct2] chats agent path
    unfolding p fst_conv by blast
qed

section \<open>Commands\<close>

lemma split_spaces_join:
  assumes "ws \<noteq> []" and "\<forall>w \<in> set ws. w \<noteq> [] \<and> list_all (\<lambda>c. \<not> is_space c) w"
  shows "split_spaces (join_with (js '' '') ws) = ws"
  using assms
proof (induction ws rule: induct_list012)
  case (2 w)
  then have "takeWhile (\<lambda>c. \<not> is_space c) w = w" "dropWhile (\<lambda>c. \<not> is_space c) w = []"
    by (auto simp: list_all_iff)
  then show ?case by (subst split_spaces.simps) simp
next
  case (3 w v ws)
  let ?rest = "join_with (js '' '') (v # ws)"
  have space: "is_space 32" by (simp add: is_space_def)
  have w: "takeWhile (\<lambda>c. \<not> is_space c) (w @ 32 # ?rest) = w" "dropWhile (\<lambda>c. \<not> is_space c) (w @ 32 # ?rest) = 32 # ?rest"
    using "3.prems"(2) space by (auto simp: takeWhile_append dropWhile_append list_all_iff)
  obtain c cs where v: "v = c # cs" "\<not> is_space c" using "3.prems"(2) by (cases v) auto
  then have "dropWhile is_space (32 # ?rest) = ?rest" using space by (cases ws) simp_all
  moreover have "split_spaces ?rest = v # ws" using "3.IH"(2) "3.prems" by simp
  ultimately show ?case using w by (subst split_spaces.simps) simp
qed simp

lemma trim_text:
  assumes "s \<noteq> []" and "\<not> is_space (hd s)" and "\<not> is_space (last s)"
  shows "js_trim s = s"
proof -
  have d: "dropWhile is_space s = s" using assms(1,2) by (cases s) auto
  have "dropWhile is_space (rev s) = rev s" using assms(1,3) by (cases s rule: rev_cases) auto
  then show ?thesis by (simp add: js_trim_def d)
qed

lemma last_join:
  "ws \<noteq> [] \<Longrightarrow> \<forall>w \<in> set ws. w \<noteq> [] \<Longrightarrow> join_with d ws \<noteq> [] \<and> last (join_with d ws) = last (last ws)"
  by (induction d ws rule: join_with.induct) auto

definition words :: "jstring list \<Rightarrow> bool" where
  "words ws \<longleftrightarrow> ws \<noteq> [] \<and> (\<forall>w \<in> set ws. w \<noteq> [] \<and> list_all (\<lambda>c. \<not> is_space c) w)"

text \<open>A handler sees the command of a simulated run, word for word, but not the command of a run that a
  command in a chat has started: there \<open>ctx.command()\<close> is null, because the core stores the command in
  other places of the input than the SDK reads. The last run of a schedule is the other way round.\<close>

theorem only_simulated_commands_are_seen:
  assumes "words ws"
  shows "commandFromInput (simulationInput now Command t (Some (js ''/'' @ join_with (js '' '') ws))) =
      Some (hd ws, join_with (js '' '') (tl ws)) \<and>
    commandFromInput (core_command_input f name arguments) = None \<and>
    sinceLastRun (core_schedule_input scheduled sinceLast chat tz trigger_id) = sinceLast \<and>
    sinceLastRun (simulationInput now Schedule t command) = JNull"
proof -
  let ?text = "join_with (js '' '') ws"
  have ne: "ws \<noteq> []" "\<forall>w \<in> set ws. w \<noteq> []" using assms by (auto simp: words_def)
  note joined = last_join [OF ne, of "js '' ''"]
  have "last ws \<in> set ws" using ne(1) by simp
  then have "last ws \<noteq> []" "list_all (\<lambda>c. \<not> is_space c) (last ws)" using assms unfolding words_def by blast+
  then have edge: "\<not> is_space (last (last ws))" using last_in_set [of "last ws"] unfolding list_all_iff by blast
  have "\<not> is_space 47" by (simp add: is_space_def)
  then have "js_trim (47 # ?text) = 47 # ?text"
    using joined edge by (intro trim_text) auto
  then have "command_text (Some (js ''/'' @ ?text)) t = js ''/'' @ ?text"
    by (simp add: command_text_def)
  then have "split_spaces (unslash (command_text (Some (js ''/'' @ ?text)) t)) = ws"
    using split_spaces_join [of ws] assms by (simp add: unslash_def starts_with_def words_def)
  then have "commandFromInput (simulationInput now Command t (Some (js ''/'' @ ?text))) =
      Some (hd ws, join_with (js '' '') (tl ws))"
    by (simp add: simulationInput_def commandFromInput_def Let_def)
  moreover have "commandFromInput (core_command_input f name arguments) = None"
    by (simp add: core_command_input_def commandFromInput_def)
  moreover have "sinceLastRun (core_schedule_input scheduled sinceLast chat tz trigger_id) = sinceLast"
    by (simp add: core_schedule_input_def sinceLastRun_def)
  moreover have "sinceLastRun (simulationInput now Schedule t command) = JNull"
    by (simp add: simulationInput_def sinceLastRun_def)
  ultimately show ?thesis by blast
qed

theorem only_simulated_commands_are_seen_witness:
  "commandFromInput (simulationInput [] Command None (Some (js ''/digest weekly release''))) =
     Some (js ''digest'', js ''weekly release'')"
proof -
  have "words [js ''digest'', js ''weekly'', js ''release'']" by code_simp
  from only_simulated_commands_are_seen [OF this, THEN conjunct1, of "[]" None] show ?thesis by simp
qed

section \<open>The order of the checks\<close>

text \<open>\<open>dev\<close> looks at \<open>--concurrency\<close> only after it has provisioned: an option it refuses leaves an enabled
  agent and its key behind.\<close>

lemma concurrency_checked_after_provisioning:
  assumes "given (do_entry o')" and "given (do_url o')" and "\<not> given (do_key o')" and "given (do_token o')"
    and "do_chats o' \<noteq> []" and "do_concurrency o' = Some 0"
    and "provision r (dev_input o') = (requests, Inr (agent, key))"
  shows "\<exists>e. dev o' (Inr r) provision = (requests, Rejected e)"
  using assms by (simp add: dev_def run_workers_def positiveInteger_def)

end
