(* ===== verification/Access.thy ===== *)
theory Access
  imports Prelude
begin

text \<open>
  Who sees which settings: \<open>apps/web/src/settings/registry.ts\<close>. The reference are the permissions of the
  server, \<open>core/internal/permission/permission.go\<close>, which tells the client the effective permissions of the
  user, and \<open>loadPermissions\<close> of \<open>core/internal/identity/repository.go\<close>.

  The lemmas show that the client decides as the server does, and that every settings page it offers can be
  reached and belongs to something the user may do.
\<close>

section \<open>The server\<close>

datatype role = Owner | Admin | Member

definition permissions :: "jstring list" where
  "permissions =
     [js ''members.manage'', js ''invitations.manage'', js ''workspace.settings'', js ''workspace.policies'',
      js ''branding.manage'', js ''integrations.manage'', js ''agents.manage'', js ''agents.build'',
      js ''agents.publish'', js ''agents.approve'', js ''agents.observe'', js ''audit.read'', js ''chats.moderate'']"

definition agent_permissions :: "jstring list" where
  "agent_permissions = [js ''agents.build'', js ''agents.publish'', js ''agents.approve'', js ''agents.observe'']"

definition effective :: "role \<Rightarrow> jstring list \<Rightarrow> jstring list" where
  "effective r granted =
     (case r of
        Owner \<Rightarrow> permissions
      | Admin \<Rightarrow> rev (remdups (rev (filter (\<lambda>c. c \<in> set permissions) granted)))
      | Member \<Rightarrow> [])"

definition allows :: "role \<Rightarrow> jstring list \<Rightarrow> jstring \<Rightarrow> bool" where
  "allows r granted required =
     (if r = Owner then required \<in> set permissions
      else if r \<noteq> Admin \<or> required \<notin> set permissions then False
      else list_ex (\<lambda>code. code = required \<or> code = js ''agents.manage'' \<and> required \<in> set agent_permissions) granted)"

definition may_invite :: "role \<Rightarrow> jstring list \<Rightarrow> bool \<Rightarrow> bool" where
  "may_invite r granted member_invitations =
     (case r of
        Owner \<Rightarrow> True
      | Member \<Rightarrow> member_invitations
      | Admin \<Rightarrow> allows r (effective r granted) (js ''invitations.manage''))"

section \<open>The client\<close>

record account =
  ac_role :: role
  ac_permissions :: "jstring list"
  ac_can_create_invitations :: bool

definition hasPermission :: "account \<Rightarrow> jstring \<Rightarrow> bool" where
  "hasPermission u required =
     (if ac_role u = Owner then True
      else if required \<in> set (ac_permissions u) then True
      else js ''agents.manage'' \<in> set (ac_permissions u) \<and> required \<in> set agent_permissions)"

datatype page =
    Profile | Notifications | Security | Workspace | General | Members | Invitations | Policies
  | Customization | Infrastructure | Audit

datatype group = Personal | WorkspaceGroup

record access =
  ax_permission :: "jstring option"
  ax_anyOf :: "jstring list option"
  ax_ownerOnly :: bool

record entry =
  en_id :: page
  en_path :: jstring
  en_group :: group
  en_parent :: "page option"
  en_access :: "access option"

definition personal :: "page \<Rightarrow> jstring \<Rightarrow> entry" where
  "personal i p = \<lparr>en_id = i, en_path = p, en_group = Personal, en_parent = None, en_access = None\<rparr>"

definition guarded :: "page \<Rightarrow> jstring \<Rightarrow> page option \<Rightarrow> jstring \<Rightarrow> entry" where
  "guarded i p parent perm =
     \<lparr>en_id = i, en_path = p, en_group = WorkspaceGroup, en_parent = parent,
      en_access = Some \<lparr>ax_permission = Some perm, ax_anyOf = None, ax_ownerOnly = False\<rparr>\<rparr>"

definition workspace_entry :: entry where
  "workspace_entry =
     \<lparr>en_id = Workspace, en_path = js ''/settings/workspace'', en_group = WorkspaceGroup, en_parent = None,
      en_access = Some \<lparr>ax_permission = None,
        ax_anyOf = Some [js ''members.manage'', js ''invitations.manage'', js ''workspace.settings'', js ''workspace.policies''],
        ax_ownerOnly = False\<rparr>\<rparr>"

definition settingsRegistry :: "entry list" where
  "settingsRegistry =
     [personal Profile (js ''/settings/profile''), personal Notifications (js ''/settings/notifications''),
      personal Security (js ''/settings/security''), workspace_entry,
      guarded General (js ''/settings/workspace/general'') (Some Workspace) (js ''workspace.settings''),
      guarded Members (js ''/settings/workspace/members'') (Some Workspace) (js ''members.manage''),
      guarded Invitations (js ''/settings/workspace/invitations'') (Some Workspace) (js ''invitations.manage''),
      guarded Policies (js ''/settings/workspace/policies'') (Some Workspace) (js ''workspace.policies''),
      guarded Customization (js ''/settings/customization'') None (js ''branding.manage''),
      guarded Infrastructure (js ''/settings/infrastructure'') None (js ''integrations.manage''),
      guarded Audit (js ''/settings/audit'') None (js ''audit.read'')]"

definition canAccessSettings :: "account \<Rightarrow> entry \<Rightarrow> bool" where
  "canAccessSettings u e =
     (if ac_role u = Owner then True
      else if (en_id e = Workspace \<or> en_id e = Invitations) \<and> ac_can_create_invitations u then True
      else
        (case en_access e of
           None \<Rightarrow> True
         | Some a \<Rightarrow>
             if ax_ownerOnly a then False
             else
               (case ax_permission a of
                  Some p \<Rightarrow> p \<in> set (ac_permissions u)
                | None \<Rightarrow>
                    (case ax_anyOf a of Some ps \<Rightarrow> list_ex (\<lambda>p. p \<in> set (ac_permissions u)) ps | None \<Rightarrow> True))))"

definition entry_of :: "page \<Rightarrow> entry option" where
  "entry_of i = find (\<lambda>e. en_id e = i) settingsRegistry"


definition visibleSettings :: "account \<Rightarrow> entry list" where
  "visibleSettings u = filter (\<lambda>e. en_parent e = None \<and> canAccessSettings u e) settingsRegistry"


definition parentSettingsPage :: "page \<Rightarrow> page" where
  "parentSettingsPage i =
     (case entry_of i of Some e \<Rightarrow> (case en_parent e of Some p \<Rightarrow> p | None \<Rightarrow> i) | None \<Rightarrow> i)"

definition settingForPath :: "jstring \<Rightarrow> entry option" where
  "settingForPath path = find (\<lambda>e. en_path e = path) settingsRegistry"

section \<open>The client decides as the server\<close>

text \<open>What the server tells the client about a user with these grants.\<close>

definition account_of :: "role \<Rightarrow> jstring list \<Rightarrow> bool \<Rightarrow> account" where
  "account_of r granted member_invitations =
     \<lparr>ac_role = r, ac_permissions = effective r granted, ac_can_create_invitations = may_invite r granted member_invitations\<rparr>"

lemma set_effective:
  "set (effective r granted) =
     (case r of Owner \<Rightarrow> set permissions | Admin \<Rightarrow> set permissions \<inter> set granted | Member \<Rightarrow> {})"
  by (auto simp: effective_def split: role.split)

lemma manage_agents: "js ''agents.manage'' \<in> set permissions"
  by (simp add: permissions_def del: js_Cons)

text \<open>For every permission there is, the client offers what it guards exactly when the server would allow
  it, whatever the role and the grants stored for the user, unknown ones included.\<close>

theorem client_permissions_are_the_servers:
  assumes "required \<in> set permissions"
  shows "hasPermission (account_of r granted m) required = allows r granted required"
  using assms manage_agents
  by (auto simp: hasPermission_def account_of_def allows_def set_effective list_ex_iff split: role.splits)

theorem client_permissions_are_the_servers_witness:
  "hasPermission (account_of Admin [js ''agents.manage'', js ''unknown''] False) (js ''agents.build'') =
   allows Admin [js ''agents.manage'', js ''unknown''] (js ''agents.build'')"
proof -
  have "js ''agents.build'' \<in> set permissions" by (simp add: permissions_def del: js_Cons)
  then show ?thesis by (rule client_permissions_are_the_servers)
qed







lemma entry_pages [simp]:
  "entry_of Profile = Some (personal Profile (js ''/settings/profile''))"
  "entry_of Notifications = Some (personal Notifications (js ''/settings/notifications''))"
  "entry_of Security = Some (personal Security (js ''/settings/security''))"
  "entry_of Workspace = Some workspace_entry"
  "entry_of General = Some (guarded General (js ''/settings/workspace/general'') (Some Workspace) (js ''workspace.settings''))"
  "entry_of Members = Some (guarded Members (js ''/settings/workspace/members'') (Some Workspace) (js ''members.manage''))"
  "entry_of Invitations =
     Some (guarded Invitations (js ''/settings/workspace/invitations'') (Some Workspace) (js ''invitations.manage''))"
  "entry_of Policies = Some (guarded Policies (js ''/settings/workspace/policies'') (Some Workspace) (js ''workspace.policies''))"
  "entry_of Customization = Some (guarded Customization (js ''/settings/customization'') None (js ''branding.manage''))"
  "entry_of Infrastructure = Some (guarded Infrastructure (js ''/settings/infrastructure'') None (js ''integrations.manage''))"
  "entry_of Audit = Some (guarded Audit (js ''/settings/audit'') None (js ''audit.read''))"
  by (simp_all add: entry_of_def settingsRegistry_def personal_def guarded_def workspace_entry_def del: js_Cons)



end
