(* ===== verification/Agent_Triggers.thy ===== *)
theory Agent_Triggers
  imports Js_Number
begin

text \<open>
  The triggers of an agent: the requests the web client makes of a template, of the choices of the wizard
  (\<open>settings/agentTemplates.ts\<close>) and of the form of an agent's page (\<open>triggerConfig\<close>), and, as the
  reference they have to satisfy, the checks of the server on a new trigger (\<open>normalize\<close> and
  \<open>validateAgentAndScheduleChat\<close> of \<open>agenttrigger/service.go\<close>) and the triggers it gives a recipe itself
  (\<open>insertRecipeTriggers\<close> of \<open>agent/service.go\<close>). A configuration is the JSON value the client sends: a
  NaN has become null, an undefined member is left out. The lemmas say exactly which requests the server
  refuses.
\<close>

section \<open>The requests\<close>

datatype template = Custom | Summarizer | Qa | Onboarding

datatype launch = Manually | On_Mention | On_Command | On_Schedule | Member_Join

record trigger_request =
  tq_type :: jstring
  tq_config :: json
  tq_enabled :: bool
  tq_timezone :: jstring
  tq_missed :: jstring

record recipe_options =
  ro_launch :: launch
  ro_destination :: "jstring field"
  ro_command :: "jstring field"
  ro_hour :: "jsnum field"
  ro_minute :: "jsnum field"
  ro_timezone :: "jstring field"

fun json_of_number :: "jsnum \<Rightarrow> json" where
  "json_of_number NaN = JNull"
| "json_of_number (Num n) = JNum n"

definition launch_command :: "template \<Rightarrow> jstring field \<Rightarrow> jstring" where
  "launch_command t c =
     (let s = (case c of Val x \<Rightarrow> dropWhile (\<lambda>u. u = ch CHR ''/'') (js_trim x) | _ \<Rightarrow> []) in
      if s \<noteq> [] then s else if t = Summarizer then js ''summarize'' else js ''ask'')"

definition silent_agents :: "jstring \<times> json" where
  "silent_agents = (js ''include_agent_messages'', JBool False)"

definition schedule_config :: "(jstring \<times> json) list \<Rightarrow> jsnum \<Rightarrow> jsnum \<Rightarrow> json" where
  "schedule_config chat hour minute =
     JObj (chat @ [(js ''hour'', json_of_number hour), (js ''minute'', json_of_number minute),
           (js ''days_of_week'', JArr [])])"

definition joined_config :: "jstring field \<Rightarrow> json" where
  "joined_config chat =
     JObj ([(js ''event_types'', JArr [JStr (js ''member.joined'')]), silent_agents] @
           (case chat of Val c \<Rightarrow> if c \<noteq> [] then [(js ''chat_id'', JStr c)] else [] | _ \<Rightarrow> []))"

definition request :: "string \<Rightarrow> json \<Rightarrow> jstring \<Rightarrow> string \<Rightarrow> trigger_request" where
  "request type config zone policy =
     \<lparr>tq_type = js type, tq_config = config, tq_enabled = True, tq_timezone = zone, tq_missed = js policy\<rparr>"

definition recipeTriggerRequests :: "template \<Rightarrow> recipe_options \<Rightarrow> trigger_request list" where
  "recipeTriggerRequests t ro =
     (let zone = (if truthy (ro_timezone ro) then property_key (ro_timezone ro) else js ''UTC'') in
      case ro_launch ro of
        Manually \<Rightarrow> [request ''manual'' (JObj []) zone ''skip'']
      | On_Mention \<Rightarrow> [request ''mention'' (JObj [silent_agents]) zone ''skip'']
      | On_Command \<Rightarrow>
          [request ''command'' (JObj [(js ''command'', JStr (launch_command t (ro_command ro))), silent_agents])
             zone ''skip'']
      | On_Schedule \<Rightarrow>
          (if truthy (ro_destination ro)
           then [request ''schedule''
                   (schedule_config [(js ''chat_id'', JStr (property_key (ro_destination ro)))]
                      (nullish (ro_hour ro) (Num 9)) (nullish (ro_minute ro) (Num 0)))
                   zone ''latest'']
           else [])
      | Member_Join \<Rightarrow> [request ''event'' (joined_config (ro_destination ro)) zone ''latest''])"

definition builtinTriggerRequests :: "template \<Rightarrow> jstring field \<Rightarrow> trigger_request list" where
  "builtinTriggerRequests t chat =
     (case t of
        Summarizer \<Rightarrow>
          request ''command'' (JObj [(js ''command'', JStr (js ''summarize'')), silent_agents]) (js ''UTC'') ''skip'' #
          (if truthy chat
           then [request ''schedule''
                   (schedule_config [(js ''chat_id'', JStr (property_key chat))] (Num 9) (Num 0))
                   (js ''UTC'') ''latest'']
           else [])
      | Qa \<Rightarrow> [request ''mention'' (JObj [silent_agents]) (js ''UTC'') ''skip'']
      | Onboarding \<Rightarrow>
          [request ''event'' (joined_config chat) (js ''UTC'') ''latest'',
           request ''mention'' (JObj [silent_agents]) (js ''UTC'') ''skip'']
      | Custom \<Rightarrow> [])"

text \<open>\<open>value.split(":").map(Number)\<close>, for the text of a time: hours and minutes, undefined where there are
  not as many parts. A text with a decimal point is not a time.\<close>

definition time_part :: "nat \<Rightarrow> jstring \<Rightarrow> jsnum field" where
  "time_part i s =
     (let parts = split_on (ch CHR '':'') s in
      if i < length parts then Val (case number_of_string (parts ! i) of Some n \<Rightarrow> Num n | None \<Rightarrow> NaN)
      else Undefined)"

text \<open>\<open>n || 0\<close>.\<close>

definition or_zero :: "jsnum field \<Rightarrow> jsnum" where
  "or_zero n = (case n of Val (Num i) \<Rightarrow> Num i | _ \<Rightarrow> Num 0)"

definition triggerConfig :: "jstring \<Rightarrow> jstring \<Rightarrow> jstring option \<Rightarrow> json" where
  "triggerConfig type val chat =
     (if type = js ''manual'' then JObj []
      else if type = js ''command'' then
        JObj [(js ''command'', JStr (if starts_with (js ''/'') val then tl val else val)), silent_agents]
      else if type = js ''keyword'' then
        JObj [(js ''pattern'', JStr val), (js ''case_sensitive'', JBool False), silent_agents]
      else if type = js ''event'' then
        JObj ([(js ''event_types'', JArr [JStr val]), silent_agents] @
              (case chat of Some c \<Rightarrow> if c \<noteq> [] then [(js ''chat_id'', JStr c)] else [] | None \<Rightarrow> []))
      else if type = js ''schedule'' then
        schedule_config (case chat of Some c \<Rightarrow> [(js ''chat_id'', JStr c)] | None \<Rightarrow> [])
          (or_zero (time_part 0 val)) (or_zero (time_part 1 val))
      else JObj [silent_agents])"

text \<open>The form of the page: the agent's first chat, always enabled, in UTC.\<close>

definition form_request :: "jstring \<Rightarrow> jstring \<Rightarrow> jstring list \<Rightarrow> trigger_request" where
  "form_request type val chats =
     \<lparr>tq_type = type,
      tq_config = triggerConfig type val (case chats of c # _ \<Rightarrow> Some c | [] \<Rightarrow> None),
      tq_enabled = True, tq_timezone = js ''UTC'', tq_missed = js ''latest''\<rparr>"

section \<open>The checks of the server\<close>

text \<open>What the server asks of its time zone database, its UUID and regular expression packages and its tables:
  the known zones, the valid ids and patterns, whether a schedule on the given days ever occurs, and the
  chats the agent is a member of.\<close>

record trigger_server =
  sv_zone :: "jstring \<Rightarrow> bool"
  sv_uuid :: "jstring \<Rightarrow> bool"
  sv_regexp :: "jstring \<Rightarrow> bool"
  sv_occurs :: "jstring \<Rightarrow> int \<Rightarrow> int \<Rightarrow> int list \<Rightarrow> bool"
  sv_member :: "jstring \<Rightarrow> bool"

definition go_space :: "cunit \<Rightarrow> bool" where
  "go_space c \<longleftrightarrow> is_space c \<and> c \<noteq> 0xFEFF \<or> c = 0x85"

definition go_trim :: "jstring \<Rightarrow> jstring" where
  "go_trim s = rev (dropWhile go_space (rev (dropWhile go_space s)))"

text \<open>\<open>len\<close>: the bytes.\<close>

definition go_len :: "jstring \<Rightarrow> nat" where
  "go_len s = length (text_encode s)"

text \<open>\<open>decodeConfig\<close> into a struct: no unknown member, and a value of the member's type; a missing or null
  member is the zero value.\<close>

definition only_members :: "string list \<Rightarrow> json \<Rightarrow> bool" where
  "only_members ks j = (case j of JObj kvs \<Rightarrow> list_all (\<lambda>(k, _). k \<in> js ` set ks) kvs | JNull \<Rightarrow> True | _ \<Rightarrow> False)"

definition go_string :: "string \<Rightarrow> json \<Rightarrow> jstring option" where
  "go_string k j = (case get (js k) j of None \<Rightarrow> Some [] | Some JNull \<Rightarrow> Some [] | Some (JStr s) \<Rightarrow> Some s | _ \<Rightarrow> None)"

definition go_int :: "string \<Rightarrow> json \<Rightarrow> int option" where
  "go_int k j = (case get (js k) j of None \<Rightarrow> Some 0 | Some JNull \<Rightarrow> Some 0 | Some (JNum n) \<Rightarrow> Some n | _ \<Rightarrow> None)"

definition go_bool :: "string \<Rightarrow> json \<Rightarrow> bool option" where
  "go_bool k j = (case get (js k) j of None \<Rightarrow> Some False | Some JNull \<Rightarrow> Some False | Some (JBool b) \<Rightarrow> Some b | _ \<Rightarrow> None)"

fun go_items :: "(json \<Rightarrow> 'a option) \<Rightarrow> json list \<Rightarrow> 'a list option" where
  "go_items f [] = Some []"
| "go_items f (v # vs) =
     (case f v of None \<Rightarrow> None | Some x \<Rightarrow> (case go_items f vs of None \<Rightarrow> None | Some xs \<Rightarrow> Some (x # xs)))"

definition go_list :: "(json \<Rightarrow> 'a option) \<Rightarrow> string \<Rightarrow> json \<Rightarrow> 'a list option" where
  "go_list f k j = (case get (js k) j of None \<Rightarrow> Some [] | Some JNull \<Rightarrow> Some [] | Some (JArr vs) \<Rightarrow> go_items f vs | _ \<Rightarrow> None)"

fun item_string :: "json \<Rightarrow> jstring option" where
  "item_string (JStr s) = Some s" | "item_string JNull = Some []" | "item_string _ = None"

fun item_int :: "json \<Rightarrow> int option" where
  "item_int (JNum n) = Some n" | "item_int JNull = Some 0" | "item_int _ = None"

definition trim_slash :: "jstring \<Rightarrow> jstring" where
  "trim_slash s = (if starts_with (js ''/'') s then tl s else s)"

definition go_blank :: "cunit \<Rightarrow> bool" where
  "go_blank c \<longleftrightarrow> c \<in> {32, 9, 10, 13}"

definition command_fits :: "jstring \<Rightarrow> bool" where
  "command_fits s = (let c = trim_slash (to_lower (go_trim s)) in
     c \<noteq> [] \<and> go_len c \<le> 64 \<and> \<not> list_ex go_blank c)"

definition event_fits :: "jstring \<Rightarrow> bool" where
  "event_fits k = (go_trim k \<noteq> [] \<and> go_len (go_trim k) \<le> 120)"

text \<open>\<open>normalize\<close>: whether the request is valid.\<close>

definition policy_fits :: "jstring \<Rightarrow> bool" where
  "policy_fits p \<longleftrightarrow> p = [] \<or> p = js ''skip'' \<or> p = js ''latest''"

definition zone_of :: "jstring \<Rightarrow> jstring" where
  "zone_of z = (if go_trim z = [] then js ''UTC'' else go_trim z)"

definition schedule_fits :: "trigger_server \<Rightarrow> jstring \<Rightarrow> json \<Rightarrow> bool" where
  "schedule_fits sv zone j =
     (only_members [''chat_id'', ''hour'', ''minute'', ''days_of_week''] j \<and>
      (case (go_string ''chat_id'' j, go_int ''hour'' j, go_int ''minute'' j, go_list item_int ''days_of_week'' j) of
         (Some c, Some h, Some m, Some ds) \<Rightarrow>
           sv_uuid sv c \<and> 0 \<le> h \<and> h \<le> 23 \<and> 0 \<le> m \<and> m \<le> 59 \<and> length ds \<le> 7 \<and>
           list_all (\<lambda>d. 0 \<le> d \<and> d \<le> 6) ds \<and> sv_occurs sv zone h m ds
       | _ \<Rightarrow> False))"

definition event_config_fits :: "trigger_server \<Rightarrow> json \<Rightarrow> bool" where
  "event_config_fits sv j =
     (only_members [''event_types'', ''include_agent_messages'', ''chat_id''] j \<and>
      (case (go_list item_string ''event_types'' j, go_bool ''include_agent_messages'' j, go_string ''chat_id'' j) of
         (Some ks, Some _, Some c) \<Rightarrow>
           1 \<le> length ks \<and> length ks \<le> 50 \<and> (c \<noteq> [] \<longrightarrow> sv_uuid sv c) \<and> list_all event_fits ks
       | _ \<Rightarrow> False))"

definition normalize_ok :: "trigger_server \<Rightarrow> trigger_request \<Rightarrow> bool" where
  "normalize_ok sv r =
     (let type = to_lower (go_trim (tq_type r)); zone = zone_of (tq_timezone r); j = tq_config r in
      go_len zone \<le> 64 \<and> sv_zone sv zone \<and> policy_fits (tq_missed r) \<and>
      (if type = js ''manual'' then only_members [] j
       else if type = js ''mention'' \<or> type = js ''every_message'' then
         only_members [''include_agent_messages''] j \<and> go_bool ''include_agent_messages'' j \<noteq> None
       else if type = js ''command'' then
         only_members [''command'', ''include_agent_messages''] j \<and> go_bool ''include_agent_messages'' j \<noteq> None \<and>
         (case go_string ''command'' j of None \<Rightarrow> False | Some c \<Rightarrow> command_fits c)
       else if type = js ''keyword'' then
         only_members [''pattern'', ''case_sensitive'', ''include_agent_messages''] j \<and>
         go_bool ''case_sensitive'' j \<noteq> None \<and> go_bool ''include_agent_messages'' j \<noteq> None \<and>
         (case go_string ''pattern'' j of
            None \<Rightarrow> False | Some p \<Rightarrow> p \<noteq> [] \<and> go_len p \<le> 200 \<and> sv_regexp sv p)
       else if type = js ''event'' then event_config_fits sv j
       else if type = js ''schedule'' then schedule_fits sv zone j
       else False))"

text \<open>\<open>validateAgentAndScheduleChat\<close>: the agent has to be in the chat of a schedule or an event.\<close>

definition chat_fits :: "trigger_server \<Rightarrow> trigger_request \<Rightarrow> bool" where
  "chat_fits sv r =
     (let type = to_lower (go_trim (tq_type r));
          chat = (if type = js ''schedule'' \<or> type = js ''event''
                  then (case go_string ''chat_id'' (tq_config r) of Some c \<Rightarrow> c | None \<Rightarrow> []) else [])
      in chat = [] \<or> sv_member sv chat)"

definition accepts :: "trigger_server \<Rightarrow> trigger_request \<Rightarrow> bool" where
  "accepts sv r = (normalize_ok sv r \<and> chat_fits sv r)"

text \<open>\<open>insertRecipeTriggers\<close>.\<close>

definition insertRecipeTriggers :: "template \<Rightarrow> jstring list \<Rightarrow> trigger_request list option" where
  "insertRecipeTriggers t chats =
     (if t = Custom then Some []
      else case chats of
        [] \<Rightarrow> None
      | chat # _ \<Rightarrow>
          Some (case t of
            Summarizer \<Rightarrow>
              [request ''command'' (JObj [(js ''command'', JStr (js ''summarize'')), silent_agents]) (js ''UTC'') ''skip'',
               request ''schedule''
                 (JObj [(js ''chat_id'', JStr chat), (js ''hour'', JNum 9), (js ''minute'', JNum 0), (js ''days_of_week'', JArr [])])
                 (js ''UTC'') ''latest'']
          | Qa \<Rightarrow> [request ''mention'' (JObj [silent_agents]) (js ''UTC'') ''skip'']
          | Onboarding \<Rightarrow>
              [request ''event''
                 (JObj [(js ''event_types'', JArr [JStr (js ''member.joined'')]), silent_agents, (js ''chat_id'', JStr chat)])
                 (js ''UTC'') ''latest'',
               request ''mention'' (JObj [silent_agents]) (js ''UTC'') ''skip'']
          | Custom \<Rightarrow> []))"

section \<open>What the server refuses\<close>



lemma unat_ch: "unat (ch c :: cunit) = of_char c"
proof -
  have "(ch c :: cunit) = of_nat (of_char c)" by (rule of_nat_of_char [symmetric])
  then have "unat (ch c :: cunit) = of_char c mod 2 ^ 16" by (simp only: unat_of_nat) simp
  moreover have "(of_char c :: nat) < 256" by simp
  ultimately show ?thesis by simp
qed

lemma ch_inject: "(ch c :: cunit) = ch d \<longleftrightarrow> c = d"
  using unat_ch [of c] unat_ch [of d] by (metis of_char_eq_iff)

lemma js_inject: "js s = js u \<longleftrightarrow> s = u"
proof -
  have "inj (ch :: char \<Rightarrow> cunit)" by (simp add: inj_def ch_inject)
  then show ?thesis by (simp add: js_def inj_map_eq_map)
qed

lemma request_types:
  "to_lower (go_trim (js ''manual'')) = js ''manual''"
  "to_lower (go_trim (js ''mention'')) = js ''mention''"
  "to_lower (go_trim (js ''every_message'')) = js ''every_message''"
  "to_lower (go_trim (js ''command'')) = js ''command''"
  "to_lower (go_trim (js ''keyword'')) = js ''keyword''"
  "to_lower (go_trim (js ''schedule'')) = js ''schedule''"
  "to_lower (go_trim (js ''event'')) = js ''event''"
  by code_simp+

lemmas members = only_members_def go_string_def go_int_def go_bool_def go_list_def js_inject


definition zone_fits :: "trigger_server \<Rightarrow> jstring \<Rightarrow> bool" where
  "zone_fits sv z \<longleftrightarrow> go_len (zone_of z) \<le> 64 \<and> sv_zone sv (zone_of z)"

lemma policies: "policy_fits (js ''skip'')" "policy_fits (js ''latest'')"
  by (simp_all add: policy_fits_def)

lemmas checks = accepts_def normalize_ok_def chat_fits_def request_types members Let_def zone_fits_def silent_agents_def

lemma manual_accepted:
  "accepts sv (request ''manual'' (JObj []) z p) \<longleftrightarrow> zone_fits sv z \<and> policy_fits (js p)"
  by (auto simp: checks request_def simp del: js_Cons)

lemma mention_accepted:
  "accepts sv (request ''mention'' (JObj [silent_agents]) z p) \<longleftrightarrow> zone_fits sv z \<and> policy_fits (js p)"
  by (auto simp: checks request_def simp del: js_Cons)

lemma command_accepted:
  "accepts sv (request ''command'' (JObj [(js ''command'', JStr c), silent_agents]) z p) \<longleftrightarrow>
     zone_fits sv z \<and> policy_fits (js p) \<and> command_fits c"
  by (auto simp: checks request_def simp del: js_Cons)

lemma schedule_accepted:
  "accepts sv (request ''schedule'' (schedule_config [(js ''chat_id'', JStr c)] (Num h) (Num m)) z p) \<longleftrightarrow>
     zone_fits sv z \<and> policy_fits (js p) \<and> sv_uuid sv c \<and> 0 \<le> h \<and> h \<le> 23 \<and> 0 \<le> m \<and> m \<le> 59 \<and>
     sv_occurs sv (zone_of z) h m [] \<and> (c = [] \<or> sv_member sv c)"
  by (auto simp: checks request_def schedule_fits_def schedule_config_def simp del: js_Cons)

lemma go_len_ascii: "list_all (\<lambda>c. c < 128) s \<Longrightarrow> go_len s = length s"
proof -
  assume small: "list_all (\<lambda>c. c < 128) s"
  have "code_points s = map unat s"
    using small by (induction s rule: code_points.induct) (auto simp: is_high_def word_le_nat_alt word_less_nat_alt)
  moreover have "length (concat (map (\<lambda>n. utf8 (if is_surrogate n then 0xFFFD else n)) (map unat s))) = length s"
    using small by (induction s) (auto simp: utf8_def is_surrogate_def word_less_nat_alt)
  ultimately show ?thesis by (simp add: go_len_def text_encode_def)
qed

lemma joined_fits: "event_fits (js ''member.joined'')"
proof -
  have trim: "go_trim (js ''member.joined'') = js ''member.joined''" by code_simp
  have "list_all (\<lambda>c. c < (128::cunit)) (js ''member.joined'')" by code_simp
  then show ?thesis by (simp add: event_fits_def trim go_len_ascii js_inject [of _ "[]", simplified js_Nil] del: js_Cons)
qed

lemma utc_fits: "zone_fits sv (js ''UTC'') \<longleftrightarrow> sv_zone sv (js ''UTC'')"
proof -
  have "zone_of (js ''UTC'') = js ''UTC''" by code_simp
  moreover have "list_all (\<lambda>c. c < (128::cunit)) (js ''UTC'')" by code_simp
  ultimately show ?thesis by (simp add: zone_fits_def go_len_ascii)
qed

lemma event_accepted:
  "accepts sv (request ''event'' (JObj ([(js ''event_types'', JArr [JStr k]), silent_agents] @
       (if c \<noteq> [] then [(js ''chat_id'', JStr c)] else []))) z p) \<longleftrightarrow>
     zone_fits sv z \<and> policy_fits (js p) \<and> event_fits k \<and> (c = [] \<or> sv_uuid sv c \<and> sv_member sv c)"
  by (auto simp: checks request_def event_config_fits_def simp del: js_Cons)

lemma joined_accepted:
  "accepts sv (request ''event'' (joined_config (Val c)) z p) \<longleftrightarrow>
     zone_fits sv z \<and> policy_fits (js p) \<and> (c = [] \<or> sv_uuid sv c \<and> sv_member sv c)"
  using event_accepted [of sv "js ''member.joined''" c z p] by (simp add: joined_config_def joined_fits del: js_Cons)

section \<open>The text of a time\<close>

definition two_digits :: "nat \<Rightarrow> jstring" where
  "two_digits n = [of_nat (48 + n div 10), of_nat (48 + n mod 10)]"

text \<open>What a time field holds: hours and minutes, or nothing.\<close>

definition time_text :: "nat \<Rightarrow> nat \<Rightarrow> jstring" where
  "time_text h m = two_digits h @ [ch CHR '':''] @ two_digits m"

lemma digit_unit: "d < 10 \<Longrightarrow> is_digit (of_nat (48 + d))"
  by (simp add: is_digit_def word_le_nat_alt unat_of_nat del: of_nat_add)

lemma two_digits_number:
  assumes "n < 100"
  shows "number_of_string (two_digits n) = Some (int n)" and "list_all is_digit (two_digits n)"
proof -
  have d: "n div 10 < 10" "n mod 10 < 10" using assms by auto
  show ds: "list_all is_digit (two_digits n)" using d digit_unit by (simp add: two_digits_def del: of_nat_add)
  have "digits_value 10 (two_digits n) = n"
    using d digit_value_digit [of "n div 10"] digit_value_digit [of "n mod 10"]
    by (simp add: digits_value_def two_digits_def del: of_nat_add)
  then show "number_of_string (two_digits n) = Some (int n)"
    using number_of_digits [OF ds] by (simp add: two_digits_def del: of_nat_add)
qed

lemma split_on_absent: "d \<notin> set s \<Longrightarrow> split_on d s = [s]"
  by (induction s) auto

lemma split_at_first: "d \<notin> set s \<Longrightarrow> split_on d (s @ d # t) = s # split_on d t"
  by (induction s) auto

lemma time_parts:
  assumes "h < 100" and "m < 100"
  shows "time_part 0 (time_text h m) = Val (Num (int h))" "time_part 1 (time_text h m) = Val (Num (int m))"
proof -
  have no: "ch CHR '':'' \<notin> set (two_digits n)" if "n < 100" for n
    using two_digits_number(2) [OF that] digit_facts(6) by (auto simp: list_all_iff)
  have "split_on (ch CHR '':'') (time_text h m) = [two_digits h, two_digits m]"
    using assms no by (simp only: time_text_def append.simps split_at_first split_on_absent not_False_eq_True)
  then show "time_part 0 (time_text h m) = Val (Num (int h))" "time_part 1 (time_text h m) = Val (Num (int m))"
    using two_digits_number(1) assms by (simp_all add: time_part_def)
qed

lemma empty_time: "time_part 0 [] = Val (Num 0)" "time_part 1 [] = Undefined"
  by (simp_all add: time_part_def number_of_string_def js_trim_def)

section \<open>The templates and the server's recipes\<close>

theorem templates_are_the_recipes_of_the_server:
  "c \<noteq> [] \<Longrightarrow> insertRecipeTriggers t (c # cs) = Some (builtinTriggerRequests t (Val c))"
  by (cases t) (simp_all add: insertRecipeTriggers_def builtinTriggerRequests_def schedule_config_def joined_config_def)

text \<open>What a launch asks of the server.\<close>

definition launch_fits :: "trigger_server \<Rightarrow> template \<Rightarrow> recipe_options \<Rightarrow> jstring \<Rightarrow> int \<Rightarrow> int \<Rightarrow> bool" where
  "launch_fits sv t ro c h m =
     (let zone = (if truthy (ro_timezone ro) then property_key (ro_timezone ro) else js ''UTC'') in
      zone_fits sv zone \<and>
      (case ro_launch ro of
         On_Command \<Rightarrow> command_fits (launch_command t (ro_command ro))
       | On_Schedule \<Rightarrow> sv_uuid sv c \<and> sv_member sv c \<and> 0 \<le> h \<and> h \<le> 23 \<and> 0 \<le> m \<and> m \<le> 59 \<and>
           sv_occurs sv (zone_of zone) h m []
       | Member_Join \<Rightarrow> sv_uuid sv c \<and> sv_member sv c
       | _ \<Rightarrow> True))"

lemma recipe_accepted:
  assumes "ro_destination ro = Val c" and "c \<noteq> []"
    and "nullish (ro_hour ro) (Num 9) = Num h" and "nullish (ro_minute ro) (Num 0) = Num m"
  shows "(\<forall>r \<in> set (recipeTriggerRequests t ro). accepts sv r) \<longleftrightarrow> launch_fits sv t ro c h m"
    and "length (recipeTriggerRequests t ro) = 1"
  using assms
  by (cases "ro_launch ro";
      auto simp: recipeTriggerRequests_def launch_fits_def Let_def manual_accepted mention_accepted
        command_accepted schedule_accepted joined_accepted policies simp del: js_Cons)+

section \<open>The form of an agent's page\<close>


text \<open>What the form of the page asks, by the type of the trigger.\<close>

definition form_fits :: "trigger_server \<Rightarrow> string \<Rightarrow> jstring \<Rightarrow> jstring list \<Rightarrow> bool" where
  "form_fits sv type val chats =
     (if type = ''command'' then command_fits (trim_slash val)
      else if type = ''keyword'' then val \<noteq> [] \<and> go_len val \<le> 200 \<and> sv_regexp sv val
      else if type = ''event'' then
        event_fits val \<and> (case chats of c # _ \<Rightarrow> c = [] \<or> sv_uuid sv c \<and> sv_member sv c | [] \<Rightarrow> True)
      else if type = ''schedule'' then
        (case (chats, or_zero (time_part 0 val), or_zero (time_part 1 val)) of
           (c # _, Num h, Num m) \<Rightarrow>
             sv_uuid sv c \<and> (c = [] \<or> sv_member sv c) \<and> 0 \<le> h \<and> h \<le> 23 \<and> 0 \<le> m \<and> m \<le> 59 \<and>
             sv_occurs sv (js ''UTC'') h m []
         | _ \<Rightarrow> False)
      else True)"

lemma or_zero_Num: "\<exists>n. or_zero f = Num n"
  by (auto simp: or_zero_def split: field.splits jsnum.splits)

lemma form_request_eq:
  "form_request (js type) val chats =
     request type (triggerConfig (js type) val (case chats of c # _ \<Rightarrow> Some c | [] \<Rightarrow> None)) (js ''UTC'') ''latest''"
  by (simp add: form_request_def request_def del: js_Cons)

lemma every_message_accepted:
  "accepts sv (request ''every_message'' (JObj [silent_agents]) z p) \<longleftrightarrow> zone_fits sv z \<and> policy_fits (js p)"
  by (auto simp: checks request_def simp del: js_Cons)

lemma keyword_accepted:
  "accepts sv (request ''keyword'' (JObj [(js ''pattern'', JStr v), (js ''case_sensitive'', JBool False), silent_agents]) z p) \<longleftrightarrow>
     zone_fits sv z \<and> policy_fits (js p) \<and> v \<noteq> [] \<and> go_len v \<le> 200 \<and> sv_regexp sv v"
  by (auto simp: checks request_def simp del: js_Cons)

lemma schedule_without_chat:
  "\<not> sv_uuid sv [] \<Longrightarrow> \<not> accepts sv (request ''schedule'' (schedule_config [] h m) z p)"
  by (auto simp: checks request_def schedule_fits_def schedule_config_def simp del: js_Cons
      split: option.splits)

lemma form_requests_accepted:
  assumes "type \<in> set [''manual'', ''mention'', ''command'', ''keyword'', ''every_message'', ''schedule'', ''event'']"
    and "\<not> sv_uuid sv []"
  shows "accepts sv (form_request (js type) val chats) \<longleftrightarrow> sv_zone sv (js ''UTC'') \<and> form_fits sv type val chats"
proof -
  obtain h m where num: "or_zero (time_part 0 val) = Num h" "or_zero (time_part 1 val) = Num m"
    using or_zero_Num by metis
  have zone: "zone_of (js ''UTC'') = js ''UTC''" by code_simp
  from assms(1) show ?thesis
  proof (unfold list.set insert_iff empty_iff, elim disjE FalseE)
    assume 6: "type = ''schedule''"
    show ?thesis
    proof (cases chats)
      case Nil
      have "form_request (js type) val chats = request ''schedule'' (schedule_config [] (Num h) (Num m)) (js ''UTC'') ''latest''"
        by (simp add: form_request_eq 6 Nil triggerConfig_def js_inject num num [simplified] del: js_Cons)
      then show ?thesis using schedule_without_chat [OF assms(2)] by (simp add: form_fits_def 6 Nil num num [simplified])
    next
      case (Cons c cs)
      have "form_request (js type) val chats =
          request ''schedule'' (schedule_config [(js ''chat_id'', JStr c)] (Num h) (Num m)) (js ''UTC'') ''latest''"
        by (simp add: form_request_eq 6 Cons triggerConfig_def js_inject num num [simplified] del: js_Cons)
      then show ?thesis
        by (auto simp: schedule_accepted utc_fits policies form_fits_def 6 Cons num num [simplified] zone simp del: js_Cons)
    qed
  next
    assume 7: "type = ''event''"
    define c where "c = (case chats of c # _ \<Rightarrow> c | [] \<Rightarrow> [])"
    have "form_request (js type) val chats =
        request ''event'' (JObj ([(js ''event_types'', JArr [JStr val]), silent_agents] @
            (if c \<noteq> [] then [(js ''chat_id'', JStr c)] else []))) (js ''UTC'') ''latest''"
      by (cases chats) (simp_all add: form_request_eq 7 triggerConfig_def js_inject c_def del: js_Cons)
    then have "accepts sv (form_request (js type) val chats) \<longleftrightarrow>
        sv_zone sv (js ''UTC'') \<and> event_fits val \<and> (c = [] \<or> sv_uuid sv c \<and> sv_member sv c)"
      by (simp only: event_accepted utc_fits policies simp_thms)
    then show ?thesis by (cases chats) (simp_all add: form_fits_def 7 c_def)
  qed (simp_all add: form_request_eq triggerConfig_def js_inject form_fits_def manual_accepted mention_accepted
      command_accepted keyword_accepted every_message_accepted utc_fits policies trim_slash_def del: js_Cons)
qed

end
