(* ===== verification/Agent_Wizard.thy ===== *)
theory Agent_Wizard
  imports Agent_Triggers
begin

text \<open>
  The dialog that creates an agent (\<open>AgentCreationWizard\<close> of \<open>settings/pages/AgentSettingsPage.tsx\<close>): five
  pages of controls over a draft, and \<open>create\<close>, which makes the agent, replaces the triggers of the server's
  recipe by the chosen one and deletes the agent again when a step fails. The texts of the interface are
  parameters. The lemmas show that the last page is reached with a complete draft only, and what the
  server keeps after \<open>create\<close>, whichever of its calls fail.
\<close>

section \<open>The draft\<close>

record draft =
  dr_name :: jstring
  dr_handle :: jstring
  dr_kind :: jstring
  dr_recipe :: template
  dr_description :: jstring
  dr_enabled :: bool
  dr_scopes :: "jstring list"
  dr_connection :: "jstring option"
  dr_provider :: jstring
  dr_model :: jstring
  dr_endpoint :: jstring
  dr_approved :: bool
  dr_daily_limit :: jstring
  dr_monthly_limit :: jstring
  dr_limits :: "int list"
  dr_chats :: "jstring list"

text \<open>The texts in the language of the user.\<close>

record wizard_texts =
  wt_name :: "template \<Rightarrow> jstring"
  wt_description :: "template \<Rightarrow> jstring"
  wt_citations :: jstring
  wt_fallback :: "jstring \<Rightarrow> jstring"
  wt_tone :: "jstring \<Rightarrow> jstring"
  wt_fallback_default :: jstring
  wt_tones :: "jstring list"

definition template_descriptions :: "template \<Rightarrow> jstring" where
  "template_descriptions t =
     (case t of
        Custom \<Rightarrow> []
      | Summarizer \<Rightarrow> js (''You are the workspace Summarizer. On /summarize, summarize the current chat or thread with decisions, open questions and action items. '' @
          ''For scheduled runs, produce a concise digest. Use message IDs as citations and never invent facts.'')
      | Qa \<Rightarrow> js (''You answer questions from accessible workspace history and extracted files. Search before answering, cite the exact message or file identifiers used, '' @
          ''distinguish evidence from inference, and say when the answer is not available.'')
      | Onboarding \<Rightarrow> js (''You are the onboarding guide. Greet new members in the configured chat, explain the workspace using only accessible history and files, '' @
          ''link to source message IDs, and answer follow-up questions without exposing private chats.''))"

definition handle_base :: "template \<Rightarrow> jstring" where
  "handle_base t =
     (case t of Custom \<Rightarrow> js ''agent'' | Summarizer \<Rightarrow> js ''summarizer'' | Qa \<Rightarrow> js ''qa'' | Onboarding \<Rightarrow> js ''onboarding'')"

text \<open>The limits, in the order of the source: output tokens, tool iterations, chain depth, runs per chat, requests
  per minute, provider requests per minute, seconds of a run. The suffix is random.\<close>

definition emptyDraft :: "template \<Rightarrow> jstring \<Rightarrow> draft" where
  "emptyDraft t suff =
     \<lparr>dr_name = (case t of Summarizer \<Rightarrow> js ''Summarizer'' | Qa \<Rightarrow> js ''Workspace Q&A''
                  | Onboarding \<Rightarrow> js ''Onboarding'' | Custom \<Rightarrow> js ''New agent''),
      dr_handle = handle_base t @ js ''_'' @ suff, dr_kind = js ''builtin'', dr_recipe = t,
      dr_description = template_descriptions t, dr_enabled = False,
      dr_scopes = map js
        (if t = Onboarding
         then [''messages:read'', ''messages:write'', ''search:read'', ''files:read'', ''runtime:execute'']
         else [''messages:read'', ''messages:write'', ''search:read'', ''files:read'', ''memory:read'',
               ''memory:write'', ''runtime:execute'']),
      dr_connection = Some [], dr_provider = js ''openai'', dr_model = js ''gpt-5-mini'', dr_endpoint = [],
      dr_approved = False, dr_daily_limit = [], dr_monthly_limit = [],
      dr_limits = [2048, 8, 3, 1, 60, 300, 600], dr_chats = []\<rparr>"

section \<open>The dialog\<close>

record wizard =
  wz_step :: nat
  wz_draft :: draft
  wz_sources :: "jstring list"
  wz_destination :: jstring
  wz_launch :: launch
  wz_command :: jstring
  wz_time :: jstring
  wz_timezone :: jstring
  wz_citations :: bool
  wz_fallback :: jstring
  wz_tone :: jstring
  wz_instructions :: jstring
  wz_error :: "string option"

definition first_launch :: "template \<Rightarrow> launch" where
  "first_launch t =
     (case t of Summarizer \<Rightarrow> On_Schedule | Qa \<Rightarrow> On_Mention | Onboarding \<Rightarrow> Member_Join | Custom \<Rightarrow> Manually)"

definition templated :: "wizard_texts \<Rightarrow> template \<Rightarrow> jstring \<Rightarrow> draft" where
  "templated tx t suff =
     (emptyDraft t suff)\<lparr>dr_name := wt_name tx t, dr_description := (if t = Custom then [] else wt_description tx t)\<rparr>"

text \<open>The dialog opens with the zone of the browser.\<close>

definition opened :: "wizard_texts \<Rightarrow> jstring \<Rightarrow> template \<Rightarrow> jstring \<Rightarrow> wizard" where
  "opened tx zone t suff =
     \<lparr>wz_step = 1, wz_draft = templated tx t suff, wz_sources = [], wz_destination = [],
      wz_launch = first_launch t, wz_command = js ''summarize'', wz_time = js ''09:00'',
      wz_timezone = (if zone = [] then js ''UTC'' else zone), wz_citations = (t \<noteq> Custom),
      wz_fallback = wt_fallback_default tx, wz_tone = hd (wt_tones tx), wz_instructions = [], wz_error = None\<rparr>"

definition selectTemplate :: "wizard_texts \<Rightarrow> template \<Rightarrow> jstring \<Rightarrow> wizard \<Rightarrow> wizard" where
  "selectTemplate tx t suff w =
     w\<lparr>wz_draft := templated tx t suff, wz_launch := first_launch t, wz_citations := (t \<noteq> Custom)\<rparr>"

definition next_page :: "wizard \<Rightarrow> wizard" where
  "next_page w =
     (if wz_step w = 1 \<and> (js_trim (dr_name (wz_draft w)) = [] \<or> js_trim (dr_handle (wz_draft w)) = [])
      then w\<lparr>wz_error := Some ''agentWizardIdentityRequired''\<rparr>
      else if wz_step w = 2 \<and> (wz_sources w = [] \<or> wz_destination w = [])
      then w\<lparr>wz_error := Some ''agentTemplateChatRequired''\<rparr>
      else if wz_step w = 3 \<and> dr_recipe (wz_draft w) = Custom \<and> js_trim (wz_instructions w) = []
      then w\<lparr>wz_error := Some ''agentWizardInstructionsRequired''\<rparr>
      else w\<lparr>wz_error := None, wz_step := min 5 (wz_step w + 1)\<rparr>)"

text \<open>An LLM connection of the fourth page: its id, provider, endpoint and default model.\<close>

record connection =
  cn_id :: jstring
  cn_provider :: jstring
  cn_endpoint :: "jstring option"
  cn_model :: jstring

definition pick_connection :: "connection option \<Rightarrow> draft \<Rightarrow> draft" where
  "pick_connection c d =
     (case c of
        None \<Rightarrow> d\<lparr>dr_connection := Some [], dr_endpoint := []\<rparr>
      | Some k \<Rightarrow>
          d\<lparr>dr_connection := Some (cn_id k), dr_provider := cn_provider k,
            dr_endpoint := (case cn_endpoint k of Some u \<Rightarrow> u | None \<Rightarrow> []),
            dr_model := (if cn_model k \<noteq> [] then cn_model k else dr_model d)\<rparr>)"

text \<open>The launches the third page offers.\<close>

definition launches :: "template \<Rightarrow> launch list" where
  "launches t = (if t = Onboarding then [Member_Join, On_Mention, Manually]
                 else [Manually, On_Mention, On_Command, On_Schedule])"

text \<open>What a field of type \<open>time\<close> can hold.\<close>

definition time_value :: "jstring \<Rightarrow> bool" where
  "time_value s \<longleftrightarrow> s = [] \<or> (\<exists>h \<in> set [0..<24]. \<exists>m \<in> set [0..<60]. s = time_text h m)"

datatype wizard_event =
    Pick template jstring
  | Type_Name jstring
  | Check_Source jstring bool
  | Choose_Destination jstring
  | Type_Instructions jstring
  | Type_Fallback jstring
  | Choose_Tone jstring
  | Toggle_Citations bool
  | Pick_Launch launch
  | Type_Command jstring
  | Type_Time jstring
  | Type_Timezone jstring
  | Pick_Connection "connection option"
  | Approve_Sharing bool
  | Next_Page
  | Previous_Page

text \<open>Whether the dialog shows the control, and the value is one it can take.\<close>

fun offered :: "wizard_texts \<Rightarrow> jstring list \<Rightarrow> connection list \<Rightarrow> wizard \<Rightarrow> wizard_event \<Rightarrow> bool" where
  "offered tx chats cs w (Pick t _) = (wz_step w = 1)"
| "offered tx chats cs w (Type_Name _) = (wz_step w = 1)"
| "offered tx chats cs w (Check_Source c on) = (wz_step w = 2 \<and> c \<in> set chats \<and> (on \<longleftrightarrow> c \<notin> set (wz_sources w)))"
| "offered tx chats cs w (Choose_Destination c) = (wz_step w = 2 \<and> (c = [] \<or> c \<in> set chats))"
| "offered tx chats cs w (Type_Instructions _) = (wz_step w = 3 \<and> dr_recipe (wz_draft w) = Custom)"
| "offered tx chats cs w (Type_Fallback _) = (wz_step w = 3 \<and> dr_recipe (wz_draft w) = Qa)"
| "offered tx chats cs w (Choose_Tone s) =
     (wz_step w = 3 \<and> dr_recipe (wz_draft w) = Onboarding \<and> s \<in> set (wt_tones tx))"
| "offered tx chats cs w (Toggle_Citations _) = (wz_step w = 3 \<and> dr_recipe (wz_draft w) \<noteq> Custom)"
| "offered tx chats cs w (Pick_Launch l) = (wz_step w = 3 \<and> l \<in> set (launches (dr_recipe (wz_draft w))))"
| "offered tx chats cs w (Type_Command _) = (wz_step w = 3 \<and> wz_launch w = On_Command)"
| "offered tx chats cs w (Type_Time s) = (wz_step w = 3 \<and> wz_launch w = On_Schedule \<and> time_value s)"
| "offered tx chats cs w (Type_Timezone _) = (wz_step w = 3 \<and> wz_launch w = On_Schedule)"
| "offered tx chats cs w (Pick_Connection c) =
     (wz_step w = 4 \<and> (case c of None \<Rightarrow> True | Some k \<Rightarrow> k \<in> set cs))"
| "offered tx chats cs w (Approve_Sharing _) = (wz_step w = 4)"
| "offered tx chats cs w Next_Page = (wz_step w < 5)"
| "offered tx chats cs w Previous_Page = (wz_step w > 1)"

fun handle_wizard :: "wizard_texts \<Rightarrow> wizard_event \<Rightarrow> wizard \<Rightarrow> wizard" where
  "handle_wizard tx (Pick t suff) w = selectTemplate tx t suff w"
| "handle_wizard tx (Type_Name s) w = w\<lparr>wz_draft := (wz_draft w)\<lparr>dr_name := s\<rparr>\<rparr>"
| "handle_wizard tx (Check_Source c on) w =
     w\<lparr>wz_sources := (if on then wz_sources w @ [c] else filter (\<lambda>i. i \<noteq> c) (wz_sources w))\<rparr>"
| "handle_wizard tx (Choose_Destination c) w = w\<lparr>wz_destination := c\<rparr>"
| "handle_wizard tx (Type_Instructions s) w = w\<lparr>wz_instructions := s\<rparr>"
| "handle_wizard tx (Type_Fallback s) w = w\<lparr>wz_fallback := s\<rparr>"
| "handle_wizard tx (Choose_Tone s) w = w\<lparr>wz_tone := s\<rparr>"
| "handle_wizard tx (Toggle_Citations b) w = w\<lparr>wz_citations := b\<rparr>"
| "handle_wizard tx (Pick_Launch l) w = w\<lparr>wz_launch := l\<rparr>"
| "handle_wizard tx (Type_Command s) w = w\<lparr>wz_command := s\<rparr>"
| "handle_wizard tx (Type_Time s) w = w\<lparr>wz_time := s\<rparr>"
| "handle_wizard tx (Type_Timezone s) w = w\<lparr>wz_timezone := s\<rparr>"
| "handle_wizard tx (Pick_Connection c) w = w\<lparr>wz_draft := pick_connection c (wz_draft w)\<rparr>"
| "handle_wizard tx (Approve_Sharing b) w = w\<lparr>wz_draft := (wz_draft w)\<lparr>dr_approved := b\<rparr>\<rparr>"
| "handle_wizard tx Next_Page w = next_page w"
| "handle_wizard tx Previous_Page w = w\<lparr>wz_step := wz_step w - 1\<rparr>"

text \<open>The dialogs a user can get to.\<close>

inductive wizard_reached :: "wizard_texts \<Rightarrow> jstring list \<Rightarrow> connection list \<Rightarrow> wizard \<Rightarrow> bool"
  for tx :: wizard_texts and chats :: "jstring list" and cs :: "connection list" where
  wizard_opens: "wizard_reached tx chats cs (opened tx zone t suff)"
| wizard_steps: "wizard_reached tx chats cs w \<Longrightarrow> offered tx chats cs w ev \<Longrightarrow>
    wizard_reached tx chats cs (handle_wizard tx ev w)"

section \<open>Creating the agent\<close>

definition wizard_description :: "wizard_texts \<Rightarrow> wizard \<Rightarrow> jstring" where
  "wizard_description tx w =
     (let r = dr_recipe (wz_draft w);
          base = (if r = Custom then js_trim (wz_instructions w) else wt_description tx r);
          policy = [if wz_citations w then wt_citations tx else [],
                    if r = Qa \<and> js_trim (wz_fallback w) \<noteq> [] then wt_fallback tx (js_trim (wz_fallback w)) else [],
                    if r = Onboarding then wt_tone tx (wz_tone w) else []]
      in join_with [10, 10] (base # filter (\<lambda>p. p \<noteq> []) policy))"

definition wizard_chats :: "wizard \<Rightarrow> jstring list" where
  "wizard_chats w = js_set [] (wz_sources w @ [wz_destination w])"

definition wizard_input :: "wizard_texts \<Rightarrow> wizard \<Rightarrow> draft" where
  "wizard_input tx w =
     (let d = (wz_draft w)\<lparr>dr_description := wizard_description tx w, dr_chats := wizard_chats w, dr_enabled := False\<rparr> in
      if dr_connection d \<noteq> None \<and> dr_connection d \<noteq> Some []
      then d\<lparr>dr_provider := [], dr_endpoint := []\<rparr> else d\<lparr>dr_connection := None\<rparr>)"

definition wizard_options :: "wizard \<Rightarrow> recipe_options" where
  "wizard_options w =
     \<lparr>ro_launch = wz_launch w, ro_destination = Val (wz_destination w), ro_command = Val (wz_command w),
      ro_hour = time_part 0 (wz_time w), ro_minute = time_part 1 (wz_time w), ro_timezone = Val (wz_timezone w)\<rparr>"

definition wizard_requests :: "wizard \<Rightarrow> trigger_request list" where
  "wizard_requests w = recipeTriggerRequests (dr_recipe (wz_draft w)) (wizard_options w)"

text \<open>The agent at the server: its draft and its triggers.\<close>

record agent_row =
  ag_draft :: draft
  ag_triggers :: "trigger_request list"

text \<open>A call is answered, refused, or carried out with its answer lost.\<close>

datatype reply = Answered | Lost | Refused

record replies =
  re_create :: reply
  re_list :: bool
  re_delete :: "nat \<Rightarrow> reply"
  re_trigger :: "nat \<Rightarrow> reply"
  re_created :: bool
  re_cleanup :: reply

text \<open>The parallel deletion of the triggers the agent has, and the requests for new ones, one after the other.
  The server refuses what \<open>accepts\<close> does not admit, with the agent in the chats of its draft.\<close>

definition delete_triggers :: "(nat \<Rightarrow> reply) \<Rightarrow> trigger_request list \<Rightarrow> bool \<times> trigger_request list" where
  "delete_triggers rep ts =
     (list_all (\<lambda>i. rep i = Answered) [0..<length ts],
      map snd (filter (\<lambda>(i, _). rep i = Refused) (enumerate 0 ts)))"

fun post_triggers ::
  "trigger_server \<Rightarrow> (nat \<Rightarrow> reply) \<Rightarrow> nat \<Rightarrow> trigger_request list \<Rightarrow> trigger_request list \<Rightarrow> bool \<times> trigger_request list" where
  "post_triggers sv rep i [] ts = (True, ts)"
| "post_triggers sv rep i (r # rs) ts =
     (if \<not> accepts sv r \<or> rep i = Refused then (False, ts)
      else if rep i = Lost then (False, ts @ [r])
      else post_triggers sv rep (i + 1) rs (ts @ [r]))"

definition agent_server :: "trigger_server \<Rightarrow> draft \<Rightarrow> trigger_server" where
  "agent_server sv d = sv\<lparr>sv_member := \<lambda>c. c \<in> set (dr_chats d)\<rparr>"

text \<open>What follows the creation of the agent, until a call fails.\<close>

definition configure :: "trigger_server \<Rightarrow> replies \<Rightarrow> trigger_request list \<Rightarrow> agent_row \<Rightarrow> bool \<times> agent_row" where
  "configure sv re rs row =
     (if \<not> re_list re then (False, row)
      else
        let (cleared, kept) = delete_triggers (re_delete re) (ag_triggers row) in
        if \<not> cleared then (False, row\<lparr>ag_triggers := kept\<rparr>)
        else
          let (posted, ts) = post_triggers (agent_server sv (ag_draft row)) (re_trigger re) 0 rs kept in
          (posted \<and> re_created re, row\<lparr>ag_triggers := ts\<rparr>))"

text \<open>\<open>create\<close>: whether the dialog completes, and what the server has then.\<close>

definition create :: "wizard_texts \<Rightarrow> trigger_server \<Rightarrow> replies \<Rightarrow> wizard \<Rightarrow> bool \<times> agent_row option" where
  "create tx sv re w =
     (let d = wizard_input tx w in
      case (re_create re, insertRecipeTriggers (dr_recipe d) (dr_chats d)) of
        (Refused, _) \<Rightarrow> (False, None)
      | (_, None) \<Rightarrow> (False, None)
      | (Lost, Some ts) \<Rightarrow> (False, Some \<lparr>ag_draft = d, ag_triggers = ts\<rparr>)
      | (Answered, Some ts) \<Rightarrow>
          (let (ok, row) = configure sv re (wizard_requests w) \<lparr>ag_draft = d, ag_triggers = ts\<rparr> in
           if ok then (True, Some row)
           else (False, if re_cleanup re = Refused then Some row else None)))"

section \<open>Pages and drafts\<close>

definition page_ok :: "wizard_texts \<Rightarrow> jstring list \<Rightarrow> wizard \<Rightarrow> bool" where
  "page_ok tx chats w \<longleftrightarrow>
     1 \<le> wz_step w \<and> wz_step w \<le> 5 \<and> set (wz_sources w) \<subseteq> set chats \<and> distinct (wz_sources w) \<and>
     (wz_destination w = [] \<or> wz_destination w \<in> set chats) \<and>
     wz_launch w \<in> set (launches (dr_recipe (wz_draft w))) \<and> time_value (wz_time w) \<and>
     \<not> dr_enabled (wz_draft w)"

definition passed :: "wizard \<Rightarrow> bool" where
  "passed w \<longleftrightarrow>
     (wz_step w > 1 \<longrightarrow> js_trim (dr_name (wz_draft w)) \<noteq> [] \<and> js_trim (dr_handle (wz_draft w)) \<noteq> []) \<and>
     (wz_step w > 2 \<longrightarrow> wz_sources w \<noteq> [] \<and> wz_destination w \<noteq> []) \<and>
     (wz_step w > 3 \<longrightarrow> dr_recipe (wz_draft w) = Custom \<longrightarrow> js_trim (wz_instructions w) \<noteq> [])"

lemma default_time: "time_value (js ''09:00'')"
proof -
  have "js ''09:00'' = time_text 9 0" by code_simp
  moreover have "time_value (time_text 9 0)" unfolding time_value_def by (rule disjI2, rule bexI [of _ 9], rule bexI [of _ 0]) simp_all
  ultimately show ?thesis by (simp only:)
qed

lemma page_ok_opened: "page_ok tx chats (opened tx zone t suff)"
  using default_time by (cases t)
    (simp_all add: page_ok_def opened_def templated_def emptyDraft_def first_launch_def launches_def del: js_Cons)

lemma passed_opened: "passed (opened tx zone t suff)"
  by (simp add: passed_def opened_def)

lemma templated_draft: "dr_recipe (templated tx t suff) = t" "dr_enabled (templated tx t suff) = False"
  by (simp_all add: templated_def emptyDraft_def)

lemma pick_connection_fields:
  "dr_recipe (pick_connection c d) = dr_recipe d" "dr_enabled (pick_connection c d) = dr_enabled d"
  "dr_name (pick_connection c d) = dr_name d" "dr_handle (pick_connection c d) = dr_handle d"
  by (auto simp: pick_connection_def split: option.splits)

lemma page_ok_step:
  assumes "page_ok tx chats w" and "offered tx chats cs w ev"
  shows "page_ok tx chats (handle_wizard tx ev w)"
  using assms
  by (cases ev; cases "dr_recipe (wz_draft w)")
    (auto simp: page_ok_def selectTemplate_def templated_draft first_launch_def launches_def next_page_def
      pick_connection_fields split: template.splits)

lemma passed_step:
  assumes "passed w" and "offered tx chats cs w ev"
  shows "passed (handle_wizard tx ev w)"
  using assms
  by (cases ev) (auto simp: passed_def selectTemplate_def templated_draft next_page_def pick_connection_fields)

lemma wizard_invariant: "wizard_reached tx chats cs w \<Longrightarrow> page_ok tx chats w \<and> passed w"
  by (induction rule: wizard_reached.induct)
    (simp_all add: page_ok_opened passed_opened page_ok_step passed_step)

section \<open>What the last page stands for\<close>

lemma time_value_parts:
  assumes "time_value s"
  obtains h m where "time_part 0 s = Val (Num h)" "0 \<le> h" "h \<le> 23"
    "nullish (time_part 1 s) (Num 0) = Num m" "0 \<le> m" "m \<le> 59"
proof (cases "s = []")
  case True
  then show thesis using that [of 0 0] empty_time by simp
next
  case False
  then obtain h m where "h < 24" "m < 60" "s = time_text h m" using assms by (auto simp: time_value_def)
  then show thesis using that [of "int h" "int m"] time_parts [of h m] by simp
qed

text \<open>C34: Whoever reaches the last page of the creation dialog has a named agent with instructions, chats to read
  and a chat to write to; the agent is created disabled, in exactly the chats chosen, all of them offered by the
  dialog, and with exactly one trigger.\<close>

theorem reviewed_drafts_are_complete:
  assumes "wizard_reached tx chats cs w" and "wz_step w = 5"
  shows "js_trim (dr_name (wizard_input tx w)) \<noteq> [] \<and>
    (dr_recipe (wizard_input tx w) = Custom \<longrightarrow> js_trim (wz_instructions w) \<noteq> []) \<and>
    \<not> dr_enabled (wizard_input tx w) \<and> distinct (dr_chats (wizard_input tx w)) \<and>
    set (dr_chats (wizard_input tx w)) = insert (wz_destination w) (set (wz_sources w)) \<and>
    set (dr_chats (wizard_input tx w)) \<subseteq> set chats \<and> wz_sources w \<noteq> [] \<and> wz_destination w \<noteq> [] \<and>
    length (wizard_requests w) = 1"
proof -
  have inv: "page_ok tx chats w" "passed w" using wizard_invariant [OF assms(1)] by auto
  then have dest: "wz_destination w \<noteq> []" "wz_sources w \<noteq> []" and time: "time_value (wz_time w)"
    using assms(2) by (auto simp: passed_def page_ok_def)
  obtain h m where "time_part 0 (wz_time w) = Val (Num h)" "nullish (time_part 1 (wz_time w)) (Num 0) = Num m"
    using time_value_parts [OF time] by metis
  then have "length (wizard_requests w) = 1"
    using recipe_accepted(2) [of "wizard_options w" "wz_destination w" h m] dest(1)
    by (simp add: wizard_requests_def wizard_options_def)
  moreover have "distinct (wizard_chats w)" by (simp add: wizard_chats_def distinct_js_set)
  moreover have "set (wizard_chats w) = insert (wz_destination w) (set (wz_sources w))"
    by (auto simp: wizard_chats_def)
  ultimately show ?thesis
    using inv dest assms(2) by (auto simp: wizard_input_def Let_def passed_def page_ok_def)
qed

section \<open>What the server keeps\<close>


lemma delete_triggers_empty: "fst (delete_triggers rep ts) \<Longrightarrow> snd (delete_triggers rep ts) = []"
proof -
  assume "fst (delete_triggers rep ts)"
  then have "\<forall>i < length ts. rep i = Answered" by (auto simp: delete_triggers_def list_all_iff)
  then show ?thesis by (auto simp: delete_triggers_def filter_empty_conv in_set_enumerate_eq)
qed

lemma post_all: "fst (post_triggers sv rep i rs ts) \<Longrightarrow> snd (post_triggers sv rep i rs ts) = ts @ rs \<and> (\<forall>r \<in> set rs. accepts sv r)"
proof (induction rs arbitrary: i ts)
  case (Cons r rs)
  then have go: "accepts sv r" "rep i \<noteq> Refused" "rep i \<noteq> Lost" by (auto split: if_splits)
  then show ?case using Cons.IH [of "i + 1" "ts @ [r]"] Cons.prems by simp
qed simp


lemma configure_done:
  assumes "fst (configure sv re rs row)"
  shows "snd (configure sv re rs row) = row\<lparr>ag_triggers := rs\<rparr>"
proof -
  obtain cleared kept where del: "delete_triggers (re_delete re) (ag_triggers row) = (cleared, kept)" by fastforce
  obtain posted ts where post: "post_triggers (agent_server sv (ag_draft row)) (re_trigger re) 0 rs kept = (posted, ts)"
    by fastforce
  have all: "re_list re" "cleared" "posted"
    using assms del post by (auto simp: configure_def split: if_splits)
  have "kept = []" using delete_triggers_empty [of "re_delete re" "ag_triggers row"] del all(2) by simp
  then have "ts = rs" using post_all [of "agent_server sv (ag_draft row)" "re_trigger re" 0 rs kept] post all(3) by simp
  then show ?thesis using del post all by (simp add: configure_def)
qed

text \<open>Whichever calls fail: an agent that is there is complete, or the answer to its creation was lost, or so was
  the attempt to delete it.\<close>

theorem created_or_cleaned_up:
  assumes "create tx sv re w = (ok, agent)"
  shows "(ok \<longrightarrow> agent = Some \<lparr>ag_draft = wizard_input tx w, ag_triggers = wizard_requests w\<rparr>) \<and>
    (\<not> ok \<longrightarrow> agent = None \<or> re_create re = Lost \<or> re_cleanup re = Refused)"
proof -
  define d where "d = wizard_input tx w"
  show ?thesis
  proof (cases "re_create re = Answered \<and> insertRecipeTriggers (dr_recipe d) (dr_chats d) \<noteq> None")
    case True
    then obtain ts where ts: "insertRecipeTriggers (dr_recipe d) (dr_chats d) = Some ts" by blast
    obtain good row where conf: "configure sv re (wizard_requests w) \<lparr>ag_draft = d, ag_triggers = ts\<rparr> = (good, row)"
      by fastforce
    have "good \<Longrightarrow> row = \<lparr>ag_draft = d, ag_triggers = wizard_requests w\<rparr>"
      using configure_done [of sv re "wizard_requests w" "\<lparr>ag_draft = d, ag_triggers = ts\<rparr>"] conf by simp
    then show ?thesis
      using assms True ts conf by (auto simp: create_def d_def [symmetric] split: if_splits)
  next
    case False
    then have "\<not> ok \<and> (agent = None \<or> re_create re = Lost)"
      using assms by (auto simp: create_def d_def [symmetric] split: reply.splits option.splits)
    then show ?thesis by blast
  qed
qed

definition answering :: replies where
  "answering = \<lparr>re_create = Answered, re_list = True, re_delete = (\<lambda>_. Answered), re_trigger = (\<lambda>_. Answered),
     re_created = True, re_cleanup = Answered\<rparr>"



definition wizard_zone :: "wizard \<Rightarrow> jstring" where
  "wizard_zone w = (if wz_timezone w = [] then js ''UTC'' else wz_timezone w)"




section \<open>An agent made with the dialog\<close>

definition sample_chat :: jstring where
  "sample_chat = js ''c1''"

definition sample_texts :: wizard_texts where
  "sample_texts = \<lparr>wt_name = (\<lambda>_. js ''Agent''), wt_description = (\<lambda>_. js ''Helps''), wt_citations = js ''Cite'',
     wt_fallback = (\<lambda>s. s), wt_tone = (\<lambda>s. s), wt_fallback_default = js ''Say so'', wt_tones = [js ''friendly'']\<rparr>"


definition sample_wizard :: wizard where
  "sample_wizard = fold (handle_wizard sample_texts)
     [Next_Page, Check_Source sample_chat True, Choose_Destination sample_chat, Next_Page, Next_Page, Next_Page]
     (opened sample_texts [] Qa (js ''x''))"

lemmas wizard_eval = opened_def templated_def emptyDraft_def first_launch_def handle_base_def next_page_def
  sample_texts_def

lemma sample_wizard_eq:
  "sample_wizard = (opened sample_texts [] Qa (js ''x''))\<lparr>wz_step := 5, wz_sources := [sample_chat], wz_destination := sample_chat\<rparr>"
  "wizard_reached sample_texts [sample_chat] [] sample_wizard"
proof -
  define w0 where "w0 = opened sample_texts [] Qa (js ''x'')"
  have name: "js_trim (dr_name (wz_draft w0)) \<noteq> []" "js_trim (dr_handle (wz_draft w0)) \<noteq> []"
    unfolding w0_def by code_simp+
  have start: "wz_step w0 = 1" "wz_sources w0 = []" "wz_error w0 = None" "dr_recipe (wz_draft w0) = Qa"
    by (simp_all add: w0_def wizard_eval)
  have full: "sample_chat \<noteq> []" by (simp add: sample_chat_def)
  let ?go = "handle_wizard sample_texts"
  let ?reached = "wizard_reached sample_texts [sample_chat] []"
  have "?reached w0" unfolding w0_def by (rule wizard_opens)
  then have 1: "?reached (?go Next_Page w0)" by (rule wizard_steps) (simp add: start)
  then have 2: "?reached (?go (Check_Source sample_chat True) (?go Next_Page w0))"
    by (rule wizard_steps) (simp add: start name next_page_def)
  then have 3: "?reached (?go (Choose_Destination sample_chat) (?go (Check_Source sample_chat True) (?go Next_Page w0)))"
    by (rule wizard_steps) (simp add: start name next_page_def)
  then have 4: "?reached (?go Next_Page (?go (Choose_Destination sample_chat) (?go (Check_Source sample_chat True) (?go Next_Page w0))))"
    by (rule wizard_steps) (simp add: start name next_page_def)
  then have 5: "?reached (?go Next_Page (?go Next_Page (?go (Choose_Destination sample_chat) (?go (Check_Source sample_chat True) (?go Next_Page w0)))))"
    by (rule wizard_steps) (simp add: start name next_page_def full)
  then have 6: "?reached (?go Next_Page (?go Next_Page (?go Next_Page (?go (Choose_Destination sample_chat) (?go (Check_Source sample_chat True) (?go Next_Page w0))))))"
    by (rule wizard_steps) (simp add: start name next_page_def full)
  then show "?reached sample_wizard" by (simp add: sample_wizard_def w0_def)
  show "sample_wizard = (opened sample_texts [] Qa (js ''x''))\<lparr>wz_step := 5, wz_sources := [sample_chat], wz_destination := sample_chat\<rparr>"
    unfolding sample_wizard_def w0_def [symmetric] by (simp add: start name full next_page_def)
qed

lemma sample_wizard_fields:
  "wz_step sample_wizard = 5" "wz_launch sample_wizard = On_Mention" "wizard_zone sample_wizard = js ''UTC''"
  by (simp_all add: sample_wizard_eq(1) wizard_eval wizard_zone_def)

theorem reviewed_drafts_are_complete_witness:
  "dr_chats (wizard_input sample_texts sample_wizard) = [sample_chat] \<and> length (wizard_requests sample_wizard) = 1"
  using reviewed_drafts_are_complete [OF sample_wizard_eq(2) sample_wizard_fields(1)]
  by (simp add: wizard_input_def wizard_chats_def sample_wizard_eq(1) Let_def)


end
