(* ===== verification/Composer.thy ===== *)
theory Composer
  imports Mentions Json
begin

text \<open>
  The message composer, \<open>composer/Composer.tsx\<close>, and the resolution of its mentions, \<open>lib/mentions.ts\<close>. The
  state is the stored body; what the text area shows and edits is its decoding. Every operation on the text
  goes through \<open>setVisibleText\<close> or \<open>insertMember\<close>. A selection is the pair of offsets the text area reports.
  Letters and digits outside of ASCII (\<open>\p{L}\<close>, \<open>\p{N}\<close>) and the lower case of names are parameters.

  The first part shows that decoding inverts encoding as well, as long as the text does not contain
  the opening \<open>@[\<close> of the stored form; the second what the composer's commands do to the text and to the
  people who are notified.
\<close>

section \<open>Decoding what was encoded\<close>

definition raw_form :: "jstring \<Rightarrow> jstring \<Rightarrow> jstring" where
  "raw_form label actor = js ''@['' @ label @ js '']('' @ actor @ js '')''"

definition storable :: "jstring \<Rightarrow> jstring \<Rightarrow> bool" where
  "storable label actor \<longleftrightarrow> label \<noteq> [] \<and> ch CHR '']'' \<notin> set label \<and> length actor = 36 \<and> list_all is_uuid_char actor"

lemma length_raw_form [simp]: "length (raw_form l a) = length l + length a + 5"
  by (simp add: raw_form_def)

lemma mention_at_raw: "storable l a \<Longrightarrow> mention_at (raw_form l a @ rest) = Some (l, a, length l + 41)"
proof -
  assume s: "storable l a"
  define tl where "tl = js '']('' @ a @ js '')'' @ rest"
  have whole: "raw_form l a @ rest = js ''@['' @ l @ tl" by (simp only: raw_form_def tl_def append_assoc)
  have label: "takeWhile (\<lambda>c. c \<noteq> ch CHR '']'') (l @ tl) = l"
    using s by (subst takeWhile_append2) (auto simp: storable_def tl_def)
  have drops: "drop 2 (js ''@['' @ l @ tl) = l @ tl" "drop (2 + length l) (js ''@['' @ l @ tl) = tl"
    "drop 2 tl = a @ js '')'' @ rest" "drop 38 tl = js '')'' @ rest"
    using s by (simp_all add: tl_def storable_def)
  have "take 36 (drop 2 tl) = a" using s by (simp add: drops storable_def)
  moreover have "starts_with (js ''@['') (js ''@['' @ l @ tl)" "starts_with (js '']('') tl"
    "starts_with (js '')'') (drop 38 tl)"
    unfolding drops(4) by (rule starts_with_append) (simp only: tl_def starts_with_append, rule starts_with_append)
  ultimately show ?thesis
    using s unfolding mention_at_def Let_def whole drops(1) label drops(2) by (simp add: storable_def)
qed

lemma mention_at_open: "mention_at s = Some (l, a, n) \<Longrightarrow> starts_with (js ''@['') s \<and> storable l a \<and> n = length l + 41"
proof -
  assume m: "mention_at s = Some (l, a, n)"
  then have "l = takeWhile (\<lambda>c. c \<noteq> ch CHR '']'') (drop 2 s)"
    and rest: "starts_with (js ''@['') s" "l \<noteq> []" "length a = 36" "list_all is_uuid_char a" "n = length l + 41"
    by (auto simp: mention_at_def Let_def split: if_splits)
  then have "ch CHR '']'' \<notin> set l" using set_takeWhileD [of "ch CHR '']''" "\<lambda>c. c \<noteq> ch CHR '']''" "drop 2 s"] by auto
  with rest show ?thesis by (simp add: storable_def)
qed

lemma mention_at_split:
  assumes "mention_at s = Some (l, a, n)"
  obtains rest where "s = raw_form l a @ rest" "storable l a" "n = length l + 41"
proof
  show "s = raw_form l a @ drop n s"
    using mention_at_prefix(3) [OF assms] append_take_drop_id [of n s] by (simp add: raw_form_def)
qed (use mention_at_open [OF assms] in simp_all)

text \<open>No position starts the stored form of a mention.\<close>

fun no_open :: "jstring \<Rightarrow> bool" where
  "no_open (c # d # s) \<longleftrightarrow> \<not> (c = ch CHR ''@'' \<and> d = ch CHR ''['') \<and> no_open (d # s)"
| "no_open [] \<longleftrightarrow> True"
| "no_open [_] \<longleftrightarrow> True"

lemma no_open_append: "no_open (s @ t) \<Longrightarrow> no_open s \<and> no_open t"
proof (induction s rule: no_open.induct)
  case (3 c)
  then show ?case by (cases t) auto
qed auto

lemma no_open_mention: "no_open s \<Longrightarrow> mention_at s = None"
proof (rule ccontr)
  assume s: "no_open s" and "mention_at s \<noteq> None"
  then obtain l a n where "mention_at s = Some (l, a, n)" by (cases "mention_at s") auto
  then have "starts_with (js ''@['') s" using mention_at_open by blast
  then show False using s starts_withE [of "js ''@[''" s] by auto
qed

lemma no_open_match_all: "no_open s \<Longrightarrow> match_all p s = []"
proof (induction s arbitrary: p)
  case (Cons c s)
  then have "no_open s" using no_open_append [of "[c]" s] by simp
  then show ?case using no_open_mention [OF Cons.prems] Cons.IH by simp
qed simp

text \<open>The gap before a mention has no match: also its last unit is followed by the \<open>@\<close> of the mention.\<close>

lemma gap_mention:
  assumes "no_open (c # g)"
  shows "mention_at (c # g @ raw_form l a @ rest) = None"
proof (rule ccontr)
  assume "mention_at (c # g @ raw_form l a @ rest) \<noteq> None"
  then obtain l' a' n where "mention_at (c # g @ raw_form l a @ rest) = Some (l', a', n)"
    by (cases "mention_at (c # g @ raw_form l a @ rest)") auto
  then have "starts_with (js ''@['') (c # g @ raw_form l a @ rest)" using mention_at_open by blast
  then show False using assms by (cases g) (auto simp: starts_with_def raw_form_def)
qed

lemma match_all_gap:
  assumes "no_open g" and "storable l a"
  shows "match_all p (g @ raw_form l a @ rest) =
    \<lparr>mm_index = p + length g, mm_length = length l + 41, mm_label = l, mm_actor = a\<rparr> #
      match_all (p + length g + length l + 41) rest"
  using assms(1)
proof (induction g arbitrary: p)
  case Nil
  obtain c cs where raw: "raw_form l a @ rest = c # cs" by (simp add: raw_form_def)
  have len: "length (raw_form l a) = length l + 41" using assms(2) by (simp add: storable_def)
  have "drop (length l + 40) cs = drop (length l + 41) (c # cs)"
    using drop_Suc_Cons [of "length l + 40" c cs] by (simp add: add.commute)
  also have "\<dots> = rest" by (simp only: raw [symmetric]) (simp add: len del: length_raw_form)
  finally have "drop (length l + 41 - 1) cs = rest" by (simp add: add.commute)
  then show ?case using mention_at_raw [OF assms(2), of rest] by (simp add: raw add.assoc)
next
  case (Cons c g)
  then have "no_open g" using no_open_append [of "[c]" g] by simp
  then show ?case using gap_mention [OF Cons.prems] Cons.IH [of "p + 1"] by simp
qed

definition storable_ref :: "mention_ref \<Rightarrow> bool" where
  "storable_ref m \<longleftrightarrow> storable (mr_label m) (mr_actorID m)"

lemma raw_mention_form: "raw_mention m = raw_form (mr_label m) (mr_actorID m)"
  by (simp add: raw_mention_def raw_form_def)

lemma encoded_decodes:
  assumes "sorted_wrt (\<lambda>a b. mr_end a \<le> mr_start b) refs"
    and "\<forall>m \<in> set refs. ref_shown T m \<and> storable_ref m \<and> int c \<le> mr_start m"
    and "no_open T" and "c \<le> length T"
  shows "dec_text (pre @ encode_loop T (int c) refs) (length pre)
      (match_all (length pre) (encode_loop T (int c) refs)) = drop c T \<and>
    dec_refs (length pre) c (match_all (length pre) (encode_loop T (int c) refs)) = refs"
  using assms
proof (induction refs arbitrary: c pre)
  case Nil
  have "no_open (drop c T)" using no_open_append [of "take c T" "drop c T"] Nil.prems(3) by simp
  then have "match_all p (drop c T) = []" for p by (rule no_open_match_all)
  then show ?case using Nil.prems by (simp add: js_slice_from_nat)
next
  case (Cons m refs)
  obtain a b where ab: "mr_start m = int a" "mr_end m = int b"
    using Cons.prems(2) by (metis list.set_intros(1) ref_shown_def nonneg_int_cases order.trans order_less_imp_le)
  define l i where "l = mr_label m" and "i = mr_actorID m"
  have st: "storable l i" using Cons.prems(2) by (simp add: storable_ref_def l_def i_def)
  have range: "c \<le> a" "a < b" "b \<le> length T" and vis: "take (b - a) (drop a T) = visible l"
    using Cons.prems(2) ab by (auto simp: ref_shown_def js_slice_nat l_def)
  have len_l: "b = a + Suc (length l)"
    using range arg_cong [OF vis, of length] by simp
  define g where "g = take (a - c) (drop c T)"
  have g: "length g = a - c" using range by (simp add: g_def)
  have "T = take c T @ g @ drop a T" unfolding g_def
    using range by (metis append_take_drop_id drop_drop le_add_diff_inverse2)
  then have "no_open g" using Cons.prems(3) no_open_append by metis
  define rest where "rest = encode_loop T (int b) refs"
  have enc: "encode_loop T (int c) (m # refs) = g @ raw_form l i @ rest"
    using range ab by (simp add: js_slice_nat g_def rest_def raw_mention_form l_def i_def)
  define pre' where "pre' = pre @ g @ raw_form l i"
  have pre': "length pre' = length pre + (a - c) + length l + 41"
    using g st by (simp add: pre'_def storable_def)
  define mm where "mm = \<lparr>mm_index = length pre + (a - c), mm_length = length l + 41, mm_label = l, mm_actor = i\<rparr>"
  have ma: "match_all (length pre) (encode_loop T (int c) (m # refs)) = mm # match_all (length pre') rest"
    using match_all_gap [OF \<open>no_open g\<close> st, of "length pre" rest] by (simp only: enc g pre' mm_def)
  have IH: "dec_text (pre' @ rest) (length pre') (match_all (length pre') rest) = drop b T \<and>
      dec_refs (length pre') b (match_all (length pre') rest) = refs"
    unfolding rest_def
  proof (rule Cons.IH)
    show "sorted_wrt (\<lambda>a b. mr_end a \<le> mr_start b) refs" using Cons.prems(1) by simp
    show "\<forall>m' \<in> set refs. ref_shown T m' \<and> storable_ref m' \<and> int b \<le> mr_start m'"
      using Cons.prems(1,2) ab by auto
  qed (use Cons.prems range in auto)
  have s: "pre @ encode_loop T (int c) (m # refs) = pre' @ rest" by (simp only: enc pre'_def append_assoc)
  have tail: "mm_index mm + mm_length mm = length pre'" by (simp add: mm_def pre')
  have "take (mm_index mm - length pre) (drop (length pre) (pre' @ rest)) = g"
    using g by (simp add: mm_def pre'_def)
  moreover have "g @ visible l @ drop b T = drop c T"
    using vis range len_l unfolding g_def
    by (metis add.commute append_assoc append_take_drop_id drop_drop le_add_diff_inverse2 less_imp_le)
  ultimately have "dec_text (pre' @ rest) (length pre) (mm # match_all (length pre') rest) = drop c T"
    using IH by (simp only: dec_text.simps tail) (simp add: mm_def)
  moreover have "dec_refs (length pre) c (mm # match_all (length pre') rest) = m # refs"
  proof -
    have "c + (mm_index mm - length pre) = a" using range by (simp add: mm_def)
    moreover have "ref_of a mm = m" using ab len_l by (simp add: ref_of_def mm_def l_def i_def)
    moreover have "a + length (visible (mm_label mm)) = b" by (simp add: mm_def len_l)
    ultimately show ?thesis using IH by (simp only: dec_refs.simps tail)
  qed
  ultimately show ?case by (simp only: ma s)
qed

theorem decode_encode:
  assumes "wf_draft d" and "\<forall>m \<in> set (md_mentions d). storable_ref m" and "no_open (md_text d)"
  shows "decodeMentions (encodeMentions d) = d"
proof -
  have "\<forall>m \<in> set (md_mentions d). ref_shown (md_text d) m \<and> storable_ref m \<and> int 0 \<le> mr_start m"
    using assms(1,2) by (auto simp: wf_draft_def ref_shown_def)
  from encoded_decodes [OF _ this assms(3), of "[]"] assms(1) show ?thesis
    by (simp add: wf_draft_def encodeMentions_def normalizedReferences_wf [OF assms(1)] decodeMentions_eq)
qed

text \<open>What a body stores can be stored again.\<close>

lemma match_all_storable: "m \<in> set (match_all p s) \<Longrightarrow> storable (mm_label m) (mm_actor m)"
proof (induction p s rule: match_all.induct)
  case (2 pos c cs)
  then show ?case
    using mention_at_open by (cases "mention_at (c # cs)") (fastforce split: prod.splits)+
qed simp

lemma dec_refs_from: "x \<in> set (dec_refs c off ms) \<Longrightarrow> \<exists>m \<in> set ms. mr_label x = mm_label m \<and> mr_actorID x = mm_actor m"
  by (induction c off ms rule: dec_refs.induct) auto

lemma decoded_storable: "x \<in> set (md_mentions (decodeMentions s)) \<Longrightarrow> storable_ref x"
  using dec_refs_from match_all_storable by (fastforce simp: decodeMentions_eq storable_ref_def)

lemma updated_storable:
  "\<forall>m \<in> set (md_mentions d). storable_ref m \<Longrightarrow> \<forall>m \<in> set (md_mentions (updateMentionText d t)). storable_ref m"
  by (auto simp: updateMentionText_def Let_def storable_ref_def split: prod.splits if_splits)

lemma updated_text [simp]: "md_text (updateMentionText d t) = t"
  by (simp add: updateMentionText_def Let_def split: prod.splits)

section \<open>The commands of the composer\<close>

record composer_member =
  cm_actor :: jstring
  cm_name :: jstring
  cm_handle :: jstring

definition shown_text :: "jstring \<Rightarrow> jstring" where
  "shown_text body = md_text (decodeMentions body)"

text \<open>Typing is \<open>setVisibleText\<close> with the whole new text; the commands also return where they put the cursor.\<close>

definition setVisibleText :: "jstring \<Rightarrow> jstring \<Rightarrow> jstring" where
  "setVisibleText body t = encodeMentions (updateMentionText (decodeMentions body) t)"

definition wrap :: "jstring \<Rightarrow> jstring \<Rightarrow> jstring \<Rightarrow> nat \<Rightarrow> nat \<Rightarrow> jstring \<Rightarrow> jstring \<times> nat" where
  "wrap pre suf fallback a b body =
     (let t = shown_text body;
          picked = take (b - a) (drop a t);
          replacement = pre @ (if picked = [] then fallback else picked) @ suf
      in (setVisibleText body (take a t @ replacement @ drop b t), a + length replacement))"

text \<open>\<open>text.lastIndexOf("\n", k) + 1\<close>.\<close>

definition line_start :: "jstring \<Rightarrow> nat \<Rightarrow> nat" where
  "line_start t k = length (dropWhile (\<lambda>c. c \<noteq> 10) (rev (take (k + 1) t)))"

definition prefixLines :: "jstring \<Rightarrow> jstring \<Rightarrow> nat \<Rightarrow> nat \<Rightarrow> jstring \<Rightarrow> jstring \<times> nat" where
  "prefixLines pre fallback a b body =
     (let t = shown_text body;
          from = line_start t (a - 1);
          picked = take (b - from) (drop from t);
          item = (\<lambda>(i, line). if pre = js ''ordered'' then show_nat (i + 1) @ js ''. '' @ line else pre @ line);
          replacement = join_with [10] (map item (enumerate 0 (split_on 10 (if picked = [] then fallback else picked))))
      in (setVisibleText body (take from t @ replacement @ drop b t), from + length replacement))"

definition insertEmoji :: "jstring \<Rightarrow> nat \<Rightarrow> nat \<Rightarrow> jstring \<Rightarrow> jstring \<times> nat" where
  "insertEmoji emoji a b body =
     (let t = shown_text body in (setVisibleText body (take a t @ emoji @ drop b t), a + length emoji))"

text \<open>The mention being typed: the \<open>@\<close> from which only letters, digits and \<open>_.-\<close> follow to the end.\<close>

definition query_point :: "(nat \<Rightarrow> bool) \<Rightarrow> nat \<Rightarrow> bool" where
  "query_point letter n \<longleftrightarrow> letter n \<or> n = 95 \<or> n = 46 \<or> n = 45"

fun query_from :: "(nat \<Rightarrow> bool) \<Rightarrow> nat \<Rightarrow> jstring \<Rightarrow> nat option" where
  "query_from letter p [] = None"
| "query_from letter p (c # cs) =
     (if c = ch CHR ''@'' \<and> list_all (query_point letter) (code_points cs) then Some p
      else query_from letter (p + 1) cs)"

definition mention_query :: "(nat \<Rightarrow> bool) \<Rightarrow> jstring \<Rightarrow> nat option" where
  "mention_query letter body = query_from letter 0 (shown_text body)"

fun occurs_in :: "jstring \<Rightarrow> jstring \<Rightarrow> bool" where
  "occurs_in q [] \<longleftrightarrow> q = []"
| "occurs_in q (c # cs) \<longleftrightarrow> starts_with q (c # cs) \<or> occurs_in q cs"

definition suggestions ::
  "(nat \<Rightarrow> bool) \<Rightarrow> (jstring \<Rightarrow> jstring) \<Rightarrow> composer_member list \<Rightarrow> jstring \<Rightarrow> composer_member list" where
  "suggestions letter lower members body =
     (case mention_query letter body of
        None \<Rightarrow> []
      | Some i \<Rightarrow>
          let q = lower (drop (i + 1) (shown_text body)) in
          take 6 (filter (\<lambda>m. occurs_in q (lower (cm_name m)) \<or> occurs_in q (lower (cm_handle m))) members))"

definition showContextMentions ::
  "(nat \<Rightarrow> bool) \<Rightarrow> (jstring \<Rightarrow> jstring) \<Rightarrow> composer_member list \<Rightarrow> jstring \<Rightarrow> bool" where
  "showContextMentions letter lower members body =
     (case mention_query letter body of
        None \<Rightarrow> False
      | Some i \<Rightarrow>
          let q = lower (drop (i + 1) (shown_text body)) in
          1 < length members \<and> (starts_with q (js ''all'') \<or> starts_with q (js ''here'')))"

definition insertMember :: "(nat \<Rightarrow> bool) \<Rightarrow> composer_member \<Rightarrow> jstring \<Rightarrow> jstring" where
  "insertMember letter m body =
     (case mention_query letter body of
        None \<Rightarrow> body
      | Some i \<Rightarrow>
          encodeMentions (insertMention (decodeMentions body) (int i) (int (length (shown_text body))) (cm_actor m) (cm_name m)))"

definition member_cursor :: "(nat \<Rightarrow> bool) \<Rightarrow> composer_member \<Rightarrow> jstring \<Rightarrow> int" where
  "member_cursor letter m body =
     (case mention_query letter body of
        None \<Rightarrow> 0
      | Some i \<Rightarrow>
          (case find (\<lambda>r. mr_start r = int i)
                  (md_mentions (insertMention (decodeMentions body) (int i) (int (length (shown_text body)))
                     (cm_actor m) (cm_name m))) of
             Some r \<Rightarrow> mr_end r + 1 | None \<Rightarrow> int i + 1))"

definition insertContextual :: "(nat \<Rightarrow> bool) \<Rightarrow> jstring \<Rightarrow> jstring \<Rightarrow> jstring" where
  "insertContextual letter val body =
     (case mention_query letter body of
        None \<Rightarrow> body
      | Some i \<Rightarrow> setVisibleText body (take i (shown_text body) @ js ''@'' @ val @ js '' ''))"

definition mention_button :: "jstring \<Rightarrow> jstring" where
  "mention_button body =
     (let t = shown_text body;
          separator = (if t \<noteq> [] \<and> \<not> is_space (last t) then js '' '' else [])
      in setVisibleText body (t @ separator @ js ''@''))"

text \<open>The keyboard: sends, or leaves the key to the text area.\<close>

definition keys_send :: "bool \<Rightarrow> bool \<Rightarrow> bool \<Rightarrow> bool \<Rightarrow> bool" where
  "keys_send sendOnEnter enter shift composing =
     (enter \<and> (if sendOnEnter then \<not> shift else shift) \<and> \<not> composing)"

section \<open>The people who are notified\<close>

definition word_unit :: "cunit \<Rightarrow> bool" where
  "word_unit c \<longleftrightarrow> is_alnum c \<or> c = 95"

text \<open>\<open>/(^|\s)@all\b/i\<close>, for \<open>all\<close> and \<open>here\<close>; the flag tells whether the position is one where the word can start.\<close>

fun context_at :: "jstring \<Rightarrow> bool \<Rightarrow> jstring \<Rightarrow> bool" where
  "context_at w free [] \<longleftrightarrow> False"
| "context_at w free (c # cs) \<longleftrightarrow>
     free \<and> c = ch CHR ''@'' \<and> to_lower (take (length w) cs) = w \<and>
       (drop (length w) cs = [] \<or> \<not> word_unit (hd (drop (length w) cs))) \<or>
     context_at w (is_space c) cs"

definition resolvedMentionActorIDs :: "jstring \<Rightarrow> composer_member list \<Rightarrow> (jstring \<Rightarrow> bool) \<Rightarrow> jstring list" where
  "resolvedMentionActorIDs source members online =
     (let t = shown_text source in
      js_set
        (js_set (mentionedActorIDs source) (if context_at (js ''all'') True t then map cm_actor members else []))
        (if context_at (js ''here'') True t then map cm_actor (filter (\<lambda>m. online (cm_actor m)) members) else []))"

text \<open>C36: What is typed, pasted or formatted in the composer is what it shows afterwards, and the mentions are the
  ones the edit has left alone, unless the text contains \<open>@[\<close>: storing the draft and reading it back
  for the next key does not change it.\<close>

theorem typed_text_is_shown:
  assumes "no_open t"
  shows "decodeMentions (setVisibleText body t) = updateMentionText (decodeMentions body) t \<and>
    shown_text (setVisibleText body t) = t"
proof -
  have "wf_draft (updateMentionText (decodeMentions body) t)" by (intro wf_updateMentionText wf_decodeMentions)
  moreover have "\<forall>m \<in> set (md_mentions (updateMentionText (decodeMentions body) t)). storable_ref m"
    using decoded_storable by (intro updated_storable ballI)
  ultimately have "decodeMentions (setVisibleText body t) = updateMentionText (decodeMentions body) t"
    unfolding setVisibleText_def using assms by (intro decode_encode) simp_all
  then show ?thesis by (simp add: shown_text_def)
qed

section \<open>Sending\<close>

text \<open>The white space around a body does not matter to its mentions: a match neither starts before an \<open>@\<close> nor
  ends after a \<open>)\<close>.\<close>

definition shift_match :: "nat \<Rightarrow> mention_match \<Rightarrow> mention_match" where
  "shift_match k m = m\<lparr>mm_index := mm_index m + k\<rparr>"

lemma match_all_shift: "match_all (p + k) s = map (shift_match k) (match_all p s)"
proof (induction p s rule: match_all.induct)
  case (2 pos c cs)
  then show ?case
    by (cases "mention_at (c # cs)") (auto simp: shift_match_def ac_simps split: prod.splits)
qed simp

lemma match_all_spaces: "list_all is_space w \<Longrightarrow> match_all p (w @ s) = match_all (p + length w) s"
proof (induction w arbitrary: p)
  case (Cons c w)
  then have "c \<noteq> ch CHR ''@''" by (auto simp: is_space_def)
  then have "mention_at (c # w @ s) = None"
    using mention_at_open by (cases "mention_at (c # w @ s)") (fastforce simp: starts_with_def)+
  then show ?case using Cons by simp
qed simp

lemma mention_at_spaces:
  assumes "list_all is_space w" and "s \<noteq> []"
  shows "mention_at (s @ w) = mention_at s"
proof (cases "mention_at s")
  case (Some v)
  obtain l a n where v: "v = (l, a, n)" by (cases v)
  obtain rest where "s = raw_form l a @ rest" "storable l a" "n = length l + 41"
    using mention_at_split Some v by metis
  then show ?thesis using mention_at_raw [of l a "rest @ w"] mention_at_raw [of l a rest] by (simp add: Some v)
next
  case None
  show ?thesis
  proof (rule ccontr)
    assume "mention_at (s @ w) \<noteq> mention_at s"
    then obtain l a n where "mention_at (s @ w) = Some (l, a, n)" using None by (cases "mention_at (s @ w)") auto
    then obtain rest where eq: "s @ w = raw_form l a @ rest" and st: "storable l a" by (rule mention_at_split)
    from eq consider us where "s = raw_form l a @ us" | u where "raw_form l a = s @ u" "w = u @ rest"
      unfolding append_eq_append_conv2 by metis
    then show False
    proof cases
      case 1
      then show False using mention_at_raw [OF st, of us] None by simp
    next
      case (2 u)
      show False
      proof (cases "u = []")
        case True
        then show False using 2 mention_at_raw [OF st, of "[]"] None by simp
      next
        case False
        then have "last u = ch CHR '')''" using arg_cong [OF 2(1), of last] by (simp add: raw_form_def)
        then have "ch CHR '')'' \<in> set w" using False 2(2) last_in_set [of u] by simp
        then show False using assms(1) by (auto simp: list_all_iff is_space_def)
      qed
    qed
  qed
qed

lemma match_all_trailing: "list_all is_space w \<Longrightarrow> match_all p (s @ w) = match_all p s"
proof (induction p s rule: match_all.induct)
  case (1 pos)
  have "no_open w" using 1 by (induction w rule: no_open.induct) (auto simp: is_space_def)
  then show ?case by (simp add: no_open_match_all)
next
  case (2 pos c cs)
  show ?case
  proof (cases "mention_at (c # cs)")
    case None
    then show ?thesis using 2(1) [OF None 2(3)] mention_at_spaces [OF 2(3), of "c # cs"] by simp
  next
    case (Some t)
    obtain l a n where t: "t = (l, a, n)" by (cases t)
    have "n \<le> length (c # cs)" "0 < n" using mention_at_prefix(1,2) Some t by metis+
    then have "drop (n - 1) (cs @ w) = drop (n - 1) cs @ w" by simp
    then show ?thesis
      using 2(2) [OF Some t [symmetric] refl 2(3)] mention_at_spaces [OF 2(3), of "c # cs"] Some t by simp
  qed
qed

lemma trim_parts: obtains u w where "s = u @ js_trim s @ w" "list_all is_space u" "list_all is_space w"
proof
  let ?d = "dropWhile is_space s"
  have "rev ?d = takeWhile is_space (rev ?d) @ dropWhile is_space (rev ?d)" by simp
  then have "?d = js_trim s @ rev (takeWhile is_space (rev ?d))"
    unfolding js_trim_def by (metis rev_append rev_rev_ident)
  then show "s = takeWhile is_space s @ js_trim s @ rev (takeWhile is_space (rev ?d))"
    by (metis takeWhile_dropWhile_id)
qed (auto simp: list_all_iff dest: set_takeWhileD)

lemma trimmed_matches:
  assumes "s = u @ c @ w" and "list_all is_space u" and "list_all is_space w"
  shows "match_all 0 s = map (shift_match (length u)) (match_all 0 c)"
  using match_all_spaces [OF assms(2), of 0 "c @ w"] match_all_trailing [OF assms(3)] match_all_shift [of 0 "length u" c]
  by (simp add: assms(1))

lemma dec_refs_actors: "map mr_actorID (dec_refs c off ms) = map mm_actor ms"
  by (induction c off ms rule: dec_refs.induct) simp_all

lemma trimmed_actors: "mentionedActorIDs (js_trim s) = mentionedActorIDs s"
proof -
  obtain u w where "s = u @ js_trim s @ w" "list_all is_space u" "list_all is_space w" by (rule trim_parts)
  note m = trimmed_matches [OF this]
  have "map mm_actor (match_all 0 s) = map mm_actor (match_all 0 (js_trim s))"
    unfolding m by (simp add: shift_match_def)
  then show ?thesis by (simp add: mentionedActorIDs_def decodeMentions_eq dec_refs_actors)
qed

lemma dec_text_shift:
  assumes "tiles c p ms" 
  shows "dec_text (u @ c @ w) (length u + p) (map (shift_match (length u)) ms) = dec_text c p ms @ w"
  using assms
proof (induction ms arbitrary: p)
  case (Cons m ms)
  have "mm_index m + mm_length m \<le> length c" "p \<le> mm_index m" and t: "tiles c (mm_index m + mm_length m) ms"
    using Cons.prems by auto
  then have "take (mm_index m - p) (drop p (c @ w)) = take (mm_index m - p) (drop p c)" by simp
  then show ?case using Cons.IH [OF t] by (simp add: shift_match_def ac_simps)
qed simp

lemma trimmed_text:
  assumes "s = u @ c @ w" and "list_all is_space u" and "list_all is_space w"
  shows "shown_text s = u @ shown_text c @ w"
proof -
  have tc: "tiles c 0 (match_all 0 c)" by (rule tiles_match_all) auto
  have "dec_text s 0 (match_all 0 s) = u @ dec_text s (length u) (match_all 0 s)"
    unfolding trimmed_matches [OF assms]
  proof (cases "match_all 0 c")
    case Nil
    then show "dec_text s 0 (map (shift_match (length u)) (match_all 0 c)) =
        u @ dec_text s (length u) (map (shift_match (length u)) (match_all 0 c))"
      by (simp add: assms(1))
  next
    case (Cons m ms)
    then show "dec_text s 0 (map (shift_match (length u)) (match_all 0 c)) =
        u @ dec_text s (length u) (map (shift_match (length u)) (match_all 0 c))"
      by (simp add: assms(1) shift_match_def)
  qed
  also have "dec_text s (length u) (match_all 0 s) = dec_text c 0 (match_all 0 c) @ w"
    using dec_text_shift [OF tc, of u w] by (simp add: trimmed_matches [OF assms]) (simp add: assms(1))
  finally show ?thesis by (simp add: shown_text_def decodeMentions_eq)
qed

lemma context_at_found:
  assumes "to_lower (js w) = js w" and "r = [] \<or> \<not> word_unit (hd r)"
    and "u = [] \<and> free \<or> u \<noteq> [] \<and> is_space (last u)"
  shows "context_at (js w) free (u @ ch CHR ''@'' # js w @ r)"
  using assms(3)
proof (induction u arbitrary: free)
  case Nil
  then show ?case using assms(1,2) by simp
next
  case (Cons c u)
  then show ?case by (cases "u = []") simp_all
qed

lemma strip_spaces:
  assumes "u @ x = p @ k # s" and "list_all is_space u" and "\<not> is_space k"
  shows "\<exists>q. p = u @ q \<and> x = q @ k # s"
  using assms(1,2)
proof (induction u arbitrary: p)
  case (Cons c u)
  show ?case
  proof (cases p)
    case Nil
    then show ?thesis using Cons.prems assms(3) by simp
  next
    case (Cons d p')
    then show ?thesis using Cons.IH [of p'] Cons.prems by auto
  qed
qed simp

lemma no_open_join: "no_open a \<Longrightarrow> no_open (k # b) \<Longrightarrow> k \<noteq> ch CHR ''['' \<Longrightarrow> no_open (a @ k # b)"
  by (induction a rule: no_open.induct) auto

lemma query_from_at: "query_from letter p s = Some i \<Longrightarrow> p \<le> i \<and> i - p < length s"
proof (induction letter p s rule: query_from.induct)
  case (2 letter p c cs)
  then show ?case by (auto split: if_splits)
qed simp

lemma resolved_members:
  "context_at (js ''all'') True (shown_text s) \<Longrightarrow> set (map cm_actor members) \<subseteq> set (resolvedMentionActorIDs s members online)"
  by (auto simp: resolvedMentionActorIDs_def Let_def)

lemma resolved_mentions: "set (mentionedActorIDs s) \<subseteq> set (resolvedMentionActorIDs s members online)"
  by (auto simp: resolvedMentionActorIDs_def Let_def)

lemma all_at_the_end:
  assumes "shown_text s = p @ ch CHR ''@'' # js ''all'' @ [32]" and "p = [] \<or> is_space (last p)"
  shows "context_at (js ''all'') True (shown_text (js_trim s))"
proof -
  obtain u w where s: "s = u @ js_trim s @ w" "list_all is_space u" "list_all is_space w" by (rule trim_parts)
  define x where "x = shown_text (js_trim s)"
  have "u @ x @ w = p @ ch CHR ''@'' # (js ''all'' @ [32])"
    using trimmed_text [OF s] assms(1) by (simp add: x_def)
  then obtain q where q: "p = u @ q" "x @ w = q @ ch CHR ''@'' # (js ''all'' @ [32])"
    using strip_spaces [OF _ s(2), of "x @ w" p "ch CHR ''@''"] by (auto simp: is_space_def)
  have "rev w @ rev x = [32] @ ch CHR ''l'' # rev (q @ js ''@al'')"
    using arg_cong [OF q(2), of rev] by simp
  then obtain z where z: "[32] = rev w @ z" "rev x = z @ ch CHR ''l'' # rev (q @ js ''@al'')"
    using strip_spaces [of "rev w" "rev x" "[32]" "ch CHR ''l''"] s(3) by (auto simp: is_space_def)
  have "x = q @ ch CHR ''@'' # js ''all'' @ rev z" using arg_cong [OF z(2), of rev] by simp
  moreover have "set (rev z) \<subseteq> {32}" using arg_cong [OF z(1), of set] by auto
  then have "rev z = [] \<or> \<not> word_unit (hd (rev z))"
    by (cases "rev z") (auto simp: word_unit_def is_alnum_def is_digit_def is_upper_def is_lower_def)
  moreover have "q = [] \<and> True \<or> q \<noteq> [] \<and> is_space (last q)" using assms(2) q(1) by auto
  moreover have "to_lower (js ''all'') = js ''all''" by code_simp
  ultimately show ?thesis unfolding x_def [symmetric] using context_at_found by metis
qed

definition stored_label :: "composer_member \<Rightarrow> jstring" where
  "stored_label m = js_trim (replace_breaks False (cm_name m))"

text \<open>C37: Whoever is picked from the menu of the composer is notified by the message that is sent then: the member,
  if the name leaves a label that can be stored, and with \<open>@all\<close> at the start of a word every member.\<close>

theorem picked_people_are_notified:
  assumes "mention_query letter body = Some i" and "no_open (shown_text body)"
  shows "(storable (stored_label m) (cm_actor m) \<and> no_open (visible (stored_label m)) \<longrightarrow>
      cm_actor m \<in> set (resolvedMentionActorIDs (js_trim (insertMember letter m body)) members online)) \<and>
    (i = 0 \<or> is_space (shown_text body ! (i - 1)) \<longrightarrow>
      set (map cm_actor members) \<subseteq>
        set (resolvedMentionActorIDs (js_trim (insertContextual letter (js ''all'') body)) members online))"
proof (intro conjI impI)
  define t where "t = shown_text body"
  have i: "i < length t" using assms(1) query_from_at [of letter 0 t i] by (simp add: mention_query_def t_def)
  have "no_open (take i t)" using assms(2) no_open_append [of "take i t" "drop i t"] by (simp add: t_def)
  note left = no_open_join [OF this]
  {
    assume label: "storable (stored_label m) (cm_actor m) \<and> no_open (visible (stored_label m))"
    define d where "d = insertMention (decodeMentions body) (int i) (int (length t)) (cm_actor m) (cm_name m)"
    have "no_open (visible (stored_label m) @ [32])"
      using label no_open_join [of "visible (stored_label m)" 32 "[]"] by simp
    moreover have "md_text d = take i t @ visible (stored_label m) @ [32]"
      using i by (simp add: d_def insertMention_def Let_def stored_label_def t_def shown_text_def js_slice_from_nat
          js_slice_nat [of 0, simplified])
    ultimately have "no_open (md_text d)" using left by (simp add: visible_def)
    moreover have "wf_draft d"
      unfolding d_def using i by (intro wf_insertMention wf_decodeMentions) (simp_all add: t_def shown_text_def)
    moreover have new: "\<lparr>mr_actorID = cm_actor m, mr_label = stored_label m, mr_start = int i,
        mr_end = int i + int (length (visible (stored_label m)))\<rparr> \<in> set (md_mentions d)"
      by (simp add: d_def insertMention_def Let_def stored_label_def)
    moreover have "\<forall>x \<in> set (md_mentions d). storable_ref x"
      using label decoded_storable
      by (auto simp: d_def insertMention_def Let_def stored_label_def storable_ref_def)
    ultimately have "decodeMentions (insertMember letter m body) = d"
      using decode_encode by (simp add: insertMember_def assms(1) d_def t_def)
    then have "cm_actor m \<in> set (mentionedActorIDs (insertMember letter m body))"
      using new by (force simp: mentionedActorIDs_def)
    then show "cm_actor m \<in> set (resolvedMentionActorIDs (js_trim (insertMember letter m body)) members online)"
      using resolved_mentions by (metis trimmed_actors subsetD)
  next
    assume start: "i = 0 \<or> is_space (shown_text body ! (i - 1))"
    have "no_open (ch CHR ''@'' # js ''all'' @ [32])" by simp
    then have "no_open (take i t @ ch CHR ''@'' # js ''all'' @ [32])" using left by simp
    then have "shown_text (insertContextual letter (js ''all'') body) = take i t @ ch CHR ''@'' # js ''all'' @ [32]"
      using typed_text_is_shown by (simp add: insertContextual_def assms(1) t_def)
    moreover have "take i t = [] \<or> is_space (last (take i t))"
      using start i by (cases i) (auto simp: take_Suc_conv_app_nth t_def)
    ultimately show "set (map cm_actor members) \<subseteq>
        set (resolvedMentionActorIDs (js_trim (insertContextual letter (js ''all'') body)) members online)"
      by (intro resolved_members all_at_the_end)
  }
qed

section \<open>Concrete edits\<close>

definition ascii_letter :: "nat \<Rightarrow> bool" where
  "ascii_letter n \<longleftrightarrow> 97 \<le> n \<and> n \<le> 122"

definition ann :: composer_member where
  "ann = \<lparr>cm_actor = replicate 36 (ch CHR ''a''), cm_name = js ''Ann'', cm_handle = js ''ann''\<rparr>"

lemma plain_shown: "no_open s \<Longrightarrow> decodeMentions s = \<lparr>md_text = s, md_mentions = []\<rparr>"
  by (simp add: decodeMentions_eq no_open_match_all)

lemma plain_set: "no_open s \<Longrightarrow> setVisibleText s t = t"
proof -
  assume "no_open s"
  then have "updateMentionText (decodeMentions s) t = \<lparr>md_text = t, md_mentions = []\<rparr>"
    by (simp add: plain_shown updateMentionText_def Let_def split: prod.splits)
  then show ?thesis
    by (simp add: setVisibleText_def encodeMentions_def normalizedReferences_def js_slice_from_nat [of 0, simplified])
qed

theorem typed_text_is_shown_witness: "shown_text (setVisibleText (js ''hi'') (js ''hi!'')) = js ''hi!''"
  using typed_text_is_shown [of "js ''hi!''" "js ''hi''"] by simp

lemma sample_query: "mention_query ascii_letter (js ''hi @al'') = Some 3"
  "mention_query ascii_letter (js ''hi@al'') = Some 2"
  by (simp_all add: mention_query_def shown_text_def plain_shown query_point_def ascii_letter_def is_high_def)

theorem picked_people_are_notified_witness:
  "cm_actor ann \<in> set (resolvedMentionActorIDs (js_trim (insertContextual ascii_letter (js ''all'') (js ''hi @al'')))
     [ann] (\<lambda>_. False))"
proof -
  have open_: "no_open (shown_text (js ''hi @al''))" by (simp add: shown_text_def plain_shown)
  have "is_space (shown_text (js ''hi @al'') ! (3 - 1))" by (simp add: shown_text_def plain_shown is_space_def)
  then show ?thesis
    using picked_people_are_notified [OF sample_query(1) open_, of ann "[ann]" "\<lambda>_. False"] by simp
qed

text \<open>Inside of a word the menu offers \<open>@all\<close> as well, and inserts it, but nobody is notified.\<close>

theorem all_inside_a_word_notifies_nobody:
  "insertContextual ascii_letter (js ''all'') (js ''hi@al'') = js ''hi@all ''"
  "showContextMentions ascii_letter id [ann, ann] (js ''hi@al'')"
  "resolvedMentionActorIDs (js_trim (js ''hi@all '')) [ann, ann] online = []"
proof -
  have no: "no_open (js ''hi@al'')" by simp
  show "insertContextual ascii_letter (js ''all'') (js ''hi@al'') = js ''hi@all ''"
    unfolding insertContextual_def sample_query(2) option.case shown_text_def plain_shown [OF no] plain_set [OF no]
    by simp
  show "showContextMentions ascii_letter id [ann, ann] (js ''hi@al'')"
    unfolding showContextMentions_def sample_query(2) option.case shown_text_def plain_shown [OF no]
    by (simp add: starts_with_def)
  have "js_trim (js ''hi@all '') = js ''hi@all''" by code_simp
  moreover have "context_at (js ''all'') True (js ''hi@all'') = False" "context_at (js ''here'') True (js ''hi@all'') = False"
    by code_simp+
  moreover have "shown_text (js ''hi@all'') = js ''hi@all''" "mentionedActorIDs (js ''hi@all'') = []"
    by (simp_all add: shown_text_def mentionedActorIDs_def plain_shown)
  ultimately show "resolvedMentionActorIDs (js_trim (js ''hi@all '')) [ann, ann] online = []"
    by (simp add: resolvedMentionActorIDs_def del: js_Cons)
qed

lemma one_mention:
  assumes "storable l a" and "no_open g"
  shows "decodeMentions (g @ raw_form l a) =
    \<lparr>md_text = g @ visible l,
     md_mentions = [\<lparr>mr_actorID = a, mr_label = l, mr_start = int (length g), mr_end = int (length g + Suc (length l))\<rparr>]\<rparr>"
  using match_all_gap [OF assms(2,1), of 0 "[]"] assms(1)
  by (simp add: decodeMentions_eq ref_of_def storable_def)

text \<open>To mention one member whose name begins with \<open>All\<close> is to notify every member.\<close>

theorem a_name_can_notify_everyone:
  "set (map cm_actor members) \<subseteq>
     set (resolvedMentionActorIDs (raw_form (js ''All Hands'') (replicate 36 (ch CHR ''a''))) members online)"
proof (rule resolved_members)
  have "storable (js ''All Hands'') (replicate 36 (ch CHR ''a''))"
    by (simp add: storable_def is_uuid_char_def is_hex_def list_all_iff)
  from one_mention [OF this, of "[]"]
  have "shown_text (raw_form (js ''All Hands'') (replicate 36 (ch CHR ''a''))) = js ''@All Hands''"
    by (simp add: shown_text_def visible_def)
  moreover have "context_at (js ''all'') True (js ''@All Hands'')" by code_simp
  ultimately show "context_at (js ''all'') True
      (shown_text (raw_form (js ''All Hands'') (replicate 36 (ch CHR ''a''))))" by simp
qed

text \<open>To format a text with a mention makes the mention plain text.\<close>

theorem formatting_forgets_mentions:
  "shown_text (fst (wrap (js ''**'') (js ''**'') fallback 0 4 (raw_form (js ''Ann'') (cm_actor ann)))) = js ''**@Ann**''"
  "mentionedActorIDs (fst (wrap (js ''**'') (js ''**'') fallback 0 4 (raw_form (js ''Ann'') (cm_actor ann)))) = []"
proof -
  have "storable (js ''Ann'') (cm_actor ann)"
    by (simp add: storable_def is_uuid_char_def is_hex_def list_all_iff ann_def)
  from one_mention [OF this, of "[]"]
  have d: "decodeMentions (raw_form (js ''Ann'') (cm_actor ann)) =
      \<lparr>md_text = js ''@Ann'', md_mentions = [\<lparr>mr_actorID = cm_actor ann, mr_label = js ''Ann'', mr_start = 0, mr_end = 4\<rparr>]\<rparr>"
    by (simp add: visible_def)
  have edit: "fst (wrap (js ''**'') (js ''**'') fallback 0 4 (raw_form (js ''Ann'') (cm_actor ann))) =
      setVisibleText (raw_form (js ''Ann'') (cm_actor ann)) (js ''**@Ann**'')"
    unfolding wrap_def Let_def shown_text_def d by simp
  have "no_open (js ''**@Ann**'')" by simp
  from typed_text_is_shown [OF this, of "raw_form (js ''Ann'') (cm_actor ann)"] edit
  have after: "decodeMentions (fst (wrap (js ''**'') (js ''**'') fallback 0 4 (raw_form (js ''Ann'') (cm_actor ann)))) =
      updateMentionText (decodeMentions (raw_form (js ''Ann'') (cm_actor ann))) (js ''**@Ann**'')"
    by (simp del: js_Cons)
  have "md_mentions (updateMentionText (decodeMentions (raw_form (js ''Ann'') (cm_actor ann))) (js ''**@Ann**'')) = []"
    unfolding d by code_simp
  then show "mentionedActorIDs (fst (wrap (js ''**'') (js ''**'') fallback 0 4 (raw_form (js ''Ann'') (cm_actor ann)))) = []"
    unfolding mentionedActorIDs_def after by (simp del: js_Cons)
  show "shown_text (fst (wrap (js ''**'') (js ''**'') fallback 0 4 (raw_form (js ''Ann'') (cm_actor ann)))) = js ''**@Ann**''"
    unfolding shown_text_def after by (simp del: js_Cons)
qed

text \<open>The heading button on an empty first line writes below it, and doubles the line break.\<close>

theorem heading_on_an_empty_first_line:
  "fst (prefixLines (js ''## '') (js ''text'') 0 0 ([10] @ js ''abc'')) = [10] @ js ''## text'' @ [10] @ js ''abc''"
proof -
  have "no_open ([10] @ js ''abc'')" by simp
  note plain = plain_set [OF this] plain_shown [OF this]
  have start: "line_start ([10] @ js ''abc'') (0 - 1) = 1" by (simp add: line_start_def)
  show ?thesis
    unfolding prefixLines_def Let_def shown_text_def plain mention_draft.select_convs start
    by (simp add: enumerate_eq_zip)
qed

end
