(* ===== verification/Avatars.thy ===== *)
theory Avatars
  imports Json
begin

text \<open>
  The cache of avatar images, \<open>objectURLs.ts\<close>: a promise per actor and version, and the object URL each has
  resolved to. Promises and URLs are numbered; \<open>av_live\<close> are the URLs that have been created and not revoked,
  which is what the browser keeps in memory. The two maps are association lists. The lemmas show
  which URLs are alive, and how a late failure breaks that.
\<close>

record avatars =
  av_entries :: "(jstring \<times> nat) list"
  av_resolved :: "(jstring \<times> nat) list"
  av_loading :: "(nat \<times> jstring) list"
  av_promises :: nat
  av_urls :: nat
  av_live :: "nat list"

definition no_avatars :: avatars where
  "no_avatars = \<lparr>av_entries = [], av_resolved = [], av_loading = [], av_promises = 0, av_urls = 0, av_live = []\<rparr>"

definition avatar_key :: "jstring \<Rightarrow> nat \<Rightarrow> jstring" where
  "avatar_key actor version = actor @ js '':'' @ show_nat version"

definition without :: "'k \<Rightarrow> ('k \<times> 'v) list \<Rightarrow> ('k \<times> 'v) list" where
  "without k m = filter (\<lambda>(j, _). j \<noteq> k) m"

definition revoke :: "jstring \<Rightarrow> avatars \<Rightarrow> avatars" where
  "revoke k s =
     s\<lparr>av_live := (case map_of (av_resolved s) k of Some u \<Rightarrow> filter (\<lambda>v. v \<noteq> u) (av_live s) | None \<Rightarrow> av_live s),
       av_resolved := without k (av_resolved s), av_entries := without k (av_entries s)\<rparr>"

text \<open>\<open>get\<close>, with the promise it returns.\<close>

definition get_avatar :: "jstring \<Rightarrow> nat \<Rightarrow> avatars \<Rightarrow> nat \<times> avatars" where
  "get_avatar actor version s =
     (let key = avatar_key actor version in
      case map_of (av_entries s) key of
        Some p \<Rightarrow> (p, s)
      | None \<Rightarrow>
          let others = filter (\<lambda>k. starts_with (actor @ js '':'') k \<and> k \<noteq> key) (map fst (av_entries s));
              s1 = fold revoke others s; p = av_promises s1
          in (p, s1\<lparr>av_promises := p + 1, av_loading := av_loading s1 @ [(p, key)],
                     av_entries := av_entries s1 @ [(key, p)]\<rparr>))"

text \<open>The image has arrived, or could not be loaded.\<close>

definition avatar_loaded :: "nat \<Rightarrow> jstring \<Rightarrow> avatars \<Rightarrow> avatars" where
  "avatar_loaded p key s =
     (let url = av_urls s; s1 = s\<lparr>av_urls := url + 1, av_loading := filter (\<lambda>l. l \<noteq> (p, key)) (av_loading s)\<rparr> in
      if map_of (av_entries s) key \<noteq> Some p then s1
      else s1\<lparr>av_live := av_live s @ [url], av_resolved := without key (av_resolved s) @ [(key, url)]\<rparr>)"

definition avatar_failed :: "nat \<Rightarrow> jstring \<Rightarrow> avatars \<Rightarrow> avatars" where
  "avatar_failed p key s =
     s\<lparr>av_loading := filter (\<lambda>l. l \<noteq> (p, key)) (av_loading s), av_entries := without key (av_entries s)\<rparr>"

definition dispose :: "avatars \<Rightarrow> avatars" where
  "dispose s = fold revoke (map fst (av_entries s)) s"

datatype avatar_event = Get jstring nat | Loaded nat jstring | Load_Failed nat jstring | Dispose

text \<open>What can happen: an actor id has no colon, and a request that is in flight ends. The last rule leaves out the
  failure of a request whose image has been asked for again meanwhile.\<close>

fun avatar_event_ok :: "avatars \<Rightarrow> avatar_event \<Rightarrow> bool" where
  "avatar_event_ok s (Get actor _) \<longleftrightarrow> ch CHR '':'' \<notin> set actor"
| "avatar_event_ok s (Loaded p k) \<longleftrightarrow> (p, k) \<in> set (av_loading s)"
| "avatar_event_ok s (Load_Failed p k) \<longleftrightarrow>
     (p, k) \<in> set (av_loading s) \<and> (map_of (av_entries s) k = None \<or> map_of (av_entries s) k = Some p)"
| "avatar_event_ok s Dispose \<longleftrightarrow> True"

fun avatar_step :: "avatar_event \<Rightarrow> avatars \<Rightarrow> avatars" where
  "avatar_step (Get actor v) s = snd (get_avatar actor v s)"
| "avatar_step (Loaded p k) s = avatar_loaded p k s"
| "avatar_step (Load_Failed p k) s = avatar_failed p k s"
| "avatar_step Dispose s = dispose s"

inductive avatars_reached :: "avatars \<Rightarrow> bool" where
  no_avatars: "avatars_reached no_avatars"
| avatar_steps: "avatars_reached s \<Longrightarrow> avatar_event_ok s ev \<Longrightarrow> avatars_reached (avatar_step ev s)"

section \<open>The live URLs\<close>

definition same_actor :: "jstring \<Rightarrow> jstring \<Rightarrow> bool" where
  "same_actor k j \<longleftrightarrow> takeWhile (\<lambda>c. c \<noteq> ch CHR '':'') k = takeWhile (\<lambda>c. c \<noteq> ch CHR '':'') j"

definition avatars_ok :: "avatars \<Rightarrow> bool" where
  "avatars_ok s \<longleftrightarrow>
     distinct (av_live s) \<and> (\<forall>u. u \<in> set (av_live s) \<longleftrightarrow> (\<exists>k. map_of (av_resolved s) k = Some u)) \<and>
     (\<forall>u \<in> set (av_live s). u < av_urls s) \<and>
     (\<forall>k j u. map_of (av_resolved s) k = Some u \<and> map_of (av_resolved s) j = Some u \<longrightarrow> k = j) \<and>
     (\<forall>k. map_of (av_resolved s) k \<noteq> None \<longrightarrow> map_of (av_entries s) k \<noteq> None) \<and>
     (\<forall>k p. map_of (av_entries s) k = Some p \<longrightarrow> p < av_promises s) \<and>
     (\<forall>k p. map_of (av_entries s) k = Some p \<longrightarrow> map_of (av_resolved s) k \<noteq> None \<longrightarrow> (p, k) \<notin> set (av_loading s)) \<and>
     (\<forall>l \<in> set (av_loading s). fst l < av_promises s)"

definition one_version :: "avatars \<Rightarrow> bool" where
  "one_version s \<longleftrightarrow>
     (\<forall>k p. map_of (av_entries s) k = Some p \<longrightarrow> ch CHR '':'' \<in> set k) \<and>
     (\<forall>k j p q. map_of (av_entries s) k = Some p \<and> map_of (av_entries s) j = Some q \<and> same_actor k j \<longrightarrow> k = j)"

lemma map_of_without: "map_of (without k m) j = (if j = k then None else map_of m j)"
  by (induction m) (auto simp: without_def)

lemma revoke_sel [simp]:
  "map_of (av_entries (revoke k s)) j = (if j = k then None else map_of (av_entries s) j)"
  "map_of (av_resolved (revoke k s)) j = (if j = k then None else map_of (av_resolved s) j)"
  "av_loading (revoke k s) = av_loading s" "av_promises (revoke k s) = av_promises s" "av_urls (revoke k s) = av_urls s"
  by (simp_all add: revoke_def map_of_without)

lemma revoke_live:
  assumes "avatars_ok s"
  shows "distinct (av_live (revoke k s))"
    and "u \<in> set (av_live (revoke k s)) \<longleftrightarrow> (\<exists>j. map_of (av_resolved (revoke k s)) j = Some u)"
proof -
  have live: "v \<in> set (av_live s) \<longleftrightarrow> (\<exists>j. map_of (av_resolved s) j = Some v)" for v
    using assms by (simp add: avatars_ok_def)
  have inj: "map_of (av_resolved s) i = Some v \<Longrightarrow> map_of (av_resolved s) j = Some v \<Longrightarrow> i = j" for i j v
    using assms unfolding avatars_ok_def by metis
  show "distinct (av_live (revoke k s))"
    using assms by (auto simp: avatars_ok_def revoke_def split: option.splits)
  show "u \<in> set (av_live (revoke k s)) \<longleftrightarrow> (\<exists>j. map_of (av_resolved (revoke k s)) j = Some u)"
  proof (cases "map_of (av_resolved s) k")
    case None
    then have "set (av_live (revoke k s)) = set (av_live s)" by (simp add: revoke_def)
    then show ?thesis using None live by (metis option.distinct(1) revoke_sel(2))
  next
    case (Some w)
    then have "set (av_live (revoke k s)) = set (av_live s) - {w}" by (auto simp: revoke_def)
    moreover have "(\<exists>j. j \<noteq> k \<and> map_of (av_resolved s) j = Some u) \<longleftrightarrow> u \<noteq> w \<and> (\<exists>j. map_of (av_resolved s) j = Some u)"
      using inj Some by (metis option.inject)
    ultimately show ?thesis using live by (metis Diff_iff empty_iff insert_iff option.distinct(1) revoke_sel(2))
  qed
qed

lemma revoke_ok: "avatars_ok s \<Longrightarrow> avatars_ok (revoke k s)"
proof -
  assume ok: "avatars_ok s"
  have "set (av_live (revoke k s)) \<subseteq> set (av_live s)"
    by (auto simp: revoke_def split: option.splits)
  moreover have "\<forall>u \<in> set (av_live s). u < av_urls s" using ok by (simp add: avatars_ok_def)
  ultimately have "\<forall>u \<in> set (av_live (revoke k s)). u < av_urls (revoke k s)" by auto
  moreover have "\<forall>i j u. map_of (av_resolved (revoke k s)) i = Some u \<and> map_of (av_resolved (revoke k s)) j = Some u \<longrightarrow> i = j"
    using ok unfolding avatars_ok_def revoke_sel by (metis option.distinct(1))
  ultimately show "avatars_ok (revoke k s)"
    using ok revoke_live [OF ok] unfolding avatars_ok_def by auto
qed

lemma revoke_one_version: "one_version s \<Longrightarrow> one_version (revoke k s)"
  unfolding one_version_def revoke_sel by (metis option.distinct(1))

lemma fold_revoke:
  "avatars_ok s \<Longrightarrow> one_version s \<Longrightarrow> avatars_ok (fold revoke ks s) \<and> one_version (fold revoke ks s) \<and>
     map_of (av_entries (fold revoke ks s)) = (map_of (av_entries s)) |` (- set ks) \<and>
     av_promises (fold revoke ks s) = av_promises s \<and> av_loading (fold revoke ks s) = av_loading s"
proof (induction ks arbitrary: s)
  case (Cons k ks)
  have "map_of (av_entries (revoke k s)) |` (- set ks) = map_of (av_entries s) |` (- set (k # ks))"
    by (auto simp: restrict_map_def fun_eq_iff)
  then show ?case
    using Cons.IH [of "revoke k s"] Cons.prems revoke_ok revoke_one_version by (simp del: revoke_sel(1))
qed (simp add: restrict_map_def fun_eq_iff)

lemma key_parts:
  assumes "ch CHR '':'' \<notin> set a"
  shows "same_actor (avatar_key a v) k \<and> ch CHR '':'' \<in> set k \<Longrightarrow> starts_with (a @ js '':'') k"
proof -
  assume k: "same_actor (avatar_key a v) k \<and> ch CHR '':'' \<in> set k"
  have "takeWhile (\<lambda>c. c \<noteq> ch CHR '':'') (avatar_key a v) = a"
    using assms by (simp add: avatar_key_def) (subst takeWhile_append2, auto)
  then have a: "takeWhile (\<lambda>c. c \<noteq> ch CHR '':'') k = a" using k by (simp add: same_actor_def)
  have "dropWhile (\<lambda>c. c \<noteq> ch CHR '':'') k \<noteq> []" using k by (simp add: dropWhile_eq_Nil_conv)
  then obtain d where "dropWhile (\<lambda>c. c \<noteq> ch CHR '':'') k = ch CHR '':'' # d"
    using hd_dropWhile [of "\<lambda>c. c \<noteq> ch CHR '':''" k] by (cases "dropWhile (\<lambda>c. c \<noteq> ch CHR '':'') k") auto
  then have "k = (a @ js '':'') @ d" using a takeWhile_dropWhile_id [of "\<lambda>c. c \<noteq> ch CHR '':''" k] by simp
  then show ?thesis by (metis starts_with_append)
qed

lemma same_key_actor: "ch CHR '':'' \<notin> set a \<Longrightarrow> ch CHR '':'' \<in> set (avatar_key a v)"
  by (simp add: avatar_key_def)

lemma get_avatar_ok:
  assumes ok: "avatars_ok s" "one_version s" and a: "ch CHR '':'' \<notin> set a"
  shows "avatars_ok (snd (get_avatar a v s)) \<and> one_version (snd (get_avatar a v s))"
proof (cases "map_of (av_entries s) (avatar_key a v)")
  case (Some p)
  then show ?thesis using ok by (simp add: get_avatar_def Let_def)
next
  case None
  define key where "key = avatar_key a v"
  define others where "others = filter (\<lambda>k. starts_with (a @ js '':'') k \<and> k \<noteq> key) (map fst (av_entries s))"
  define s1 where "s1 = fold revoke others s"
  define s2 where "s2 = s1\<lparr>av_promises := av_promises s1 + 1, av_loading := av_loading s1 @ [(av_promises s1, key)],
    av_entries := av_entries s1 @ [(key, av_promises s1)]\<rparr>"
  have eq: "snd (get_avatar a v s) = s2"
    using None by (simp add: get_avatar_def Let_def key_def others_def s1_def s2_def)
  have s1: "avatars_ok s1" "one_version s1" "map_of (av_entries s1) = (map_of (av_entries s)) |` (- set others)"
    using fold_revoke [OF ok] by (simp_all add: s1_def)
  have absent: "map_of (av_entries s1) key = None" using None s1(3) by (simp add: restrict_map_def key_def)
  have entries: "map_of (av_entries s2) k = (if k = key then Some (av_promises s1) else map_of (av_entries s1) k)" for k
    using absent by (auto simp: s2_def map_add_def split: option.splits)
  have resolved: "map_of (av_resolved s1) key = None"
    using s1(1) absent unfolding avatars_ok_def by blast
  have "avatars_ok s2"
    unfolding avatars_ok_def entries
    using s1(1) resolved unfolding avatars_ok_def by (auto simp: s2_def less_Suc_eq) 
  moreover have "one_version s2"
  proof -
    have alone: "\<not> same_actor key k" if "map_of (av_entries s1) k = Some q" for k q
    proof
      assume same: "same_actor key k"
      have k: "k \<notin> set others" "map_of (av_entries s) k = Some q"
        using that s1(3) by (auto simp: restrict_map_def split: if_splits)
      then have "ch CHR '':'' \<in> set k" using ok(2) by (auto simp: one_version_def)
      then have "starts_with (a @ js '':'') k" using key_parts [OF a] same by (simp add: key_def)
      moreover have "k \<noteq> key" using k(2) None by (auto simp: key_def)
      moreover have "k \<in> set (map fst (av_entries s))" using k(2) map_of_SomeD by force
      ultimately show False using k(1) by (simp add: others_def)
    qed
    moreover have "same_actor k j \<longleftrightarrow> same_actor j k" for k j by (auto simp: same_actor_def)
    ultimately show ?thesis
      using s1(2) same_key_actor [OF a, of v] unfolding one_version_def entries
      by (metis key_def option.distinct(1))
  qed
  ultimately show ?thesis by (simp add: eq)
qed

lemma avatar_loaded_ok:
  assumes ok: "avatars_ok s" "one_version s" and loading: "(p, k) \<in> set (av_loading s)"
  shows "avatars_ok (avatar_loaded p k s) \<and> one_version (avatar_loaded p k s)"
proof (cases "map_of (av_entries s) k = Some p")
  case False
  then show ?thesis
    using ok unfolding avatars_ok_def one_version_def by (auto simp: avatar_loaded_def Let_def less_Suc_eq)
next
  case True
  then have fresh: "map_of (av_resolved s) k = None"
    using ok(1) loading unfolding avatars_ok_def by (metis option.exhaust)
  have res: "map_of (av_resolved (avatar_loaded p k s)) j = (if j = k then Some (av_urls s) else map_of (av_resolved s) j)" for j
    using True by (auto simp: avatar_loaded_def Let_def map_add_def map_of_without split: option.splits)
  have sel: "av_entries (avatar_loaded p k s) = av_entries s" "av_promises (avatar_loaded p k s) = av_promises s"
    "av_live (avatar_loaded p k s) = av_live s @ [av_urls s]" "av_urls (avatar_loaded p k s) = av_urls s + 1"
    "av_loading (avatar_loaded p k s) = filter (\<lambda>l. l \<noteq> (p, k)) (av_loading s)"
    using True by (simp_all add: avatar_loaded_def Let_def)
  have live: "u \<in> set (av_live s) \<longleftrightarrow> (\<exists>j. map_of (av_resolved s) j = Some u)" for u
    using ok(1) by (simp add: avatars_ok_def)
  have below: "\<forall>u \<in> set (av_live s). u < av_urls s" using ok(1) by (simp add: avatars_ok_def)
  then have new: "map_of (av_resolved s) j \<noteq> Some (av_urls s)" for j using live by (metis less_irrefl)
  let ?res = "\<lambda>j. if j = k then Some (av_urls s) else map_of (av_resolved s) j"
  have c2: "\<forall>u. u \<in> set (av_live s @ [av_urls s]) \<longleftrightarrow> (\<exists>j. ?res j = Some u)"
  proof
    fix u
    show "u \<in> set (av_live s @ [av_urls s]) \<longleftrightarrow> (\<exists>j. ?res j = Some u)"
      using live [of u] fresh by (cases "u = av_urls s") (auto, metis option.distinct(1))
  qed
  have c1: "distinct (av_live s @ [av_urls s])" using ok(1) below by (auto simp: avatars_ok_def)
  have c3: "\<forall>u \<in> set (av_live s @ [av_urls s]). u < av_urls s + 1" using below by (auto simp: less_Suc_eq)
  have inj: "map_of (av_resolved s) i = Some u \<Longrightarrow> map_of (av_resolved s) j = Some u \<Longrightarrow> i = j" for i j u
    using ok(1) unfolding avatars_ok_def by metis
  have c4: "\<forall>i j u. ?res i = Some u \<and> ?res j = Some u \<longrightarrow> i = j"
    using inj new by (auto split: if_splits)
  have c5: "\<forall>j. ?res j \<noteq> None \<longrightarrow> map_of (av_entries s) j \<noteq> None"
    using ok(1) True unfolding avatars_ok_def by (metis option.distinct(1))
  have c6: "\<forall>j q. map_of (av_entries s) j = Some q \<longrightarrow> q < av_promises s" using ok(1) unfolding avatars_ok_def by blast
  have c7: "\<forall>j q. map_of (av_entries s) j = Some q \<longrightarrow> ?res j \<noteq> None \<longrightarrow> (q, j) \<notin> set (filter (\<lambda>l. l \<noteq> (p, k)) (av_loading s))"
    using ok(1) True unfolding avatars_ok_def by auto
  have c8: "\<forall>l \<in> set (filter (\<lambda>l. l \<noteq> (p, k)) (av_loading s)). fst l < av_promises s"
    using ok(1) unfolding avatars_ok_def by auto
  have "avatars_ok (avatar_loaded p k s)"
    unfolding avatars_ok_def res sel using c1 c2 c3 c4 c5 c6 c7 c8 by (intro conjI)
  moreover have "one_version (avatar_loaded p k s)" using ok(2) by (simp add: one_version_def sel)
  ultimately show ?thesis by simp
qed

lemma avatar_failed_ok:
  assumes ok: "avatars_ok s" "one_version s" and loading: "(p, k) \<in> set (av_loading s)"
    and entry: "map_of (av_entries s) k = None \<or> map_of (av_entries s) k = Some p"
  shows "avatars_ok (avatar_failed p k s) \<and> one_version (avatar_failed p k s)"
proof -
  have "map_of (av_resolved s) k = None"
    using ok(1) loading entry unfolding avatars_ok_def by (metis option.exhaust)
  then show ?thesis
    using ok unfolding avatars_ok_def one_version_def
    by (auto simp: avatar_failed_def map_of_without split: if_splits)
qed

lemma dispose_ok: "avatars_ok s \<Longrightarrow> one_version s \<Longrightarrow> avatars_ok (dispose s) \<and> one_version (dispose s)"
  using fold_revoke by (simp add: dispose_def)

lemma avatars_invariant: "avatars_reached s \<Longrightarrow> avatars_ok s \<and> one_version s"
proof (induction rule: avatars_reached.induct)
  case no_avatars
  then show ?case by (simp add: avatars_ok_def one_version_def no_avatars_def)
next
  case (avatar_steps s ev)
  then show ?case
    by (cases ev) (simp_all add: get_avatar_ok avatar_loaded_ok avatar_failed_ok dispose_ok)
qed

text \<open>The object URLs the cache keeps alive are exactly those of the images it shows, one per actor and for the
  version asked for last, and none once the cache is disposed of; where no request fails after its image has been asked for again.\<close>

theorem live_urls_are_shown:
  assumes "avatars_reached s"
  shows "distinct (av_live s) \<and> (\<forall>u. u \<in> set (av_live s) \<longleftrightarrow> (\<exists>k. map_of (av_resolved s) k = Some u)) \<and>
    (\<forall>k j u v. map_of (av_resolved s) k = Some u \<and> map_of (av_resolved s) j = Some v \<and> same_actor k j \<longrightarrow> u = v) \<and>
    av_live (dispose s) = []"
proof -
  have ok: "avatars_ok s" "one_version s" using avatars_invariant [OF assms] by auto
  have same: "u = v" if "map_of (av_resolved s) k = Some u" "map_of (av_resolved s) j = Some v" "same_actor k j" for k j u v
  proof -
    note given = that
    obtain p q where "map_of (av_entries s) k = Some p" "map_of (av_entries s) j = Some q"
      using ok(1) given(1,2) unfolding avatars_ok_def by (metis option.distinct(1) option.exhaust)
    then have "k = j" using ok(2) given(3) unfolding one_version_def by metis
    then show ?thesis using given by simp
  qed
  have gone: "avatars_ok (dispose s)" using dispose_ok [OF ok] by simp
  have "map_of (av_entries (dispose s)) = (map_of (av_entries s)) |` (- set (map fst (av_entries s)))"
    using fold_revoke [OF ok] by (simp add: dispose_def)
  then have "map_of (av_entries (dispose s)) k = None" for k
    by (auto simp: restrict_map_def map_of_eq_None_iff)
  then have "map_of (av_resolved (dispose s)) k = None" for k
    using gone unfolding avatars_ok_def by metis
  then have "set (av_live (dispose s)) = {}" using gone unfolding avatars_ok_def by auto
  then show ?thesis using ok same by (auto simp: avatars_ok_def)
qed

theorem live_urls_are_shown_witness:
  "av_live (dispose (avatar_loaded 0 (avatar_key (js ''u'') 1) (snd (get_avatar (js ''u'') 1 no_avatars)))) = []"
proof -
  have get: "snd (get_avatar (js ''u'') 1 no_avatars) =
      \<lparr>av_entries = [(avatar_key (js ''u'') 1, 0)], av_resolved = [], av_loading = [(0, avatar_key (js ''u'') 1)],
       av_promises = 1, av_urls = 0, av_live = []\<rparr>"
    by (simp add: get_avatar_def no_avatars_def Let_def)
  have "avatars_reached (avatar_step (Get (js ''u'') 1) no_avatars)"
    by (rule avatars_reached.intros(2) [OF avatars_reached.intros(1)]) simp
  then have "avatars_reached (avatar_step (Loaded 0 (avatar_key (js ''u'') 1)) (avatar_step (Get (js ''u'') 1) no_avatars))"
    by (rule avatars_reached.intros(2)) (simp add: get [simplified])
  from live_urls_are_shown [OF this] show ?thesis by simp
qed

text \<open>A failure that arrives after its image has been asked for again takes away the entry of the new request; if
  that one has been answered, the next request overwrites its URL, which is never revoked.\<close>

theorem late_failure_leaks:
  "av_live (dispose (fold avatar_step
     [Get (js ''u'') 1, Get (js ''u'') 2, Get (js ''u'') 1, Loaded 2 (js ''u:1''), Load_Failed 0 (js ''u:1''),
      Get (js ''u'') 1, Loaded 3 (js ''u:1'')] no_avatars)) = [0]"
  by code_simp

end
