(* ===== verification/Search.thy ===== *)
theory Search
  imports Prelude
begin

text \<open>
  The message search of the palette, \<open>dialogs/SearchPalette.tsx\<close>: the effect that asks for the first page whenever
  the query, the filters or the tab change, and \<open>loadMore\<close>, which appends the page behind the cursor. A query
  is the text together with the filters; it is \<open>None\<close> on the other tab and for fewer than two characters. The
  answers of the server are an argument, \<open>search\<close>: a page and the cursor of the next one. The lemmas show
  which results are on display.
\<close>

record ('q, 'c, 'r) palette =
  sp_query :: "'q option"
  sp_results :: "('r list \<times> 'c option) option"
  sp_pending :: bool
  sp_error :: bool
  sp_effect :: nat
  sp_first :: "(nat \<times> 'q) list"
  sp_more :: "('q \<times> 'r list \<times> 'c) list"

definition new_palette :: "('q, 'c, 'r) palette" where
  "new_palette = \<lparr>sp_query = None, sp_results = None, sp_pending = False, sp_error = False, sp_effect = 0,
     sp_first = [], sp_more = []\<rparr>"

text \<open>The effect runs: after a change, and for the same query after a click on retry. The cleanup of its last run
  is the new number: an answer for an older one is ignored.\<close>

definition search_effect :: "'q option \<Rightarrow> ('q, 'c, 'r) palette \<Rightarrow> ('q, 'c, 'r) palette" where
  "search_effect q s =
     (let n = sp_effect s + 1; s1 = s\<lparr>sp_query := q, sp_effect := n\<rparr> in
      case q of
        None \<Rightarrow> s1\<lparr>sp_results := None\<rparr>
      | Some x \<Rightarrow> s1\<lparr>sp_pending := True, sp_error := False, sp_first := sp_first s @ [(n, x)]\<rparr>)"

definition first_page :: "nat \<times> 'q \<Rightarrow> 'r list \<times> 'c option \<Rightarrow> ('q, 'c, 'r) palette \<Rightarrow> ('q, 'c, 'r) palette" where
  "first_page req pg s =
     (let s1 = s\<lparr>sp_first := remove1 req (sp_first s)\<rparr> in
      if fst req = sp_effect s then s1\<lparr>sp_results := Some pg, sp_pending := False\<rparr> else s1)"

definition first_failed :: "nat \<times> 'q \<Rightarrow> ('q, 'c, 'r) palette \<Rightarrow> ('q, 'c, 'r) palette" where
  "first_failed req s =
     (let s1 = s\<lparr>sp_first := remove1 req (sp_first s)\<rparr> in
      if fst req = sp_effect s then s1\<lparr>sp_error := True, sp_pending := False\<rparr> else s1)"

text \<open>\<open>loadMore\<close>, its answer and its failure. The list it appends to is the one of the click.\<close>

definition load_more :: "('q, 'c, 'r) palette \<Rightarrow> ('q, 'c, 'r) palette" where
  "load_more s =
     (case (sp_query s, sp_results s) of
        (Some q, Some (rs, Some c)) \<Rightarrow>
          if sp_pending s then s else s\<lparr>sp_pending := True, sp_more := sp_more s @ [(q, rs, c)]\<rparr>
      | _ \<Rightarrow> s)"

definition more_page :: "'q \<times> 'r list \<times> 'c \<Rightarrow> 'r list \<times> 'c option \<Rightarrow> ('q, 'c, 'r) palette \<Rightarrow> ('q, 'c, 'r) palette" where
  "more_page req pg s =
     s\<lparr>sp_more := removeAll req (sp_more s), sp_results := Some (fst (snd req) @ fst pg, snd pg), sp_pending := False\<rparr>"

definition more_failed :: "'q \<times> 'r list \<times> 'c \<Rightarrow> ('q, 'c, 'r) palette \<Rightarrow> ('q, 'c, 'r) palette" where
  "more_failed req s = s\<lparr>sp_more := removeAll req (sp_more s), sp_error := True, sp_pending := False\<rparr>"

text \<open>The results on display: not while the first page is awaited with nothing to show, nor with an error. The
  button is below them.\<close>

definition shown_results :: "('q, 'c, 'r) palette \<Rightarrow> 'r list option" where
  "shown_results s =
     (if sp_query s = None \<or> sp_pending s \<and> sp_results s = None \<or> sp_error s then None
      else map_option fst (sp_results s))"

definition more_offered :: "('q, 'c, 'r) palette \<Rightarrow> bool" where
  "more_offered s \<longleftrightarrow> shown_results s \<noteq> None \<and> shown_results s \<noteq> Some [] \<and> \<not> sp_pending s \<and>
     (case sp_results s of Some (_, Some _) \<Rightarrow> True | _ \<Rightarrow> False)"

text \<open>What can happen. The first rule leaves out a change while a further page is awaited.\<close>

inductive palette_reached :: "('q \<Rightarrow> 'c option \<Rightarrow> 'r list \<times> 'c option) \<Rightarrow> ('q, 'c, 'r) palette \<Rightarrow> bool"
  for search :: "'q \<Rightarrow> 'c option \<Rightarrow> 'r list \<times> 'c option" where
  palette_opens: "palette_reached search new_palette"
| query_changes: "palette_reached search s \<Longrightarrow> sp_more s = [] \<Longrightarrow> palette_reached search (search_effect q s)"
| first_arrives: "palette_reached search s \<Longrightarrow> req \<in> set (sp_first s) \<Longrightarrow>
    palette_reached search (first_page req (search (snd req) None) s)"
| first_fails: "palette_reached search s \<Longrightarrow> req \<in> set (sp_first s) \<Longrightarrow> palette_reached search (first_failed req s)"
| more_asked: "palette_reached search s \<Longrightarrow> more_offered s \<Longrightarrow> palette_reached search (load_more s)"
| more_arrives: "palette_reached search s \<Longrightarrow> req \<in> set (sp_more s) \<Longrightarrow>
    palette_reached search (more_page req (search (fst req) (Some (snd (snd req)))) s)"
| more_fails: "palette_reached search s \<Longrightarrow> req \<in> set (sp_more s) \<Longrightarrow> palette_reached search (more_failed req s)"

section \<open>The results of the current query\<close>

text \<open>The first \<open>n + 1\<close> pages of a query.\<close>

fun pages :: "('q \<Rightarrow> 'c option \<Rightarrow> 'r list \<times> 'c option) \<Rightarrow> 'q \<Rightarrow> nat \<Rightarrow> 'r list \<times> 'c option" where
  "pages search q 0 = search q None"
| "pages search q (Suc n) =
     (case pages search q n of
        (rs, None) \<Rightarrow> (rs, None)
      | (rs, Some c) \<Rightarrow> (rs @ fst (search q (Some c)), snd (search q (Some c))))"

definition palette_ok :: "('q \<Rightarrow> 'c option \<Rightarrow> 'r list \<times> 'c option) \<Rightarrow> ('q, 'c, 'r) palette \<Rightarrow> bool" where
  "palette_ok search s \<longleftrightarrow>
     (sp_query s = None \<longrightarrow> sp_results s = None \<and> sp_more s = []) \<and>
     (\<forall>q. sp_query s = Some q \<and> \<not> sp_pending s \<and> \<not> sp_error s \<longrightarrow> (\<exists>n. sp_results s = Some (pages search q n))) \<and>
     (\<forall>r \<in> set (sp_first s). fst r \<le> sp_effect s \<and>
        (fst r = sp_effect s \<longrightarrow> sp_query s = Some (snd r) \<and> sp_pending s \<and> \<not> sp_error s \<and> sp_more s = [])) \<and>
     distinct (sp_first s) \<and>
     (sp_more s = [] \<or> (\<exists>q rs c. sp_more s = [(q, rs, c)] \<and> sp_query s = Some q \<and> sp_pending s \<and> \<not> sp_error s \<and>
        (\<exists>n. pages search q n = (rs, Some c)) \<and> sp_results s = Some (rs, Some c))) \<and>
     (\<forall>q. sp_query s = Some q \<and> sp_pending s \<longrightarrow> (sp_effect s, q) \<in> set (sp_first s) \<or> sp_more s \<noteq> [])"

lemma first_page_ok:
  assumes ok: "palette_ok search s" and req: "req \<in> set (sp_first s)"
  shows "palette_ok search (first_page req (search (snd req) None) s)"
proof (cases "fst req = sp_effect s")
  case True
  then have now: "sp_query s = Some (snd req)" "sp_more s = []" and dist: "distinct (sp_first s)"
    and below: "\<forall>r \<in> set (sp_first s). fst r \<le> sp_effect s"
    using ok req by (auto simp: palette_ok_def)
  have only: "r = req" if "r \<in> set (sp_first s)" "fst r = sp_effect s" for r
    using ok that now(1) True unfolding palette_ok_def by (metis option.inject prod_eqI)
  have "\<exists>n. search (snd req) None = pages search (snd req) n" by (rule exI [of _ 0]) simp
  then show ?thesis
    using True now dist below only by (auto simp: palette_ok_def first_page_def set_remove1_eq)
next
  case False
  have "(sp_effect s, q) \<in> set (remove1 req (sp_first s))" if "(sp_effect s, q) \<in> set (sp_first s)" for q
    using that False by (cases req) (auto simp: in_set_remove1)
  moreover have "set (remove1 req (sp_first s)) \<subseteq> set (sp_first s)" by (rule set_remove1_subset)
  ultimately show ?thesis
    using ok False unfolding palette_ok_def first_page_def by (auto simp: subset_iff)
qed

lemma first_failed_ok:
  assumes ok: "palette_ok search s" and req: "req \<in> set (sp_first s)"
  shows "palette_ok search (first_failed req s)"
proof (cases "fst req = sp_effect s")
  case True
  then have now: "sp_query s = Some (snd req)" "sp_more s = []" and dist: "distinct (sp_first s)"
    and below: "\<forall>r \<in> set (sp_first s). fst r \<le> sp_effect s"
    using ok req by (auto simp: palette_ok_def)
  have only: "r = req" if "r \<in> set (sp_first s)" "fst r = sp_effect s" for r
    using ok that now(1) True unfolding palette_ok_def by (metis option.inject prod_eqI)
  then show ?thesis
    using True now dist below only by (auto simp: palette_ok_def first_failed_def set_remove1_eq)
next
  case False
  have "(sp_effect s, q) \<in> set (remove1 req (sp_first s))" if "(sp_effect s, q) \<in> set (sp_first s)" for q
    using that False by (cases req) (auto simp: in_set_remove1)
  moreover have "set (remove1 req (sp_first s)) \<subseteq> set (sp_first s)" by (rule set_remove1_subset)
  ultimately show ?thesis
    using ok False unfolding palette_ok_def first_failed_def by (auto simp: subset_iff)
qed

lemma load_more_ok:
  assumes ok: "palette_ok search s" and offer: "more_offered s"
  shows "palette_ok search (load_more s)"
proof -
  obtain q rs c where now: "sp_query s = Some q" "sp_results s = Some (rs, Some c)" "\<not> sp_pending s" "\<not> sp_error s"
    using offer by (auto simp: more_offered_def shown_results_def split: if_splits option.splits)
  obtain n where "pages search q n = (rs, Some c)" using ok now unfolding palette_ok_def by (metis option.inject)
  then show ?thesis
    using ok now by (auto simp: palette_ok_def load_more_def)
qed

lemma more_ok:
  assumes ok: "palette_ok search s" and req: "req \<in> set (sp_more s)"
  shows "palette_ok search (more_page req (search (fst req) (Some (snd (snd req)))) s)"
    and "palette_ok search (more_failed req s)"
proof -
  obtain q rs c n where now: "sp_more s = [(q, rs, c)]" "sp_query s = Some q" "sp_pending s"
    and n: "pages search q n = (rs, Some c)"
    using ok req unfolding palette_ok_def by (metis list.set_cases list.distinct(1))
  have r: "req = (q, rs, c)" using req now by simp
  have firsts: "\<forall>r \<in> set (sp_first s). fst r < sp_effect s"
    using ok now(1) by (auto simp: palette_ok_def less_le)
  have "pages search q (Suc n) = (rs @ fst (search q (Some c)), snd (search q (Some c)))" using n by simp
  then have "\<exists>k. (rs @ fst (search q (Some c)), snd (search q (Some c))) = pages search q k" by metis
  then show "palette_ok search (more_page req (search (fst req) (Some (snd (snd req)))) s)"
    using ok now firsts by (auto simp: palette_ok_def more_page_def r)
  show "palette_ok search (more_failed req s)"
    using ok now firsts by (auto simp: palette_ok_def more_failed_def r)
qed

lemma palette_invariant: "palette_reached search s \<Longrightarrow> palette_ok search s"
proof (induction rule: palette_reached.induct)
  case palette_opens
  then show ?case by (simp add: palette_ok_def new_palette_def)
next
  case (query_changes s q)
  then show ?case
    by (cases q) (fastforce simp: palette_ok_def search_effect_def Let_def)+
qed (simp_all add: first_page_ok first_failed_ok load_more_ok more_ok)

text \<open>Whenever nothing is awaited and no error is shown, the results on display are the first pages of the
  current query, each once and in order, and while something is awaited a request is in flight;
  provided the query does not change while a further page is awaited.\<close>

theorem results_of_the_current_query:
  assumes "palette_reached search s" and "sp_query s = Some q"
  shows "(\<not> sp_pending s \<and> \<not> sp_error s \<longrightarrow> (\<exists>n. sp_results s = Some (pages search q n))) \<and>
    (sp_pending s \<longrightarrow> sp_first s \<noteq> [] \<or> sp_more s \<noteq> [])"
  using palette_invariant [OF assms(1)] assms(2) unfolding palette_ok_def by fastforce

definition two_pages :: "nat \<Rightarrow> nat option \<Rightarrow> nat list \<times> nat option" where
  "two_pages q c = (case c of None \<Rightarrow> ([q], Some 1) | Some k \<Rightarrow> ([q + 10], None))"

theorem results_of_the_current_query_witness:
  "\<exists>n. sp_results (first_page (1, 7) (two_pages 7 None) (search_effect (Some 7) new_palette)) = Some (pages two_pages 7 n)"
proof -
  have s: "search_effect (Some 7) new_palette =
      \<lparr>sp_query = Some 7, sp_results = None, sp_pending = True, sp_error = False, sp_effect = 1, sp_first = [(1, 7)], sp_more = []\<rparr>"
    by (simp add: search_effect_def new_palette_def Let_def)
  have "palette_reached two_pages (search_effect (Some 7) new_palette)"
    by (rule query_changes [OF palette_opens]) (simp add: new_palette_def)
  from first_arrives [OF this, of "(1, 7)"]
  have reached: "palette_reached two_pages (first_page (1, 7) (two_pages 7 None) (search_effect (Some 7) new_palette))"
    by (simp add: s)
  show ?thesis
    using results_of_the_current_query [OF reached, of 7] by (simp add: s first_page_def)
qed

text \<open>A query that changes while a further page is awaited gets the results of the old one.\<close>

theorem late_page_shows_the_old_query:
  "shown_results (more_page (7 :: nat, [7 :: nat], 1 :: nat) (two_pages 7 (Some 1)) (first_page (2, 8) (two_pages 8 None)
     (search_effect (Some 8) (load_more (first_page (1, 7 :: nat) (two_pages 7 None) (search_effect (Some 7) new_palette)))))) =
   Some [7, 17]"
  by code_simp

text \<open>And after a failed search the results of the query before are still there for the keyboard.\<close>

theorem failed_search_keeps_old_results:
  "sp_results (first_failed (2, 8) (search_effect (Some 8)
     (first_page (1, 7 :: nat) (two_pages 7 None) (search_effect (Some 7) new_palette)))) = Some (two_pages 7 None)"
  by code_simp

section \<open>The keyboard\<close>

definition arrow_down :: "nat \<Rightarrow> nat \<Rightarrow> nat" where
  "arrow_down count i = min (i + 1) (count - 1)"

definition arrow_up :: "nat \<Rightarrow> nat" where
  "arrow_up i = i - 1"

lemma arrows_stay_in_the_list: "i < count \<Longrightarrow> arrow_down count i < count \<and> arrow_up i < count"
  by (auto simp: arrow_down_def arrow_up_def)

end
