(* ===== verification/Chat_List.thy ===== *)
theory Chat_List
  imports Notifications "HOL-Library.Multiset"
begin

text \<open>
  The list of chats: \<open>lib/chats.ts\<close>, and the filter, the order and the commands of \<open>chats/ChatListPane.tsx\<close>.
  \<open>toLocaleLowerCase\<close> and \<open>localeCompare\<close> depend on the language of the browser and are parameters; \<open>sort\<close> is
  the stable sort every comparison function determines that is a total preorder. The query of the address
  is a list of names and values, as \<open>URLSearchParams\<close> keeps them. The lemmas show which chats the list has, in
  which order, and that the filter in the address is the one chosen.
\<close>

record listed_chat = chat +
  lc_created_at :: jstring
  lc_last_at :: "jstring option"
  lc_last_body :: "jstring option"

datatype chat_filter = All_Chats | Direct_Chats | Grouped_Chats | Channel_Chats | In_Folder jstring

record chat_folder =
  cf_id :: jstring
  cf_chat_ids :: "jstring list"

definition filter_name :: "chat_filter \<Rightarrow> jstring" where
  "filter_name f =
     (case f of All_Chats \<Rightarrow> js ''all'' | Direct_Chats \<Rightarrow> js ''direct'' | Grouped_Chats \<Rightarrow> js ''grouped''
      | Channel_Chats \<Rightarrow> js ''channel'' | In_Folder i \<Rightarrow> js ''folder:'' @ i)"

text \<open>\<open>titleOf\<close>, with the members of the chat and the text for a direct chat.\<close>

definition titleOf :: "jstring \<Rightarrow> 'a chat_scheme option \<Rightarrow> (jstring \<times> jstring) list \<Rightarrow> jstring \<Rightarrow> jstring" where
  "titleOf direct_text c members own =
     (case c of
        None \<Rightarrow> js ''Coma''
      | Some k \<Rightarrow>
          if c_display_name k \<noteq> [] then c_display_name k
          else if truthy (c_name k) then property_key (c_name k)
          else case find (\<lambda>(i, _). i \<noteq> own) members of
                 Some (_, n) \<Rightarrow> if n \<noteq> [] then n else direct_text
               | None \<Rightarrow> direct_text)"

definition isChatMuted :: "'a chat_scheme \<Rightarrow> int \<Rightarrow> bool" where
  "isChatMuted c now_ms \<longleftrightarrow> c_notify_level c = NotifyNone \<or> \<not> until_passed (Some now_ms) (c_muted_until c)"

definition isReadOnly :: "'a chat_scheme \<Rightarrow> bool" where
  "isReadOnly c \<longleftrightarrow> c_kind c = Channel \<and> c_role c = Member"

definition canManageChat :: "'a chat_scheme \<Rightarrow> bool" where
  "canManageChat c \<longleftrightarrow> c_kind c \<noteq> Direct \<and> c_role c \<noteq> Member"

definition matchesFilter :: "'a chat_scheme \<Rightarrow> chat_filter \<Rightarrow> jstring list option \<Rightarrow> bool" where
  "matchesFilter c f ids =
     (case f of All_Chats \<Rightarrow> True | Direct_Chats \<Rightarrow> c_kind c = Direct | Grouped_Chats \<Rightarrow> c_kind c = Group
      | Channel_Chats \<Rightarrow> c_kind c = Channel
      | In_Folder _ \<Rightarrow> (case ids of Some l \<Rightarrow> c_id c \<in> set l | None \<Rightarrow> False))"

section \<open>The filter in the address\<close>

type_synonym params = "(jstring \<times> jstring) list"

text \<open>\<open>get\<close>, \<open>delete\<close> and \<open>set\<close> of \<open>URLSearchParams\<close>.\<close>

definition param :: "string \<Rightarrow> params \<Rightarrow> jstring option" where
  "param k ps = map_of ps (js k)"

definition delete_param :: "string \<Rightarrow> params \<Rightarrow> params" where
  "delete_param k ps = filter (\<lambda>(j, _). j \<noteq> js k) ps"

fun set_param :: "string \<Rightarrow> jstring \<Rightarrow> params \<Rightarrow> params" where
  "set_param k v [] = [(js k, v)]"
| "set_param k v ((j, w) # ps) = (if j = js k then (j, v) # delete_param k ps else (j, w) # set_param k v ps)"

definition chatFilterFromURL :: "params \<Rightarrow> chat_filter" where
  "chatFilterFromURL ps =
     (case param ''folder'' ps of
        Some f \<Rightarrow> if f \<noteq> [] then In_Folder f else
          (if param ''filter'' ps = Some (js ''direct'') then Direct_Chats
           else if param ''filter'' ps = Some (js ''grouped'') then Grouped_Chats
           else if param ''filter'' ps = Some (js ''channel'') then Channel_Chats else All_Chats)
      | None \<Rightarrow>
          (if param ''filter'' ps = Some (js ''direct'') then Direct_Chats
           else if param ''filter'' ps = Some (js ''grouped'') then Grouped_Chats
           else if param ''filter'' ps = Some (js ''channel'') then Channel_Chats else All_Chats))"

definition writeChatFilterToURL :: "chat_filter \<Rightarrow> params \<Rightarrow> params" where
  "writeChatFilterToURL f ps0 =
     (let ps = delete_param ''folder'' ps0 in
      case f of
        In_Folder i \<Rightarrow> set_param ''folder'' i (delete_param ''filter'' ps)
      | All_Chats \<Rightarrow> delete_param ''filter'' ps
      | _ \<Rightarrow> set_param ''filter'' (filter_name f) ps)"

lemma param_delete: "param k (delete_param j ps) = (if js k = js j then None else param k ps)"
  by (induction ps) (auto simp: param_def delete_param_def)

lemma param_set: "param k (set_param j v ps) = (if js k = js j then Some v else param k ps)"
  using param_delete by (induction j v ps rule: set_param.induct) (auto simp: param_def)

theorem chosen_filter_is_in_the_address:
  "f \<noteq> In_Folder [] \<Longrightarrow> chatFilterFromURL (writeChatFilterToURL f ps) = f"
  by (cases f)
    (simp_all add: chatFilterFromURL_def writeChatFilterToURL_def Let_def param_delete param_set filter_name_def)

section \<open>The order\<close>

text \<open>A stable sort by a comparison function: a negative number or 0 leaves the left element first.\<close>

fun insert_by :: "('a \<Rightarrow> 'a \<Rightarrow> int) \<Rightarrow> 'a \<Rightarrow> 'a list \<Rightarrow> 'a list" where
  "insert_by cmp x [] = [x]"
| "insert_by cmp x (y # ys) = (if cmp x y \<le> 0 then x # y # ys else y # insert_by cmp x ys)"

definition sort_by :: "('a \<Rightarrow> 'a \<Rightarrow> int) \<Rightarrow> 'a list \<Rightarrow> 'a list" where
  "sort_by cmp xs = foldr (insert_by cmp) xs []"

definition total_comparison :: "('a \<Rightarrow> 'a \<Rightarrow> int) \<Rightarrow> bool" where
  "total_comparison cmp \<longleftrightarrow>
     (\<forall>a b. cmp a b \<le> 0 \<or> cmp b a \<le> 0) \<and> (\<forall>a b c. cmp a b \<le> 0 \<and> cmp b c \<le> 0 \<longrightarrow> cmp a c \<le> 0)"

text \<open>\<open>new Map(ids.map((id, index) => [id, index]))\<close>.\<close>

definition pinned_order :: "jstring list \<Rightarrow> jstring \<Rightarrow> nat option" where
  "pinned_order ids = map_of (rev (zip ids [0..<length ids]))"

definition last_activity :: "listed_chat \<Rightarrow> jstring" where
  "last_activity c = (case lc_last_at c of Some t \<Rightarrow> t | None \<Rightarrow> lc_created_at c)"

definition compare_chats :: "(jstring \<Rightarrow> jstring \<Rightarrow> int) \<Rightarrow> jstring list \<Rightarrow> listed_chat \<Rightarrow> listed_chat \<Rightarrow> int" where
  "compare_chats locale_compare ids left right =
     (case (pinned_order ids (c_id left), pinned_order ids (c_id right)) of
        (Some i, Some j) \<Rightarrow> int i - int j
      | (Some _, None) \<Rightarrow> - 1
      | (None, Some _) \<Rightarrow> 1
      | (None, None) \<Rightarrow> locale_compare (last_activity right) (last_activity left))"

fun contains :: "jstring \<Rightarrow> jstring \<Rightarrow> bool" where
  "contains q [] \<longleftrightarrow> q = []"
| "contains q (c # cs) \<longleftrightarrow> starts_with q (c # cs) \<or> contains q cs"

definition active_folder :: "chat_filter \<Rightarrow> chat_folder list \<Rightarrow> chat_folder option" where
  "active_folder f folders = (case f of In_Folder i \<Rightarrow> find (\<lambda>k. cf_id k = i) folders | _ \<Rightarrow> None)"

definition chat_matches ::
  "(jstring \<Rightarrow> jstring) \<Rightarrow> jstring \<Rightarrow> jstring \<Rightarrow> chat_filter \<Rightarrow> chat_folder list \<Rightarrow> jstring \<Rightarrow> listed_chat \<Rightarrow> bool" where
  "chat_matches lower direct_text own f folders query c =
     (matchesFilter c f (map_option cf_chat_ids (active_folder f folders)) \<and>
      (let q = lower (js_trim query) in
       q = [] \<or> contains q (lower (titleOf direct_text (Some c) [] own @ js '' '' @
                 (case lc_last_body c of Some b \<Rightarrow> b | None \<Rightarrow> [])))))"

definition filtered_chats ::
  "(jstring \<Rightarrow> jstring \<Rightarrow> int) \<Rightarrow> (jstring \<Rightarrow> jstring) \<Rightarrow> jstring \<Rightarrow> jstring \<Rightarrow> chat_filter \<Rightarrow> chat_folder list \<Rightarrow>
     jstring list \<Rightarrow> jstring \<Rightarrow> listed_chat list \<Rightarrow> listed_chat list" where
  "filtered_chats locale_compare lower direct_text own f folders ids query chats =
     sort_by (compare_chats locale_compare ids) (filter (chat_matches lower direct_text own f folders query) chats)"

definition toggleFolder :: "jstring \<Rightarrow> jstring \<Rightarrow> chat_folder list \<Rightarrow> chat_folder list" where
  "toggleFolder folder chat folders =
     map (\<lambda>k. if cf_id k \<noteq> folder then k
              else k\<lparr>cf_chat_ids := (if chat \<in> set (cf_chat_ids k) then filter (\<lambda>i. i \<noteq> chat) (cf_chat_ids k)
                                     else cf_chat_ids k @ [chat])\<rparr>) folders"

lemma mset_insert_by: "mset (insert_by cmp x ys) = add_mset x (mset ys)"
  by (induction ys) auto

lemma mset_sort_by: "mset (sort_by cmp xs) = mset xs"
  by (induction xs) (simp_all add: sort_by_def mset_insert_by)

lemma total_comparisonD:
  assumes "total_comparison cmp"
  shows "cmp a b \<le> 0 \<or> cmp b a \<le> 0" and "cmp a b \<le> 0 \<Longrightarrow> cmp b c \<le> 0 \<Longrightarrow> cmp a c \<le> 0"
  using assms unfolding total_comparison_def by blast+

lemma sorted_insert_by:
  assumes "total_comparison cmp"
  shows "sorted_wrt (\<lambda>a b. cmp a b \<le> 0) ys \<Longrightarrow> sorted_wrt (\<lambda>a b. cmp a b \<le> 0) (insert_by cmp x ys)"
proof (induction ys)
  case (Cons y ys)
  show ?case
  proof (cases "cmp x y \<le> 0")
    case True
    then show ?thesis using Cons.prems total_comparisonD(2) [OF assms True] by simp
  next
    case False
    then have "cmp y x \<le> 0" using total_comparisonD(1) [OF assms, of x y] by simp
    moreover have "set (insert_by cmp x ys) = insert x (set ys)"
      using arg_cong [OF mset_insert_by [of cmp x ys], of set_mset] by simp
    ultimately show ?thesis using Cons False by simp
  qed
qed simp

lemma sorted_sort_by: "total_comparison cmp \<Longrightarrow> sorted_wrt (\<lambda>a b. cmp a b \<le> 0) (sort_by cmp xs)"
  by (induction xs) (simp_all add: sort_by_def sorted_insert_by)

lemma compare_chats_total:
  assumes "total_comparison locale_compare"
  shows "total_comparison (compare_chats locale_compare ids)"
proof -
  note t = total_comparisonD [OF assms]
  have "compare_chats locale_compare ids a b \<le> 0 \<or> compare_chats locale_compare ids b a \<le> 0" for a b
    using t(1) [of "last_activity b" "last_activity a"] by (simp add: compare_chats_def split: option.split) linarith
  moreover have "compare_chats locale_compare ids a c \<le> 0"
    if "compare_chats locale_compare ids a b \<le> 0" "compare_chats locale_compare ids b c \<le> 0" for a b c
    using that t(2) [of "last_activity c" "last_activity b" "last_activity a"]
    by (simp add: compare_chats_def split: option.splits)
  ultimately show ?thesis unfolding total_comparison_def by blast
qed

text \<open>The list shows exactly the chats that the filter and the search text admit, each as often as the store
  has it: first the pinned ones in the order of the pins, then the others with the last activity first.\<close>

theorem listed_chats_are_in_order:
  assumes "total_comparison locale_compare"
    and "l = filtered_chats locale_compare lower direct_text own f folders ids query chats"
  shows "mset l = {#c \<in># mset chats. chat_matches lower direct_text own f folders query c#} \<and>
    sorted_wrt (\<lambda>a b. case (pinned_order ids (c_id a), pinned_order ids (c_id b)) of
        (Some i, Some j) \<Rightarrow> i \<le> j
      | (Some _, None) \<Rightarrow> True
      | (None, Some _) \<Rightarrow> False
      | (None, None) \<Rightarrow> locale_compare (last_activity b) (last_activity a) \<le> 0) l"
proof
  show "mset l = {#c \<in># mset chats. chat_matches lower direct_text own f folders query c#}"
    by (simp add: assms(2) filtered_chats_def mset_sort_by)
  have "sorted_wrt (\<lambda>a b. compare_chats locale_compare ids a b \<le> 0) l"
    unfolding assms(2) filtered_chats_def by (intro sorted_sort_by compare_chats_total assms(1))
  then show "sorted_wrt (\<lambda>a b. case (pinned_order ids (c_id a), pinned_order ids (c_id b)) of
        (Some i, Some j) \<Rightarrow> i \<le> j
      | (Some _, None) \<Rightarrow> True
      | (None, Some _) \<Rightarrow> False
      | (None, None) \<Rightarrow> locale_compare (last_activity b) (last_activity a) \<le> 0) l"
    by (rule sorted_wrt_mono_rel [rotated]) (auto simp: compare_chats_def split: option.splits)
qed

definition sample_listed :: "string \<Rightarrow> listed_chat" where
  "sample_listed i = \<lparr>c_id = js i, c_kind = Group, c_public = False, c_name = Val (js i), c_topic = [], c_role = Member,
     c_display_name = [], c_avatar_seed = [], c_notify_level = NotifyDefault, c_muted_until = None,
     c_last_activity_seq = 0, lc_created_at = js ''2026'', lc_last_at = None, lc_last_body = None\<rparr>"

theorem listed_chats_are_in_order_witness:
  "mset (filtered_chats (\<lambda>a b. int (length a) - int (length b)) id [] [] All_Chats [] [js ''b''] []
     [sample_listed ''a'', sample_listed ''b'']) = {#sample_listed ''a'', sample_listed ''b''#}"
proof -
  have "total_comparison (\<lambda>a b :: jstring. int (length a) - int (length b))"
    by (auto simp: total_comparison_def)
  moreover have "chat_matches id [] [] All_Chats [] [] c" for c
    by (simp add: chat_matches_def matchesFilter_def js_trim_def)
  ultimately show ?thesis
    using listed_chats_are_in_order [OF _ refl, of "\<lambda>a b. int (length a) - int (length b)" id "[]" "[]" All_Chats "[]"
        "[js ''b'']" "[]" "[sample_listed ''a'', sample_listed ''b'']"] by simp
qed

end
