(* ===== verification/Message_Row.thy ===== *)
theory Message_Row
  imports Composer Store
begin

text \<open>
  What a reader does with one message, \<open>conversation/MessageRow.tsx\<close>: edit it, react to it, pin it. The row is
  rendered with the message the store has at the time, so \<open>ro_message\<close> changes while an edit is open. The
  references are \<open>Update\<close> of \<open>core/internal/message/message.go\<close> and \<open>PutReaction\<close>, \<open>DeleteReaction\<close>, \<open>PutPin\<close>,
  \<open>DeletePin\<close> of \<open>actions.go\<close>; permissions and sizes are an argument. The menu, the pickers and the dialogs are
  presentation. An emoji is neither a decimal number nor \<open>__proto__\<close>, which an object would treat
  differently.

  The lemmas show what an edit stores and whom it mentions, that reactions are counted and toggled as the
  server keeps them; and two ways in which a row acts on what somebody else has done meanwhile.
\<close>

section \<open>Editing\<close>

record edit_request =
  eu_id :: jstring
  eu_body :: jstring
  eu_expected_version :: int
  eu_mentioned_actor_ids :: "jstring list"

record message_row =
  ro_message :: client_message
  ro_editing :: bool
  ro_text :: jstring
  ro_busy :: bool
  ro_failed :: bool

definition new_row :: "client_message \<Rightarrow> message_row" where
  "new_row m = \<lparr>ro_message = m, ro_editing = False, ro_text = [], ro_busy = False, ro_failed = False\<rparr>"

definition startEdit :: "message_row \<Rightarrow> message_row" where
  "startEdit r = r\<lparr>ro_text := md_text (decodeMentions (m_body (ro_message r))), ro_editing := True\<rparr>"

definition edit_typed :: "jstring \<Rightarrow> message_row \<Rightarrow> message_row" where
  "edit_typed t r = r\<lparr>ro_text := t\<rparr>"

text \<open>The row is rendered again, with what an event has made of the message.\<close>

definition row_renders :: "client_message \<Rightarrow> message_row \<Rightarrow> message_row" where
  "row_renders m r = r\<lparr>ro_message := m\<rparr>"

text \<open>\<open>saveEdit\<close> up to its call, which is \<open>None\<close> if there is nothing to save.\<close>

definition saveEdit :: "message_row \<Rightarrow> edit_request option \<times> message_row" where
  "saveEdit r =
     (let original = decodeMentions (m_body (ro_message r)) in
      if js_trim (ro_text r) = [] \<or> ro_text r = md_text original then (None, r\<lparr>ro_editing := False\<rparr>)
      else
        let body = encodeMentions (updateMentionText original (ro_text r)) in
        (Some \<lparr>eu_id = m_id (ro_message r), eu_body = body, eu_expected_version = m_version (ro_message r),
               eu_mentioned_actor_ids = mentionedActorIDs body\<rparr>,
         r\<lparr>ro_busy := True\<rparr>))"

definition edit_settles :: "client_message option \<Rightarrow> message_row \<Rightarrow> message_row" where
  "edit_settles answer r =
     (case answer of
        Some m \<Rightarrow> r\<lparr>ro_message := m, ro_editing := False, ro_busy := False\<rparr>
      | None \<Rightarrow> r\<lparr>ro_failed := True, ro_busy := False\<rparr>)"

text \<open>\<open>Update\<close> of the server: \<open>fits\<close> stands for its checks of the body and of the people, \<open>now\<close> for its clock.\<close>

definition update_message :: "(edit_request \<Rightarrow> bool) \<Rightarrow> jstring \<Rightarrow> edit_request \<Rightarrow> client_message \<Rightarrow> client_message option" where
  "update_message fits now u m =
     (if \<not> fits u \<or> eu_expected_version u < 1 \<or> truthy (m_deleted_at m) \<or> m_version m \<noteq> eu_expected_version u then None
      else Some (m\<lparr>m_body := eu_body u, m_body_format := Markdown, m_mentioned_actor_ids := eu_mentioned_actor_ids u,
                   m_version := m_version m + 1, m_edited_at := Val now\<rparr>))"

lemma updated_people:
  "set (map mr_actorID (md_mentions (updateMentionText d t))) \<subseteq> set (map mr_actorID (md_mentions d))"
  by (auto simp: updateMentionText_def Let_def split: prod.splits if_splits)

lemma edit_decodes:
  assumes "no_open t"
  shows "decodeMentions (encodeMentions (updateMentionText (decodeMentions b) t)) = updateMentionText (decodeMentions b) t"
proof -
  have "wf_draft (updateMentionText (decodeMentions b) t)" by (intro wf_updateMentionText wf_decodeMentions)
  moreover have "\<forall>m \<in> set (md_mentions (updateMentionText (decodeMentions b) t)). storable_ref m"
    using decoded_storable by (intro updated_storable ballI)
  ultimately show ?thesis using assms by (intro decode_encode) simp_all
qed

lemma saveEdit_request:
  assumes "fst (saveEdit r) = Some u"
  shows "js_trim (ro_text r) \<noteq> []" and "ro_text r \<noteq> md_text (decodeMentions (m_body (ro_message r)))"
    and "eu_body u = encodeMentions (updateMentionText (decodeMentions (m_body (ro_message r))) (ro_text r))"
    and "eu_expected_version u = m_version (ro_message r)" and "eu_id u = m_id (ro_message r)"
    and "eu_mentioned_actor_ids u = mentionedActorIDs (eu_body u)"
  using assms by (auto simp: saveEdit_def Let_def split: if_splits)






text \<open>The version goes with the message the row is rendered with when the edit is saved, not with the one it was
  opened on. What somebody has written meanwhile is overwritten, and the server does not see a
  conflict.\<close>

theorem late_edit_overwrites:
  assumes "no_open t" and "js_trim t \<noteq> []" and "t \<noteq> md_text (decodeMentions (m_body theirs))"
    and "\<not> truthy (m_deleted_at theirs)" and "1 \<le> m_version theirs"
  shows "\<exists>u m. fst (saveEdit (row_renders theirs (edit_typed t (startEdit (new_row mine))))) = Some u \<and>
    update_message (\<lambda>_. True) now u theirs = Some m \<and> shown_text (m_body m) = t"
proof -
  let ?body = "encodeMentions (updateMentionText (decodeMentions (m_body theirs)) t)"
  let ?u = "\<lparr>eu_id = m_id theirs, eu_body = ?body, eu_expected_version = m_version theirs, eu_mentioned_actor_ids = mentionedActorIDs ?body\<rparr>"
  have "shown_text ?body = t" using edit_decodes [OF assms(1)] by (simp add: shown_text_def)
  moreover have "fst (saveEdit (row_renders theirs (edit_typed t (startEdit (new_row mine))))) = Some ?u"
    using assms(2,3) by (simp add: saveEdit_def row_renders_def edit_typed_def startEdit_def new_row_def Let_def)
  moreover have "\<exists>m. update_message (\<lambda>_. True) now ?u theirs = Some m \<and> m_body m = ?body"
    using assms(4,5) by (simp add: update_message_def)
  ultimately show ?thesis by metis
qed

text \<open>An edit resolves neither \<open>@all\<close> nor \<open>@here\<close>: a message that mentions everybody no longer does once it is
  edited, whatever it says.\<close>

theorem edit_forgets_everyone:
  assumes "no_open (m_body m)" and "fst (saveEdit (edit_typed t (startEdit (new_row m)))) = Some u"
  shows "eu_mentioned_actor_ids u = [] \<or> \<not> no_open t"
proof (cases "no_open t")
  case True
  have "md_mentions (decodeMentions (m_body m)) = []" by (simp add: plain_shown [OF assms(1)])
  then have "set (mentionedActorIDs (encodeMentions (updateMentionText (decodeMentions (m_body m)) t))) = {}"
    using updated_people [of "decodeMentions (m_body m)" t] edit_decodes [OF True]
    by (simp add: mentionedActorIDs_def set_js_set)
  then show ?thesis
    using saveEdit_request(3,6) [OF assms(2)] by (simp add: edit_typed_def startEdit_def new_row_def)
qed simp

text \<open>Enter does not look at \<open>busy\<close>, as the button does. The second request of a double Enter is refused, and
  the row reports a failure of an edit that was saved.\<close>

theorem saving_twice_reports_a_failure:
  assumes "saveEdit r = (Some u, r1)" and "update_message fits now u (ro_message r) = Some m"
  shows "saveEdit r1 = (Some u, r1) \<and> update_message fits now u m = None \<and>
    ro_failed (edit_settles (update_message fits now u m) (edit_settles (Some m) r1))"
proof -
  have "r1 = r\<lparr>ro_busy := True\<rparr>" "ro_text r = ro_text r1" "ro_message r = ro_message r1"
    using assms(1) by (auto simp: saveEdit_def Let_def split: if_splits)
  moreover have "m_version m \<noteq> eu_expected_version u"
    using assms(2) by (auto simp: update_message_def split: if_splits)
  ultimately show ?thesis
    using assms(1) by (auto simp: saveEdit_def Let_def update_message_def edit_settles_def split: if_splits)
qed

section \<open>Reactions\<close>

record reaction =
  rx_actor :: jstring
  rx_emoji :: jstring

record reaction_group =
  rg_emoji :: jstring
  rg_count :: nat
  rg_own :: bool

text \<open>\<open>reactionGroups\<close>: the entries of an object, in the order its keys were first set.\<close>

fun count_reaction :: "jstring \<Rightarrow> reaction_group list \<Rightarrow> reaction \<Rightarrow> reaction_group list" where
  "count_reaction me [] x = [\<lparr>rg_emoji = rx_emoji x, rg_count = 1, rg_own = rx_actor x = me\<rparr>]"
| "count_reaction me (g # gs) x =
     (if rg_emoji g = rx_emoji x then g\<lparr>rg_count := rg_count g + 1, rg_own := rg_own g \<or> rx_actor x = me\<rparr> # gs
      else g # count_reaction me gs x)"

definition reactionGroups :: "jstring \<Rightarrow> reaction list \<Rightarrow> reaction_group list" where
  "reactionGroups me xs = foldl (count_reaction me) [] xs"

datatype row_call = React jstring | Unreact jstring | Pin_Message | Unpin_Message

text \<open>The request of \<open>toggleReaction\<close>, with the reactions the row has loaded.\<close>

definition toggleReaction :: "jstring \<Rightarrow> jstring \<Rightarrow> reaction list \<Rightarrow> row_call" where
  "toggleReaction me e xs = (if \<exists>x \<in> set xs. rx_emoji x = e \<and> rx_actor x = me then Unreact e else React e)"

text \<open>\<open>PutReaction\<close> and \<open>DeleteReaction\<close>: at most 20 reactions of an actor to a message, each once.\<close>

definition serve_reaction :: "jstring \<Rightarrow> row_call \<Rightarrow> reaction list \<Rightarrow> reaction list" where
  "serve_reaction me c xs =
     (case c of
        React e \<Rightarrow>
          if \<lparr>rx_actor = me, rx_emoji = e\<rparr> \<in> set xs \<or> 20 \<le> length (filter (\<lambda>x. rx_actor x = me) xs) then xs
          else xs @ [\<lparr>rx_actor = me, rx_emoji = e\<rparr>]
      | Unreact e \<Rightarrow> filter (\<lambda>x. x \<noteq> \<lparr>rx_actor = me, rx_emoji = e\<rparr>) xs
      | _ \<Rightarrow> xs)"

definition groups_of :: "jstring \<Rightarrow> reaction list \<Rightarrow> reaction_group list \<Rightarrow> bool" where
  "groups_of me xs gs \<longleftrightarrow>
     distinct (map rg_emoji gs) \<and> rg_emoji ` set gs = rx_emoji ` set xs \<and>
     (\<forall>g \<in> set gs. rg_count g = length (filter (\<lambda>x. rx_emoji x = rg_emoji g) xs) \<and>
        rg_own g = (\<exists>x \<in> set xs. rx_emoji x = rg_emoji g \<and> rx_actor x = me))"

lemma count_reaction_emojis:
  "rg_emoji ` set (count_reaction me gs x) = insert (rx_emoji x) (rg_emoji ` set gs)"
  by (induction gs) (auto simp: image_iff)

lemma count_reaction_distinct:
  "distinct (map rg_emoji gs) \<Longrightarrow> distinct (map rg_emoji (count_reaction me gs x))"
proof (induction gs)
  case (Cons g gs)
  then show ?case
    using count_reaction_emojis [of me gs x] by (auto simp: image_iff)
qed simp

lemma count_reaction_new:
  "distinct (map rg_emoji gs) \<Longrightarrow> g \<in> set (count_reaction me gs x) \<Longrightarrow>
     (rg_emoji g \<noteq> rx_emoji x \<and> g \<in> set gs) \<or>
     (rg_emoji g = rx_emoji x \<and>
        ((\<exists>h \<in> set gs. rg_emoji h = rx_emoji x \<and> g = h\<lparr>rg_count := rg_count h + 1, rg_own := rg_own h \<or> rx_actor x = me\<rparr>) \<or>
         rx_emoji x \<notin> rg_emoji ` set gs \<and> g = \<lparr>rg_emoji = rx_emoji x, rg_count = 1, rg_own = rx_actor x = me\<rparr>))"
  by (induction gs) (auto split: if_splits, metis image_eqI)

lemma groups_of_step: "groups_of me xs gs \<Longrightarrow> groups_of me (xs @ [x]) (count_reaction me gs x)"
proof -
  assume g: "groups_of me xs gs"
  have unused: "filter (\<lambda>y. rx_emoji y = rx_emoji x) xs = []" if "rx_emoji x \<notin> rg_emoji ` set gs"
  proof -
    have "rx_emoji x \<notin> rx_emoji ` set xs" using g that by (simp add: groups_of_def)
    then show ?thesis unfolding filter_empty_conv by (metis imageI)
  qed
  show ?thesis
    unfolding groups_of_def
  proof (intro conjI ballI)
    show "distinct (map rg_emoji (count_reaction me gs x))"
      using g count_reaction_distinct by (simp add: groups_of_def)
    show "rg_emoji ` set (count_reaction me gs x) = rx_emoji ` set (xs @ [x])"
      using g count_reaction_emojis [of me gs x] by (simp add: groups_of_def)
    fix k
    assume "k \<in> set (count_reaction me gs x)"
    then have k: "k \<in> set (count_reaction me gs x)" .
    have d: "distinct (map rg_emoji gs)" using g by (simp add: groups_of_def)
    note split = count_reaction_new [OF d k]
    have count: "rg_count h = length (filter (\<lambda>y. rx_emoji y = rg_emoji h) xs)"
      and own: "rg_own h = (\<exists>y \<in> set xs. rx_emoji y = rg_emoji h \<and> rx_actor y = me)" if "h \<in> set gs" for h
      using g that unfolding groups_of_def by simp_all
    have "rg_count k = length (filter (\<lambda>y. rx_emoji y = rg_emoji k) (xs @ [x])) \<and>
        rg_own k = (\<exists>y \<in> set (xs @ [x]). rx_emoji y = rg_emoji k \<and> rx_actor y = me)"
    proof (cases "rg_emoji k = rx_emoji x")
      case False
      then have "k \<in> set gs" using split by simp
      then show ?thesis using count own False by auto
    next
      case True
      with split consider h where "h \<in> set gs" "rg_emoji h = rx_emoji x" "k = h\<lparr>rg_count := rg_count h + 1, rg_own := rg_own h \<or> rx_actor x = me\<rparr>"
        | "rx_emoji x \<notin> rg_emoji ` set gs" "k = \<lparr>rg_emoji = rx_emoji x, rg_count = 1, rg_own = rx_actor x = me\<rparr>"
        by simp blast
      then show ?thesis
      proof cases
        case 1
        then show ?thesis using count own by auto
      next
        case 2
        then have "\<forall>y \<in> set xs. rx_emoji y \<noteq> rx_emoji x" using unused by (simp add: filter_empty_conv)
        then show ?thesis using 2 unused by auto
      qed
    qed
    then show "rg_count k = length (filter (\<lambda>y. rx_emoji y = rg_emoji k) (xs @ [x]))"
      and "rg_own k = (\<exists>y \<in> set (xs @ [x]). rx_emoji y = rg_emoji k \<and> rx_actor y = me)" by simp_all
  qed
qed

lemma reactionGroups_ok: "groups_of me xs (reactionGroups me xs)"
proof (induction xs rule: rev_induct)
  case Nil
  then show ?case by (simp add: groups_of_def reactionGroups_def)
next
  case (snoc x xs)
  then show ?case using groups_of_step by (simp add: reactionGroups_def)
qed

text \<open>The chips below a message count its reactions: one for each emoji, with the number of people and whether the
  reader is among them; and a click on one makes exactly this of the reader's part the opposite, as long
  as the row has loaded what the server has and the reader has fewer than 20.\<close>

theorem reactions_are_counted_and_toggled:
  assumes "length (filter (\<lambda>x. rx_actor x = me) xs) < 20"
  shows "groups_of me xs (reactionGroups me xs) \<and>
    (\<exists>x \<in> set (serve_reaction me (toggleReaction me e xs) xs). rx_emoji x = e \<and> rx_actor x = me) =
      (\<not> (\<exists>x \<in> set xs. rx_emoji x = e \<and> rx_actor x = me)) \<and>
    filter (\<lambda>x. \<not> (rx_emoji x = e \<and> rx_actor x = me)) (serve_reaction me (toggleReaction me e xs) xs) =
      filter (\<lambda>x. \<not> (rx_emoji x = e \<and> rx_actor x = me)) xs"
proof -
  have me: "x = \<lparr>rx_actor = me, rx_emoji = e\<rparr> \<longleftrightarrow> rx_emoji x = e \<and> rx_actor x = me" for x :: reaction
    by (cases x) auto
  have "toggleReaction me e xs = (if \<lparr>rx_actor = me, rx_emoji = e\<rparr> \<in> set xs then Unreact e else React e)"
    unfolding toggleReaction_def by (auto simp flip: me)
  then show ?thesis
    using assms reactionGroups_ok by (auto simp: serve_reaction_def simp flip: me)
qed

theorem reactions_are_counted_and_toggled_witness:
  "reactionGroups (js ''a'') [\<lparr>rx_actor = js ''b'', rx_emoji = js ''+''\<rparr>, \<lparr>rx_actor = js ''a'', rx_emoji = js ''+''\<rparr>] =
     [\<lparr>rg_emoji = js ''+'', rg_count = 2, rg_own = True\<rparr>] \<and>
   serve_reaction (js ''a'') (toggleReaction (js ''a'') (js ''+'') []) [] \<noteq> []"
proof -
  have "\<exists>x \<in> set (serve_reaction (js ''a'') (toggleReaction (js ''a'') (js ''+'') []) []). rx_emoji x = js ''+'' \<and> rx_actor x = js ''a''"
    using reactions_are_counted_and_toggled [of "js ''a''" "[]" "js ''+''"] by simp
  then have "serve_reaction (js ''a'') (toggleReaction (js ''a'') (js ''+'') []) [] \<noteq> []" by auto
  then show ?thesis by (simp add: reactionGroups_def)
qed

section \<open>Pins\<close>

text \<open>\<open>togglePin\<close> asks for the first call; the toast's undo for the second.\<close>

definition togglePin :: "bool \<Rightarrow> row_call \<times> row_call" where
  "togglePin pinned = (if pinned then (Unpin_Message, Pin_Message) else (Pin_Message, Unpin_Message))"

text \<open>\<open>PutPin\<close> and \<open>DeletePin\<close>, on who has pinned the message: a pin that is there stays the one it is.\<close>

definition serve_pin :: "jstring \<Rightarrow> row_call \<Rightarrow> jstring option \<Rightarrow> jstring option" where
  "serve_pin me c p =
     (case c of Pin_Message \<Rightarrow> (case p of None \<Rightarrow> Some me | Some a \<Rightarrow> Some a) | Unpin_Message \<Rightarrow> None | _ \<Rightarrow> p)"

lemma undone_pin:
  "serve_pin me (snd (togglePin (p \<noteq> None))) (serve_pin me (fst (togglePin (p \<noteq> None))) p) = None \<longleftrightarrow> p = None"
  by (simp add: togglePin_def serve_pin_def split: option.splits)

text \<open>A row that does not know yet that somebody else has pinned the message changes nothing with its pin, but
  removes the other's with its undo.\<close>

theorem undo_removes_the_pin_of_another:
  "serve_pin me (fst (togglePin False)) (Some other) = Some other \<and>
   serve_pin me (snd (togglePin False)) (serve_pin me (fst (togglePin False)) (Some other)) = None"
  by (simp add: togglePin_def serve_pin_def)

end
