(* ===== verification/Threads.thy ===== *)
theory Threads
  imports Store
begin

text \<open>
  Threads: the preview below a message, \<open>conversation/useThreadPreview.ts\<close>, the open thread,
  \<open>conversation/ThreadPanel.tsx\<close>, and their list, \<open>directories/ThreadDirectory.tsx\<close>. Both preview and panel merge
  the thread the server has sent (\<open>loaded\<close>) with what the store has of the chat (\<open>stored\<close>) in a \<open>Map\<close> by
  message id, in which what the store has wins. The requests to follow a thread are numbered.

  The lemmas show who is in the preview and what the panel lists, and three cases in which they are wrong: a
  deleted reply, a reply that waits in the outbox, and two failures to follow.
\<close>

section \<open>Maps by id\<close>

fun set_entry :: "client_message \<Rightarrow> client_message list \<Rightarrow> client_message list" where
  "set_entry m [] = [m]"
| "set_entry m (x # xs) = (if m_id x = m_id m then m # xs else x # set_entry m xs)"

text \<open>\<open>[...new Map(values.map((message) => [message.id, message])).values()]\<close>.\<close>

definition by_id :: "client_message list \<Rightarrow> client_message list" where
  "by_id msgs = fold set_entry msgs []"

definition last_with :: "jstring \<Rightarrow> client_message list \<Rightarrow> client_message option" where
  "last_with i msgs = find (\<lambda>m. m_id m = i) (rev msgs)"

lemma set_entry_ids: "m_id ` set (set_entry m xs) = insert (m_id m) (m_id ` set xs)"
  by (induction xs) auto

lemma set_entry_distinct: "distinct (map m_id xs) \<Longrightarrow> distinct (map m_id (set_entry m xs))"
proof (induction xs)
  case (Cons x xs)
  then show ?case using set_entry_ids [of m xs] by (auto simp: image_iff)
qed simp

lemma set_entry_mem:
  "distinct (map m_id xs) \<Longrightarrow> x \<in> set (set_entry m xs) \<longleftrightarrow> x = m \<or> x \<in> set xs \<and> m_id x \<noteq> m_id m"
proof (induction xs)
  case (Cons y ys)
  then show ?case by (auto simp: image_iff)
qed simp

lemma by_id_snoc: "by_id (xs @ [m]) = set_entry m (by_id xs)"
  by (simp add: by_id_def)

lemma by_id_distinct: "distinct (map m_id (by_id xs))"
  by (induction xs rule: rev_induct) (simp_all add: by_id_snoc set_entry_distinct, simp add: by_id_def)

lemma last_with_snoc: "last_with i (xs @ [m]) = (if m_id m = i then Some m else last_with i xs)"
  by (simp add: last_with_def)

lemma by_id_mem: "x \<in> set (by_id xs) \<longleftrightarrow> last_with (m_id x) xs = Some x"
proof (induction xs rule: rev_induct)
  case Nil
  then show ?case by (simp add: by_id_def last_with_def)
next
  case (snoc m xs)
  then show ?case
    using set_entry_mem [OF by_id_distinct] by (auto simp: by_id_snoc last_with_snoc)
qed

lemma last_with_append:
  "last_with i (xs @ ys) = (case last_with i ys of Some m \<Rightarrow> Some m | None \<Rightarrow> last_with i xs)"
  by (induction ys rule: rev_induct)
    (simp add: last_with_def, simp add: last_with_snoc flip: append_assoc)

section \<open>The preview\<close>

definition is_reply :: "jstring \<Rightarrow> client_message \<Rightarrow> bool" where
  "is_reply root m \<longleftrightarrow> m_thread_root_id m = Val root"

definition preview_replies :: "jstring \<Rightarrow> client_message list \<Rightarrow> client_message list \<Rightarrow> client_message list" where
  "preview_replies root loaded stored =
     sort_key (\<lambda>m. - m_created_seq m)
       (by_id (filter (\<lambda>m. is_reply root m \<and> \<not> truthy (m_deleted_at m)) (loaded @ stored)))"

fun participant_loop :: "jstring list \<Rightarrow> client_message list \<Rightarrow> jstring list" where
  "participant_loop ids [] = ids"
| "participant_loop ids (m # ms) =
     (let ids' = (if m_actor_id m \<in> set ids then ids else ids @ [m_actor_id m]) in
      if length ids' = 3 then ids' else participant_loop ids' ms)"

record thread_preview =
  tp_participantIDs :: "jstring list"
  tp_lastReplyAt :: "jstring option"
  tp_lastReply :: "client_message option"
  tp_loaded :: bool

definition useThreadPreview :: "jstring \<Rightarrow> client_message list option \<Rightarrow> client_message list \<Rightarrow> thread_preview" where
  "useThreadPreview root loaded stored =
     (let ordered = preview_replies root (case loaded of Some l \<Rightarrow> l | None \<Rightarrow> []) stored;
          newest = (case ordered of m # _ \<Rightarrow> Some m | [] \<Rightarrow> None)
      in \<lparr>tp_participantIDs = participant_loop [] ordered, tp_lastReplyAt = map_option m_created_at newest,
          tp_lastReply = newest, tp_loaded = loaded \<noteq> None\<rparr>)"

lemma participant_loop_take:
  "length ids < 3 \<Longrightarrow> participant_loop ids ms = take 3 (js_set ids (map m_actor_id ms))"
proof (induction ids ms rule: participant_loop.induct)
  case (2 ids m ms)
  have prefix: "take (length acc) (js_set acc xs) = acc" for acc xs :: "jstring list"
  proof (induction xs arbitrary: acc)
    case (Cons x xs)
    show ?case
    proof (cases "x \<in> set acc")
      case False
      have "take (length acc) (js_set (acc @ [x]) xs) = take (length acc) (take (length (acc @ [x])) (js_set (acc @ [x]) xs))"
        by (simp only: take_take) simp
      then show ?thesis using False by (simp only: Cons.IH js_set.simps if_False) simp
    qed (simp add: Cons.IH)
  qed simp
  let ?ids' = "if m_actor_id m \<in> set ids then ids else ids @ [m_actor_id m]"
  show ?case
  proof (cases "length ?ids' = 3")
    case True
    then have "take 3 (js_set ?ids' (map m_actor_id ms)) = ?ids'" using prefix [of ?ids'] by (simp only: True)
    then show ?thesis using True by (simp only: participant_loop.simps Let_def list.map js_set.simps if_True simp_thms)
  next
    case False
    then have "length ?ids' < 3" using "2.prems" by (auto split: if_splits)
    then show ?thesis using "2.IH" False by (simp only: participant_loop.simps Let_def list.map js_set.simps if_False simp_thms)
  qed
qed simp

text \<open>The preview shows the authors of the newest replies, each once and three at most, and a newest reply; each
  reply as the store has it, or else the server.\<close>

theorem preview_shows_the_newest:
  "tp_participantIDs (useThreadPreview root loaded stored) =
     take 3 (js_set [] (map m_actor_id (preview_replies root (case loaded of Some l \<Rightarrow> l | None \<Rightarrow> []) stored))) \<and>
   (case tp_lastReply (useThreadPreview root loaded stored) of
      None \<Rightarrow> preview_replies root (case loaded of Some l \<Rightarrow> l | None \<Rightarrow> []) stored = []
    | Some m \<Rightarrow> m \<in> set (preview_replies root (case loaded of Some l \<Rightarrow> l | None \<Rightarrow> []) stored) \<and>
        (\<forall>k \<in> set (preview_replies root (case loaded of Some l \<Rightarrow> l | None \<Rightarrow> []) stored). m_created_seq k \<le> m_created_seq m))"
proof -
  let ?xs = "preview_replies root (case loaded of Some l \<Rightarrow> l | None \<Rightarrow> []) stored"
  have "sorted (map (\<lambda>m. - m_created_seq m) ?xs)" unfolding preview_replies_def by (rule sorted_sort_key)
  then have "\<forall>k \<in> set ms. m_created_seq k \<le> m_created_seq m" if "?xs = m # ms" for m ms using that by simp
  then show ?thesis
    by (cases ?xs) (auto simp: useThreadPreview_def Let_def participant_loop_take)
qed

section \<open>The panel\<close>

definition panel_messages :: "jstring \<Rightarrow> client_message list \<Rightarrow> client_message list \<Rightarrow> client_message list" where
  "panel_messages root loaded stored =
     sort_key m_created_seq (by_id (loaded @ filter (\<lambda>m. m_id m = root \<or> is_reply root m) stored))"

definition panel_replies :: "jstring \<Rightarrow> client_message list \<Rightarrow> client_message list" where
  "panel_replies root ms = filter (is_reply root) ms"

definition participantCount :: "client_message list \<Rightarrow> nat" where
  "participantCount replies = length (js_set [] (map m_actor_id replies))"

definition firstUnreadID :: "bool \<Rightarrow> thread_unread option \<Rightarrow> client_message list \<Rightarrow> jstring option" where
  "firstUnreadID isPage unread_thread replies =
     (case unread_thread of
        Some u \<Rightarrow>
          if isPage \<and> 0 < tu_unread_count u
          then map_option m_id (find (\<lambda>m. tu_last_read_seq u < m_created_seq m) replies) else None
      | None \<Rightarrow> None)"

text \<open>C39: An open thread lists each of its messages once, in the order of their sequence numbers, as the store has it
  and otherwise as the server has sent it; and the line above the first unread reply has exactly the
  replies that were read above it.\<close>

theorem thread_is_listed_in_order:
  "distinct (map m_id (panel_messages root loaded stored)) \<and>
   sorted (map m_created_seq (panel_messages root loaded stored)) \<and>
   (\<forall>m. m \<in> set (panel_messages root loaded stored) \<longleftrightarrow>
      (case last_with (m_id m) (filter (\<lambda>k. m_id k = root \<or> is_reply root k) stored) of
         Some k \<Rightarrow> m = k
       | None \<Rightarrow> last_with (m_id m) loaded = Some m)) \<and>
   (case firstUnreadID True (Some u) (panel_replies root (panel_messages root loaded stored)) of
      None \<Rightarrow> tu_unread_count u \<le> 0 \<or>
        (\<forall>m \<in> set (panel_replies root (panel_messages root loaded stored)). m_created_seq m \<le> tu_last_read_seq u)
    | Some i \<Rightarrow> \<exists>old m new. panel_replies root (panel_messages root loaded stored) = old @ m # new \<and> m_id m = i \<and>
        (\<forall>k \<in> set old. m_created_seq k \<le> tu_last_read_seq u) \<and>
        (\<forall>k \<in> set (m # new). tu_last_read_seq u < m_created_seq k))"
proof (intro conjI)
  let ?all = "by_id (loaded @ filter (\<lambda>m. m_id m = root \<or> is_reply root m) stored)"
  have "distinct (map m_id ?all)" by (rule by_id_distinct)
  then show "distinct (map m_id (panel_messages root loaded stored))"
    by (simp add: panel_messages_def distinct_map)
  show sorted_panel: "sorted (map m_created_seq (panel_messages root loaded stored))"
    unfolding panel_messages_def by (rule sorted_sort_key)
  show "\<forall>m. m \<in> set (panel_messages root loaded stored) \<longleftrightarrow>
      (case last_with (m_id m) (filter (\<lambda>k. m_id k = root \<or> is_reply root k) stored) of
         Some k \<Rightarrow> m = k
       | None \<Rightarrow> last_with (m_id m) loaded = Some m)"
    by (auto simp: panel_messages_def by_id_mem last_with_append split: option.splits)
  let ?rs = "panel_replies root (panel_messages root loaded stored)"
  have sorted_replies: "sorted (map m_created_seq ?rs)"
    unfolding panel_replies_def using sorted_panel by (rule sorted_filter)
  show "case firstUnreadID True (Some u) ?rs of
      None \<Rightarrow> tu_unread_count u \<le> 0 \<or> (\<forall>m \<in> set ?rs. m_created_seq m \<le> tu_last_read_seq u)
    | Some i \<Rightarrow> \<exists>old m new. ?rs = old @ m # new \<and> m_id m = i \<and>
        (\<forall>k \<in> set old. m_created_seq k \<le> tu_last_read_seq u) \<and> (\<forall>k \<in> set (m # new). tu_last_read_seq u < m_created_seq k)"
  proof (cases "find (\<lambda>m. tu_last_read_seq u < m_created_seq m) ?rs")
    case None
    then have "\<forall>m \<in> set ?rs. m_created_seq m \<le> tu_last_read_seq u" by (auto simp: find_None_iff not_less)
    then show ?thesis by (simp add: firstUnreadID_def None)
  next
    case (Some m)
    then obtain i where i: "i < length ?rs" "tu_last_read_seq u < m_created_seq (?rs ! i)" "m = ?rs ! i"
      "\<forall>j < i. \<not> tu_last_read_seq u < m_created_seq (?rs ! j)"
      by (auto simp: find_Some_iff)
    define old new where "old = take i ?rs" and "new = drop (Suc i) ?rs"
    have split: "?rs = old @ m # new" unfolding old_def new_def i(3) using i(1) by (rule id_take_nth_drop)
    have above: "\<forall>k \<in> set old. m_created_seq k \<le> tu_last_read_seq u"
      using i(4) by (auto simp: old_def in_set_conv_nth not_less)
    have "sorted (map m_created_seq (old @ m # new))" using sorted_replies by (simp only: split)
    then have "\<forall>k \<in> set new. m_created_seq m \<le> m_created_seq k" by (simp add: sorted_append)
    moreover have "tu_last_read_seq u < m_created_seq m" using i(2) by (simp only: i(3))
    ultimately have "\<forall>k \<in> set (m # new). tu_last_read_seq u < m_created_seq k" by auto
    with split above have "\<exists>old k new. ?rs = old @ k # new \<and> m_id k = m_id m \<and>
        (\<forall>k \<in> set old. m_created_seq k \<le> tu_last_read_seq u) \<and> (\<forall>k \<in> set (k # new). tu_last_read_seq u < m_created_seq k)"
      by blast
    then show ?thesis using Some by (auto simp: firstUnreadID_def)
  qed
qed

definition sample_reply :: "string \<Rightarrow> int \<Rightarrow> client_message" where
  "sample_reply i seq =
     \<lparr>m_id = js i, m_chat_id = Undefined, m_actor_id = js ''a'', m_client_msg_id = [], m_body = [], m_body_format = Markdown,
      m_reply_to_id = Null, m_thread_root_id = Val (js ''r''), m_version = 1, m_created_seq = seq, m_created_at = [], m_edited_at = Null,
      m_deleted_at = Null, m_forwarded_from = Null, m_mentioned_actor_ids = [], m_thread_reply_count = Undefined,
      m_files = Undefined, m_delivery = Undefined, m_error_code = Undefined\<rparr>"

theorem thread_is_listed_in_order_witness:
  "panel_messages (js ''r'') [sample_reply ''x'' 2] [sample_reply ''y'' 1] = [sample_reply ''y'' 1, sample_reply ''x'' 2] \<and>
   sample_reply ''x'' 2 \<in> set (panel_messages (js ''r'') [sample_reply ''x'' 2] [sample_reply ''y'' 1])"
proof
  show "panel_messages (js ''r'') [sample_reply ''x'' 2] [sample_reply ''y'' 1] = [sample_reply ''y'' 1, sample_reply ''x'' 2]"
    by (simp add: panel_messages_def by_id_def is_reply_def sample_reply_def)
  have "last_with (js ''x'') (filter (\<lambda>k. m_id k = js ''r'' \<or> is_reply (js ''r'') k) [sample_reply ''y'' 1]) = None"
    and "last_with (js ''x'') [sample_reply ''x'' 2] = Some (sample_reply ''x'' 2)" and "m_id (sample_reply ''x'' 2) = js ''x''"
    by (simp_all add: last_with_def sample_reply_def)
  then show "sample_reply ''x'' 2 \<in> set (panel_messages (js ''r'') [sample_reply ''x'' 2] [sample_reply ''y'' 1])"
    using thread_is_listed_in_order [of "js ''r''" "[sample_reply ''x'' 2]" "[sample_reply ''y'' 1]"] by simp
qed

text \<open>The map of the preview has no entry for a deleted message, which therefore does not replace the one that was
  loaded: a deleted reply stays in the preview, with its text, until the thread is loaded again.\<close>

theorem deleted_reply_stays_in_the_preview:
  assumes "is_reply root m" and "\<not> truthy (m_deleted_at m)" and "m_id d = m_id m" and "truthy (m_deleted_at d)"
  shows "tp_lastReply (useThreadPreview root (Some [m]) [d]) = Some m"
  using assms by (simp add: useThreadPreview_def preview_replies_def by_id_def Let_def)

text \<open>A reply in the outbox has no author yet. Until it is delivered its writer is a second participant.\<close>

theorem queued_reply_is_another_participant:
  assumes "m_actor_id m \<noteq> []" and "m_actor_id queued = []"
  shows "participantCount [m, queued] = 2"
    and "m_created_seq m \<le> m_created_seq queued \<Longrightarrow> is_reply root queued \<Longrightarrow> is_reply root m \<Longrightarrow> m_id m \<noteq> m_id queued \<Longrightarrow>
      \<not> truthy (m_deleted_at queued) \<Longrightarrow> m_created_seq m \<noteq> m_created_seq queued \<Longrightarrow>
      tp_lastReply (useThreadPreview root (Some [m]) [queued]) = Some queued"
  using assms by (auto simp: participantCount_def useThreadPreview_def preview_replies_def by_id_def Let_def)

section \<open>Following\<close>

record follow =
  fl_listed :: bool
  fl_override :: "bool option"
  fl_calls :: "bool list"

definition is_following :: "follow \<Rightarrow> bool" where
  "is_following s = (case fl_override s of Some b \<Rightarrow> b | None \<Rightarrow> fl_listed s)"

text \<open>\<open>toggleFollow\<close> up to its call, and its end. \<open>fl_calls\<close> has what each call asks for.\<close>

definition toggleFollow :: "follow \<Rightarrow> follow" where
  "toggleFollow s =
     (let nxt = \<not> is_following s in s\<lparr>fl_override := Some nxt, fl_calls := fl_calls s @ [nxt]\<rparr>)"

definition follow_settles :: "bool \<Rightarrow> bool \<Rightarrow> follow \<Rightarrow> follow" where
  "follow_settles nxt ok s =
     (let s1 = s\<lparr>fl_calls := remove1 nxt (fl_calls s)\<rparr> in
      if ok then s1\<lparr>fl_listed := nxt\<rparr> else s1\<lparr>fl_override := Some (\<not> nxt)\<rparr>)"

lemma single_follow:
  assumes "fl_calls s = []" and "is_following s = fl_listed s"
  shows "is_following (follow_settles (\<not> is_following s) ok (toggleFollow s)) =
    fl_listed (follow_settles (\<not> is_following s) ok (toggleFollow s))"
  using assms by (simp add: follow_settles_def toggleFollow_def is_following_def Let_def split: option.splits)

theorem two_failures_show_a_thread_followed:
  "\<exists>s. is_following s \<and> \<not> fl_listed s \<and> fl_calls s = [] \<and>
     s = follow_settles False False (follow_settles True False (toggleFollow (toggleFollow
       \<lparr>fl_listed = False, fl_override = None, fl_calls = []\<rparr>)))"
  by (simp add: follow_settles_def toggleFollow_def is_following_def Let_def)

section \<open>The list of threads\<close>

datatype thread_filter = Threads_All | Threads_Unread | Threads_Mine

definition unreadCount :: "thread_unread list \<Rightarrow> jstring \<Rightarrow> int" where
  "unreadCount ts i = (case find (\<lambda>u. tu_thread_root_id u = i) ts of Some u \<Rightarrow> tu_unread_count u | None \<Rightarrow> 0)"

definition visible_threads :: "jstring \<Rightarrow> thread_filter \<Rightarrow> thread_unread list \<Rightarrow> client_message list \<Rightarrow> client_message list" where
  "visible_threads me f ts roots =
     filter (\<lambda>r. case f of Threads_All \<Rightarrow> True | Threads_Unread \<Rightarrow> 0 < unreadCount ts (m_id r) | Threads_Mine \<Rightarrow> m_actor_id r = me) roots"

text \<open>On a wide screen the first visible thread is open unless the address names one.\<close>

definition active_thread :: "jstring option \<Rightarrow> bool \<Rightarrow> client_message list \<Rightarrow> client_message list \<Rightarrow> client_message option" where
  "active_thread selected wide shown roots =
     (case (case selected of Some i \<Rightarrow> Some i | None \<Rightarrow> if wide then map_option m_id (find (\<lambda>_. True) shown) else None) of
        Some i \<Rightarrow> find (\<lambda>r. m_id r = i) roots
      | None \<Rightarrow> None)"

lemma open_thread_is_listed:
  "distinct (map m_id roots) \<Longrightarrow> visible_threads me f ts roots = r # rs \<Longrightarrow>
     active_thread None True (visible_threads me f ts roots) roots = Some r"
proof -
  assume d: "distinct (map m_id roots)" and v: "visible_threads me f ts roots = r # rs"
  then have "r \<in> set roots" by (metis filter_is_subset list.set_intros(1) subsetD visible_threads_def)
  then have "find (\<lambda>k. m_id k = m_id r) roots = Some r"
    using d by (induction roots) (auto simp: image_iff)
  then show ?thesis by (simp add: active_thread_def v)
qed

end
