(* ===== verification/Conversation.thy ===== *)
theory Conversation
  imports Composer Store
begin

text \<open>
  The open chat, \<open>conversation/Conversation.tsx\<close>: the text that is being written with its draft, sending it, and
  what the chat does with a message that one of its rows has changed. The stored draft of the chat
  (\<open>lib/drafts.ts\<close>) is \<open>cv_local\<close>; \<open>cv_timer\<close> is the text of the pending effect, which runs 600 ms after the last
  change; \<open>cv_synced\<close>, \<open>cv_typing\<close> and \<open>cv_queue\<close> are the calls of \<open>syncDraft\<close>, \<open>typing\<close> and \<open>enqueue\<close>. Layout, scrolling
  and the rows themselves are elsewhere.

  The lemmas show what is sent and that a draft that has come to rest is stored; that a chat left too
  early forgets the last words; and that a changed message takes the place of an event the server has yet to
  deliver.
\<close>

section \<open>Writing\<close>

record new_message =
  nm_body :: jstring
  nm_reply_to_id :: "jstring option"
  nm_mentioned_actor_ids :: "jstring list"
  nm_file_ids :: "jstring list"

record conversation =
  cv_body :: jstring
  cv_reply :: "jstring option"
  cv_local :: jstring
  cv_timer :: "jstring option"
  cv_synced :: "jstring list"
  cv_typing :: "bool list"
  cv_queue :: "new_message list"

definition conversation_opens :: "jstring \<Rightarrow> conversation" where
  "conversation_opens draft =
     \<lparr>cv_body = draft, cv_reply = None, cv_local = draft, cv_timer = Some draft, cv_synced = [], cv_typing = [], cv_queue = []\<rparr>"

text \<open>\<open>setBody\<close>: the effect is run again, with a new timer, only if the text is another one.\<close>

definition set_body :: "jstring \<Rightarrow> conversation \<Rightarrow> conversation" where
  "set_body b s = (if b = cv_body s then s else s\<lparr>cv_body := b, cv_timer := Some b\<rparr>)"

definition conversation_typed :: "jstring \<Rightarrow> conversation \<Rightarrow> conversation" where
  "conversation_typed b s = (let s1 = set_body b s in s1\<lparr>cv_typing := cv_typing s1 @ [b \<noteq> []]\<rparr>)"

definition draft_timer :: "conversation \<Rightarrow> conversation" where
  "draft_timer s =
     (case cv_timer s of
        None \<Rightarrow> s
      | Some b \<Rightarrow> s\<lparr>cv_timer := None, cv_local := b, cv_synced := cv_synced s @ [b]\<rparr>)"

definition conversation_blurred :: "conversation \<Rightarrow> conversation" where
  "conversation_blurred s = s\<lparr>cv_synced := cv_synced s @ [cv_body s]\<rparr>"

definition reply_chosen :: "jstring option \<Rightarrow> conversation \<Rightarrow> conversation" where
  "reply_chosen m s = s\<lparr>cv_reply := m\<rparr>"

text \<open>The cleanup of the effect when the chat is left.\<close>

definition conversation_left :: "conversation \<Rightarrow> conversation" where
  "conversation_left s = s\<lparr>cv_timer := None\<rparr>"

text \<open>\<open>send\<close>. Whether the outbox could be written is an argument: the call before is what clears the text.\<close>

definition send ::
  "composer_member list \<Rightarrow> (jstring \<Rightarrow> bool) \<Rightarrow> bool \<Rightarrow> bool \<Rightarrow> jstring list \<Rightarrow> bool \<Rightarrow> conversation \<Rightarrow> conversation" where
  "send members online stored readonly files uploading s =
     (let content = js_trim (cv_body s) in
      if (content = [] \<and> files = []) \<or> uploading \<or> readonly then s
      else
        let s1 = (set_body [] s)\<lparr>cv_reply := None, cv_local := [], cv_typing := cv_typing s @ [False]\<rparr>;
            m = \<lparr>nm_body = content, nm_reply_to_id = cv_reply s,
                 nm_mentioned_actor_ids = resolvedMentionActorIDs content members online, nm_file_ids = files\<rparr>
        in if stored then s1\<lparr>cv_queue := cv_queue s1 @ [m]\<rparr> else s1)"

datatype conversation_event =
  Typed jstring | Draft_Due | Blurred | Reply_To "jstring option" | Send bool "jstring list" bool

fun conversation_step ::
  "composer_member list \<Rightarrow> (jstring \<Rightarrow> bool) \<Rightarrow> conversation_event \<Rightarrow> conversation \<Rightarrow> conversation" where
  "conversation_step members online (Typed b) s = conversation_typed b s"
| "conversation_step members online Draft_Due s = draft_timer s"
| "conversation_step members online Blurred s = conversation_blurred s"
| "conversation_step members online (Reply_To m) s = reply_chosen m s"
| "conversation_step members online (Send readonly files uploading) s = send members online True readonly files uploading s"

definition sendable :: "composer_member list \<Rightarrow> (jstring \<Rightarrow> bool) \<Rightarrow> new_message \<Rightarrow> bool" where
  "sendable members online m \<longleftrightarrow>
     (nm_body m \<noteq> [] \<or> nm_file_ids m \<noteq> []) \<and> js_trim (nm_body m) = nm_body m \<and>
     nm_mentioned_actor_ids m = resolvedMentionActorIDs (nm_body m) members online"

definition conversation_ok :: "composer_member list \<Rightarrow> (jstring \<Rightarrow> bool) \<Rightarrow> conversation \<Rightarrow> bool" where
  "conversation_ok members online s \<longleftrightarrow>
     (case cv_timer s of Some b \<Rightarrow> b = cv_body s | None \<Rightarrow> cv_local s = cv_body s) \<and>
     (\<forall>m \<in> set (cv_queue s). sendable members online m) \<and>
     (cv_typing s = [] \<or> last (cv_typing s) = (cv_body s \<noteq> []))"

lemma trimmed_twice: "js_trim (js_trim s) = js_trim s"
proof -
  have fixed: "dropWhile is_space xs = xs" if "xs = [] \<or> \<not> is_space (hd xs)" for xs using that by (cases xs) auto
  have "js_trim s = [] \<or> \<not> is_space (hd (js_trim s))"
  proof (cases "dropWhile is_space s")
    case (Cons c cs)
    then have c: "\<not> is_space c" by (metis dropWhile_eq_Cons_conv)
    have "dropWhile is_space (rev cs @ [c]) = dropWhile is_space (rev cs) @ [c]"
      using c by (induction cs rule: rev_induct) (simp_all add: dropWhile_append)
    then have "js_trim s = c # rev (dropWhile is_space (rev cs))" by (simp add: js_trim_def Cons)
    then show ?thesis using c by simp
  next
    case Nil
    then have "js_trim s = []" by (simp only: js_trim_def rev.simps dropWhile.simps)
    then show ?thesis by (rule disjI1)
  qed
  moreover have "rev (js_trim s) = [] \<or> \<not> is_space (hd (rev (js_trim s)))"
    using hd_dropWhile [of is_space "rev (dropWhile is_space s)"] by (auto simp: js_trim_def)
  ultimately have "dropWhile is_space (js_trim s) = js_trim s" "dropWhile is_space (rev (js_trim s)) = rev (js_trim s)"
    by (simp_all add: fixed)
  then show ?thesis by (simp add: js_trim_def [of "js_trim s"])
qed

lemma sent_ok: "conversation_ok members online s \<Longrightarrow> conversation_ok members online (send members online stored readonly files uploading s)"
  by (auto simp: conversation_ok_def send_def set_body_def sendable_def trimmed_twice Let_def split: option.splits)

lemma conversation_step_ok:
  "conversation_ok members online s \<Longrightarrow> conversation_ok members online (conversation_step members online ev s)"
proof (cases ev)
  case (Send readonly files uploading)
  assume "conversation_ok members online s"
  then show ?thesis using Send sent_ok by simp
qed (auto simp: conversation_ok_def conversation_typed_def set_body_def draft_timer_def conversation_blurred_def
  reply_chosen_def Let_def split: option.splits)

text \<open>Whatever is typed, sent and left alone in a chat, every queued message has a text or a file, is trimmed and
  notifies exactly the people its text mentions; the draft that is stored once the timer has run is what
  the composer shows; and the last word on typing is whether there is a text.\<close>

theorem resting_drafts_are_stored:
  "(cv_timer (fold (conversation_step members online) evs (conversation_opens draft)) = None \<longrightarrow>
      cv_local (fold (conversation_step members online) evs (conversation_opens draft)) =
      cv_body (fold (conversation_step members online) evs (conversation_opens draft))) \<and>
   (\<forall>m \<in> set (cv_queue (fold (conversation_step members online) evs (conversation_opens draft))). sendable members online m) \<and>
   (cv_typing (fold (conversation_step members online) evs (conversation_opens draft)) = [] \<or>
    last (cv_typing (fold (conversation_step members online) evs (conversation_opens draft))) =
      (cv_body (fold (conversation_step members online) evs (conversation_opens draft)) \<noteq> []))"
proof -
  have "conversation_ok members online (fold (conversation_step members online) evs s)" if "conversation_ok members online s" for s
    using that by (induction evs arbitrary: s) (simp_all add: conversation_step_ok)
  moreover have "conversation_ok members online (conversation_opens draft)"
    by (simp add: conversation_ok_def conversation_opens_def)
  ultimately have "conversation_ok members online (fold (conversation_step members online) evs (conversation_opens draft))" by blast
  then show ?thesis by (simp add: conversation_ok_def split: option.splits)
qed

theorem resting_drafts_are_stored_witness:
  "cv_local (draft_timer (conversation_typed (js ''hi'') (conversation_opens []))) = js ''hi''"
  using resting_drafts_are_stored [of "[]" "\<lambda>_. False" "[Typed (js ''hi''), Draft_Due]" "[]"]
  by (simp add: conversation_typed_def set_body_def draft_timer_def conversation_opens_def Let_def)

text \<open>A chat that is left within 600 ms has not stored what was typed last, and does not show it again.\<close>

theorem leaving_early_forgets_the_text:
  "t \<noteq> draft \<Longrightarrow>
   cv_local (conversation_left (conversation_typed t (draft_timer (conversation_opens draft)))) = draft \<and>
   cv_synced (conversation_left (conversation_typed t (draft_timer (conversation_opens draft)))) = [draft]"
  by (simp add: conversation_left_def conversation_typed_def set_body_def draft_timer_def conversation_opens_def Let_def)

text \<open>A message the outbox could not store is gone: its text has been cleared before.\<close>

theorem unstored_message_is_lost:
  "js_trim (cv_body s) \<noteq> [] \<Longrightarrow>
   cv_queue (send members online False False files False s) = cv_queue s \<and>
   cv_body (send members online False False files False s) = [] \<and> cv_local (send members online False False files False s) = []"
  by (simp add: send_def set_body_def Let_def)

section \<open>A changed message\<close>

text \<open>\<open>onChanged\<close> of a row: an event of its own, numbered behind the last one the store has applied.\<close>

definition changed_event :: "client_message \<Rightarrow> messenger \<Rightarrow> durable_event" where
  "changed_event m s =
     \<lparr>e_seq = max (checkpoint s + 1) (m_created_seq m), e_type = js ''message.updated'', e_occurred_at = m_created_at m,
      e_actor_id = m_actor_id m, e_chat_id = m_chat_id m, e_subject_id = m_id m, e_data = m\<rparr>"

definition message_changed :: "client_message \<Rightarrow> messenger \<Rightarrow> messenger" where
  "message_changed m s = snd (apply_event (changed_event m s) s)"

lemma changed_checkpoint: "checkpoint s < checkpoint (message_changed m s)"
  by (simp add: message_changed_def checkpoint_apply_event changed_event_def)

text \<open>The event of the server that has this number, whatever it reports, is then taken for one that was applied. If
  it is a message of another chat, the store does not have it.\<close>

theorem changed_message_hides_an_event:
  assumes "e_seq e = checkpoint s + 1"
  shows "apply_event e (message_changed m s) = (False, message_changed m s)"
    and "event_chat (changed_event m s) \<noteq> Some c \<Longrightarrow>
      items_of (messages (snd (apply_event e (message_changed m s)))) c = items_of (messages s) c"
proof -
  show hidden: "apply_event e (message_changed m s) = (False, message_changed m s)"
    using assms changed_checkpoint [of s m] by (simp add: apply_event_def)
  assume "event_chat (changed_event m s) \<noteq> Some c"
  then have "messages (message_changed m s) c = messages s c"
    by (auto simp: message_changed_def apply_event_def event_messages_def split: option.splits)
  then show "items_of (messages (snd (apply_event e (message_changed m s)))) c = items_of (messages s) c"
    by (simp only: hidden snd_conv items_of_def)
qed

end
