(* ===== verification/Routes.thy ===== *)
theory Routes
  imports Messenger_Session Access Utf8
begin

text \<open>
  Which page an address shows: \<open>agents/routes.ts\<close>, \<open>directories/routes.ts\<close> and the choice of \<open>shell/Messenger.tsx\<close>
  among the paths of \<open>router.tsx\<close>, with \<open>decodeURIComponent\<close> of the standard library. \<open>None\<close> is the URIError it
  throws, which nothing catches while a page is rendered.

  The lemmas show that decoding inverts \<open>encodeURIComponent\<close>, that links lead to what they name, and which page
  each path of the router shows.
\<close>

section \<open>decodeURIComponent\<close>

definition hex_value :: "cunit \<Rightarrow> nat option" where
  "hex_value c =
     (let n = unat c in
      if 48 \<le> n \<and> n \<le> 57 then Some (n - 48)
      else if 65 \<le> n \<and> n \<le> 70 then Some (n - 55)
      else if 97 \<le> n \<and> n \<le> 102 then Some (n - 87) else None)"

text \<open>Units that stand for themselves, and escaped bytes.\<close>

fun uri_tokens :: "jstring \<Rightarrow> (cunit + nat) list option" where
  "uri_tokens [] = Some []"
| "uri_tokens (c # cs) =
     (if c = ch CHR ''%'' then
        (case cs of
           h # l # rest \<Rightarrow>
             (case (hex_value h, hex_value l) of
                (Some a, Some b) \<Rightarrow> map_option (Cons (Inr (16 * a + b))) (uri_tokens rest)
              | _ \<Rightarrow> None)
         | _ \<Rightarrow> None)
      else map_option (Cons (Inl c)) (uri_tokens cs))"

fun take_bytes :: "nat \<Rightarrow> (cunit + nat) list \<Rightarrow> (nat list \<times> (cunit + nat) list) option" where
  "take_bytes 0 ts = Some ([], ts)"
| "take_bytes (Suc k) (Inr b # ts) = map_option (\<lambda>(bs, r). (b # bs, r)) (take_bytes k ts)"
| "take_bytes (Suc k) (Inl c # ts) = None"
| "take_bytes (Suc k) [] = None"

text \<open>The number of bytes a first byte announces; 0 if it cannot be one.\<close>

definition lead_length :: "nat \<Rightarrow> nat" where
  "lead_length b =
     (if b < 0x80 then 1 else if b < 0xC0 then 0 else if b < 0xE0 then 2 else if b < 0xF0 then 3
      else if b < 0xF8 then 4 else 0)"

lemma take_bytes_shorter: "take_bytes k ts = Some (bs, r) \<Longrightarrow> length r \<le> length ts"
  by (induction k ts arbitrary: bs rule: take_bytes.induct) fastforce+

function uri_units :: "(cunit + nat) list \<Rightarrow> jstring option" where
  "uri_units [] = Some []"
| "uri_units (Inl c # ts) = map_option (Cons c) (uri_units ts)"
| "uri_units (Inr b # ts) =
     (case take_bytes (lead_length b - 1) ts of
        None \<Rightarrow> None
      | Some (bs, r) \<Rightarrow>
          if lead_length b = 0 \<or> utf8 (fst (utf8_take (b # bs))) \<noteq> b # bs \<or> 0x110000 \<le> fst (utf8_take (b # bs)) \<or>
            is_surrogate (fst (utf8_take (b # bs)))
          then None else map_option (append (units_of (fst (utf8_take (b # bs))))) (uri_units r))"
  by pat_completeness auto
termination
  by (relation "measure length") (auto dest: take_bytes_shorter)

definition decodeURIComponent :: "jstring \<Rightarrow> jstring option" where
  "decodeURIComponent s = (case uri_tokens s of None \<Rightarrow> None | Some ts \<Rightarrow> uri_units ts)"

lemma hex_value_upper: "n < 16 \<Longrightarrow> hex_value (upper_hex n) = Some n"
  using unat_upper_hex [of n] by (auto simp: hex_value_def Let_def split: if_splits)

lemma tokens_percent: "b < 256 \<Longrightarrow> uri_tokens (percent b @ s) = map_option (Cons (Inr b)) (uri_tokens s)"
proof -
  assume b: "b < 256"
  then have "b div 16 < 16" by auto
  then show ?thesis by (simp add: percent_def hex_value_upper)
qed

lemma tokens_bytes:
  "\<forall>b \<in> set bs. b < 256 \<Longrightarrow> uri_tokens (concat (map percent bs) @ s) = map_option (append (map Inr bs)) (uri_tokens s)"
  by (cases "uri_tokens s"; induction bs) (simp_all add: tokens_percent)

definition point_tokens :: "nat \<Rightarrow> (cunit + nat) list" where
  "point_tokens n = (if n < 0x80 \<and> is_unreserved (of_nat n) then [Inl (of_nat n)] else map Inr (utf8 n))"

lemma tokens_point:
  assumes "n < 0x110000"
  shows "uri_tokens (encode_point n @ s) = map_option (append (point_tokens n)) (uri_tokens s)"
proof (cases "n < 0x80 \<and> is_unreserved (of_nat n)")
  case True
  moreover have "\<not> is_unreserved (ch CHR ''%'')"
    by (simp add: is_unreserved_def is_alnum_def is_digit_def is_upper_def is_lower_def)
  ultimately have "(of_nat n :: cunit) \<noteq> ch CHR ''%''" by metis
  then show ?thesis using True by (cases "uri_tokens s") (simp_all add: encode_point_def point_tokens_def)
next
  case False
  then have "encode_point n = concat (map percent (utf8 n))" "point_tokens n = map Inr (utf8 n)"
    unfolding encode_point_def point_tokens_def by (simp_all only: if_False)
  then show ?thesis using tokens_bytes utf8_bytes [OF assms] by simp
qed

lemma take_all_bytes: "take_bytes (length bs) (map Inr bs @ ts) = Some (bs, ts)"
  by (induction bs) simp_all

lemma utf8_lead:
  assumes "n < 0x110000" and "utf8 n = b # bs"
  shows "lead_length b = Suc (length bs)"
proof -
  have q: "n div 64 < 32" if "n < 0x800" using that by (simp add: less_mult_imp_div_less)
  have r: "n div 4096 < 16" if "n < 0x10000" using that by (simp add: less_mult_imp_div_less)
  have s: "n div 262144 < 5" using assms(1) by (simp add: less_mult_imp_div_less)
  show ?thesis
    using assms(2) q r s by (auto simp: utf8_def lead_length_def split: if_splits)
qed

lemma units_point:
  assumes "n < 0x110000" and "\<not> is_surrogate n"
  shows "uri_units (point_tokens n @ ts) = map_option (append (units_of n)) (uri_units ts)"
proof (cases "n < 0x80 \<and> is_unreserved (of_nat n)")
  case True
  then show ?thesis by (cases "uri_units ts") (simp_all add: point_tokens_def units_of_def)
next
  case False
  then have p: "point_tokens n = map Inr (utf8 n)" unfolding point_tokens_def by (simp only: if_False)
  obtain b bs where u: "utf8 n = b # bs" by (cases "utf8 n") simp_all
  have l: "lead_length b = Suc (length bs)" by (rule utf8_lead [OF assms(1) u])
  have "fst (utf8_take (b # bs)) = n" using utf8_take_utf8 [OF assms(1), of "[]"] u by simp
  then show ?thesis using assms l u by (simp add: p take_all_bytes)
qed

lemma decode_uri_points:
  assumes "\<forall>n \<in> set ns. n < 0x110000 \<and> \<not> is_surrogate n"
  shows "uri_tokens (concat (map encode_point ns)) = Some (concat (map point_tokens ns))"
    and "uri_units (concat (map point_tokens ns)) = Some (concat (map units_of ns))"
  using assms by (induction ns) (simp_all add: tokens_point units_point)

theorem decode_encode_uri:
  assumes "encodeURIComponent s = Some e"
  shows "decodeURIComponent e = Some s"
proof -
  have w: "well_formed s" and e: "e = concat (map encode_point (code_points s))"
    using assms by (simp_all add: encodeURIComponent_def split: if_splits)
  have "\<forall>n \<in> set (code_points s). n < 0x110000 \<and> \<not> is_surrogate n"
    using w code_points_less by (auto simp: well_formed_def list_all_iff)
  from decode_uri_points [OF this] show ?thesis by (simp add: decodeURIComponent_def e units_code_points)
qed

section \<open>Agents\<close>

datatype agent_route = Global_Route jstring | Agent_Route jstring jstring

definition globalSections :: "jstring list" where
  "globalSections = [js ''connections'', js ''approvals'', js ''activity'']"

definition detailSections :: "jstring list" where
  "detailSections = [js ''behavior'', js ''knowledge'', js ''automations'', js ''test'', js ''activity'', js ''settings'']"

definition agentRoute :: "jstring \<Rightarrow> agent_route option" where
  "agentRoute path =
     (case filter (\<lambda>p. p \<noteq> []) (split_on (ch CHR ''/'') path) of
        first # candidate # rest \<Rightarrow>
          if first \<noteq> js ''agents'' then Some (Global_Route (js ''overview''))
          else if candidate \<in> set globalSections \<and> rest = [] then Some (Global_Route candidate)
          else if candidate = js ''sandbox'' \<or> candidate = js ''runs'' then Some (Global_Route (js ''overview''))
          else
            (case decodeURIComponent candidate of
               None \<Rightarrow> None
             | Some i \<Rightarrow>
                 Some (Agent_Route i
                   (case rest of s # _ \<Rightarrow> if s \<in> set detailSections then s else js ''overview'' | [] \<Rightarrow> js ''overview'')))
      | _ \<Rightarrow> Some (Global_Route (js ''overview'')))"

lemma split_on_word: "d \<notin> set w \<Longrightarrow> split_on d (w @ d # s) = w # split_on d s"
  by (induction w) auto

lemma split_on_only: "d \<notin> set w \<Longrightarrow> split_on d w = [w]"
  by (induction w) auto

lemma encoded_no_slash: "encodeURIComponent s = Some e \<Longrightarrow> ch CHR ''/'' \<notin> set e"
  using encodeURIComponent_safe [of s e "ch CHR ''/''"]
  by (auto simp: uri_safe_def is_unreserved_def is_alnum_def is_digit_def is_upper_def is_lower_def)

lemma encoded_nonempty: "encodeURIComponent s = Some e \<Longrightarrow> s \<noteq> [] \<Longrightarrow> e \<noteq> []"
  using decode_encode_uri [of s e] by (auto simp: decodeURIComponent_def)

definition agent_path :: "jstring list \<Rightarrow> jstring" where
  "agent_path ps = concat (map (\<lambda>p. ch CHR ''/'' # p) (js ''agents'' # ps))"

lemma agent_path_parts:
  assumes "\<forall>p \<in> set ps. p \<noteq> [] \<and> ch CHR ''/'' \<notin> set p"
  shows "filter (\<lambda>p. p \<noteq> []) (split_on (ch CHR ''/'') (agent_path ps)) = js ''agents'' # ps"
proof -
  have parts: "split_on (ch CHR ''/'') (concat (map (\<lambda>p. ch CHR ''/'' # p) qs)) = [] # qs"
    if "\<forall>p \<in> set qs. ch CHR ''/'' \<notin> set p" "qs \<noteq> []" for qs
    using that
  proof (induction qs)
    case (Cons q qs)
    show ?case
    proof (cases qs)
      case Nil
      then show ?thesis using Cons.prems by (simp add: split_on_only)
    next
      case (Cons r rs)
      then have "split_on (ch CHR ''/'') (concat (map (\<lambda>p. ch CHR ''/'' # p) qs)) = [] # qs"
        using Cons.IH Cons.prems by simp
      moreover obtain w where "concat (map (\<lambda>p. ch CHR ''/'' # p) qs) = ch CHR ''/'' # w" using Cons by simp
      moreover have "ch CHR ''/'' \<notin> set q" using Cons.prems by simp
      ultimately show ?thesis by (simp add: split_on_word)
    qed
  qed simp
  have "\<forall>p \<in> set (js ''agents'' # ps). ch CHR ''/'' \<notin> set p" using assms by simp
  from parts [OF this] have "split_on (ch CHR ''/'') (agent_path ps) = [] # js ''agents'' # ps"
    by (simp only: agent_path_def list.simps simp_thms)
  moreover have "filter (\<lambda>p. p \<noteq> []) ps = ps" using assms by (simp add: filter_id_conv)
  ultimately show ?thesis by simp
qed

text \<open>The link to a page of an agent opens it, whatever the agent's id, unless the escaped id is one of the words
  the router reserves.\<close>

theorem agent_links_open:
  assumes "encodeURIComponent i = Some e" and "i \<noteq> []"
    and "e \<notin> set globalSections" and "e \<noteq> js ''sandbox''" and "e \<noteq> js ''runs''"
  shows "agentRoute (agent_path [e]) = Some (Agent_Route i (js ''overview''))"
    and "sec \<in> set detailSections \<Longrightarrow> agentRoute (agent_path [e, sec]) = Some (Agent_Route i sec)"
proof -
  have e: "e \<noteq> []" "ch CHR ''/'' \<notin> set e" using assms encoded_no_slash encoded_nonempty by blast+
  have "filter (\<lambda>p. p \<noteq> []) (split_on (ch CHR ''/'') (agent_path [e])) = [js ''agents'', e]"
    using agent_path_parts [of "[e]"] e by simp
  then show "agentRoute (agent_path [e]) = Some (Agent_Route i (js ''overview''))"
    using assms by (simp add: agentRoute_def decode_encode_uri del: js_Cons)
  assume s: "sec \<in> set detailSections"
  have "\<forall>q \<in> set detailSections. q \<noteq> [] \<and> ch CHR ''/'' \<notin> set q" by (simp add: detailSections_def)
  then have "filter (\<lambda>p. p \<noteq> []) (split_on (ch CHR ''/'') (agent_path [e, sec])) = [js ''agents'', e, sec]"
    using agent_path_parts [of "[e, sec]"] e s by simp
  then show "agentRoute (agent_path [e, sec]) = Some (Agent_Route i sec)"
    using assms s by (simp add: agentRoute_def decode_encode_uri del: js_Cons)
qed

theorem malformed_agent_link_throws: "agentRoute (js ''/agents/%'') = None"
  by code_simp

section \<open>Directories\<close>

datatype directory = Threads_Dir | Important_Dir | Members_Dir

definition directory_name :: "directory \<Rightarrow> jstring" where
  "directory_name k = (case k of Threads_Dir \<Rightarrow> js ''threads'' | Important_Dir \<Rightarrow> js ''important'' | Members_Dir \<Rightarrow> js ''members'')"

definition directory_of :: "jstring \<Rightarrow> directory option" where
  "directory_of w = find (\<lambda>k. directory_name k = w) [Threads_Dir, Important_Dir, Members_Dir]"

text \<open>What follows the name in \<open>/^\/(threads|important|members)(?:\/([^/]+))?\/?$/\<close>: \<open>None\<close> if it does not match.\<close>

definition directory_tail :: "jstring \<Rightarrow> jstring option option" where
  "directory_tail s =
     (case s of
        [] \<Rightarrow> Some None
      | _ # cs \<Rightarrow>
          if cs = [] then Some None
          else if segment cs = [] then None
          else if drop (length (segment cs)) cs \<in> {[], js ''/''} then Some (Some (segment cs)) else None)"

definition directoryFromPath :: "jstring \<Rightarrow> (directory \<times> jstring option) option option" where
  "directoryFromPath path =
     (if \<not> starts_with (js ''/'') path then Some None
      else
        case (directory_of (segment (tl path)), directory_tail (drop (length (segment (tl path))) (tl path))) of
          (Some k, Some None) \<Rightarrow> Some (Some (k, None))
        | (Some k, Some (Some i)) \<Rightarrow> map_option (\<lambda>d. Some (k, Some d)) (decodeURIComponent i)
        | _ \<Rightarrow> Some None)"

lemma segment_word: "ch CHR ''/'' \<notin> set w \<Longrightarrow> segment (w @ ch CHR ''/'' # s) = w"
  by (induction w) (auto simp: segment_def)

lemma segment_only: "ch CHR ''/'' \<notin> set w \<Longrightarrow> segment w = w"
  by (induction w) (auto simp: segment_def)

lemma directory_name_word: "ch CHR ''/'' \<notin> set (directory_name k)" "directory_of (directory_name k) = Some k"
  by (cases k; simp add: directory_name_def directory_of_def)+

theorem directory_links_open:
  assumes "encodeURIComponent i = Some e" and "i \<noteq> []"
  shows "directoryFromPath (js ''/'' @ directory_name k) = Some (Some (k, None))"
    and "directoryFromPath (js ''/'' @ directory_name k @ js ''/'' @ e) = Some (Some (k, Some i))"
proof -
  have e: "e \<noteq> []" "ch CHR ''/'' \<notin> set e" using assms encoded_no_slash encoded_nonempty by blast+
  have seg: "segment (directory_name k) = directory_name k" "segment (directory_name k @ ch CHR ''/'' # e) = directory_name k"
    "segment e = e"
    using segment_only segment_word directory_name_word(1) e(2) by blast+
  have parts: "js ''/'' @ s = ch CHR ''/'' # s" for s by simp
  have slash: "starts_with (js ''/'') (ch CHR ''/'' # s)" for s using starts_with_append [of "js ''/''" s] by (simp only: parts)
  show "directoryFromPath (js ''/'' @ directory_name k) = Some (Some (k, None))"
    unfolding directoryFromPath_def parts using slash
    by (simp add: seg directory_name_word(2) directory_tail_def del: js_Cons)
  show "directoryFromPath (js ''/'' @ directory_name k @ js ''/'' @ e) = Some (Some (k, Some i))"
    unfolding directoryFromPath_def parts list.sel seg(2) using slash e(1)
    by (simp add: seg directory_name_word(2) directory_tail_def decode_encode_uri [OF assms(1)] del: js_Cons)
qed

section \<open>The page of the messenger\<close>

datatype messenger_view =
    Security_View | Chat_View jstring "jstring option" | Directory_View directory "jstring option" | Member_View jstring
  | More_View | Agents_View | Settings_View page | Welcome_View

definition showAgents :: "jstring \<Rightarrow> bool" where
  "showAgents path \<longleftrightarrow> path = js ''/agents'' \<or> starts_with (js ''/agents/'') path"

text \<open>\<open>workspace\<close>, for a screen that is narrow or not and an account that has to change its password or not.\<close>

definition messenger_view :: "bool \<Rightarrow> bool \<Rightarrow> jstring \<Rightarrow> messenger_view option" where
  "messenger_view mobile must_change path =
     (case directoryFromPath path of
        None \<Rightarrow> None
      | Some d \<Rightarrow> Some
         (if must_change then Security_View
          else
            case selectedID path of
              Some c \<Rightarrow> Chat_View c (threadID path)
            | None \<Rightarrow>
                (case d of
                   Some (k, i) \<Rightarrow>
                     (case i of Some a \<Rightarrow> if k = Members_Dir \<and> mobile then Member_View a else Directory_View k i
                      | None \<Rightarrow> Directory_View k i)
                 | None \<Rightarrow>
                     if path = js ''/more'' then More_View
                     else if showAgents path then Agents_View
                     else (case settingForPath path of Some e \<Rightarrow> Settings_View (en_id e) | None \<Rightarrow> Welcome_View))))"

datatype section_name = Chats_Section | Dir_Section directory | Agents_Section | More_Section | No_Section

definition showChatList :: "bool \<Rightarrow> jstring \<Rightarrow> bool" where
  "showChatList must_change path \<longleftrightarrow> \<not> must_change \<and> (selectedID path \<noteq> None \<or> path = js ''/chats'')"

definition active_section :: "bool \<Rightarrow> jstring \<Rightarrow> section_name option" where
  "active_section must_change path =
     map_option (\<lambda>d.
       if showChatList must_change path then Chats_Section
       else case d of
         Some (k, _) \<Rightarrow> Dir_Section k
       | None \<Rightarrow>
           if showAgents path then Agents_Section
           else if path = js ''/more'' \<or> settingForPath path \<noteq> None then More_Section else No_Section)
     (directoryFromPath path)"

text \<open>A path of the router with the ids put in: each shows its page, and one whose password has to be changed sees
  nothing else.\<close>

lemma settings_path:
  "selectedID (js ''/settings/'' @ s) = None" "directoryFromPath (js ''/settings/'' @ s) = Some None"
  "\<not> showAgents (js ''/settings/'' @ s)" "js ''/settings/'' @ s \<noteq> js ''/more''" "js ''/settings/'' @ s \<noteq> js ''/chats''"
proof -
  have "tl (js ''/settings/'' @ s) = js ''settings'' @ ch CHR ''/'' # s" by simp
  moreover have "segment (js ''settings'' @ ch CHR ''/'' # s) = js ''settings''" by (rule segment_word) simp
  moreover have "directory_of (js ''settings'') = None" by code_simp
  ultimately show "directoryFromPath (js ''/settings/'' @ s) = Some None"
    unfolding directoryFromPath_def by (simp only: option.case prod.case if_cancel)
qed (simp_all add: selectedID_def showAgents_def starts_with_def)

lemma registered_paths:
  assumes "e \<in> set settingsRegistry"
  shows "settingForPath (en_path e) = Some e" and "\<exists>s. en_path e = js ''/settings/'' @ s"
proof -
  have found: "find (\<lambda>y. f y = f x) xs = Some x" if "distinct (map f xs)" "x \<in> set xs" for f :: "entry \<Rightarrow> jstring" and x xs
    using that by (induction xs) (auto simp: image_iff)
  have "distinct (map en_path settingsRegistry)"
    by (simp add: settingsRegistry_def personal_def guarded_def workspace_entry_def)
  from found [OF this assms] show "settingForPath (en_path e) = Some e" by (simp add: settingForPath_def)
  have "\<forall>k \<in> set settingsRegistry. \<exists>s. en_path k = js ''/settings/'' @ s"
    by (simp add: settingsRegistry_def personal_def guarded_def workspace_entry_def)
  then show "\<exists>s. en_path e = js ''/settings/'' @ s" using assms by blast
qed

lemma settings_paths:
  assumes "e \<in> set settingsRegistry"
  shows "messenger_view mobile False (en_path e) = Some (Settings_View (en_id e)) \<and>
    active_section False (en_path e) = Some More_Section"
proof -
  obtain s where s: "en_path e = js ''/settings/'' @ s" using registered_paths(2) [OF assms] by blast
  show ?thesis
    using registered_paths(1) [OF assms] settings_path [of s] unfolding s
    by (simp add: messenger_view_def active_section_def showChatList_def del: js_Cons)
qed

lemma fixed_paths:
  "messenger_view mobile False (js ''/more'') = Some More_View" "messenger_view mobile False (js ''/chats'') = Some Welcome_View"
  "messenger_view mobile False (js ''/'') = Some Welcome_View" "messenger_view mobile False (js ''/agents'') = Some Agents_View"
  "active_section False (js ''/chats'') = Some Chats_Section"
  by (cases mobile; code_simp)+

lemma chat_paths:
  assumes "c \<noteq> []" and "ch CHR ''/'' \<notin> set c"
  shows "selectedID (js ''/chat/'' @ c) = Some c" and "selectedID (js ''/chat/'' @ c @ ch CHR ''/'' # s) = Some c"
    and "directoryFromPath (js ''/chat/'' @ s) = Some None"
proof -
  have d: "drop 6 (js ''/chat/'' @ x) = x" for x by simp
  have w: "starts_with (js ''/chat/'') (js ''/chat/'' @ x)" for x by (rule starts_with_append)
  show "selectedID (js ''/chat/'' @ c) = Some c"
    unfolding selectedID_def d segment_only [OF assms(2)] using w assms(1) by (simp add: non_empty_def del: js_Cons)
  show "selectedID (js ''/chat/'' @ c @ ch CHR ''/'' # s) = Some c"
    unfolding selectedID_def d segment_word [OF assms(2)] using w assms(1) by (simp add: non_empty_def del: js_Cons)
  have "tl (js ''/chat/'' @ s) = js ''chat'' @ ch CHR ''/'' # s" by simp
  moreover have "segment (js ''chat'' @ ch CHR ''/'' # s) = js ''chat''" by (rule segment_word) simp
  moreover have "directory_of (js ''chat'') = None" by code_simp
  ultimately show "directoryFromPath (js ''/chat/'' @ s) = Some None"
    unfolding directoryFromPath_def by (simp only: option.case prod.case if_cancel)
qed

text \<open>Every path of the router shows its page: a chat that chat, a directory that entry, the settings their page;
  and whoever has to change the password sees the security page, whatever the path.\<close>

theorem paths_show_their_pages:
  assumes "encodeURIComponent i = Some e" and "i \<noteq> []" and "c \<noteq> []" and "ch CHR ''/'' \<notin> set c"
  shows "(\<exists>t. messenger_view mobile False (js ''/chat/'' @ c) = Some (Chat_View c t)) \<and>
    (\<exists>t. messenger_view mobile False (js ''/chat/'' @ c @ js ''/thread/'' @ s) = Some (Chat_View c t)) \<and>
    messenger_view mobile False (js ''/'' @ directory_name k) = Some (Directory_View k None) \<and>
    (messenger_view mobile False (js ''/'' @ directory_name k @ js ''/'' @ e) =
      Some (if k = Members_Dir \<and> mobile then Member_View i else Directory_View k (Some i))) \<and>
    (\<forall>entry \<in> set settingsRegistry. messenger_view mobile False (en_path entry) = Some (Settings_View (en_id entry))) \<and>
    (\<forall>path. messenger_view mobile True path \<in> {None, Some Security_View})"
proof (intro conjI allI)
  have thread: "js ''/thread/'' @ s = ch CHR ''/'' # js ''thread/'' @ s" by simp
  have none: "selectedID (js ''/'' @ directory_name k @ x) = None" for x
    by (cases k) (simp_all add: selectedID_def directory_name_def starts_with_def)
  show "\<exists>t. messenger_view mobile False (js ''/chat/'' @ c) = Some (Chat_View c t)"
    using chat_paths [OF assms(3,4)] unfolding messenger_view_def by (simp del: js_Cons)
  show "\<exists>t. messenger_view mobile False (js ''/chat/'' @ c @ js ''/thread/'' @ s) = Some (Chat_View c t)"
    using chat_paths [OF assms(3,4)] unfolding messenger_view_def thread by (simp del: js_Cons)
  show "messenger_view mobile False (js ''/'' @ directory_name k) = Some (Directory_View k None)"
    using directory_links_open(1) [OF assms(1,2)] none [of "[]"] by (simp add: messenger_view_def del: js_Cons)
  show "messenger_view mobile False (js ''/'' @ directory_name k @ js ''/'' @ e) =
      Some (if k = Members_Dir \<and> mobile then Member_View i else Directory_View k (Some i))"
    using directory_links_open(2) [OF assms(1,2)] none by (simp add: messenger_view_def del: js_Cons)
  show "\<forall>entry \<in> set settingsRegistry. messenger_view mobile False (en_path entry) = Some (Settings_View (en_id entry))"
    using settings_paths by blast
  show "messenger_view mobile True path \<in> {None, Some Security_View}" for path
    by (cases "directoryFromPath path") (simp_all add: messenger_view_def)
qed

theorem paths_show_their_pages_witness:
  "messenger_view True False (js ''/'' @ directory_name Members_Dir @ js ''/'' @ js ''a'') = Some (Member_View (js ''a''))"
proof -
  have "encodeURIComponent (js ''a'') = Some (js ''a'')" by code_simp
  moreover have "js ''a'' \<noteq> []" "js ''c'' \<noteq> []" "ch CHR ''/'' \<notin> set (js ''c'')" by simp_all
  ultimately have "messenger_view True False (js ''/'' @ directory_name Members_Dir @ js ''/'' @ js ''a'') =
      Some (if Members_Dir = Members_Dir \<and> True then Member_View (js ''a'') else Directory_View Members_Dir (Some (js ''a'')))"
    using paths_show_their_pages [of "js ''a''" "js ''a''" "js ''c''" True "[]" Members_Dir] by blast
  then show ?thesis by (simp only: simp_thms if_True)
qed

end
