(* ===== verification/Shell.thy ===== *)
theory Shell
  imports Prelude
begin

text \<open>
  The outer shell: which screen \<open>App.tsx\<close> shows, from the state of the server and of the session, and the toasts of
  \<open>shell/ToastProvider.tsx\<close>. The calls that are in flight are part of the state; the tokens themselves are those of
  \<open>Session\<close>, here only whether the client has one. Branding and the theme are presentation.

  The lemmas show that the messenger is shown only with a user and a token and that loading ends; that two late
  answers show the wrong screen; and that at most three toasts are shown, each until its time is up.
\<close>

section \<open>Screens\<close>

datatype screen = Loading | Bootstrap | Login | In_Messenger | Invite | Reset_Password

datatype app_call = Status_Call | Refresh_Call

record 'u app =
  ap_screen :: screen
  ap_user :: "'u option"
  ap_token :: bool
  ap_error :: bool
  ap_path :: jstring
  ap_home :: bool
  ap_calls :: "app_call list"

definition chats_home :: jstring where
  "chats_home = js ''/chats''"

text \<open>The first effect. \<open>ap_home\<close> remembers whether the first path was the root.\<close>

definition app_opens :: "jstring \<Rightarrow> 'u app" where
  "app_opens path =
     \<lparr>ap_screen = (if starts_with (js ''/invite/'') path then Invite
                   else if path = js ''/reset-password'' then Reset_Password else Loading),
      ap_user = None, ap_token = False, ap_error = False, ap_path = path, ap_home = (path = js ''/''),
      ap_calls = (if starts_with (js ''/invite/'') path \<or> path = js ''/reset-password'' then [] else [Status_Call])\<rparr>"

text \<open>The answers: \<open>None\<close> is a failure.\<close>

definition status_settles :: "bool option \<Rightarrow> 'u app \<Rightarrow> 'u app" where
  "status_settles r s =
     (let s1 = s\<lparr>ap_calls := remove1 Status_Call (ap_calls s)\<rparr> in
      case r of
        None \<Rightarrow> s1\<lparr>ap_error := True, ap_screen := Login\<rparr>
      | Some False \<Rightarrow> s1\<lparr>ap_screen := Bootstrap\<rparr>
      | Some True \<Rightarrow> s1\<lparr>ap_calls := ap_calls s1 @ [Refresh_Call]\<rparr>)"

definition refresh_settles :: "'u option \<Rightarrow> 'u app \<Rightarrow> 'u app" where
  "refresh_settles r s =
     (let s1 = s\<lparr>ap_calls := remove1 Refresh_Call (ap_calls s)\<rparr> in
      case r of
        None \<Rightarrow> s1\<lparr>ap_screen := Login\<rparr>
      | Some u \<Rightarrow> s1\<lparr>ap_token := True, ap_user := Some u, ap_screen := In_Messenger,
                     ap_path := (if ap_home s then chats_home else ap_path s)\<rparr>)"

text \<open>The messages of the session: of this tab or another.\<close>

definition tokens_received :: "'u \<Rightarrow> 'u app \<Rightarrow> 'u app" where
  "tokens_received u s = s\<lparr>ap_token := True, ap_user := Some u, ap_error := False, ap_screen := In_Messenger\<rparr>"

definition logout_received :: "'u app \<Rightarrow> 'u app" where
  "logout_received s = s\<lparr>ap_token := False, ap_user := None, ap_screen := Login\<rparr>"

definition authenticated :: "'u \<Rightarrow> 'u app \<Rightarrow> 'u app" where
  "authenticated u s =
     (let s1 = tokens_received u s in
      if ap_path s = js ''/'' \<or> starts_with (js ''/invite/'') (ap_path s) then s1\<lparr>ap_path := chats_home\<rparr> else s1)"

definition reset_completed :: "'u app \<Rightarrow> 'u app" where
  "reset_completed s = s\<lparr>ap_error := False, ap_screen := Login, ap_path := js ''/''\<rparr>"

datatype 'u app_event =
    Status_Settles "bool option" | Refresh_Settles "'u option" | Tokens_Received 'u | Logout_Received
  | Authenticated 'u | Reset_Completed | User_Updated 'u | Navigated jstring

text \<open>What is rendered decides which events there are: forms are those of the screen.\<close>

definition shown_screen :: "'u app \<Rightarrow> screen" where
  "shown_screen s =
     (if ap_screen s \<in> {Loading, Bootstrap, Invite, Reset_Password} then ap_screen s
      else if ap_screen s = Login \<or> ap_user s = None then Login else In_Messenger)"

fun app_event_ok :: "'u app \<Rightarrow> 'u app_event \<Rightarrow> bool" where
  "app_event_ok s (Status_Settles _) \<longleftrightarrow> Status_Call \<in> set (ap_calls s)"
| "app_event_ok s (Refresh_Settles _) \<longleftrightarrow> Refresh_Call \<in> set (ap_calls s)"
| "app_event_ok s (Authenticated _) \<longleftrightarrow> shown_screen s \<in> {Bootstrap, Invite, Login}"
| "app_event_ok s Reset_Completed \<longleftrightarrow> shown_screen s = Reset_Password"
| "app_event_ok s (User_Updated _) \<longleftrightarrow> shown_screen s = In_Messenger"
| "app_event_ok s _ \<longleftrightarrow> True"

fun app_step :: "'u app_event \<Rightarrow> 'u app \<Rightarrow> 'u app" where
  "app_step (Status_Settles r) s = status_settles r s"
| "app_step (Refresh_Settles r) s = refresh_settles r s"
| "app_step (Tokens_Received u) s = tokens_received u s"
| "app_step Logout_Received s = logout_received s"
| "app_step (Authenticated u) s = authenticated u s"
| "app_step Reset_Completed s = reset_completed s"
| "app_step (User_Updated u) s = s\<lparr>ap_user := Some u\<rparr>"
| "app_step (Navigated p) s = s\<lparr>ap_path := p\<rparr>"

inductive app_reached :: "'u app \<Rightarrow> bool" where
  app_opened: "app_reached (app_opens path)"
| app_steps: "app_reached s \<Longrightarrow> app_event_ok s ev \<Longrightarrow> app_reached (app_step ev s)"

lemmas app_step_defs =
  status_settles_def refresh_settles_def tokens_received_def logout_received_def authenticated_def reset_completed_def

lemma app_invariant:
  "app_reached s \<Longrightarrow>
     (ap_screen s = In_Messenger \<longrightarrow> ap_user s \<noteq> None) \<and> (ap_user s \<noteq> None \<longrightarrow> ap_token s) \<and>
     (ap_screen s = Loading \<longrightarrow> length (ap_calls s) = 1) \<and> length (ap_calls s) \<le> 1"
proof (induction rule: app_reached.induct)
  case (app_opened path)
  then show ?case by (simp add: app_opens_def)
next
  case (app_steps s ev)
  have calls: "c \<in> set (ap_calls s) \<Longrightarrow> ap_calls s = [c]" for c
    using app_steps.IH by (cases "ap_calls s") auto
  show ?case
  proof (cases ev)
    case (Status_Settles r)
    then have "ap_calls s = [Status_Call]" using calls app_steps.hyps by simp
    then show ?thesis
      using app_steps.IH Status_Settles by (cases r) (auto simp: app_step_defs Let_def split: bool.splits)
  next
    case (Refresh_Settles r)
    then have "ap_calls s = [Refresh_Call]" using calls app_steps.hyps by simp
    then show ?thesis
      using app_steps.IH Refresh_Settles by (cases r) (auto simp: app_step_defs Let_def)
  next
    case (User_Updated u)
    then have "ap_user s \<noteq> None" using app_steps.hyps by (auto simp: shown_screen_def split: if_splits)
    then show ?thesis using app_steps.IH User_Updated by simp
  qed (use app_steps.IH in \<open>auto simp: app_step_defs Let_def\<close>)
qed

text \<open>Whatever order the answers, logins and logouts of all tabs arrive in, the messenger is shown only to a user and with a
  token, nobody stays signed in without one, and while the app shows that it is loading exactly one call is in flight.\<close>

theorem messenger_needs_a_session:
  assumes "app_reached s"
  shows "(shown_screen s = In_Messenger \<longrightarrow> ap_user s \<noteq> None \<and> ap_token s) \<and>
    (ap_user s \<noteq> None \<longrightarrow> ap_token s) \<and>
    (shown_screen s = Loading \<longrightarrow> length (ap_calls s) = 1) \<and>
    (ap_screen s = In_Messenger \<longrightarrow> shown_screen s = In_Messenger)"
  using app_invariant [OF assms] by (auto simp: shown_screen_def split: if_splits)

lemma signed_in_reached:
  "app_reached (refresh_settles (Some u) (status_settles (Some True) (app_opens (js ''/''))))"
proof -
  have "app_reached (app_step (Status_Settles (Some True)) (app_opens (js ''/'')))"
    by (rule app_steps [OF app_opened]) (simp add: app_opens_def starts_with_def)
  from app_steps [OF this, of "Refresh_Settles (Some u)"] show ?thesis
    by (simp add: app_opens_def starts_with_def status_settles_def Let_def)
qed

theorem messenger_needs_a_session_witness:
  "ap_token (refresh_settles (Some (7 :: nat)) (status_settles (Some True) (app_opens (js ''/''))))"
  using messenger_needs_a_session [OF signed_in_reached [of "7 :: nat"]]
  by (simp add: refresh_settles_def Let_def)

text \<open>A refresh whose answer arrives after the logout of another tab signs this tab in again.\<close>

theorem late_refresh_signs_in_again:
  "shown_screen (refresh_settles (Some u) (logout_received (status_settles (Some True) (app_opens (js ''/''))))) = In_Messenger"
  by (simp add: app_step_defs app_opens_def starts_with_def shown_screen_def Let_def)

text \<open>And one that fails after another tab has signed in asks for a login that is not needed: the tab has a user and
  a token.\<close>

theorem late_failure_asks_for_a_login:
  "shown_screen (refresh_settles None (tokens_received u (status_settles (Some True) (app_opens (js ''/''))))) = Login \<and>
   ap_token (refresh_settles None (tokens_received u (status_settles (Some True) (app_opens (js ''/''))))) \<and>
   ap_user (refresh_settles None (tokens_received u (status_settles (Some True) (app_opens (js ''/''))))) = Some u"
  by (simp add: app_step_defs app_opens_def starts_with_def shown_screen_def Let_def)

section \<open>Toasts\<close>

record 'm toasts =
  ts_items :: "(nat \<times> 'm) list"
  ts_counter :: nat
  ts_timers :: "nat list"

definition no_toasts :: "'m toasts" where
  "no_toasts = \<lparr>ts_items = [], ts_counter = 0, ts_timers = []\<rparr>"

definition dismiss_toast :: "nat \<Rightarrow> 'm toasts \<Rightarrow> 'm toasts" where
  "dismiss_toast i s = s\<lparr>ts_items := filter (\<lambda>x. fst x \<noteq> i) (ts_items s)\<rparr>"

text \<open>\<open>[...current.slice(-2), { ...input, id }]\<close>.\<close>

definition toast :: "'m \<Rightarrow> 'm toasts \<Rightarrow> 'm toasts" where
  "toast m s =
     (let i = ts_counter s + 1 in
      s\<lparr>ts_counter := i, ts_items := drop (length (ts_items s) - 2) (ts_items s) @ [(i, m)], ts_timers := ts_timers s @ [i]\<rparr>)"

definition toast_timer :: "nat \<Rightarrow> 'm toasts \<Rightarrow> 'm toasts" where
  "toast_timer i s = (if i \<in> set (ts_timers s) then dismiss_toast i (s\<lparr>ts_timers := remove1 i (ts_timers s)\<rparr>) else s)"

datatype 'm toast_event = Toasted 'm | Toast_Dismissed nat | Toast_Timer nat

fun toast_step :: "'m toast_event \<Rightarrow> 'm toasts \<Rightarrow> 'm toasts" where
  "toast_step (Toasted m) s = toast m s"
| "toast_step (Toast_Dismissed i) s = dismiss_toast i s"
| "toast_step (Toast_Timer i) s = toast_timer i s"

definition toasts_ok :: "'m toasts \<Rightarrow> bool" where
  "toasts_ok s \<longleftrightarrow>
     length (ts_items s) \<le> 3 \<and> sorted_wrt (<) (map fst (ts_items s)) \<and> distinct (ts_timers s) \<and>
     fst ` set (ts_items s) \<subseteq> set (ts_timers s) \<and> (\<forall>i \<in> set (ts_timers s). i \<le> ts_counter s)"

lemma sorted_wrt_sublists: "sorted_wrt R xs \<Longrightarrow> sorted_wrt R (drop n xs)" "sorted_wrt R xs \<Longrightarrow> sorted_wrt R (filter P xs)"
  by (metis append_take_drop_id sorted_wrt_append) (rule sorted_wrt_filter)

lemma toast_ok: "toasts_ok s \<Longrightarrow> toasts_ok (toast m s)"
proof -
  assume ok: "toasts_ok s"
  let ?rest = "drop (length (ts_items s) - 2) (ts_items s)"
  have sub: "set ?rest \<subseteq> set (ts_items s)" by (rule set_drop_subset)
  then have ids: "fst ` set ?rest \<subseteq> set (ts_timers s)" and "\<forall>i \<in> fst ` set ?rest. i < ts_counter s + 1"
    using ok by (fastforce simp: toasts_ok_def)+
  moreover have "sorted_wrt (<) (map fst ?rest)"
    using ok sorted_wrt_sublists(1) [of "(<)" "map fst (ts_items s)"] by (simp add: toasts_ok_def drop_map)
  moreover have "ts_counter s + 1 \<notin> set (ts_timers s)" using ok by (force simp: toasts_ok_def)
  ultimately show ?thesis using ok by (force simp: toasts_ok_def toast_def Let_def sorted_wrt_append)
qed

lemma dismissed_toasts:
  assumes "toasts_ok s"
  shows "length (filter (\<lambda>x. fst x \<noteq> i) (ts_items s)) \<le> 3"
    and "sorted_wrt (<) (map fst (filter (\<lambda>x. fst x \<noteq> i) (ts_items s)))"
    and "fst ` set (filter (\<lambda>x. fst x \<noteq> i) (ts_items s)) \<subseteq> set (ts_timers s) - {i}"
proof -
  show "length (filter (\<lambda>x. fst x \<noteq> i) (ts_items s)) \<le> 3"
    using assms length_filter_le order_trans unfolding toasts_ok_def by blast
  have "map fst (filter (\<lambda>x. fst x \<noteq> i) (ts_items s)) = filter (\<lambda>j. j \<noteq> i) (map fst (ts_items s))"
    by (simp add: filter_map comp_def)
  then show "sorted_wrt (<) (map fst (filter (\<lambda>x. fst x \<noteq> i) (ts_items s)))"
    using assms sorted_wrt_sublists(2) [of "(<)" "map fst (ts_items s)"] by (simp add: toasts_ok_def)
  show "fst ` set (filter (\<lambda>x. fst x \<noteq> i) (ts_items s)) \<subseteq> set (ts_timers s) - {i}"
    using assms by (auto simp: toasts_ok_def)
qed

lemma toast_step_ok: "toasts_ok s \<Longrightarrow> toasts_ok (toast_step ev s)"
proof (cases ev)
  case (Toast_Dismissed i)
  assume ok: "toasts_ok s"
  then show ?thesis
    using Toast_Dismissed dismissed_toasts [OF ok, of i] by (auto simp: toasts_ok_def dismiss_toast_def)
next
  case (Toast_Timer i)
  assume ok: "toasts_ok s"
  then have "distinct (ts_timers s)" by (simp add: toasts_ok_def)
  then have "set (remove1 i (ts_timers s)) = set (ts_timers s) - {i}" "distinct (remove1 i (ts_timers s))" by simp_all
  then show ?thesis
    using ok Toast_Timer dismissed_toasts [OF ok, of i]
    by (simp add: toasts_ok_def dismiss_toast_def toast_timer_def)
qed (simp add: toast_ok)

text \<open>At most three toasts are shown, the newest last, and for each of them a timer runs that takes it away.\<close>

theorem toasts_are_few_and_pass:
  "length (ts_items (fold toast_step evs no_toasts)) \<le> 3 \<and>
   sorted_wrt (<) (map fst (ts_items (fold toast_step evs no_toasts))) \<and>
   fst ` set (ts_items (fold toast_step evs no_toasts)) \<subseteq> set (ts_timers (fold toast_step evs no_toasts)) \<and>
   i \<notin> fst ` set (ts_items (toast_timer i (fold toast_step evs no_toasts)))"
proof -
  have "toasts_ok (fold toast_step evs s)" if "toasts_ok s" for s :: "'a toasts"
    using that by (induction evs arbitrary: s) (simp_all add: toast_step_ok)
  moreover have "toasts_ok (no_toasts :: 'a toasts)" by (simp add: toasts_ok_def no_toasts_def)
  ultimately have "toasts_ok (fold toast_step evs (no_toasts :: 'a toasts))" by blast
  then show ?thesis by (auto simp: toasts_ok_def toast_timer_def dismiss_toast_def)
qed

end
