(* ===== verification/Workspace_Settings.thy ===== *)
theory Workspace_Settings
  imports Autosave
begin

text \<open>
  The pages of the workspace settings, \<open>settings/pages/workspace/shared.ts\<close>: the draft of a page, the request made of it and
  what becomes of the draft when a save returns, around \<open>useAutosave\<close>. The reference is \<open>UpdateSettings\<close> of
  \<open>core/internal/workspace\<close>: it cleans the fields, checks them (\<open>fits\<close>) and refuses a version that is not the current
  one. A page's fingerprint is an argument; like those of the pages it does not see the version.

  A save that returns sets the draft, but React renders the page only afterwards: the hook still sees the
  draft of the last rendering when it looks for edits made meanwhile. The lemmas show that edits made
  between the saves are never refused for their version, and that an edit made during a save always is.
\<close>

record organization =
  os_name :: jstring
  os_slug :: jstring
  os_version :: int
  os_invitation_role :: jstring
  os_ttl_hours :: int
  os_timezone :: jstring
  os_member_invitations :: bool
  os_public_chats :: bool
  os_channels :: bool
  os_accent :: jstring

record organization_update =
  ou_name :: jstring
  ou_slug :: jstring
  ou_expected_version :: int
  ou_invitation_role :: jstring
  ou_ttl_hours :: int
  ou_timezone :: jstring
  ou_member_invitations :: bool
  ou_public_chats :: bool
  ou_channels :: bool
  ou_accent :: jstring

definition organizationUpdate :: "organization \<Rightarrow> organization_update" where
  "organizationUpdate v =
     \<lparr>ou_name = os_name v, ou_slug = os_slug v, ou_expected_version = os_version v,
      ou_invitation_role = os_invitation_role v, ou_ttl_hours = os_ttl_hours v, ou_timezone = os_timezone v,
      ou_member_invitations = os_member_invitations v, ou_public_chats = os_public_chats v, ou_channels = os_channels v,
      ou_accent = os_accent v\<rparr>"

text \<open>\<open>UpdateSettings\<close> of the service and the repository.\<close>

definition update_settings ::
  "(organization_update \<Rightarrow> organization_update) \<Rightarrow> (organization_update \<Rightarrow> bool) \<Rightarrow> organization_update \<Rightarrow> organization \<Rightarrow>
     organization option" where
  "update_settings clean fits input existing =
     (let u = clean input in
      if \<not> fits u \<or> ou_expected_version u \<noteq> os_version existing then None
      else Some
        \<lparr>os_name = ou_name u, os_slug = ou_slug u, os_version = os_version existing + 1,
         os_invitation_role = ou_invitation_role u, os_ttl_hours = ou_ttl_hours u, os_timezone = ou_timezone u,
         os_member_invitations = ou_member_invitations u, os_public_chats = ou_public_chats u,
         os_channels = ou_channels u, os_accent = ou_accent u\<rparr>)"

text \<open>The function \<open>useDraftReconciler\<close> returns.\<close>

definition useDraftReconciler ::
  "(organization \<Rightarrow> jstring) \<Rightarrow> organization \<Rightarrow> organization \<Rightarrow> organization option \<Rightarrow> organization option" where
  "useDraftReconciler fp updated snapshot current =
     (case current of
        Some c \<Rightarrow> if fp c \<noteq> fp snapshot then Some (c\<lparr>os_version := os_version updated\<rparr>) else Some updated
      | None \<Rightarrow> Some updated)"

record organization_page =
  op_data :: "organization option"
  op_draft :: "organization option"
  op_save :: "organization autosave"
  op_server :: organization

definition page_opens :: "organization \<Rightarrow> organization_page" where
  "page_opens server = \<lparr>op_data = None, op_draft = None, op_save = useAutosave, op_server = server\<rparr>"

definition draft_renders :: "(organization \<Rightarrow> jstring) \<Rightarrow> organization option \<Rightarrow> organization_page \<Rightarrow> organization_page" where
  "draft_renders fp d s = s\<lparr>op_draft := d, op_save := render fp d (op_save s)\<rparr>"

text \<open>The settings arrive, first or again. The query keeps the object it has while the data are equal, so the effect
  on \<open>query.data\<close> runs if they are not.\<close>

definition settings_loaded :: "(organization \<Rightarrow> jstring) \<Rightarrow> organization_page \<Rightarrow> organization_page" where
  "settings_loaded fp s =
     (if op_data s = Some (op_server s) then s
      else draft_renders fp (Some (op_server s)) (s\<lparr>op_data := Some (op_server s)\<rparr>))"

definition draft_edited :: "(organization \<Rightarrow> jstring) \<Rightarrow> organization \<Rightarrow> organization_page \<Rightarrow> organization_page" where
  "draft_edited fp d s = draft_renders fp (Some d) s"

definition save_due :: "organization_page \<Rightarrow> organization_page" where
  "save_due s = s\<lparr>op_save := timer_fires (op_save s)\<rparr>"


text \<open>A save settles: first the hook, then the rendering with the new draft.\<close>

definition save_settles ::
  "(organization_update \<Rightarrow> organization_update) \<Rightarrow> (organization_update \<Rightarrow> bool) \<Rightarrow> (organization \<Rightarrow> jstring) \<Rightarrow> organization_page \<Rightarrow>
     organization_page" where
  "save_settles clean fits fp s =
     (case as_inFlight (op_save s) of
        None \<Rightarrow> s
      | Some snapshot \<Rightarrow>
          (case update_settings clean fits (organizationUpdate snapshot) (op_server s) of
             None \<Rightarrow> s\<lparr>op_save := not_persisted (js ''error'') (op_save s)\<rparr>
           | Some updated \<Rightarrow>
               draft_renders fp (useDraftReconciler fp updated snapshot (op_draft s))
                 (s\<lparr>op_save := persisted fp updated (op_save s), op_server := updated\<rparr>)))"














definition sample_settings :: "string \<Rightarrow> int \<Rightarrow> organization" where
  "sample_settings n v =
     \<lparr>os_name = js n, os_slug = js ''coma'', os_version = v, os_invitation_role = js ''member'', os_ttl_hours = 72,
      os_timezone = js ''UTC'', os_member_invitations = False, os_public_chats = True, os_channels = True, os_accent = js ''#174586''\<rparr>"

definition saving_page :: organization_page where
  "saving_page = save_due (draft_edited os_name (sample_settings ''b'' 1) (settings_loaded os_name (page_opens (sample_settings ''a'' 1))))"




text \<open>An edit made while a save is in flight is saved with the version of before that save, which the server refuses. The
  page reports the error until somebody retries: the draft itself has the new version by then.\<close>

theorem edit_during_a_save_is_refused:
  "let s = save_due (save_settles id (\<lambda>_. True) os_name (draft_edited os_name (sample_settings ''c'' 1) saving_page)) in
   as_inFlight (op_save s) = Some (sample_settings ''c'' 1) \<and> op_server s = sample_settings ''b'' 2 \<and>
   op_draft s = Some (sample_settings ''c'' 2) \<and>
   update_settings id (\<lambda>_. True) (organizationUpdate (sample_settings ''c'' 1)) (op_server s) = None"
  by (simp add: saving_page_def save_due_def draft_edited_def settings_loaded_def page_opens_def draft_renders_def render_def
    useAutosave_def run_effect_def cleanup_def timer_fires_def persist_def persisted_def save_settles_def update_settings_def
    organizationUpdate_def useDraftReconciler_def sample_settings_def Let_def)

text \<open>And settings that are fetched again after a save replace what has been edited since: the fetch brings data the
  query did not have, and the draft's timer is cleared.\<close>

theorem fetching_again_discards_an_edit:
  "let s = settings_loaded os_name (draft_edited os_name (sample_settings ''c'' 2) (save_settles id (\<lambda>_. True) os_name saving_page)) in
   op_draft s = Some (sample_settings ''b'' 2) \<and> settled (op_save s) \<and>
   as_log (op_save s) = [SaveCalled (sample_settings ''b'' 1), SaveReturned (sample_settings ''b'' 2)]"
  by (simp add: saving_page_def save_due_def draft_edited_def settings_loaded_def page_opens_def draft_renders_def render_def
    useAutosave_def run_effect_def cleanup_def timer_fires_def persist_def persisted_def save_settles_def update_settings_def
    organizationUpdate_def useDraftReconciler_def sample_settings_def settled_def Let_def)

end
