(* ===== verification/Ui.thy ===== *)
theory Ui
  imports Json
begin

text \<open>
  The shared parts of \<open>ui.tsx\<close> that compute: where a \<open>FloatingPopover\<close> is placed, how a \<open>Dialog\<close> keeps the focus, the initials of
  an \<open>Avatar\<close>, the label of a \<open>Badge\<close> and the meter of a password. Coordinates are those of an ordered ring, so pixels or
  fractions of them; the boxes that are measured are arguments. The markup is presentation.

  The lemmas show that a popover stays on the screen without covering its anchor, and that Tab does not leave a
  dialog, except from the dialog itself.
\<close>

section \<open>Popovers\<close>

record 'a box =
  bx_left :: 'a
  bx_top :: 'a
  bx_width :: 'a
  bx_height :: 'a

record 'a style =
  st_left :: 'a
  st_top :: 'a
  st_width :: 'a
  st_maxHeight :: 'a

datatype placement = Bottom_Start | Bottom_End | Side_Start | Top_Start

definition bx_right :: "'a :: linordered_idom box \<Rightarrow> 'a" where
  "bx_right b = bx_left b + bx_width b"

definition bx_bottom :: "'a :: linordered_idom box \<Rightarrow> 'a" where
  "bx_bottom b = bx_top b + bx_height b"

text \<open>The space on each side of the anchor, in a window of the given size.\<close>

definition available_left :: "'a :: linordered_idom \<Rightarrow> 'a box \<Rightarrow> 'a" where
  "available_left gap anchor = bx_left anchor - gap - 16"

definition available_right :: "'a :: linordered_idom \<Rightarrow> 'a \<Rightarrow> 'a box \<Rightarrow> 'a" where
  "available_right vw gap anchor = vw - bx_right anchor - gap - 16"

definition available_below :: "'a :: linordered_idom \<Rightarrow> 'a \<Rightarrow> 'a box \<Rightarrow> 'a" where
  "available_below vh gap anchor = vh - bx_bottom anchor - gap - 16"

definition available_above :: "'a :: linordered_idom \<Rightarrow> 'a box \<Rightarrow> 'a" where
  "available_above gap anchor = bx_top anchor - gap - 16"

definition side_style :: "'a :: linordered_idom \<Rightarrow> 'a \<Rightarrow> 'a \<Rightarrow> 'a box \<Rightarrow> 'a \<Rightarrow> 'a \<Rightarrow> 'a style" where
  "side_style vw vh gap anchor w h =
     \<lparr>st_left = (if available_left gap anchor \<ge> w then bx_left anchor - gap - w else bx_right anchor + gap),
      st_top = min (max (bx_top anchor) 16) (max 16 (vh - h - 16)), st_width = w, st_maxHeight = vh - 16 * 2\<rparr>"

definition open_above :: "placement \<Rightarrow> 'a :: linordered_idom \<Rightarrow> 'a \<Rightarrow> 'a \<Rightarrow> bool" where
  "open_above p below abv h \<longleftrightarrow>
     (if p = Top_Start then abv \<ge> min h below \<or> abv > below else h > below \<and> abv > below)"

definition stacked_style :: "placement \<Rightarrow> 'a :: linordered_idom \<Rightarrow> 'a \<Rightarrow> 'a \<Rightarrow> 'a box \<Rightarrow> 'a \<Rightarrow> 'a \<Rightarrow> 'a style" where
  "stacked_style p vw vh gap anchor w h =
     (let below = available_below vh gap anchor; abv = available_above gap anchor; up = open_above p below abv h;
          preferred = (if p = Bottom_End then bx_right anchor - w else bx_left anchor)
      in \<lparr>st_left = min (max preferred 16) (max 16 (vw - w - 16)),
          st_top = (if up then max 16 (bx_top anchor - gap - h) else bx_bottom anchor + gap),
          st_width = w, st_maxHeight = max (if up then abv else below) 120\<rparr>)"

definition popover_position :: "placement \<Rightarrow> 'a :: linordered_idom \<Rightarrow> 'a \<Rightarrow> 'a \<Rightarrow> 'a box \<Rightarrow> 'a \<Rightarrow> 'a \<Rightarrow> 'a style" where
  "popover_position p vw vh gap anchor w h =
     (if p = Side_Start \<and> (available_left gap anchor \<ge> w \<or> available_right vw gap anchor \<ge> w)
      then side_style vw vh gap anchor w h else stacked_style p vw vh gap anchor w h)"

text \<open>The height the popover then has.\<close>

definition shown_height :: "'a :: linordered_idom style \<Rightarrow> 'a \<Rightarrow> 'a" where
  "shown_height s h = min h (st_maxHeight s)"

definition on_screen :: "'a :: linordered_idom \<Rightarrow> 'a \<Rightarrow> 'a box \<Rightarrow> bool" where
  "on_screen vw vh b \<longleftrightarrow> 0 \<le> bx_left b \<and> 0 \<le> bx_top b \<and> 0 \<le> bx_width b \<and> 0 \<le> bx_height b \<and> bx_right b \<le> vw \<and> bx_bottom b \<le> vh"

lemma side_on_screen:
  assumes "on_screen vw vh anchor" and "0 \<le> gap" and "0 \<le> w" and "32 \<le> vh" and "0 \<le> h"
    and "available_left gap anchor \<ge> w \<or> available_right vw gap anchor \<ge> w"
  shows "0 \<le> st_left (side_style vw vh gap anchor w h)" and "st_left (side_style vw vh gap anchor w h) + w \<le> vw"
    and "0 \<le> st_top (side_style vw vh gap anchor w h)"
    and "st_top (side_style vw vh gap anchor w h) + shown_height (side_style vw vh gap anchor w h) h \<le> vh"
    and "st_left (side_style vw vh gap anchor w h) + w \<le> bx_left anchor \<or> bx_right anchor \<le> st_left (side_style vw vh gap anchor w h)"
  using assms
  by (auto simp: side_style_def on_screen_def available_left_def available_right_def bx_right_def bx_bottom_def shown_height_def
    min_def max_def)

lemma stacked_left:
  assumes "0 \<le> w" and "w \<le> vw - 32"
  shows "0 \<le> st_left (stacked_style p vw vh gap anchor w h)" and "st_left (stacked_style p vw vh gap anchor w h) + w \<le> vw"
  using assms by (auto simp: stacked_style_def Let_def min_def max_def)

lemma stacked_top:
  assumes "on_screen vw vh anchor" and "0 \<le> gap" and "0 \<le> h"
    and "120 \<le> available_above gap anchor \<or> 120 \<le> available_below vh gap anchor"
  shows "0 \<le> st_top (stacked_style p vw vh gap anchor w h)"
    and "st_top (stacked_style p vw vh gap anchor w h) + shown_height (stacked_style p vw vh gap anchor w h) h \<le> vh"
    and "st_top (stacked_style p vw vh gap anchor w h) + shown_height (stacked_style p vw vh gap anchor w h) h \<le> bx_top anchor \<or>
      bx_bottom anchor \<le> st_top (stacked_style p vw vh gap anchor w h)"
  using assms
  by (auto simp: stacked_style_def on_screen_def available_above_def available_below_def open_above_def bx_right_def bx_bottom_def
    shown_height_def Let_def min_def max_def split: if_splits)

text \<open>C0: A popover that is not wider than the window less its margins lies on the screen and beside its anchor, whatever its
  placement and its height, as long as the anchor is on the screen and has 120 pixels above or below.\<close>

theorem popovers_stay_on_the_screen:
  assumes "on_screen vw vh anchor" and "0 \<le> gap" and "0 \<le> w" and "w \<le> vw - 32" and "0 \<le> h"
    and "120 \<le> available_above gap anchor \<or> 120 \<le> available_below vh gap anchor"
  shows "on_screen vw vh \<lparr>bx_left = st_left (popover_position p vw vh gap anchor w h), bx_top = st_top (popover_position p vw vh gap anchor w h),
      bx_width = w, bx_height = shown_height (popover_position p vw vh gap anchor w h) h\<rparr> \<and>
    (st_top (popover_position p vw vh gap anchor w h) + shown_height (popover_position p vw vh gap anchor w h) h \<le> bx_top anchor \<or>
     bx_bottom anchor \<le> st_top (popover_position p vw vh gap anchor w h) \<or>
     st_left (popover_position p vw vh gap anchor w h) + w \<le> bx_left anchor \<or>
     bx_right anchor \<le> st_left (popover_position p vw vh gap anchor w h))"
proof -
  have vh: "32 \<le> vh"
    using assms by (auto simp: on_screen_def available_above_def available_below_def bx_bottom_def)
  have height: "0 \<le> shown_height (popover_position p vw vh gap anchor w h) h"
    using assms(5) vh by (simp add: shown_height_def popover_position_def side_style_def stacked_style_def Let_def le_max_iff_disj)
  show ?thesis
  proof (cases "p = Side_Start \<and> (available_left gap anchor \<ge> w \<or> available_right vw gap anchor \<ge> w)")
    case True
    then have pos: "popover_position p vw vh gap anchor w h = side_style vw vh gap anchor w h"
      by (simp only: popover_position_def simp_thms if_True)
    have fits: "available_left gap anchor \<ge> w \<or> available_right vw gap anchor \<ge> w" using True by simp
    show ?thesis
      using side_on_screen [OF assms(1-3) vh assms(5) fits] height assms(3)
      unfolding pos by (simp add: on_screen_def bx_right_def bx_bottom_def)
  next
    case False
    have pos: "popover_position p vw vh gap anchor w h = stacked_style p vw vh gap anchor w h"
      by (simp only: popover_position_def False if_False)
    show ?thesis
      using stacked_left [OF assms(3,4), of p vh gap anchor h] stacked_top [OF assms(1,2,5,6), of p w] height assms(3)
      unfolding pos by (auto simp: on_screen_def bx_right_def bx_bottom_def)
  qed
qed

theorem popovers_stay_on_the_screen_witness:
  "on_screen 400 600 \<lparr>bx_left = st_left (popover_position Bottom_End 400 600 8 \<lparr>bx_left = 350, bx_top = 500, bx_width = 40, bx_height = 40\<rparr> 340 320),
     bx_top = st_top (popover_position Bottom_End 400 600 8 \<lparr>bx_left = 350, bx_top = 500, bx_width = 40, bx_height = 40\<rparr> 340 320),
     bx_width = 340, bx_height = shown_height (popover_position Bottom_End 400 600 8 \<lparr>bx_left = 350, bx_top = 500, bx_width = 40, bx_height = 40\<rparr> 340 320) (320 :: int)\<rparr>"
  using popovers_stay_on_the_screen [of 400 600 "\<lparr>bx_left = 350, bx_top = 500, bx_width = 40, bx_height = 40\<rparr>" 8 340 "320 :: int" Bottom_End]
  by (simp add: on_screen_def bx_right_def bx_bottom_def available_above_def)

section \<open>Dialogs\<close>

text \<open>The focus after Tab, in the elements that can have it: \<open>Some\<close> of one of them, or \<open>None\<close> outside. What the browser
  does on its own is to go to the neighbour; the dialog itself, in front of them, is no element.\<close>

datatype focus = On_Dialog | On nat

definition browser_tab :: "bool \<Rightarrow> nat \<Rightarrow> focus \<Rightarrow> nat option" where
  "browser_tab shift n f =
     (case f of
        On i \<Rightarrow> if shift then (if i = 0 then None else Some (i - 1)) else if i + 1 < n then Some (i + 1) else None
      | On_Dialog \<Rightarrow> if shift then None else Some 0)"

definition dialog_tab :: "bool \<Rightarrow> nat \<Rightarrow> focus \<Rightarrow> nat option" where
  "dialog_tab shift n f =
     (if n = 0 then browser_tab shift n f
      else if shift \<and> f = On 0 then Some (n - 1)
      else if \<not> shift \<and> f = On (n - 1) then Some 0
      else browser_tab shift n f)"

theorem tab_stays_in_the_dialog:
  "i < n \<Longrightarrow> \<exists>j < n. dialog_tab shift n (On i) = Some j \<and> dialog_tab (\<not> shift) n (On j) = Some i"
  by (auto simp: dialog_tab_def browser_tab_def split: if_splits)

text \<open>A dialog whose only button closes it has the focus itself: Shift and Tab leaves it.\<close>

theorem shift_tab_leaves_the_dialog: "0 < n \<Longrightarrow> dialog_tab True n On_Dialog = None"
  by (simp add: dialog_tab_def browser_tab_def)

section \<open>Labels\<close>

text \<open>\<open>name.trim().split(/[\s-]+/)\<close>, without the empty words, which the filter drops as well.\<close>

fun words_of :: "jstring \<Rightarrow> jstring \<Rightarrow> jstring list" where
  "words_of w [] = (if w = [] then [] else [w])"
| "words_of w (c # cs) =
     (if is_space c \<or> c = ch CHR ''-'' then (if w = [] then words_of [] cs else w # words_of [] cs)
      else words_of (w @ [c]) cs)"

text \<open>\<open>worded\<close> is the test for a letter or a number, \<open>upper\<close> is \<open>toUpperCase\<close>.\<close>

definition initialsOf :: "(jstring \<Rightarrow> bool) \<Rightarrow> (jstring \<Rightarrow> jstring) \<Rightarrow> jstring \<Rightarrow> jstring" where
  "initialsOf worded upper name =
     (case filter worded (words_of [] (js_trim name)) of
        [] \<Rightarrow> []
      | [w] \<Rightarrow> upper (take 2 w)
      | v # w # _ \<Rightarrow> upper (take 1 v @ take 1 w))"

lemma words_nonempty: "w \<in> set (words_of acc s) \<Longrightarrow> w \<noteq> []"
  by (induction acc s rule: words_of.induct) (auto split: if_splits)

lemma initials_short:
  assumes "\<And>s. length (upper s) = length s"
  shows "length (initialsOf worded upper name) \<le> 2"
  by (auto simp: initialsOf_def assms split: list.split)

lemma initials_shown:
  assumes "\<And>s. length (upper s) = length s"
  shows "initialsOf worded upper name = [] \<longleftrightarrow> (\<forall>w \<in> set (words_of [] (js_trim name)). \<not> worded w)"
proof -
  have "w \<noteq> []" if "w \<in> set (filter worded (words_of [] (js_trim name)))" for w
    using that words_nonempty by auto
  moreover have "upper s = [] \<longleftrightarrow> s = []" for s using assms [of s] by auto
  ultimately show ?thesis
    unfolding initialsOf_def filter_empty_conv [symmetric]
    by (cases "filter worded (words_of [] (js_trim name))") (auto split: list.split)
qed

definition countLabel :: "nat \<Rightarrow> jstring" where
  "countLabel n = (if n > 99 then js ''99+'' else show_nat n)"

definition password_meter :: "nat \<Rightarrow> nat \<Rightarrow> nat \<times> bool" where
  "password_meter minimum typed =
     ((200 * min typed minimum + minimum) div (2 * minimum), minimum \<le> typed)"

lemma full_meter: "0 < minimum \<Longrightarrow> fst (password_meter minimum typed) \<le> 100 \<and> (minimum \<le> typed \<longrightarrow> fst (password_meter minimum typed) = 100)"
proof -
  assume m: "0 < minimum"
  have "(200 * k + minimum) div (2 * minimum) \<le> 100" if "k \<le> minimum" for k
  proof -
    have "200 * k + minimum < 101 * (2 * minimum)" using that m by linarith
    then have "(200 * k + minimum) div (2 * minimum) < 101" by (simp add: less_mult_imp_div_less)
    then show ?thesis by simp
  qed
  moreover have "(200 * minimum + minimum) div (2 * minimum) = 100"
  proof -
    have "200 * minimum + minimum = minimum + 100 * (2 * minimum)" by simp
    then show ?thesis using m by (simp only: div_mult_self1) simp
  qed
  ultimately show ?thesis by (simp add: password_meter_def min_def)
qed

end
