(* ===== verification/Format.thy ===== *)
theory Format
  imports Notifications Timezone
begin

text \<open>
  The texts of \<open>lib/format.ts\<close>, as what they say: the day a time is written for, an age, a size. \<open>zone\<close> is the offset of the
  local time, \<open>now\<close> and the times are milliseconds of valid dates. The writing itself (\<open>Intl\<close>, the translations) is
  left out. \<open>Math.round\<close> rounds halves up, \<open>NumberFormat\<close> away from zero; both are on numbers that are not negative here.

  The lemmas show which day a label can stand for and how far a size is from what it says, and where both are
  misleading.
\<close>

datatype day_label =
    Time_Label int | Yesterday_Label | Today_Label | Weekday_Label int | Date_Label int int | Full_Date_Label int int int

definition local_year :: "(int \<Rightarrow> int) \<Rightarrow> int \<Rightarrow> int" where
  "local_year zone t = fst (civil_from_days (local_day zone t))"

definition date_label :: "(int \<Rightarrow> int) \<Rightarrow> int \<Rightarrow> int \<Rightarrow> day_label" where
  "date_label zone t now =
     (case civil_from_days (local_day zone t) of
        (y, m, d) \<Rightarrow> if y = local_year zone now then Date_Label m d else Full_Date_Label y m d)"

text \<open>\<open>setDate(getDate() - 1)\<close> is the day before.\<close>

definition formatListTime :: "(int \<Rightarrow> int) \<Rightarrow> int \<Rightarrow> int \<Rightarrow> day_label" where
  "formatListTime zone t now =
     (if local_day zone t = local_day zone now then Time_Label t
      else if local_day zone t = local_day zone now - 1 then Yesterday_Label
      else if now - t < 7 * day_ms then Weekday_Label (weekday zone t)
      else date_label zone t now)"

definition formatDaySeparator :: "(int \<Rightarrow> int) \<Rightarrow> int \<Rightarrow> int \<Rightarrow> day_label" where
  "formatDaySeparator zone t now =
     (if local_day zone t = local_day zone now then Today_Label
      else if local_day zone t = local_day zone now - 1 then Yesterday_Label
      else date_label zone t now)"

text \<open>The days a label can stand for, seen from now.\<close>

definition label_days :: "(int \<Rightarrow> int) \<Rightarrow> int \<Rightarrow> day_label \<Rightarrow> int set" where
  "label_days zone now l =
     (let today = local_day zone now in
      case l of
        Time_Label _ \<Rightarrow> {today} | Today_Label \<Rightarrow> {today} | Yesterday_Label \<Rightarrow> {today - 1}
      | Weekday_Label w \<Rightarrow> {d. today - 7 \<le> d \<and> d \<le> today - 2 \<and> (d + 4) mod 7 = w}
      | Date_Label m d \<Rightarrow> {k. civil_from_days k = (local_year zone now, m, d)}
      | Full_Date_Label y m d \<Rightarrow> {k. civil_from_days k = (y, m, d)})"

lemma date_label_days: "local_day zone t \<in> label_days zone now (date_label zone t now)"
  by (cases "civil_from_days (local_day zone t)") (simp add: date_label_def label_days_def local_year_def Let_def)

lemma within_a_week:
  assumes "now - t < 7 * day_ms" and "t \<le> now"
  shows "local_day (\<lambda>_. z) now - 7 \<le> local_day (\<lambda>_. z) t" and "local_day (\<lambda>_. z) t \<le> local_day (\<lambda>_. z) now"
proof -
  have "now + z - 7 * day_ms \<le> t + z" using assms by simp
  then have "(now + z - 7 * day_ms) div day_ms \<le> (t + z) div day_ms" by (rule zdiv_mono1) (simp add: day_ms_def)
  moreover have "(now + z - 7 * day_ms) div day_ms = (now + z) div day_ms - 7" by (simp add: day_ms_def)
  ultimately show "local_day (\<lambda>_. z) now - 7 \<le> local_day (\<lambda>_. z) t" by (simp add: local_day_def)
  show "local_day (\<lambda>_. z) t \<le> local_day (\<lambda>_. z) now"
    unfolding local_day_def using assms(2) by (intro zdiv_mono1) (simp_all add: day_ms_def)
qed

text \<open>A label in a list stands for the day it is of, in a zone without changes and for what is not in the future; a day
  separator does so always.\<close>

theorem labels_stand_for_their_days:
  "(t \<le> now \<longrightarrow> local_day (\<lambda>_. z) t \<in> label_days (\<lambda>_. z) now (formatListTime (\<lambda>_. z) t now)) \<and>
   local_day zone t \<in> label_days zone now (formatDaySeparator zone t now)"
proof (intro conjI impI)
  assume past: "t \<le> now"
  define d n where "d = local_day (\<lambda>_. z) t" and "n = local_day (\<lambda>_. z) now"
  have week: "n - 7 \<le> d \<and> d \<le> n - 2" if "now - t < 7 * day_ms" "d \<noteq> n" "d \<noteq> n - 1"
    using within_a_week [of now t z] past that unfolding d_def n_def by linarith
  show "local_day (\<lambda>_. z) t \<in> label_days (\<lambda>_. z) now (formatListTime (\<lambda>_. z) t now)"
    using week date_label_days [of "\<lambda>_. z" t now]
    unfolding formatListTime_def label_days_def weekday_def Let_def d_def [symmetric] n_def [symmetric]
    by (simp split: if_split)
next
  show "local_day zone t \<in> label_days zone now (formatDaySeparator zone t now)"
    using date_label_days [of zone t now] by (simp add: formatDaySeparator_def label_days_def Let_def split: if_split)
qed

text \<open>The weekday of a message of the same weekday a week ago reads like today's; a day separator has no such label.\<close>

theorem a_week_ago_reads_like_today:
  "formatListTime (\<lambda>_. 0) (5 * 3600000) (7 * day_ms) = Weekday_Label (weekday (\<lambda>_. 0) (7 * day_ms))"
  by (simp add: formatListTime_def local_day_def weekday_def day_ms_def)

section \<open>Ages\<close>

datatype age_label = Just_Now | Minutes_Ago int | Hours_Ago int | On_Day day_label

definition rounded :: "int \<Rightarrow> int \<Rightarrow> int" where
  "rounded n d = (2 * n + d) div (2 * d)"

definition formatAge :: "(int \<Rightarrow> int) \<Rightarrow> int \<Rightarrow> int \<Rightarrow> age_label" where
  "formatAge zone t now =
     (let minutes = max 0 (rounded (now - t) 60000) in
      if minutes < 1 then Just_Now
      else if minutes < 60 then Minutes_Ago minutes
      else if minutes < 24 * 60 \<and> local_day zone t = local_day zone now then Hours_Ago (rounded minutes 60)
      else On_Day (formatListTime zone t now))"

definition minuteGap :: "int \<Rightarrow> int \<Rightarrow> int \<times> int" where
  "minuteGap a b = (b - a, 60000)"

lemma rounded_close:
  assumes "0 < d"
  shows "2 * rounded n d * d \<le> 2 * n + d" and "2 * n - d < 2 * rounded n d * d"
proof -
  have "(2 * n + d) mod (2 * d) < 2 * d" "0 \<le> (2 * n + d) mod (2 * d)" using assms by simp_all
  moreover have "(2 * n + d) div (2 * d) * (2 * d) + (2 * n + d) mod (2 * d) = 2 * n + d" by (rule div_mult_mod_eq)
  ultimately show "2 * rounded n d * d \<le> 2 * n + d" and "2 * n - d < 2 * rounded n d * d"
    by (simp_all add: rounded_def algebra_simps)
qed

theorem ages_are_close:
  "case formatAge zone t now of
     Just_Now \<Rightarrow> now - t < 30000
   | Minutes_Ago m \<Rightarrow> 1 \<le> m \<and> m < 60 \<and> \<bar>now - t - m * 60000\<bar> \<le> 30000
   | Hours_Ago h \<Rightarrow> 1 \<le> h \<and> h \<le> 24 \<and> \<bar>now - t - h * 3600000\<bar> \<le> 1830000 \<and> local_day zone t = local_day zone now
   | On_Day l \<Rightarrow> l = formatListTime zone t now \<and> 59 * 60000 < now - t"
proof -
  define m where "m = rounded (now - t) 60000"
  have m: "2 * m * 60000 \<le> 2 * (now - t) + 60000" "2 * (now - t) - 60000 < 2 * m * 60000"
    using rounded_close [of 60000 "now - t"] by (simp_all add: m_def)
  consider "m < 1" | "1 \<le> m" "m < 60" | "60 \<le> m" "m < 1440" "local_day zone t = local_day zone now"
    | "60 \<le> m" "\<not> (m < 1440 \<and> local_day zone t = local_day zone now)" by linarith
  then show ?thesis
  proof cases
    case 3
    define h where "h = rounded m 60"
    have h: "2 * h * 60 \<le> 2 * m + 60" "2 * m - 60 < 2 * h * 60" using rounded_close [of 60 m] by (simp_all add: h_def)
    have "formatAge zone t now = Hours_Ago h"
      using 3 by (simp add: formatAge_def Let_def h_def flip: m_def)
    then show ?thesis using 3 m h by (simp add: abs_le_iff)
  qed (use m in \<open>auto simp: formatAge_def Let_def abs_le_iff simp flip: m_def\<close>)
qed

section \<open>Sizes\<close>

datatype size_unit = Unit_Bytes | Unit_Kilobytes | Unit_Megabytes | Unit_Gigabytes

definition unit_bytes :: "size_unit \<Rightarrow> int" where
  "unit_bytes u = (case u of Unit_Bytes \<Rightarrow> 1 | Unit_Kilobytes \<Rightarrow> 1000 | Unit_Megabytes \<Rightarrow> 1000000 | Unit_Gigabytes \<Rightarrow> 1000000000)"

text \<open>A number of tenths and its unit.\<close>

definition formatBytes :: "int \<Rightarrow> int \<times> size_unit" where
  "formatBytes n =
     (let u = (if n < 1000 then Unit_Bytes else if n < 1000000 then Unit_Kilobytes
               else if n < 1000000000 then Unit_Megabytes else Unit_Gigabytes)
      in (rounded (10 * n) (unit_bytes u), u))"

theorem sizes_are_close:
  "(let (tenths, u) = formatBytes n in \<bar>10 * n - tenths * unit_bytes u\<bar> * 2 \<le> unit_bytes u)"
proof -
  define u where "u = snd (formatBytes n)"
  have "0 < unit_bytes u" by (cases u) (simp_all add: unit_bytes_def)
  note close = rounded_close [OF this, of "10 * n"]
  have "formatBytes n = (rounded (10 * n) (unit_bytes u), u)" by (simp add: u_def formatBytes_def Let_def)
  moreover have "\<bar>10 * n - rounded (10 * n) (unit_bytes u) * unit_bytes u\<bar> * 2 \<le> unit_bytes u"
    using close by (simp add: abs_if algebra_simps)
  ultimately show ?thesis by simp
qed

text \<open>The unit is chosen before the number is rounded: a file of almost a megabyte has 1000 kilobytes.\<close>

theorem almost_a_megabyte: "formatBytes 999950 = (10000, Unit_Kilobytes)"
  by (simp add: formatBytes_def rounded_def unit_bytes_def)

datatype greeting = Night | Morning | Day | Evening

definition greetingKey :: "nat \<Rightarrow> greeting" where
  "greetingKey hour = (if hour < 5 then Night else if hour < 12 then Morning else if hour < 18 then Day else Evening)"

definition firstName :: "jstring \<Rightarrow> jstring" where
  "firstName name = takeWhile (\<lambda>c. \<not> is_space c) (js_trim name)"

end
