(* ===== verification/Directories.thy ===== *)
theory Directories
  imports Chat_List
begin

text \<open>
  The list of important messages, \<open>directories/ImportantDirectory.tsx\<close>: the pins of all chats with their messages, each once,
  newest pin first, and the chats they are in. What the server answers is an argument: the pins of a chat, and the
  message of a pin, \<open>None\<close> if its context does not have it. A call that fails fails the whole list, which is the error
  the query shows. \<open>localeCompare\<close> is a parameter, as in the list of chats.
\<close>

record pin =
  pn_message :: jstring
  pn_by :: jstring
  pn_at :: jstring

record ('c, 'm) important =
  im_chat :: 'c
  im_id :: jstring
  im_message :: 'm
  im_pin :: pin

text \<open>\<open>pinned\<close> and \<open>resolved\<close>.\<close>

definition pinned_in :: "('c \<Rightarrow> pin list) \<Rightarrow> 'c list \<Rightarrow> ('c \<times> pin) list" where
  "pinned_in pins chats = concat (map (\<lambda>c. map (Pair c) (pins c)) chats)"

definition resolved :: "(jstring \<Rightarrow> 'm option) \<Rightarrow> ('c \<times> pin) list \<Rightarrow> ('c, 'm) important list" where
  "resolved message ps =
     List.map_filter (\<lambda>(c, p). map_option (\<lambda>m. \<lparr>im_chat = c, im_id = pn_message p, im_message = m, im_pin = p\<rparr>) (message (pn_message p))) ps"

fun unseen :: "jstring list \<Rightarrow> ('c, 'm) important list \<Rightarrow> ('c, 'm) important list" where
  "unseen seen [] = []"
| "unseen seen (x # xs) = (if im_id x \<in> set seen then unseen seen xs else x # unseen (im_id x # seen) xs)"

definition important_items ::
  "(jstring \<Rightarrow> jstring \<Rightarrow> int) \<Rightarrow> (jstring \<Rightarrow> 'm option) \<Rightarrow> ('c \<Rightarrow> pin list) \<Rightarrow> 'c list \<Rightarrow> ('c, 'm) important list" where
  "important_items cmp message pins chats =
     sort_by (\<lambda>x y. cmp (pn_at (im_pin y)) (pn_at (im_pin x))) (unseen [] (resolved message (pinned_in pins chats)))"

text \<open>\<open>chatsWithPins\<close>: a map by chat id in the order of the items, sorted by the counts.\<close>

fun count_chat :: "'c \<Rightarrow> ('c \<times> nat) list \<Rightarrow> ('c \<times> nat) list" where
  "count_chat c [] = [(c, 1)]"
| "count_chat c ((d, n) # cs) = (if d = c then (d, n + 1) # cs else (d, n) # count_chat c cs)"

definition chatsWithPins :: "('c, 'm) important list \<Rightarrow> ('c \<times> nat) list" where
  "chatsWithPins items = sort_by (\<lambda>a b. int (snd b) - int (snd a)) (foldl (\<lambda>cs x. count_chat (im_chat x) cs) [] items)"

definition visible_items :: "'c option \<Rightarrow> ('c, 'm) important list \<Rightarrow> ('c, 'm) important list" where
  "visible_items chosen items = (case chosen of Some c \<Rightarrow> filter (\<lambda>x. im_chat x = c) items | None \<Rightarrow> items)"

definition shown_chips :: "bool \<Rightarrow> ('c \<times> nat) list \<Rightarrow> ('c \<times> nat) list" where
  "shown_chips all_chips cs = (if all_chips then cs else take 3 cs)"

lemma unseen_ids: "distinct (map im_id (unseen seen xs)) \<and> im_id ` set (unseen seen xs) = im_id ` set xs - set seen"
  by (induction seen xs rule: unseen.induct) auto

lemma unseen_from: "set (unseen seen xs) \<subseteq> set xs"
  by (induction seen xs rule: unseen.induct) auto

lemma sort_by_set: "set (sort_by cmp xs) = set xs"
  using mset_sort_by [of cmp xs] mset_eq_setD by blast

lemma sort_by_distinct: "distinct (map f (sort_by cmp xs)) = distinct (map f xs)"
proof (rule mset_eq_imp_distinct_iff)
  show "mset (map f (sort_by cmp xs)) = mset (map f xs)" by (simp only: mset_map mset_sort_by)
qed

lemma resolved_ids:
  "im_id ` set (resolved message (pinned_in pins chats)) =
     {pn_message p | c p. c \<in> set chats \<and> p \<in> set (pins c) \<and> message (pn_message p) \<noteq> None}"
proof -
  have "im_id ` set (resolved message ps) = (pn_message \<circ> snd) ` {x \<in> set ps. message (pn_message (snd x)) \<noteq> None}" for ps :: "('a \<times> pin) list"
  proof (induction ps)
    case (Cons x ps)
    obtain c p where x: "x = (c, p)" by (cases x)
    have "{y \<in> set (x # ps). message (pn_message (snd y)) \<noteq> None} =
        (if message (pn_message p) = None then {} else {x}) \<union> {y \<in> set ps. message (pn_message (snd y)) \<noteq> None}"
      by (auto simp: x)
    then show ?case
      using Cons by (cases "message (pn_message p)") (simp_all add: resolved_def List.map_filter_def x image_Un)
  qed (simp add: resolved_def List.map_filter_def)
  moreover have "set (pinned_in pins chats) = {(c, p). c \<in> set chats \<and> p \<in> set (pins c)}" by (auto simp: pinned_in_def)
  ultimately have "im_id ` set (resolved message (pinned_in pins chats)) =
      (pn_message \<circ> snd) ` {x. fst x \<in> set chats \<and> snd x \<in> set (pins (fst x)) \<and> message (pn_message (snd x)) \<noteq> None}"
    by (simp add: case_prod_beta conj_assoc)
  also have "\<dots> = {pn_message p | c p. c \<in> set chats \<and> p \<in> set (pins c) \<and> message (pn_message p) \<noteq> None}"
  proof (intro equalityI subsetI)
    fix i
    assume "i \<in> {pn_message p | c p. c \<in> set chats \<and> p \<in> set (pins c) \<and> message (pn_message p) \<noteq> None}"
    then obtain c p where cp: "i = pn_message p" "c \<in> set chats" "p \<in> set (pins c)" "message (pn_message p) \<noteq> None" by blast
    show "i \<in> (pn_message \<circ> snd) ` {x. fst x \<in> set chats \<and> snd x \<in> set (pins (fst x)) \<and> message (pn_message (snd x)) \<noteq> None}"
      by (rule image_eqI [of _ _ "(c, p)"]) (use cp in simp_all)
  next
    fix i
    assume "i \<in> (pn_message \<circ> snd) ` {x. fst x \<in> set chats \<and> snd x \<in> set (pins (fst x)) \<and> message (pn_message (snd x)) \<noteq> None}"
    then obtain x where "i = pn_message (snd x)" "fst x \<in> set chats" "snd x \<in> set (pins (fst x))" "message (pn_message (snd x)) \<noteq> None" by auto
    then show "i \<in> {pn_message p | c p. c \<in> set chats \<and> p \<in> set (pins c) \<and> message (pn_message p) \<noteq> None}" by blast
  qed
  finally show ?thesis .
qed

text \<open>The list has each message that is pinned somewhere and can be found, and nothing else, exactly once, and in the order of
  the pins, the newest first.\<close>

theorem important_messages_are_listed_once:
  assumes "total_comparison cmp"
  shows "distinct (map im_id (important_items cmp message pins chats)) \<and>
    im_id ` set (important_items cmp message pins chats) =
      {pn_message p | c p. c \<in> set chats \<and> p \<in> set (pins c) \<and> message (pn_message p) \<noteq> None} \<and>
    sorted_wrt (\<lambda>x y. cmp (pn_at (im_pin y)) (pn_at (im_pin x)) \<le> 0) (important_items cmp message pins chats)"
proof -
  have "total_comparison (\<lambda>x y. cmp (pn_at (im_pin y)) (pn_at (im_pin x)))"
    using assms unfolding total_comparison_def by blast
  from sorted_sort_by [OF this] show ?thesis
    using unseen_ids [of "[]" "resolved message (pinned_in pins chats)"] resolved_ids [of message pins chats]
    by (simp add: important_items_def sort_by_set sort_by_distinct)
qed

lemma count_chat_sum: "sum_list (map snd (count_chat c cs)) = sum_list (map snd cs) + 1"
  by (induction c cs rule: count_chat.induct) auto

lemma count_chat_distinct:
  "distinct (map fst cs) \<Longrightarrow> distinct (map fst (count_chat c cs)) \<and> fst ` set (count_chat c cs) = insert c (fst ` set cs)"
  by (induction c cs rule: count_chat.induct) auto

text \<open>Every chat with an item has one entry, the fullest first, and the counts add up.\<close>

theorem pins_are_counted_by_chat:
  "distinct (map fst (chatsWithPins items)) \<and> fst ` set (chatsWithPins items) = im_chat ` set items \<and>
   sum_list (map snd (chatsWithPins items)) = length items \<and>
   sorted_wrt (\<lambda>a b. snd b \<le> snd a) (chatsWithPins items)"
proof -
  let ?cs = "foldl (\<lambda>cs x. count_chat (im_chat x) cs) [] items"
  have cs: "distinct (map fst ?cs) \<and> fst ` set ?cs = im_chat ` set items \<and> sum_list (map snd ?cs) = length items"
  proof (induction items rule: rev_induct)
    case (snoc x xs)
    then show ?case
      using count_chat_distinct [of "foldl (\<lambda>cs x. count_chat (im_chat x) cs) [] xs" "im_chat x"] by (simp add: count_chat_sum)
  qed simp
  have "total_comparison (\<lambda>a b :: 'a \<times> nat. int (snd b) - int (snd a))" by (auto simp: total_comparison_def)
  from sorted_sort_by [OF this] have "sorted_wrt (\<lambda>a b. snd b \<le> snd a) (chatsWithPins items)"
    unfolding chatsWithPins_def by (rule sorted_wrt_mono_rel [rotated]) simp
  moreover have "sum_list (map snd (chatsWithPins items)) = sum_list (map snd ?cs)"
  proof -
    have "mset (map snd (chatsWithPins items)) = mset (map snd ?cs)" by (simp add: chatsWithPins_def mset_sort_by)
    from arg_cong [OF this, of sum_mset] show ?thesis by (simp only: sum_mset_sum_list)
  qed
  ultimately show ?thesis using cs by (simp add: chatsWithPins_def sort_by_set sort_by_distinct)
qed

end
