(* ===== verification/Settings_Forms.thy ===== *)
theory Settings_Forms
  imports Clock
begin

text \<open>
  Forms of the settings that save on request: the infrastructure (\<open>InfrastructureSettingsPage.tsx\<close>), the sessions of an account
  (\<open>SecuritySettingsPages.tsx\<close>) and the sandbox of an agent, which follows a run (\<open>AgentSandbox\<close> of
  \<open>AgentSettingsPage.tsx\<close>). The server's answers are arguments, \<open>None\<close> is a failure. Fields, texts and the other tabs are
  presentation.
\<close>

section \<open>Infrastructure\<close>

record infrastructure =
  in_version :: int
  in_s3_endpoint :: jstring
  in_s3_region :: jstring
  in_s3_bucket :: jstring
  in_s3_prefix :: jstring
  in_s3_path_style :: bool
  in_s3_configured :: bool
  in_smtp_host :: jstring
  in_smtp_port :: int
  in_smtp_username :: jstring
  in_smtp_from_address :: jstring
  in_smtp_from_name :: jstring
  in_smtp_security :: jstring
  in_smtp_configured :: bool

definition normalizeInfrastructure :: "infrastructure \<Rightarrow> infrastructure" where
  "normalizeInfrastructure v =
     v\<lparr>in_smtp_security := (if in_smtp_security v = [] then js ''starttls'' else in_smtp_security v),
       in_smtp_port := (if in_smtp_port v = 0 then 587 else in_smtp_port v)\<rparr>"

text \<open>What \<open>infrastructureFingerprint\<close> serialises: everything but the version and whether credentials are stored.\<close>

definition infrastructureFingerprint :: "infrastructure \<Rightarrow> infrastructure" where
  "infrastructureFingerprint v = v\<lparr>in_version := 0, in_s3_configured := False, in_smtp_configured := False\<rparr>"

record secrets =
  sc_access_key :: jstring
  sc_secret_key :: jstring
  sc_smtp_password :: jstring

definition no_secrets :: secrets where
  "no_secrets = \<lparr>sc_access_key = [], sc_secret_key = [], sc_smtp_password = []\<rparr>"

record infrastructure_page =
  ip_data :: "infrastructure option"
  ip_value :: "infrastructure option"
  ip_baseline :: "infrastructure option"
  ip_secrets :: secrets
  ip_error :: bool

text \<open>The request of \<open>save\<close>: the value, and for each secret \<open>None\<close> unless it was typed.\<close>

record infrastructure_request =
  ir_value :: infrastructure
  ir_access_key :: "jstring option"
  ir_secret_key :: "jstring option"
  ir_smtp_password :: "jstring option"

definition typed_secret :: "jstring \<Rightarrow> jstring option" where
  "typed_secret s = (if s = [] then None else Some s)"

definition dirty :: "infrastructure_page \<Rightarrow> bool" where
  "dirty s \<longleftrightarrow>
     (case (ip_value s, ip_baseline s) of
        (Some v, Some b) \<Rightarrow> infrastructureFingerprint v \<noteq> infrastructureFingerprint b \<or> ip_secrets s \<noteq> no_secrets
      | _ \<Rightarrow> False)"

definition infrastructure_opens :: infrastructure_page where
  "infrastructure_opens = \<lparr>ip_data = None, ip_value = None, ip_baseline = None, ip_secrets = no_secrets, ip_error = False\<rparr>"

definition infrastructure_fetched :: "infrastructure \<Rightarrow> infrastructure_page \<Rightarrow> infrastructure_page" where
  "infrastructure_fetched v s =
     (if ip_data s = Some v then s
      else s\<lparr>ip_data := Some v, ip_value := Some (normalizeInfrastructure v), ip_baseline := Some (normalizeInfrastructure v)\<rparr>)"

definition infrastructure_edited :: "infrastructure \<Rightarrow> infrastructure_page \<Rightarrow> infrastructure_page" where
  "infrastructure_edited v s = s\<lparr>ip_value := Some v\<rparr>"

definition secrets_typed :: "secrets \<Rightarrow> infrastructure_page \<Rightarrow> infrastructure_page" where
  "secrets_typed k s = s\<lparr>ip_secrets := k\<rparr>"

definition infrastructure_save :: "infrastructure_page \<Rightarrow> infrastructure_request option" where
  "infrastructure_save s =
     (case ip_value s of
        Some v \<Rightarrow>
          if dirty s
          then Some \<lparr>ir_value = v, ir_access_key = typed_secret (sc_access_key (ip_secrets s)),
                 ir_secret_key = typed_secret (sc_secret_key (ip_secrets s)),
                 ir_smtp_password = typed_secret (sc_smtp_password (ip_secrets s))\<rparr>
          else None
      | None \<Rightarrow> None)"

definition infrastructure_saved :: "infrastructure option \<Rightarrow> infrastructure_page \<Rightarrow> infrastructure_page" where
  "infrastructure_saved answer s =
     (case answer of
        Some v \<Rightarrow> s\<lparr>ip_value := Some (normalizeInfrastructure v), ip_baseline := Some (normalizeInfrastructure v),
                     ip_secrets := no_secrets, ip_error := False\<rparr>
      | None \<Rightarrow> s\<lparr>ip_error := True\<rparr>)"

text \<open>Only what has changed is saved, a secret only if it was typed; once saved, the page is clean and forgets the secrets,
  and after a failure everything is still there to be saved again.\<close>

theorem infrastructure_saves_what_changed:
  "(infrastructure_save s = None \<longleftrightarrow> \<not> dirty s) \<and>
   (\<forall>r. infrastructure_save s = Some r \<longrightarrow> ip_value s = Some (ir_value r) \<and>
      (ir_access_key r = None \<longleftrightarrow> sc_access_key (ip_secrets s) = []) \<and>
      (ir_secret_key r = None \<longleftrightarrow> sc_secret_key (ip_secrets s) = []) \<and>
      (ir_smtp_password r = None \<longleftrightarrow> sc_smtp_password (ip_secrets s) = [])) \<and>
   \<not> dirty (infrastructure_saved (Some v) s) \<and> infrastructure_save (infrastructure_saved None s) = infrastructure_save s"
  by (auto simp: infrastructure_save_def infrastructure_saved_def dirty_def typed_secret_def split: option.splits if_splits)

text \<open>Settings that are fetched after a save are not the ones the query has: they replace what was edited since.\<close>

theorem infrastructure_fetch_discards_edits:
  assumes "ip_data s = Some old" and "saved \<noteq> old"
  shows "ip_value (infrastructure_fetched saved (infrastructure_edited v (infrastructure_saved (Some saved) s))) =
    Some (normalizeInfrastructure saved)"
  using assms by (simp add: infrastructure_fetched_def infrastructure_edited_def infrastructure_saved_def)

section \<open>Sessions\<close>

record account_session =
  as_id :: jstring
  as_current :: bool
  as_revoked_at :: "jstring field"
  as_expires_at :: jstring

definition activeSessions :: "int \<Rightarrow> jstring list \<Rightarrow> account_session list \<Rightarrow> account_session list" where
  "activeSessions now revoked xs =
     filter (\<lambda>x. \<not> truthy (as_revoked_at x) \<and> as_id x \<notin> set revoked \<and> date_before (Some now) (date_parse (as_expires_at x))) xs"

definition revoke_session :: "jstring \<Rightarrow> jstring list \<Rightarrow> jstring list" where
  "revoke_session i revoked = (if i \<in> set revoked then revoked else revoked @ [i])"

definition revoke_others :: "account_session list \<Rightarrow> jstring list \<Rightarrow> jstring list" where
  "revoke_others xs revoked = fold revoke_session (map as_id (filter (\<lambda>x. \<not> as_current x) xs)) revoked"

lemma fold_revoke_sessions: "set (fold revoke_session is revoked) = set is \<union> set revoked"
  by (induction "is" arbitrary: revoked) (auto simp: revoke_session_def)

text \<open>A session that was revoked is not shown again, whatever list the server still answers with; after revoking the others
  only the current one is left of those that were known.\<close>

theorem revoked_sessions_are_hidden:
  "i \<notin> as_id ` set (activeSessions now (revoke_session i revoked) later) \<and>
   (\<forall>x \<in> set (activeSessions now (revoke_others xs revoked) xs). as_current x)"
  by (auto simp: activeSessions_def revoke_session_def revoke_others_def fold_revoke_sessions)

section \<open>The sandbox\<close>

record sandbox_run =
  sr_id :: jstring
  sr_status :: jstring

definition still_running :: "sandbox_run \<Rightarrow> bool" where
  "still_running r \<longleftrightarrow> sr_status r = js ''queued'' \<or> sr_status r = js ''running''"

text \<open>The loop of \<open>invoke\<close> from an attempt on: the run that is shown in the end, and whether a call failed. \<open>answer\<close> is what
  \<open>agentRun\<close> returns after that many seconds.\<close>

function follow_run :: "(nat \<Rightarrow> sandbox_run option) \<Rightarrow> nat \<Rightarrow> sandbox_run \<Rightarrow> sandbox_run \<times> bool" where
  "follow_run answer attempt run =
     (if attempt < 60 then
        (case answer attempt of
           None \<Rightarrow> (run, True)
         | Some current \<Rightarrow> if still_running current then follow_run answer (attempt + 1) current else (current, False))
      else (run, False))"
  by pat_completeness auto
termination
  by (relation "measure (\<lambda>(_, attempt, _). 60 - attempt)") auto

declare follow_run.simps [simp del]

lemma follow_run_finished:
  assumes "answer n = Some r" and "\<not> still_running r" and "n < 60"
    and "\<forall>k < n. \<exists>q. answer k = Some q \<and> still_running q" and "attempt \<le> n"
  shows "follow_run answer attempt run = (r, False)"
  using assms
proof (induction answer attempt run rule: follow_run.induct)
  case (1 answer attempt run)
  show ?case
  proof (cases "attempt = n")
    case True
    then show ?thesis using "1.prems" by (simp add: follow_run.simps)
  next
    case False
    have less: "attempt < n" using False "1.prems"(5) by simp
    then have range: "attempt < 60" "attempt + 1 \<le> n" using "1.prems"(3) by simp_all
    obtain q where q: "answer attempt = Some q" "still_running q" using "1.prems"(4) less by blast
    have "follow_run answer (attempt + 1) q = (r, False)"
      by (rule "1.IH" [OF range(1) q "1.prems"(1-4) range(2)])
    then show ?thesis
      by (subst follow_run.simps) (simp add: range(1) q)
  qed
qed

text \<open>The sandbox shows how a run ends that ends within a minute.\<close>

theorem sandbox_shows_the_end:
  assumes "answer n = Some r" and "\<not> still_running r" and "n < 60"
    and "\<forall>k < n. \<exists>q. answer k = Some q \<and> still_running q"
  shows "follow_run answer 0 run = (r, False)"
  using follow_run_finished [OF assms] by simp

lemma follow_run_running:
  assumes "\<forall>k < 60. \<exists>q. answer k = Some q \<and> still_running q" and "still_running run"
  shows "\<not> snd (follow_run answer attempt run) \<and> still_running (fst (follow_run answer attempt run))"
  using assms
proof (induction answer attempt run rule: follow_run.induct)
  case (1 answer attempt run)
  show ?case
  proof (cases "attempt < 60")
    case True
    then obtain q where q: "answer attempt = Some q" "still_running q" using "1.prems"(1) by blast
    then show ?thesis
      using "1.IH" [OF True q "1.prems"(1) q(2)] True by (subst (1 2) follow_run.simps) simp
  next
    case False
    then show ?thesis using "1.prems"(2) by (subst (1 2) follow_run.simps) simp
  qed
qed

text \<open>A run that takes longer, as its timeout of ten minutes lets it, is shown as running for ever, without an error.\<close>

theorem longer_runs_never_end:
  assumes "\<forall>k < 60. \<exists>q. answer k = Some q \<and> still_running q" and "still_running run"
  shows "still_running (fst (follow_run answer 0 run)) \<and> \<not> snd (follow_run answer 0 run)"
  using follow_run_running [OF assms] by blast

end
