(* ===== verification/Spec2Isabelle.thy ===== *)
theory Spec2Isabelle
  imports Store Links Mentions Outbox Api_Paths Api_Client Realtime
    Runtime_Props Providers Mcp Connection Shown_Text Markup Session Sdk_Worker
    Autosave Uploads Messenger_Session Drafts Attachments Message_Feed Timezone Sdk_Admin Access Agent_Wizard Composer Avatars Search Chat_List Message_Row Threads Conversation Routes Shell Workspace_Settings Ui Format Directories Settings_Forms
begin

text \<open>
  ComaMessenger's TypeScript: a verification development of the client engine, the agent runtime and
  the SDK.
\<close>

section \<open>From the model to the reader\<close>

text \<open>C20: What an agent publishes is what its readers have seen being written: if the providers keep their
  contract, then whenever a run in a chat publishes a message, a client that has received the run's
  stream frames up to then, with stale or repeated ones mixed in, shows exactly the published body.\<close>

theorem published_message_was_shown:
  assumes "provider_like e" and "in_chat r"
    and "final_log e r = prior @ Publish body # suffix"
    and "accepted None ds = client_frames proto prior"
    and "\<forall>f \<in> set ds. live_frame now sid f" and "streams sid = None"
  shows "map_option ms_body (fold (stream_update now) ds streams sid) = Some body"
proof -
  have "published_ok [] (prior @ Publish body # suffix)"
    using execute_published [OF assms(1,2)] by (simp only: assms(3))
  then have body: "text_shown [] prior = body" "body \<noteq> []" by auto
  then have "client_frames proto prior \<noteq> []"
    using stream_text_client_frames [of "[]" proto prior] by auto
  then obtain g gs where g: "accepted None ds = g # gs"
    using assms(4) by (cases "client_frames proto prior") auto
  have "fold (stream_update now) ds streams sid =
      Some (stream_of_frame (last (g # gs)) (stream_text [] (g # gs)))"
    using g by (simp add: fold_stream_update [OF assms(5)] assms(6) fold_extend_stream_None)
  moreover have "stream_text [] (g # gs) = body"
    using stream_text_client_frames [of "[]" proto prior] assms(4) g body by simp
  ultimately show ?thesis by simp
qed

theorem published_message_was_shown_witness:
  "map_option ms_body (fold (stream_update 0)
     [hello_frame 1 [] True, hello_frame 2 (js ''H'') False, hello_frame 1 [] True,
      hello_frame 3 (js ''i'') False] Map.empty (js ''s'')) = Some (js ''Hi'')"
proof -
  obtain prior suffix where log: "final_log hello_env hello_run = prior @ Publish (js ''Hi'') # suffix"
    and frames: "client_frames (hello_frame 0 [] False) prior =
      [hello_frame 1 [] True, hello_frame 2 (js ''H'') False, hello_frame 3 (js ''i'') False]"
    using hello_log by blast
  have chat: "in_chat hello_run" by (simp add: in_chat_def hello_run_def)
  have "expired 0 [] = False" by code_simp
  then have live: "live_frame 0 (js ''s'') (hello_frame i d b)" for i d b
    by (simp add: live_frame_def hello_frame_def)
  show ?thesis
    by (rule published_message_was_shown [OF hello_like chat log, where proto = "hello_frame 0 [] False"])
      (simp_all add: frames live [simplified], simp_all add: hello_frame_def)
qed

end
